(* ===== verification/Prelude.thy ===== *)
theory Prelude
  imports Main "HOL-Library.Word" "HOL-Library.Monad_Syntax"
begin

unbundle bit_operations_syntax

text \<open>
  Shared vocabulary of the development.  C types of fixed width are words; C \<open>int\<close> values,
  which never leave the 32-bit range in the code modelled here, are \<^typ>\<open>int\<close>.  An array
  that C code indexes is a list, and every access goes through \<open>rd\<close>, \<open>wr\<close> or \<open>wrs\<close>, whose
  result is \<^term>\<open>None\<close> when the access is outside the array: \<^term>\<open>None\<close> is undefined
  behaviour of the C program, so a theorem that an operation returns \<^term>\<open>Some\<close> is a memory
  safety theorem.  Programs are written in the do-notation of the option type.
\<close>

type_synonym u8 = "8 word"
type_synonym u16 = "16 word"
type_synonym u32 = "32 word"

named_theorems mem_simps \<open>facts about array accesses\<close>
named_theorems byte_simps \<open>facts about splitting and joining bytes\<close>

section \<open>Array accesses\<close>

definition rd :: "'a list \<Rightarrow> int \<Rightarrow> 'a option" where
  "rd xs i = (if 0 \<le> i \<and> i < int (length xs) then Some (xs ! nat i) else None)"

definition wr :: "'a list \<Rightarrow> int \<Rightarrow> 'a \<Rightarrow> 'a list option" where
  "wr xs i v = (if 0 \<le> i \<and> i < int (length xs) then Some (xs[nat i := v]) else None)"

text \<open>\<open>wrs xs i vs\<close> stores the elements of \<open>vs\<close> at \<open>i, i+1, ...\<close>: a \<open>memcpy\<close> into \<open>xs\<close>, or a
  run of stores \<open>xs[i++] = v\<close>.\<close>

definition wrs :: "'a list \<Rightarrow> int \<Rightarrow> 'a list \<Rightarrow> 'a list option" where
  "wrs xs i vs =
     (if 0 \<le> i \<and> i + int (length vs) \<le> int (length xs)
      then Some (take (nat i) xs @ vs @ drop (nat i + length vs) xs) else None)"

text \<open>\<open>rds xs i n\<close> reads \<open>n\<close> elements from \<open>i\<close> on: the source side of a \<open>memcpy\<close>.\<close>

definition rds :: "'a list \<Rightarrow> int \<Rightarrow> int \<Rightarrow> 'a list option" where
  "rds xs i n =
     (if 0 \<le> i \<and> 0 \<le> n \<and> i + n \<le> int (length xs) then Some (take (nat n) (drop (nat i) xs))
      else None)"

lemma rd_in [mem_simps]: "0 \<le> i \<Longrightarrow> i < int (length xs) \<Longrightarrow> rd xs i = Some (xs ! nat i)"
  by (simp add: rd_def)

lemma rd_int [mem_simps]: "k < length xs \<Longrightarrow> rd xs (int k) = Some (xs ! k)"
  by (simp add: rd_def)

lemma rd_0 [mem_simps]: "0 < length xs \<Longrightarrow> rd xs 0 = Some (xs ! 0)"
  by (simp add: rd_def)

lemma wr_in [mem_simps]: "0 \<le> i \<Longrightarrow> i < int (length xs) \<Longrightarrow> wr xs i v = Some (xs[nat i := v])"
  by (simp add: wr_def)

lemma wrs_in [mem_simps]:
  "0 \<le> i \<Longrightarrow> i + int (length vs) \<le> int (length xs)
    \<Longrightarrow> wrs xs i vs = Some (take (nat i) xs @ vs @ drop (nat i + length vs) xs)"
  by (simp add: wrs_def)

lemma wrs_0 [mem_simps]:
  "length vs \<le> length xs \<Longrightarrow> wrs xs 0 vs = Some (vs @ drop (length vs) xs)"
  by (simp add: wrs_def)

lemma rds_in [mem_simps]:
  "0 \<le> i \<Longrightarrow> 0 \<le> n \<Longrightarrow> i + n \<le> int (length xs)
    \<Longrightarrow> rds xs i n = Some (take (nat n) (drop (nat i) xs))"
  by (simp add: rds_def)

lemma wr_length: "wr xs i v = Some ys \<Longrightarrow> length ys = length xs"
  by (auto simp: wr_def split: if_splits)

lemma wrs_length: "wrs xs i vs = Some ys \<Longrightarrow> length ys = length xs"
  by (auto simp: wrs_def split: if_splits)

lemma wrs_append:
  "wrs xs i us \<bind> (\<lambda>ys. wrs ys (i + int (length us)) vs) = wrs xs i (us @ vs)"
proof (cases "0 \<le> i \<and> i + int (length us) \<le> int (length xs)")
  case True
  then obtain k where k: "i = int k" by (metis nonneg_eq_int)
  with True have "k + length us \<le> length xs" by linarith
  moreover from this have "min (length xs) k = k" by simp
  ultimately show ?thesis using k by (auto simp: wrs_def nat_int_add add_ac)
next
  case False
  then show ?thesis by (auto simp: wrs_def)
qed

lemma wrs_after_prefix [mem_simps]:
  "length vs \<le> length zs
    \<Longrightarrow> wrs (us @ zs) (int (length us)) vs = Some (us @ vs @ drop (length vs) zs)"
  by (simp add: wrs_def)

section \<open>Counting loops\<close>

text \<open>\<open>for_up i n body s\<close> is \<open>for (k = i; k < i + n; k++) s = body(k, s)\<close>.\<close>

fun for_up :: "nat \<Rightarrow> nat \<Rightarrow> (nat \<Rightarrow> 's \<Rightarrow> 's option) \<Rightarrow> 's \<Rightarrow> 's option" where
  "for_up i 0 body s = Some s"
| "for_up i (Suc n) body s = body i s \<bind> for_up (Suc i) n body"

lemma for_up_Suc_right: "for_up i (Suc n) body s = for_up i n body s \<bind> body (i + n)"
proof (induction n arbitrary: i s)
  case (Suc n)
  have "for_up i (Suc (Suc n)) body s = body i s \<bind> for_up (Suc i) (Suc n) body" by simp
  also have "\<dots> = body i s \<bind> (\<lambda>s. for_up (Suc i) n body s \<bind> body (Suc i + n))"
    using Suc.IH [of "Suc i"] by presburger
  finally show ?case by (simp add: Option.bind_assoc)
next
  case (0 i s)
  then show ?case by (cases "body i s") simp_all
qed

lemma for_up_cong:
  "(\<And>k s. i \<le> k \<Longrightarrow> k < i + n \<Longrightarrow> body k s = body' k s) \<Longrightarrow> for_up i n body s = for_up i n body' s"
proof (induction n arbitrary: i s)
  case (Suc n)
  have "for_up (Suc i) n body = for_up (Suc i) n body'"
    using Suc.prems by (intro ext Suc.IH) simp
  moreover have "body i s = body' i s" using Suc.prems by simp
  ultimately show ?case by simp
qed simp

text \<open>The invariant rule: a loop whose body preserves the invariant returns, and ends in it.\<close>

lemma for_up_invariant:
  assumes "P i s" "\<And>k s. i \<le> k \<Longrightarrow> k < i + n \<Longrightarrow> P k s \<Longrightarrow> \<exists>s'. body k s = Some s' \<and> P (Suc k) s'"
  shows "\<exists>s'. for_up i n body s = Some s' \<and> P (i + n) s'"
  using assms
proof (induction n arbitrary: i s)
  case (Suc n)
  from Suc.prems(2) [of i s] Suc.prems(1) obtain s' where "body i s = Some s'" "P (Suc i) s'" by auto
  with Suc.IH [of "Suc i" s'] Suc.prems(2) show ?case by auto
qed simp

text \<open>A loop that stores \<open>v k\<close> at \<open>a + k\<close>.\<close>

lemma for_up_store:
  assumes "a + n \<le> length xs"
  shows "for_up 0 n (\<lambda>k xs. wr xs (int (a + k)) (v k)) xs
    = Some (take a xs @ map v [0..<n] @ drop (a + n) xs)"
  using assms
proof (induction n)
  case (Suc n)
  let ?ys = "take a xs @ map v [0..<n] @ drop (a + n) xs"
  have "drop (a + n) xs = xs ! (a + n) # drop (a + Suc n) xs"
    using Suc.prems by (simp add: Cons_nth_drop_Suc)
  then have "?ys[a + n := v n] = take a xs @ map v [0..<Suc n] @ drop (a + Suc n) xs"
    using Suc.prems by (simp add: list_update_append)
  with Suc show ?case
    by (simp add: for_up_Suc_right wr_def nat_int_add del: for_up.simps(2))
qed simp

section \<open>Bytes of 16-bit quantities\<close>

text \<open>The high and low byte a C program stores with \<open>b[i] = x >> 8\<close> and \<open>b[i+1] = x & 0xff\<close>
  for an \<open>int x\<close>, and the value \<open>(b[i] << 8) + b[i+1]\<close> it reads back.\<close>

definition hi8 :: "int \<Rightarrow> u8" where
  "hi8 x = word_of_int (drop_bit 8 x)"

definition lo8 :: "int \<Rightarrow> u8" where
  "lo8 x = word_of_int (x AND 255)"

definition be16 :: "u8 \<Rightarrow> u8 \<Rightarrow> int" where
  "be16 h l = push_bit 8 (uint h) + uint l"

lemma uint_lt_256: "uint (b :: u8) < 256"
  using uint_lt2p [of b] by simp

lemma be16_eq: "be16 h l = 256 * uint h + uint l"
  by (simp add: be16_def push_bit_eq_mult)

lemma be16_nonneg [simp]: "0 \<le> be16 h l"
  by (simp add: be16_eq)

lemma be16_less [simp]: "be16 h l < 65536"
  using uint_lt_256 [of h] uint_lt_256 [of l] by (simp add: be16_eq)

lemma and_255: "x AND 255 = take_bit 8 (x :: int)"
  by (simp add: take_bit_eq_mask mask_eq_exp_minus_1)

lemma uint_lo8 [byte_simps]: "uint (lo8 x) = x mod 256"
  by (simp add: lo8_def and_255 uint_word_of_int take_bit_eq_mod)

lemma uint_hi8 [byte_simps]: "uint (hi8 x) = x div 256 mod 256"
  by (simp add: hi8_def uint_word_of_int take_bit_eq_mod drop_bit_eq_div)

lemma be16_hi8_lo8 [byte_simps]: "be16 (hi8 x) (lo8 x) = x mod 65536"
  using zmod_zmult2_eq [of 256 x 256] by (simp add: be16_eq byte_simps)

lemma be16_hi8_lo8_id: "0 \<le> x \<Longrightarrow> x < 65536 \<Longrightarrow> be16 (hi8 x) (lo8 x) = x"
  by (simp add: byte_simps)

lemma unat_of_nat32: "n < 2 ^ 32 \<Longrightarrow> unat (of_nat n :: u32) = n"
  by (simp add: unsigned_of_nat take_bit_nat_eq_self)

text \<open>A 16-bit register goes over the wire as two bytes, high byte first.\<close>

definition reg_bytes :: "u16 \<Rightarrow> u8 list" where
  "reg_bytes r = [ucast (drop_bit 8 r), ucast (r AND 255)]"

definition regs_bytes :: "u16 list \<Rightarrow> u8 list" where
  "regs_bytes rs = concat (map reg_bytes rs)"

lemma length_reg_bytes [simp]: "length (reg_bytes r) = 2"
  by (simp add: reg_bytes_def)

lemma length_regs_bytes [simp]: "length (regs_bytes rs) = 2 * length rs"
  by (induction rs) (simp_all add: regs_bytes_def)

lemma regs_bytes_simps [simp]:
  "regs_bytes [] = []" "regs_bytes (r # rs) = reg_bytes r @ regs_bytes rs"
  "regs_bytes (rs @ ss) = regs_bytes rs @ regs_bytes ss"
  by (simp_all add: regs_bytes_def)

lemma reg_bytes_be16: "word_of_int (be16 (reg_bytes r ! 0) (reg_bytes r ! 1)) = r"
proof -
  have "uint (drop_bit 8 r) = uint r div 256" "uint (r AND 255) = uint r mod 256"
    by (simp_all add: unsigned_and_eq uint_div drop_bit_eq_div and_255
        take_bit_eq_mod)
  moreover have "256 * (uint r div 256 mod 256) + uint r mod 256 = uint r"
    using uint_lt2p [of r] zmod_zmult2_eq [of 256 "uint r" 256] by simp
  ultimately have "be16 (reg_bytes r ! 0) (reg_bytes r ! 1) = uint r"
    by (simp add: reg_bytes_def be16_eq unsigned_ucast_eq take_bit_eq_mod)
  then show ?thesis by simp
qed

lemma hi8_be16 [simp]: "hi8 (be16 h l) = h"
proof -
  have "uint (hi8 (be16 h l)) = uint h"
    using uint_lt_256 [of h] uint_lt_256 [of l] by (simp add: byte_simps be16_eq)
  then show ?thesis by (simp only: word_uint_eq_iff)
qed

lemma lo8_be16 [simp]: "lo8 (be16 h l) = l"
proof -
  have "uint (lo8 (be16 h l)) = uint l"
    using uint_lt_256 [of l] by (simp add: byte_simps be16_eq)
  then show ?thesis by (simp only: word_uint_eq_iff)
qed

lemma reg_bytes_hi_lo: "reg_bytes w = [hi8 (uint w), lo8 (uint w)]"
proof -
  have "uint w = be16 (reg_bytes w ! 0) (reg_bytes w ! 1)"
    using arg_cong [OF reg_bytes_be16 [of w], of uint]
    by (simp add: uint_word_of_int take_bit_eq_mod)
  then show ?thesis by (simp add: reg_bytes_def)
qed

lemma reg_bytes_eq_iff: "reg_bytes w = [h, l] \<longleftrightarrow> uint w = be16 h l"
proof
  assume "reg_bytes w = [h, l]"
  with reg_bytes_be16 [of w] have "word_of_int (be16 h l) = w" by simp
  then have "uint (word_of_int (be16 h l) :: u16) = uint w" by simp
  then show "uint w = be16 h l"
    by (simp add: uint_word_of_int take_bit_eq_mod)
qed (simp add: reg_bytes_hi_lo)

end
