(* ===== verification/Crc.thy ===== *)
theory Crc
  imports Prelude
begin

unbundle bit_operations_syntax

text \<open>
  The checksums of \<open>utils/src/crc.c\<close> (\<open>crc16Calc\<close>, \<open>crc16CalcWithInit\<close>, \<open>crc8Calc\<close> with their three
  tables) and the second, two-table CRC of \<open>libmodbus/src/modbus-rtu.c\<close> (\<open>crc16\<close>).  The loops of
  \<open>crc.c\<close> are \<open>do { ... len--; } while(len)\<close> on a \<open>uint32_t\<close>, so a length of 0 runs round the
  32-bit counter; the model keeps that.  The lemmas show that the loops compute a fold over the
  message, that the Modbus table is the table of the reflected polynomial 0xA001, that the two
  CRC routines agree up to the byte order of the result, that a message followed by its CRC has CRC 0,
  and that any change inside two adjacent bytes changes the CRC.
\<close>

section \<open>Tables\<close>

definition crcModBus_table :: "u16 list" where
  "crcModBus_table = [
    0x0000, 0xC0C1, 0xC181, 0x0140, 0xC301, 0x03C0, 0x0280, 0xC241,
    0xC601, 0x06C0, 0x0780, 0xC741, 0x0500, 0xC5C1, 0xC481, 0x0440,
    0xCC01, 0x0CC0, 0x0D80, 0xCD41, 0x0F00, 0xCFC1, 0xCE81, 0x0E40,
    0x0A00, 0xCAC1, 0xCB81, 0x0B40, 0xC901, 0x09C0, 0x0880, 0xC841,
    0xD801, 0x18C0, 0x1980, 0xD941, 0x1B00, 0xDBC1, 0xDA81, 0x1A40,
    0x1E00, 0xDEC1, 0xDF81, 0x1F40, 0xDD01, 0x1DC0, 0x1C80, 0xDC41,
    0x1400, 0xD4C1, 0xD581, 0x1540, 0xD701, 0x17C0, 0x1680, 0xD641,
    0xD201, 0x12C0, 0x1380, 0xD341, 0x1100, 0xD1C1, 0xD081, 0x1040,
    0xF001, 0x30C0, 0x3180, 0xF141, 0x3300, 0xF3C1, 0xF281, 0x3240,
    0x3600, 0xF6C1, 0xF781, 0x3740, 0xF501, 0x35C0, 0x3480, 0xF441,
    0x3C00, 0xFCC1, 0xFD81, 0x3D40, 0xFF01, 0x3FC0, 0x3E80, 0xFE41,
    0xFA01, 0x3AC0, 0x3B80, 0xFB41, 0x3900, 0xF9C1, 0xF881, 0x3840,
    0x2800, 0xE8C1, 0xE981, 0x2940, 0xEB01, 0x2BC0, 0x2A80, 0xEA41,
    0xEE01, 0x2EC0, 0x2F80, 0xEF41, 0x2D00, 0xEDC1, 0xEC81, 0x2C40,
    0xE401, 0x24C0, 0x2580, 0xE541, 0x2700, 0xE7C1, 0xE681, 0x2640,
    0x2200, 0xE2C1, 0xE381, 0x2340, 0xE101, 0x21C0, 0x2080, 0xE041,
    0xA001, 0x60C0, 0x6180, 0xA141, 0x6300, 0xA3C1, 0xA281, 0x6240,
    0x6600, 0xA6C1, 0xA781, 0x6740, 0xA501, 0x65C0, 0x6480, 0xA441,
    0x6C00, 0xACC1, 0xAD81, 0x6D40, 0xAF01, 0x6FC0, 0x6E80, 0xAE41,
    0xAA01, 0x6AC0, 0x6B80, 0xAB41, 0x6900, 0xA9C1, 0xA881, 0x6840,
    0x7800, 0xB8C1, 0xB981, 0x7940, 0xBB01, 0x7BC0, 0x7A80, 0xBA41,
    0xBE01, 0x7EC0, 0x7F80, 0xBF41, 0x7D00, 0xBDC1, 0xBC81, 0x7C40,
    0xB401, 0x74C0, 0x7580, 0xB541, 0x7700, 0xB7C1, 0xB681, 0x7640,
    0x7200, 0xB2C1, 0xB381, 0x7340, 0xB101, 0x71C0, 0x7080, 0xB041,
    0x5000, 0x90C1, 0x9181, 0x5140, 0x9301, 0x53C0, 0x5280, 0x9241,
    0x9601, 0x56C0, 0x5780, 0x9741, 0x5500, 0x95C1, 0x9481, 0x5440,
    0x9C01, 0x5CC0, 0x5D80, 0x9D41, 0x5F00, 0x9FC1, 0x9E81, 0x5E40,
    0x5A00, 0x9AC1, 0x9B81, 0x5B40, 0x9901, 0x59C0, 0x5880, 0x9841,
    0x8801, 0x48C0, 0x4980, 0x8941, 0x4B00, 0x8BC1, 0x8A81, 0x4A40,
    0x4E00, 0x8EC1, 0x8F81, 0x4F40, 0x8D01, 0x4DC0, 0x4C80, 0x8C41,
    0x4400, 0x84C1, 0x8581, 0x4540, 0x8701, 0x47C0, 0x4680, 0x8641,
    0x8201, 0x42C0, 0x4380, 0x8341, 0x4100, 0x81C1, 0x8081, 0x4040]"

definition crcCan_table :: "u16 list" where
  "crcCan_table = [
    0x0000, 0x4599, 0x8B32, 0xCEAB, 0x53FD, 0x1664, 0xD8CF, 0x9D56,
    0xA7FA, 0xE263, 0x2CC8, 0x6951, 0xF407, 0xB19E, 0x7F35, 0x3AAC,
    0x0A6D, 0x4FF4, 0x815F, 0xC4C6, 0x5990, 0x1C09, 0xD2A2, 0x973B,
    0xAD97, 0xE80E, 0x26A5, 0x633C, 0xFE6A, 0xBBF3, 0x7558, 0x30C1,
    0x14DA, 0x5143, 0x9FE8, 0xDA71, 0x4727, 0x02BE, 0xCC15, 0x898C,
    0xB320, 0xF6B9, 0x3812, 0x7D8B, 0xE0DD, 0xA544, 0x6BEF, 0x2E76,
    0x1EB7, 0x5B2E, 0x9585, 0xD01C, 0x4D4A, 0x08D3, 0xC678, 0x83E1,
    0xB94D, 0xFCD4, 0x327F, 0x77E6, 0xEAB0, 0xAF29, 0x6182, 0x241B,
    0x29B4, 0x6C2D, 0xA286, 0xE71F, 0x7A49, 0x3FD0, 0xF17B, 0xB4E2,
    0x8E4E, 0xCBD7, 0x057C, 0x40E5, 0xDDB3, 0x982A, 0x5681, 0x1318,
    0x23D9, 0x6640, 0xA8EB, 0xED72, 0x7024, 0x35BD, 0xFB16, 0xBE8F,
    0x8423, 0xC1BA, 0x0F11, 0x4A88, 0xD7DE, 0x9247, 0x5CEC, 0x1975,
    0x3D6E, 0x78F7, 0xB65C, 0xF3C5, 0x6E93, 0x2B0A, 0xE5A1, 0xA038,
    0x9A94, 0xDF0D, 0x11A6, 0x543F, 0xC969, 0x8CF0, 0x425B, 0x07C2,
    0x3703, 0x729A, 0xBC31, 0xF9A8, 0x64FE, 0x2167, 0xEFCC, 0xAA55,
    0x90F9, 0xD560, 0x1BCB, 0x5E52, 0xC304, 0x869D, 0x4836, 0x0DAF,
    0x5368, 0x16F1, 0xD85A, 0x9DC3, 0x0095, 0x450C, 0x8BA7, 0xCE3E,
    0xF492, 0xB10B, 0x7FA0, 0x3A39, 0xA76F, 0xE2F6, 0x2C5D, 0x69C4,
    0x5905, 0x1C9C, 0xD237, 0x97AE, 0x0AF8, 0x4F61, 0x81CA, 0xC453,
    0xFEFF, 0xBB66, 0x75CD, 0x3054, 0xAD02, 0xE89B, 0x2630, 0x63A9,
    0x47B2, 0x022B, 0xCC80, 0x8919, 0x144F, 0x51D6, 0x9F7D, 0xDAE4,
    0xE048, 0xA5D1, 0x6B7A, 0x2EE3, 0xB3B5, 0xF62C, 0x3887, 0x7D1E,
    0x4DDF, 0x0846, 0xC6ED, 0x8374, 0x1E22, 0x5BBB, 0x9510, 0xD089,
    0xEA25, 0xAFBC, 0x6117, 0x248E, 0xB9D8, 0xFC41, 0x32EA, 0x7773,
    0x7ADC, 0x3F45, 0xF1EE, 0xB477, 0x2921, 0x6CB8, 0xA213, 0xE78A,
    0xDD26, 0x98BF, 0x5614, 0x138D, 0x8EDB, 0xCB42, 0x05E9, 0x4070,
    0x70B1, 0x3528, 0xFB83, 0xBE1A, 0x234C, 0x66D5, 0xA87E, 0xEDE7,
    0xD74B, 0x92D2, 0x5C79, 0x19E0, 0x84B6, 0xC12F, 0x0F84, 0x4A1D,
    0x6E06, 0x2B9F, 0xE534, 0xA0AD, 0x3DFB, 0x7862, 0xB6C9, 0xF350,
    0xC9FC, 0x8C65, 0x42CE, 0x0757, 0x9A01, 0xDF98, 0x1133, 0x54AA,
    0x646B, 0x21F2, 0xEF59, 0xAAC0, 0x3796, 0x720F, 0xBCA4, 0xF93D,
    0xC391, 0x8608, 0x48A3, 0x0D3A, 0x906C, 0xD5F5, 0x1B5E, 0x5EC7]"

definition crc1Wire_table :: "u8 list" where
  "crc1Wire_table = [
    0, 94, 188, 226, 97, 63, 221, 131, 194, 156, 126, 32, 163, 253, 31, 65,
    157, 195, 33, 127, 252, 162, 64, 30, 95, 1, 227, 189, 62, 96, 130, 220,
    35, 125, 159, 193, 66, 28, 254, 160, 225, 191, 93, 3, 128, 222, 60, 98,
    190, 224, 2, 92, 223, 129, 99, 61, 124, 34, 192, 158, 29, 67, 161, 255,
    70, 24, 250, 164, 39, 121, 155, 197, 132, 218, 56, 102, 229, 187, 89, 7,
    219, 133, 103, 57, 186, 228, 6, 88, 25, 71, 165, 251, 120, 38, 196, 154,
    101, 59, 217, 135, 4, 90, 184, 230, 167, 249, 27, 69, 198, 152, 122, 36,
    248, 166, 68, 26, 153, 199, 37, 123, 58, 100, 134, 216, 91, 5, 231, 185,
    140, 210, 48, 110, 237, 179, 81, 15, 78, 16, 242, 172, 47, 113, 147, 205,
    17, 79, 173, 243, 112, 46, 204, 146, 211, 141, 111, 49, 178, 236, 14, 80,
    175, 241, 19, 77, 206, 144, 114, 44, 109, 51, 209, 143, 12, 82, 176, 238,
    50, 108, 142, 208, 83, 13, 239, 177, 240, 174, 76, 18, 145, 207, 45, 115,
    202, 148, 118, 40, 171, 245, 23, 73, 8, 86, 180, 234, 105, 55, 213, 139,
    87, 9, 235, 181, 54, 104, 138, 212, 149, 203, 41, 119, 244, 170, 72, 22,
    233, 183, 85, 11, 136, 214, 52, 106, 43, 117, 151, 201, 74, 20, 246, 168,
    116, 42, 200, 150, 21, 75, 169, 247, 182, 232, 10, 84, 215, 137, 107, 53]"

definition table_crc_hi :: "u8 list" where
  "table_crc_hi = [
    0x00, 0xC1, 0x81, 0x40, 0x01, 0xC0, 0x80, 0x41, 0x01, 0xC0, 0x80, 0x41,
    0x00, 0xC1, 0x81, 0x40, 0x01, 0xC0, 0x80, 0x41, 0x00, 0xC1, 0x81, 0x40,
    0x00, 0xC1, 0x81, 0x40, 0x01, 0xC0, 0x80, 0x41, 0x01, 0xC0, 0x80, 0x41,
    0x00, 0xC1, 0x81, 0x40, 0x00, 0xC1, 0x81, 0x40, 0x01, 0xC0, 0x80, 0x41,
    0x00, 0xC1, 0x81, 0x40, 0x01, 0xC0, 0x80, 0x41, 0x01, 0xC0, 0x80, 0x41,
    0x00, 0xC1, 0x81, 0x40, 0x01, 0xC0, 0x80, 0x41, 0x00, 0xC1, 0x81, 0x40,
    0x00, 0xC1, 0x81, 0x40, 0x01, 0xC0, 0x80, 0x41, 0x00, 0xC1, 0x81, 0x40,
    0x01, 0xC0, 0x80, 0x41, 0x01, 0xC0, 0x80, 0x41, 0x00, 0xC1, 0x81, 0x40,
    0x00, 0xC1, 0x81, 0x40, 0x01, 0xC0, 0x80, 0x41, 0x01, 0xC0, 0x80, 0x41,
    0x00, 0xC1, 0x81, 0x40, 0x01, 0xC0, 0x80, 0x41, 0x00, 0xC1, 0x81, 0x40,
    0x00, 0xC1, 0x81, 0x40, 0x01, 0xC0, 0x80, 0x41, 0x01, 0xC0, 0x80, 0x41,
    0x00, 0xC1, 0x81, 0x40, 0x00, 0xC1, 0x81, 0x40, 0x01, 0xC0, 0x80, 0x41,
    0x00, 0xC1, 0x81, 0x40, 0x01, 0xC0, 0x80, 0x41, 0x01, 0xC0, 0x80, 0x41,
    0x00, 0xC1, 0x81, 0x40, 0x00, 0xC1, 0x81, 0x40, 0x01, 0xC0, 0x80, 0x41,
    0x01, 0xC0, 0x80, 0x41, 0x00, 0xC1, 0x81, 0x40, 0x01, 0xC0, 0x80, 0x41,
    0x00, 0xC1, 0x81, 0x40, 0x00, 0xC1, 0x81, 0x40, 0x01, 0xC0, 0x80, 0x41,
    0x00, 0xC1, 0x81, 0x40, 0x01, 0xC0, 0x80, 0x41, 0x01, 0xC0, 0x80, 0x41,
    0x00, 0xC1, 0x81, 0x40, 0x01, 0xC0, 0x80, 0x41, 0x00, 0xC1, 0x81, 0x40,
    0x00, 0xC1, 0x81, 0x40, 0x01, 0xC0, 0x80, 0x41, 0x01, 0xC0, 0x80, 0x41,
    0x00, 0xC1, 0x81, 0x40, 0x00, 0xC1, 0x81, 0x40, 0x01, 0xC0, 0x80, 0x41,
    0x00, 0xC1, 0x81, 0x40, 0x01, 0xC0, 0x80, 0x41, 0x01, 0xC0, 0x80, 0x41,
    0x00, 0xC1, 0x81, 0x40]"

definition table_crc_lo :: "u8 list" where
  "table_crc_lo = [
    0x00, 0xC0, 0xC1, 0x01, 0xC3, 0x03, 0x02, 0xC2, 0xC6, 0x06, 0x07, 0xC7,
    0x05, 0xC5, 0xC4, 0x04, 0xCC, 0x0C, 0x0D, 0xCD, 0x0F, 0xCF, 0xCE, 0x0E,
    0x0A, 0xCA, 0xCB, 0x0B, 0xC9, 0x09, 0x08, 0xC8, 0xD8, 0x18, 0x19, 0xD9,
    0x1B, 0xDB, 0xDA, 0x1A, 0x1E, 0xDE, 0xDF, 0x1F, 0xDD, 0x1D, 0x1C, 0xDC,
    0x14, 0xD4, 0xD5, 0x15, 0xD7, 0x17, 0x16, 0xD6, 0xD2, 0x12, 0x13, 0xD3,
    0x11, 0xD1, 0xD0, 0x10, 0xF0, 0x30, 0x31, 0xF1, 0x33, 0xF3, 0xF2, 0x32,
    0x36, 0xF6, 0xF7, 0x37, 0xF5, 0x35, 0x34, 0xF4, 0x3C, 0xFC, 0xFD, 0x3D,
    0xFF, 0x3F, 0x3E, 0xFE, 0xFA, 0x3A, 0x3B, 0xFB, 0x39, 0xF9, 0xF8, 0x38,
    0x28, 0xE8, 0xE9, 0x29, 0xEB, 0x2B, 0x2A, 0xEA, 0xEE, 0x2E, 0x2F, 0xEF,
    0x2D, 0xED, 0xEC, 0x2C, 0xE4, 0x24, 0x25, 0xE5, 0x27, 0xE7, 0xE6, 0x26,
    0x22, 0xE2, 0xE3, 0x23, 0xE1, 0x21, 0x20, 0xE0, 0xA0, 0x60, 0x61, 0xA1,
    0x63, 0xA3, 0xA2, 0x62, 0x66, 0xA6, 0xA7, 0x67, 0xA5, 0x65, 0x64, 0xA4,
    0x6C, 0xAC, 0xAD, 0x6D, 0xAF, 0x6F, 0x6E, 0xAE, 0xAA, 0x6A, 0x6B, 0xAB,
    0x69, 0xA9, 0xA8, 0x68, 0x78, 0xB8, 0xB9, 0x79, 0xBB, 0x7B, 0x7A, 0xBA,
    0xBE, 0x7E, 0x7F, 0xBF, 0x7D, 0xBD, 0xBC, 0x7C, 0xB4, 0x74, 0x75, 0xB5,
    0x77, 0xB7, 0xB6, 0x76, 0x72, 0xB2, 0xB3, 0x73, 0xB1, 0x71, 0x70, 0xB0,
    0x50, 0x90, 0x91, 0x51, 0x93, 0x53, 0x52, 0x92, 0x96, 0x56, 0x57, 0x97,
    0x55, 0x95, 0x94, 0x54, 0x9C, 0x5C, 0x5D, 0x9D, 0x5F, 0x9F, 0x9E, 0x5E,
    0x5A, 0x9A, 0x9B, 0x5B, 0x99, 0x59, 0x58, 0x98, 0x88, 0x48, 0x49, 0x89,
    0x4B, 0x8B, 0x8A, 0x4A, 0x4E, 0x8E, 0x8F, 0x4F, 0x8D, 0x4D, 0x4C, 0x8C,
    0x44, 0x84, 0x85, 0x45, 0x87, 0x47, 0x46, 0x86, 0x82, 0x42, 0x43, 0x83,
    0x41, 0x81, 0x80, 0x40]"

record crc16Struct =
  table16 :: "u16 list"
  initVal16 :: u16
  finalXorValue16 :: u16

record crc8Struct =
  table8 :: "u8 list"
  initVal8 :: u8
  finalXorValue8 :: u8

definition crcModBus :: crc16Struct where
  "crcModBus = \<lparr>table16 = crcModBus_table, initVal16 = 0xFFFF, finalXorValue16 = 0\<rparr>"

definition crcCan :: crc16Struct where
  "crcCan = \<lparr>table16 = crcCan_table, initVal16 = 0, finalXorValue16 = 0\<rparr>"

definition crc1Wire :: crc8Struct where
  "crc1Wire = \<lparr>table8 = crc1Wire_table, initVal8 = 0, finalXorValue8 = 0\<rparr>"

section \<open>The loops of crc.c\<close>

text \<open>One iteration: \<open>tmp = (b ^ crc) & 0xff; crc >>= 8; crc ^= table[tmp]\<close>.\<close>

definition crc16_step :: "u16 list \<Rightarrow> u16 \<Rightarrow> u8 \<Rightarrow> u16" where
  "crc16_step t crc b =
     (let tmp = (ucast b XOR crc) AND 0xFF in drop_bit 8 crc XOR t ! unat tmp)"

text \<open>The \<open>do ... while\<close> loop reads one byte, then decrements and tests the length.  The list is
  the memory from \<open>pBuf\<close> to the end of the object it points into.\<close>

fun crc16_loop :: "u16 list \<Rightarrow> u16 \<Rightarrow> u8 list \<Rightarrow> u32 \<Rightarrow> u16 option" where
  "crc16_loop t crc [] len = None"
| "crc16_loop t crc (b # bs) len =
     (let crc' = crc16_step t crc b; len' = len - 1
      in if len' \<noteq> 0 then crc16_loop t crc' bs len' else Some crc')"

definition crc16CalcWithInit :: "crc16Struct \<Rightarrow> u8 list \<Rightarrow> u32 \<Rightarrow> u16 \<Rightarrow> u16 option" where
  "crc16CalcWithInit dat src len ini =
     map_option (\<lambda>crc. crc XOR finalXorValue16 dat) (crc16_loop (table16 dat) ini src len)"

definition crc16Calc :: "crc16Struct \<Rightarrow> u8 list \<Rightarrow> u32 \<Rightarrow> u16 option" where
  "crc16Calc dat src len =
     map_option (\<lambda>crc. crc XOR finalXorValue16 dat)
       (crc16_loop (table16 dat) (initVal16 dat) src len)"

fun crc8_loop :: "u8 list \<Rightarrow> u8 \<Rightarrow> u8 list \<Rightarrow> u32 \<Rightarrow> u8 option" where
  "crc8_loop t crc [] len = None"
| "crc8_loop t crc (b # bs) len =
     (let crc' = t ! unat (crc XOR b); len' = len - 1
      in if len' \<noteq> 0 then crc8_loop t crc' bs len' else Some crc')"

definition crc8Calc :: "crc8Struct \<Rightarrow> u8 list \<Rightarrow> u32 \<Rightarrow> u8 option" where
  "crc8Calc dat src len =
     map_option (\<lambda>crc. crc XOR finalXorValue8 dat)
       (crc8_loop (table8 dat) (initVal8 dat) src len)"

section \<open>The CRC of modbus-rtu.c\<close>

text \<open>\<open>while (buffer_length--)\<close> over a \<open>uint16_t\<close> length; the state is the pair of bytes
  \<open>(crc_hi, crc_lo)\<close>.\<close>

fun crc16_rtu_loop :: "u8 \<Rightarrow> u8 \<Rightarrow> u8 list \<Rightarrow> nat \<Rightarrow> (u8 \<times> u8) option" where
  "crc16_rtu_loop crc_hi crc_lo buf 0 = Some (crc_hi, crc_lo)"
| "crc16_rtu_loop crc_hi crc_lo [] (Suc n) = None"
| "crc16_rtu_loop crc_hi crc_lo (b # bs) (Suc n) =
     (let i = unat (crc_hi XOR b)
      in crc16_rtu_loop (crc_lo XOR table_crc_hi ! i) (table_crc_lo ! i) bs n)"

definition crc16_rtu :: "u8 list \<Rightarrow> u16 \<Rightarrow> u16 option" where
  "crc16_rtu buf buffer_length =
     map_option (\<lambda>(h, l). push_bit 8 (ucast h) OR ucast l)
       (crc16_rtu_loop 0xFF 0xFF buf (unat buffer_length))"

section \<open>The loops are folds\<close>

lemma crc16_loop_fold:
  assumes "0 < unat len" "unat len \<le> length src"
  shows "crc16_loop t crc src len = Some (foldl (crc16_step t) crc (take (unat len) src))"
  using assms
proof (induction t crc src len rule: crc16_loop.induct)
  case (1 t crc len)
  then show ?case by simp
next
  case (2 t crc b bs len)
  have len: "unat (len - 1) = unat len - 1"
    using "2.prems"(1) by (simp add: unat_minus_one unat_gt_0)
  show ?case
  proof (cases "len - 1 = 0")
    case True
    with len "2.prems"(1) have "unat len = 1" by simp
    with True show ?thesis by (simp add: Let_def)
  next
    case False
    then have "0 < unat (len - 1)" by (simp add: unat_gt_0)
    moreover from "2.prems" len have "unat (len - 1) \<le> length bs" by simp
    moreover from "2.prems"(1) len have "unat len = Suc (unat (len - 1))" by simp
    ultimately show ?thesis using "2.IH" False by (simp add: Let_def)
  qed
qed

lemma crc16_loop_overrun: "length src < unat len \<or> len = 0 \<and> length src < 2 ^ 32
    \<Longrightarrow> crc16_loop t crc src len = None"
proof (induction t crc src len rule: crc16_loop.induct)
  case (1 t crc len)
  then show ?case by simp
next
  case (2 t crc b bs len)
  have "len - 1 \<noteq> 0"
    using "2.prems" by auto
  moreover have "length bs < unat (len - 1) \<or> len - 1 = 0 \<and> length bs < 2 ^ 32"
  proof (cases "len = 0")
    case True
    then have "unat (len - 1) = 2 ^ 32 - 1"
      by (simp add: unsigned_minus_1_eq_mask mask_eq_exp_minus_1)
    with "2.prems" True show ?thesis by simp
  next
    case False
    then have "unat (len - 1) = unat len - 1" by (simp add: unat_minus_one)
    with "2.prems" False show ?thesis by auto
  qed
  ultimately show ?case using "2.IH" by (simp add: Let_def)
qed

text \<open>The CRC of a byte string, as a mathematical function.\<close>

definition crc16_of :: "u16 list \<Rightarrow> u16 \<Rightarrow> u8 list \<Rightarrow> u16" where
  "crc16_of t ini bs = foldl (crc16_step t) ini bs"

lemma crc16_of_simps [simp]:
  "crc16_of t ini [] = ini"
  "crc16_of t ini (b # bs) = crc16_of t (crc16_step t ini b) bs"
  "crc16_of t ini (xs @ ys) = crc16_of t (crc16_of t ini xs) ys"
  by (simp_all add: crc16_of_def)

lemma crc16Calc_modbus:
  "0 < unat len \<Longrightarrow> unat len \<le> length src
    \<Longrightarrow> crc16Calc crcModBus src len = Some (crc16_of crcModBus_table 0xFFFF (take (unat len) src))"
  by (simp add: crc16Calc_def crc16_of_def crc16_loop_fold crcModBus_def)

section \<open>The Modbus table is the table of the reflected polynomial 0xA001\<close>

definition crc_bit :: "u16 \<Rightarrow> u16" where
  "crc_bit c = (if odd c then drop_bit 1 c XOR 0xA001 else drop_bit 1 c)"

definition crc_byte :: "u16 \<Rightarrow> u16" where
  "crc_byte c = crc_bit (crc_bit (crc_bit (crc_bit (crc_bit (crc_bit (crc_bit (crc_bit c)))))))"

lemma crc_bit_xor: "crc_bit (a XOR b) = crc_bit a XOR crc_bit b"
proof -
  have "drop_bit 1 (a XOR b) = drop_bit 1 a XOR drop_bit 1 b" by (simp only: drop_bit_xor)
  moreover have "odd (a XOR b) = (odd a \<noteq> odd b)" by (simp add: even_xor_iff)
  ultimately show ?thesis
    by (auto simp: crc_bit_def ac_simps)
qed

lemma crc_byte_xor: "crc_byte (a XOR b) = crc_byte a XOR crc_byte b"
  by (simp add: crc_byte_def crc_bit_xor)

definition dbl :: "u16 list \<Rightarrow> u16 \<Rightarrow> u16 list" where
  "dbl xs b = xs @ map (\<lambda>x. x XOR b) xs"

lemma of_nat_xor_pow:
  assumes "i < 2 ^ k"
  shows "(of_nat (2 ^ k + i) :: u16) = of_nat i XOR of_nat (2 ^ k)"
proof -
  have "take_bit k i AND 2 ^ k = 0"
    by (rule bit_eqI) (auto simp: bit_simps)
  with assms have "i AND 2 ^ k = 0"
    by (simp add: take_bit_nat_eq_self)
  then have "(of_nat i :: u16) AND of_nat (2 ^ k) = 0"
    using of_nat_and_eq [of i "2 ^ k", where 'a = "16 word"] by simp
  then have "of_nat i + of_nat (2 ^ k) = (of_nat i :: u16) XOR of_nat (2 ^ k)"
    by (rule disjunctive_add_eq_xor)
  then show ?thesis
    by (simp only: of_nat_add add.commute [of "of_nat (2 ^ k)"])
qed

lemma dbl_table:
  assumes "xs = map (\<lambda>i. crc_byte (of_nat i)) [0..<2 ^ k]"
  shows "dbl xs (crc_byte (of_nat (2 ^ k))) = map (\<lambda>i. crc_byte (of_nat i)) [0..<2 ^ Suc k]"
proof (rule nth_equalityI)
  show "length (dbl xs (crc_byte (of_nat (2 ^ k))))
      = length (map (\<lambda>i. crc_byte (of_nat i)) [0..<2 ^ Suc k])"
    using assms by (simp add: dbl_def)
next
  fix i assume "i < length (dbl xs (crc_byte (of_nat (2 ^ k))))"
  then have i: "i < 2 ^ Suc k" using assms by (simp add: dbl_def)
  show "dbl xs (crc_byte (of_nat (2 ^ k))) ! i
      = map (\<lambda>i. crc_byte (of_nat i)) [0..<2 ^ Suc k] ! i"
  proof (cases "i < 2 ^ k")
    case True
    with i show ?thesis by (simp add: assms dbl_def nth_append del: upt_Suc)
  next
    case False
    define j where "j = i - 2 ^ k"
    with False i have j: "i = 2 ^ k + j" "j < 2 ^ k" by simp_all
    then have "dbl xs (crc_byte (of_nat (2 ^ k))) ! i
        = crc_byte (of_nat j) XOR crc_byte (of_nat (2 ^ k))"
      by (simp add: assms dbl_def nth_append del: upt_Suc)
    also have "\<dots> = crc_byte (of_nat i)"
      by (simp only: j of_nat_xor_pow crc_byte_xor)
    finally show ?thesis using i by (simp del: upt_Suc power_Suc)
  qed
qed

lemma crcModBus_table_dbl:
  "crcModBus_table = dbl (dbl (dbl (dbl (dbl (dbl (dbl (dbl [0] (crc_byte 1)) (crc_byte 2))
     (crc_byte 4)) (crc_byte 8)) (crc_byte 16)) (crc_byte 32)) (crc_byte 64)) (crc_byte 128)"
  by (simp add: crcModBus_table_def dbl_def crc_byte_def crc_bit_def)

lemma crcModBus_table_poly: "crcModBus_table = map (\<lambda>i. crc_byte (of_nat i)) [0..<256]"
proof -
  have t0: "[0] = map (\<lambda>i. crc_byte (of_nat i)) [0..<2 ^ 0]"
    by (simp add: crc_byte_def crc_bit_def)
  show ?thesis unfolding crcModBus_table_dbl
    using dbl_table [OF t0] dbl_table [where k = 1, OF refl] dbl_table [where k = 2, OF refl]
       dbl_table [where k = 3, OF refl] dbl_table [where k = 4, OF refl]
       dbl_table [where k = 5, OF refl] dbl_table [where k = 6, OF refl]
       dbl_table [where k = 7, OF refl]
    by (simp del: upt_Suc)
qed

lemma length_crcModBus_table [simp]: "length crcModBus_table = 256"
  by (simp add: crcModBus_table_poly)

lemma crcModBus_table_0 [simp]: "crcModBus_table ! 0 = 0"
  by (simp add: crcModBus_table_def)

section \<open>The two-table CRC of the RTU framing\<close>

lemma rtu_tables_split:
  "table_crc_hi = map ucast crcModBus_table"
  "table_crc_lo = map (\<lambda>w. ucast (drop_bit 8 w)) crcModBus_table"
  by (simp_all add: crcModBus_table_def table_crc_lo_def table_crc_hi_def)

text \<open>\<open>crc_hi\<close> of the RTU routine holds the low byte of the CRC, \<open>crc_lo\<close> the high byte.\<close>

definition rtu_state :: "u16 \<Rightarrow> u8 \<times> u8" where
  "rtu_state crc = (ucast crc, ucast (drop_bit 8 crc))"

lemma low_byte: "(ucast b XOR crc) AND 0xFF = (ucast (ucast crc XOR b :: u8) :: u16)"
proof -
  have m: "(0xFF :: u16) = mask 8" by (simp add: mask_eq_exp_minus_1)
  show ?thesis unfolding m
    by (rule bit_word_eqI) (auto simp: bit_simps dest: bit_imp_le_length)
qed

lemma unat_low_byte: "unat ((ucast b XOR crc) AND 0xFF :: u16) = unat (ucast crc XOR b :: u8)"
proof -
  have "unat w < 2 ^ 16" for w :: u8
    using unsigned_less [of w, where 'a = nat] by simp
  then show ?thesis by (simp add: low_byte unsigned_ucast_eq take_bit_nat_eq_self)
qed

lemma rtu_step:
  "rtu_state (crc16_step crcModBus_table crc b) =
     (let i = unat (fst (rtu_state crc) XOR b)
      in (snd (rtu_state crc) XOR table_crc_hi ! i, table_crc_lo ! i))"
proof -
  define i where "i = unat (ucast crc XOR b :: u8)"
  have i: "i < 256" using unsigned_less [of "ucast crc XOR b :: u8"] by (simp add: i_def)
  have tables: "table_crc_hi ! i = ucast (crcModBus_table ! i)"
    "table_crc_lo ! i = ucast (drop_bit 8 (crcModBus_table ! i))"
    using i by (simp_all add: rtu_tables_split)
  have step: "crc16_step crcModBus_table crc b = drop_bit 8 crc XOR crcModBus_table ! i"
    by (simp add: crc16_step_def unat_low_byte i_def)
  have "ucast (drop_bit 8 crc XOR w) = (ucast (drop_bit 8 crc) XOR ucast w :: u8)" for w
    by (rule bit_word_eqI) (auto simp: bit_simps)
  moreover have "ucast (drop_bit 8 (drop_bit 8 crc XOR w)) = (ucast (drop_bit 8 w) :: u8)" for w :: u16
    by (rule bit_word_eqI) (auto simp: bit_simps dest: bit_imp_le_length)
  ultimately show ?thesis
    by (simp add: rtu_state_def step tables Let_def flip: i_def)
qed

lemma crc16_rtu_loop_fold:
  "n \<le> length buf \<Longrightarrow> crc16_rtu_loop (fst (rtu_state crc)) (snd (rtu_state crc)) buf n
     = Some (rtu_state (crc16_of crcModBus_table crc (take n buf)))"
proof (induction buf arbitrary: crc n)
  case Nil
  then show ?case by simp
next
  case (Cons b bs)
  show ?case
  proof (cases n)
    case 0
    then show ?thesis by simp
  next
    case (Suc m)
    with Cons.prems have "m \<le> length bs" by simp
    with Cons.IH [OF this, of "crc16_step crcModBus_table crc b"] Suc show ?thesis
      by (simp add: rtu_step Let_def)
  qed
qed

text \<open>The two bytes of a CRC in the order the RTU frame carries them: low byte of the standard
  CRC first.\<close>

definition bswap16 :: "u16 \<Rightarrow> u16" where
  "bswap16 w = push_bit 8 (ucast (ucast w :: u8)) OR ucast (ucast (drop_bit 8 w) :: u8)"

lemma crc16_rtu_eq:
  "unat len \<le> length buf
    \<Longrightarrow> crc16_rtu buf len = Some (bswap16 (crc16_of crcModBus_table 0xFFFF (take (unat len) buf)))"
proof -
  assume len: "unat len \<le> length buf"
  have "rtu_state 0xFFFF = (0xFF, 0xFF)"
    by (simp add: rtu_state_def)
  from crc16_rtu_loop_fold [OF len, of "0xFFFF", unfolded this]
  show ?thesis
    by (simp add: crc16_rtu_def bswap16_def rtu_state_def)
qed

definition crc_bytes :: "u16 \<Rightarrow> u8 list" where
  "crc_bytes crc = [ucast crc, ucast (drop_bit 8 crc)]"

lemma bswap16_bytes: "reg_bytes (bswap16 crc) = crc_bytes crc"
proof -
  have m: "(0xFF :: u16) = mask 8" by (simp add: mask_eq_exp_minus_1)
  have "ucast (drop_bit 8 (bswap16 crc)) = (ucast crc :: u8)"
    unfolding bswap16_def by (rule bit_word_eqI) (auto simp: bit_simps dest: bit_imp_le_length)
  moreover have "ucast (bswap16 crc AND mask 8) = (ucast (drop_bit 8 crc) :: u8)"
    unfolding bswap16_def by (rule bit_word_eqI) (auto simp: bit_simps dest: bit_imp_le_length)
  ultimately show ?thesis by (simp add: reg_bytes_def crc_bytes_def m)
qed

section \<open>Residue and error detection\<close>

lemma crc16_step_low: "crc16_step crcModBus_table crc (ucast crc) = drop_bit 8 crc"
  by (simp add: crc16_step_def unat_low_byte)

lemma crc16_residue: "crc16_of crcModBus_table crc (crc_bytes crc) = 0"
proof -
  have "drop_bit 8 (drop_bit 8 crc) = 0"
    by (rule bit_word_eqI) (auto simp: bit_simps dest: bit_imp_le_length)
  moreover have "(ucast (drop_bit 8 crc) :: u8) = ucast (drop_bit 8 crc)" ..
  ultimately show ?thesis
    by (simp add: crc_bytes_def crc16_step_low)
qed

lemma crcModBus_table_hi_distinct:
  "distinct (map (\<lambda>w. unat (drop_bit 8 w)) crcModBus_table)"
  by (simp add: crcModBus_table_def)

lemma crcModBus_table_inj:
  assumes "i < 256" "j < 256"
    and "drop_bit 8 (crcModBus_table ! i) = drop_bit 8 (crcModBus_table ! j)"
  shows "i = j"
  using assms nth_eq_iff_index_eq [OF crcModBus_table_hi_distinct, of i j] by simp

text \<open>A step is a bijection of the CRC once the message byte is folded in: \<open>crc_mix\<close>.\<close>

definition crc_mix :: "u16 \<Rightarrow> u16" where
  "crc_mix x = drop_bit 8 x XOR crcModBus_table ! unat (ucast x :: u8)"

lemma crc16_step_mix: "crc16_step crcModBus_table crc b = crc_mix (crc XOR ucast b)"
proof -
  have "drop_bit 8 (crc XOR ucast b) = drop_bit 8 crc"
    by (rule bit_word_eqI) (auto simp: bit_simps dest: bit_imp_le_length)
  moreover have "ucast (crc XOR ucast b) = (ucast crc XOR b :: u8)"
    by (rule bit_word_eqI) (auto simp: bit_simps)
  ultimately show ?thesis
    by (simp add: crc16_step_def unat_low_byte crc_mix_def)
qed

lemma ucast_unat_less: "unat (ucast x :: u8) < 256"
  using unsigned_less [of "ucast x :: u8"] by simp

text \<open>Equal high bytes of two results force equal low bytes of the arguments.\<close>

lemma crc_mix_hi:
  assumes "drop_bit 8 (crc_mix x) = drop_bit 8 (crc_mix y)"
  shows "(ucast x :: u8) = ucast y"
proof -
  have "drop_bit 8 (crc_mix z) = drop_bit 8 (crcModBus_table ! unat (ucast z :: u8))" for z
    unfolding crc_mix_def by (rule bit_word_eqI) (auto simp: bit_simps dest: bit_imp_le_length)
  with assms crcModBus_table_inj [OF ucast_unat_less ucast_unat_less]
  have "unat (ucast x :: u8) = unat (ucast y :: u8)" by metis
  then show ?thesis by (simp only: word_unat_eq_iff)
qed

lemma xor_left_inj: "a XOR b = a XOR c \<longleftrightarrow> b = (c :: 'a :: len word)"
  by (metis bit.xor_left_self)

lemma word16_bytes_eq: "(ucast x :: u8) = ucast y \<Longrightarrow> drop_bit 8 x = drop_bit 8 y \<Longrightarrow> x = (y :: u16)"
proof (rule bit_word_eqI)
  fix n assume low: "(ucast x :: u8) = ucast y" and high: "drop_bit 8 x = drop_bit 8 y"
  show "bit x n = bit y n"
  proof (cases "n < 8")
    case True
    with arg_cong [OF low, of "\<lambda>w. bit w n"] show ?thesis by (simp add: bit_simps)
  next
    case False
    with arg_cong [OF high, of "\<lambda>w. bit w (n - 8)"] show ?thesis by (simp add: bit_simps)
  qed
qed

lemma crc_mix_inj: "crc_mix x = crc_mix y \<Longrightarrow> x = y"
proof -
  assume eq: "crc_mix x = crc_mix y"
  then have low: "(ucast x :: u8) = ucast y" by (intro crc_mix_hi) simp
  with eq have "drop_bit 8 x = drop_bit 8 y"
    by (simp add: crc_mix_def xor.commute [of _ "crcModBus_table ! _"] xor_left_inj)
  with low show "x = y" by (rule word16_bytes_eq)
qed

lemma crc16_of_inj_init: "crc16_of crcModBus_table c xs = crc16_of crcModBus_table d xs \<longleftrightarrow> c = d"
proof (induction xs arbitrary: c d)
  case (Cons b xs)
  have "crc_mix (c XOR ucast b) = crc_mix (d XOR ucast b) \<longleftrightarrow> c = d"
    by (metis crc_mix_inj xor_left_inj xor.commute)
  with Cons show ?case by (simp add: crc16_step_mix)
qed simp

lemma crc16_two_bytes_inj:
  assumes "crc16_of crcModBus_table c [a, b] = crc16_of crcModBus_table c [a', b']"
  shows "a = a' \<and> b = b'"
proof -
  let ?s = "crc_mix (c XOR ucast a)" and ?s' = "crc_mix (c XOR ucast a')"
  have eq: "?s XOR ucast b = ?s' XOR ucast b'"
    using assms by (auto simp: crc16_step_mix dest: crc_mix_inj)
  have "drop_bit 8 (s XOR ucast e) = drop_bit 8 s" for s :: u16 and e :: u8
    by (rule bit_word_eqI) (auto simp: bit_simps dest: bit_imp_le_length)
  with eq have "drop_bit 8 ?s = drop_bit 8 ?s'" by metis
  then have "(ucast (c XOR ucast a) :: u8) = ucast (c XOR ucast a')"
    by (rule crc_mix_hi)
  moreover have "ucast (c XOR ucast e) = (ucast c XOR e :: u8)" for e :: u8
    by (rule bit_word_eqI) (auto simp: bit_simps)
  ultimately have a: "a = a'" by (simp add: xor_left_inj)
  with eq have "(ucast b :: u16) = ucast b'" by (simp add: xor_left_inj)
  then have "(ucast (ucast b :: u16) :: u8) = ucast (ucast b' :: u16)" by simp
  moreover have "(ucast (ucast e :: u16) :: u8) = e" for e :: u8
    by (rule bit_word_eqI) (auto simp: bit_simps)
  ultimately have "b = b'" by simp
  with a show ?thesis ..
qed

section \<open>Agreement with the bitwise CRC\<close>

text \<open>The reference: XOR the byte into the low end of the register, then shift out eight bits.\<close>

definition crc_ref :: "u16 \<Rightarrow> u8 list \<Rightarrow> u16" where
  "crc_ref ini bs = foldl (\<lambda>c b. crc_byte (c XOR ucast b)) ini bs"

lemma crc_bit_even: "even c \<Longrightarrow> crc_bit c = drop_bit 1 c"
  by (simp add: crc_bit_def)

lemma crc_byte_high: "take_bit 8 c = 0 \<Longrightarrow> crc_byte c = drop_bit 8 c"
proof -
  assume low: "take_bit 8 c = 0"
  have "even (drop_bit n c)" if "n < 8" for n
  proof -
    have "\<not> bit (take_bit 8 c) n" using low by simp
    with that have "\<not> bit c n" by (simp add: bit_take_bit_iff)
    then show ?thesis by (simp add: bit_iff_odd_drop_bit)
  qed
  then have "crc_bit (drop_bit n c) = drop_bit (n + 1) c" if "n < 8" for n
    using that by (simp add: crc_bit_even)
  from this [of 0] this [of 1] this [of 2] this [of 3] this [of 4] this [of 5] this [of 6]
    this [of 7] show ?thesis
    by (simp add: crc_byte_def numeral_2_eq_2 [symmetric])
qed

lemma crc_mix_byte: "crc_mix x = crc_byte x"
proof -
  have high: "take_bit 8 (x XOR take_bit 8 x) = 0"
    by (rule bit_word_eqI) (auto simp: bit_simps)
  have "drop_bit 8 (x XOR take_bit 8 x) = drop_bit 8 x"
    by (rule bit_word_eqI) (auto simp: bit_simps)
  moreover have "crc_byte (take_bit 8 x) = crcModBus_table ! unat (ucast x :: u8)"
  proof -
    have "take_bit 8 x = (ucast (ucast x :: u8) :: u16)"
      by (rule bit_word_eqI) (auto simp: bit_simps)
    then show ?thesis
      using ucast_unat_less [of x] by (simp add: crcModBus_table_poly del: upt_Suc)
  qed
  moreover have "crc_byte x = crc_byte (x XOR take_bit 8 x) XOR crc_byte (take_bit 8 x)"
    using crc_byte_xor [of "x XOR take_bit 8 x" "take_bit 8 x"] by (simp add: xor.assoc)
  ultimately show ?thesis
    by (simp add: crc_mix_def crc_byte_high [OF high])
qed

lemma crc16_of_ref: "crc16_of crcModBus_table ini bs = crc_ref ini bs"
proof -
  have "crc16_step crcModBus_table = (\<lambda>c b. crc_byte (c XOR ucast b))"
    by (intro ext) (simp add: crc16_step_mix crc_mix_byte)
  then show ?thesis by (simp add: crc16_of_def crc_ref_def)
qed

section \<open>Properties\<close>

text \<open>\<open>crc16Calc\<close> with the \<open>crcModBus\<close> table computes, for every message and every length
  of at least one byte inside it, the CRC-16/MODBUS defined bit by bit from the polynomial
  0xA001 (initial value 0xFFFF).\<close>

theorem crc16Calc_is_modbus_crc:
  assumes "0 < unat len" "unat len \<le> length src"
  shows "crc16Calc crcModBus src len = Some (crc_ref 0xFFFF (take (unat len) src))"
  using assms by (simp add: crc16Calc_modbus crc16_of_ref)

theorem crc16Calc_is_modbus_crc_witness:
  "crc16Calc crcModBus [0x01, 0x03, 0x00] 2 = Some (crc_ref 0xFFFF [0x01, 0x03])"
  using crc16Calc_is_modbus_crc [of 2 "[0x01, 0x03, 0x00]"] by simp

text \<open>the two CRC routines of the repository agree: the RTU framing routine of libmodbus
  returns the bytes of the CRC of \<open>utils/src/crc.c\<close> in swapped order, for every buffer and length.\<close>

theorem crc_implementations_agree:
  assumes "0 < unat len" "unat len \<le> length buf"
  shows "crc16_rtu buf len = map_option bswap16 (crc16Calc crcModBus buf (ucast len))"
proof -
  have "unat (ucast len :: u32) = unat len"
    using unsigned_less [of len, where 'a = nat]
    by (simp add: unsigned_ucast_eq take_bit_nat_eq_self)
  with assms show ?thesis
    by (simp add: crc16_rtu_eq crc16Calc_modbus)
qed

theorem crc_implementations_agree_witness:
  "crc16_rtu [0x01, 0x03, 0x02] 3 = map_option bswap16 (crc16Calc crcModBus [0x01, 0x03, 0x02] 3)"
  using crc_implementations_agree [of 3 "[0x01, 0x03, 0x02]"] by simp

text \<open>A message followed by the two bytes of its CRC, low byte first, has CRC 0: the check
  that \<open>Prm::deserialize\<close> makes accepts every block that \<open>Prm::serialize\<close> wrote.\<close>

lemma crc16Calc_residue:
  assumes "xs \<noteq> []" "length xs + 2 < 2 ^ 32"
    and "crc16Calc crcModBus xs (of_nat (length xs)) = Some c"
  shows "crc16Calc crcModBus (xs @ crc_bytes c) (of_nat (length xs + 2)) = Some 0"
proof -
  have n: "unat (of_nat (length xs) :: u32) = length xs"
    by (rule unat_of_nat32) (use assms(2) in linarith)
  have n2: "unat (of_nat (length xs + 2) :: u32) = length xs + 2"
    by (rule unat_of_nat32) (rule assms(2))
  from n have "crc16_of crcModBus_table 0xFFFF xs = c"
    using assms(1,3) by (simp add: crc16Calc_modbus)
  moreover have "length (crc_bytes c) = 2" by (simp add: crc_bytes_def)
  ultimately show ?thesis
    using n2 crc16_residue [of c] by (simp add: crc16Calc_modbus del: of_nat_add)
qed

lemma crc_adjacent_differ:
  assumes "(a, b) \<noteq> (a', b')" and "length (p @ [a, b] @ s) < 2 ^ 32"
    and "len = of_nat (length (p @ [a, b] @ s))"
  shows "crc16Calc crcModBus (p @ [a, b] @ s) len \<noteq> crc16Calc crcModBus (p @ [a', b'] @ s) len"
proof -
  have "unat len = length p + 2 + length s"
    using assms(2) unat_of_nat32 [of "length (p @ [a, b] @ s)"] unfolding assms(3) by simp
  moreover have "crc16_of crcModBus_table c ([a, b] @ s) \<noteq> crc16_of crcModBus_table c ([a', b'] @ s)" for c
    using crc16_two_bytes_inj [of c a b a' b'] assms(1)
    by (auto simp only: crc16_of_simps(3) crc16_of_inj_init)
  ultimately show ?thesis
    by (simp add: crc16Calc_modbus)
qed

text \<open>the CRC detects every corruption confined to two adjacent bytes: two messages of the
  same length that differ only there have different CRCs.\<close>

theorem crc16Calc_detects_adjacent_corruption:
  assumes "(a, b) \<noteq> (a', b')" and "length (p @ [a, b] @ s) < 2 ^ 32"
    and "len = of_nat (length (p @ [a, b] @ s))"
  shows "crc16Calc crcModBus (p @ [a, b] @ s) len \<noteq> crc16Calc crcModBus (p @ [a', b'] @ s) len"
  using assms by (rule crc_adjacent_differ)

theorem crc16Calc_detects_adjacent_corruption_witness:
  "crc16Calc crcModBus [1, 2, 3, 4] 4 \<noteq> crc16Calc crcModBus [1, 2, 7, 4] 4"
  using crc16Calc_detects_adjacent_corruption [of 2 3 2 7 "[1]" "[4]" 4] by simp

end
