(* ===== verification/ModbusBase.thy ===== *)
theory ModbusBase
  imports Crc
begin

text \<open>
  The state, the error numbers, the backend interface and the RTU backend of \<open>libmodbus\<close> as the
  panel builds it (\<open>modbus-private.h\<close>, \<open>modbus-rtu.c\<close>), with the serial port below it
  (\<open>libmodbusport/rtuport.c\<close>).  \<open>modbus_backend_t\<close>, the C structure of function pointers, is a
  record of functions; the locale \<open>modbus_framing\<close> states what the rest of the library relies on in
  it, and the RTU backend is an instance.

  The serial line is described by the frames handed to the UART so far and a script of what each
  coming reception yields.  Debug printing has no effect (\<open>modbusprint.c\<close>) and is left out.
\<close>

section \<open>Error numbers\<close>

text \<open>\<open>EMB n\<close> stands for \<open>MODBUS_ENOBASE + n\<close>; the others are the C library's error numbers.\<close>

datatype errno = EINVAL | ENOMEM | ENOPROTOOPT | ETIMEDOUT | ECONNRESET | EBADF | EPIPE | EMB int

abbreviation (input) "MODBUS_EXCEPTION_ILLEGAL_FUNCTION \<equiv> (1 :: int)"
abbreviation (input) "MODBUS_EXCEPTION_ILLEGAL_DATA_ADDRESS \<equiv> (2 :: int)"
abbreviation (input) "MODBUS_EXCEPTION_ILLEGAL_DATA_VALUE \<equiv> (3 :: int)"
abbreviation (input) "MODBUS_EXCEPTION_MAX \<equiv> (12 :: int)"

abbreviation (input) "EMBXGTAR \<equiv> EMB 11"
abbreviation (input) "EMBBADCRC \<equiv> EMB 12"
abbreviation (input) "EMBBADDATA \<equiv> EMB 13"
abbreviation (input) "EMBBADEXC \<equiv> EMB 14"
abbreviation (input) "EMBMDATA \<equiv> EMB 16"
abbreviation (input) "EMBBADSLAVE \<equiv> EMB 17"

section \<open>Constants of the protocol\<close>

abbreviation (input) "MODBUS_FC_READ_COILS \<equiv> (0x01 :: int)"
abbreviation (input) "MODBUS_FC_READ_DISCRETE_INPUTS \<equiv> (0x02 :: int)"
abbreviation (input) "MODBUS_FC_READ_HOLDING_REGISTERS \<equiv> (0x03 :: int)"
abbreviation (input) "MODBUS_FC_READ_INPUT_REGISTERS \<equiv> (0x04 :: int)"
abbreviation (input) "MODBUS_FC_WRITE_SINGLE_COIL \<equiv> (0x05 :: int)"
abbreviation (input) "MODBUS_FC_WRITE_SINGLE_REGISTER \<equiv> (0x06 :: int)"
abbreviation (input) "MODBUS_FC_READ_EXCEPTION_STATUS \<equiv> (0x07 :: int)"
abbreviation (input) "MODBUS_FC_WRITE_MULTIPLE_COILS \<equiv> (0x0F :: int)"
abbreviation (input) "MODBUS_FC_WRITE_MULTIPLE_REGISTERS \<equiv> (0x10 :: int)"
abbreviation (input) "MODBUS_FC_REPORT_SLAVE_ID \<equiv> (0x11 :: int)"
abbreviation (input) "MODBUS_FC_FILERECORD_WRITE \<equiv> (0x15 :: int)"
abbreviation (input) "MODBUS_FC_MASK_WRITE_REGISTER \<equiv> (0x16 :: int)"
abbreviation (input) "MODBUS_FC_WRITE_AND_READ_REGISTERS \<equiv> (0x17 :: int)"

abbreviation (input) "MODBUS_BROADCAST_ADDRESS \<equiv> (0 :: int)"
abbreviation (input) "MODBUS_MAX_READ_BITS \<equiv> (2000 :: int)"
abbreviation (input) "MODBUS_MAX_WRITE_BITS \<equiv> (1968 :: int)"
abbreviation (input) "MODBUS_MAX_READ_REGISTERS \<equiv> (125 :: int)"
abbreviation (input) "MODBUS_MAX_WRITE_REGISTERS \<equiv> (123 :: int)"
abbreviation (input) "MODBUS_MAX_WR_WRITE_REGISTERS \<equiv> (121 :: int)"
abbreviation (input) "MODBUS_MAX_WR_READ_REGISTERS \<equiv> (125 :: int)"
abbreviation (input) "MODBUS_MAX_PDU_LENGTH \<equiv> (253 :: int)"
abbreviation (input) "MODBUS_RTU_MAX_ADU_LENGTH \<equiv> (256 :: int)"
abbreviation (input) "MAX_MESSAGE_LENGTH \<equiv> (260 :: nat)"
abbreviation (input) "MIN_REQ_LENGTH \<equiv> (12 :: nat)"
abbreviation (input) "MSG_LENGTH_UNDEFINED \<equiv> (- 1 :: int)"
abbreviation (input) "UART1_RxBffSz \<equiv> (256 :: int)"

section \<open>State\<close>

text \<open>What one call of \<open>modbus_serial_recv\<close> meets: the bytes the UART received up to the idle line,
  or nothing before the timeout.\<close>

datatype reception = Rx "u8 list" | RxTimeout

record serial_port =
  sent :: "u8 list list"
  incoming :: "reception list"
  serial_baud :: "int option"

record modbus_rtu =
  device :: string
  baud :: int
  parity :: char
  data_bit :: int
  stop_bit :: int
  confirmation_to_ignore :: bool

text \<open>\<open>struct _modbus\<close>; the panel has one instance, the static \<open>modbus\<close> of \<open>modbus_new_rtu\<close>.\<close>

record modbus =
  slave :: int
  sock :: int
  debug :: bool
  error_recovery :: int
  response_timeout :: int
  byte_timeout :: "int \<times> int"
  indication_timeout :: "int \<times> int"
  backend_data :: modbus_rtu

text \<open>The whole library state: the context, \<open>libmodbuserrno\<close>, the static message buffers \<open>req\<close> and
  \<open>rsp\<close> of \<open>modbus.c\<close>, and the serial line.\<close>

record mb =
  ctx :: modbus
  libmodbuserrno :: "errno option"
  g_req :: "u8 list"
  g_rsp :: "u8 list"
  port :: serial_port

text \<open>A \<open>modbus_t *\<close> argument.\<close>

datatype modbus_ptr = Null | Ctx

definition set_errno :: "errno \<Rightarrow> mb \<Rightarrow> mb" where
  "set_errno e st = st\<lparr>libmodbuserrno := Some e\<rparr>"

record sft =
  sft_slave :: int
  sft_function :: int
  sft_t_id :: int

datatype msg_type = MSG_INDICATION | MSG_CONFIRMATION

datatype backend_type = BACKEND_TYPE_RTU | BACKEND_TYPE_TCP

section \<open>The backend interface\<close>

text \<open>A function that fills a buffer returns it; one that takes a length by reference returns the new
  length.  \<open>receive\<close> is given \<open>_modbus_receive_msg\<close>, which it calls back.\<close>

record modbus_backend =
  backend_type :: backend_type
  header_length :: int
  checksum_length :: int
  max_adu_length :: int
  be_set_slave :: "mb \<Rightarrow> int \<Rightarrow> int \<times> mb"
  build_request_basis :: "mb \<Rightarrow> int \<Rightarrow> int \<Rightarrow> int \<Rightarrow> u8 list \<Rightarrow> (int \<times> u8 list) option"
  build_response_basis :: "sft \<Rightarrow> u8 list \<Rightarrow> (int \<times> u8 list) option"
  prepare_response_tid :: "u8 list \<Rightarrow> int \<Rightarrow> int \<times> int"
  send_msg_pre :: "u8 list \<Rightarrow> int \<Rightarrow> (int \<times> u8 list) option"
  be_send :: "mb \<Rightarrow> u8 list \<Rightarrow> int \<Rightarrow> (int \<times> mb) option"
  be_receive :: "(mb \<Rightarrow> u8 list \<Rightarrow> msg_type \<Rightarrow> (int \<times> u8 list \<times> mb) option)
    \<Rightarrow> mb \<Rightarrow> u8 list \<Rightarrow> (int \<times> u8 list \<times> mb) option"
  be_recv :: "mb \<Rightarrow> u8 list \<Rightarrow> int \<Rightarrow> (int \<times> u8 list \<times> mb) option"
  check_integrity :: "mb \<Rightarrow> u8 list \<Rightarrow> int \<Rightarrow> (int \<times> mb) option"
  pre_check_confirmation :: "(mb \<Rightarrow> u8 list \<Rightarrow> u8 list \<Rightarrow> int \<Rightarrow> (int \<times> mb) option) option"
  be_connect :: "mb \<Rightarrow> int \<times> mb"
  be_close :: "mb \<Rightarrow> mb"
  be_flush :: "mb \<Rightarrow> int \<times> mb"
  be_select :: "mb \<Rightarrow> int"
  be_free :: "mb \<Rightarrow> mb"

section \<open>The serial port: libmodbusport/rtuport.c\<close>

definition modbus_serial_send :: "mb \<Rightarrow> u8 list \<Rightarrow> int \<Rightarrow> (int \<times> mb) option" where
  "modbus_serial_send st req req_length = do {
     bs \<leftarrow> rds req 0 req_length;
     Some (req_length, st\<lparr>port := (port st)\<lparr>sent := sent (port st) @ [bs]\<rparr>\<rparr>)
   }"

text \<open>The DMA stream is armed for \<open>rsp_length\<close> bytes; the number received is computed from the
  constant \<open>UART1_RxBffSz\<close> and what the stream has left.\<close>

definition modbus_serial_recv :: "mb \<Rightarrow> u8 list \<Rightarrow> int \<Rightarrow> (int \<times> u8 list \<times> mb) option" where
  "modbus_serial_recv st rsp rsp_length =
     (case incoming (port st) of
        [] \<Rightarrow> Some (-2, rsp, st)
      | RxTimeout # rest \<Rightarrow> Some (-2, rsp, st\<lparr>port := (port st)\<lparr>incoming := rest\<rparr>\<rparr>)
      | Rx bs # rest \<Rightarrow>
          (let got = take (nat rsp_length) bs;
               remain = rsp_length - int (length got);
               received = UART1_RxBffSz - remain;
               st = st\<lparr>port := (port st)\<lparr>incoming := rest\<rparr>\<rparr>
           in do {
             rsp \<leftarrow> wrs rsp 0 got;
             if received = 0 then Some (-1, rsp, st) else Some (received, rsp, st)
           }))"

definition modbus_serial_connect :: "mb \<Rightarrow> int \<Rightarrow> int \<times> mb" where
  "modbus_serial_connect st bd = (0, st\<lparr>port := (port st)\<lparr>serial_baud := Some bd\<rparr>\<rparr>)"

section \<open>The RTU backend: modbus-rtu.c\<close>

definition modbus_rtu_set_slave :: "mb \<Rightarrow> int \<Rightarrow> int \<times> mb" where
  "modbus_rtu_set_slave st sl =
     (if 0 \<le> sl \<and> sl \<le> 247 then (0, st\<lparr>ctx := (ctx st)\<lparr>slave := sl\<rparr>\<rparr>)
      else (-1, set_errno EINVAL st))"

text \<open>The \<open>assert(ctx->slave != -1)\<close> stops the program.\<close>

definition modbus_rtu_build_request_basis ::
    "mb \<Rightarrow> int \<Rightarrow> int \<Rightarrow> int \<Rightarrow> u8 list \<Rightarrow> (int \<times> u8 list) option" where
  "modbus_rtu_build_request_basis st function addr nb req =
     (if slave (ctx st) = -1 then None else do {
        req \<leftarrow> wrs req 0 [word_of_int (slave (ctx st)), word_of_int function,
                       hi8 addr, lo8 addr, hi8 nb, lo8 nb];
        Some (6, req)
      })"

definition modbus_rtu_build_response_basis :: "sft \<Rightarrow> u8 list \<Rightarrow> (int \<times> u8 list) option" where
  "modbus_rtu_build_response_basis sft rsp = do {
     rsp \<leftarrow> wrs rsp 0 [word_of_int (sft_slave sft), word_of_int (sft_function sft)];
     Some (2, rsp)
   }"

definition modbus_rtu_prepare_response_tid :: "u8 list \<Rightarrow> int \<Rightarrow> int \<times> int" where
  "modbus_rtu_prepare_response_tid req req_length = (0, req_length - 2)"

definition modbus_rtu_send_msg_pre :: "u8 list \<Rightarrow> int \<Rightarrow> (int \<times> u8 list) option" where
  "modbus_rtu_send_msg_pre req req_length = do {
     crc \<leftarrow> crc16_rtu req (word_of_int req_length);
     req \<leftarrow> wrs req req_length (reg_bytes crc);
     Some (req_length + 2, req)
   }"

definition modbus_rtu_send :: "mb \<Rightarrow> u8 list \<Rightarrow> int \<Rightarrow> (int \<times> mb) option" where
  "modbus_rtu_send st req req_length = modbus_serial_send st req req_length"

definition set_confirmation_to_ignore :: "bool \<Rightarrow> mb \<Rightarrow> mb" where
  "set_confirmation_to_ignore b st =
     st\<lparr>ctx := (ctx st)\<lparr>backend_data := (backend_data (ctx st))\<lparr>confirmation_to_ignore := b\<rparr>\<rparr>\<rparr>"

definition modbus_rtu_receive ::
    "(mb \<Rightarrow> u8 list \<Rightarrow> msg_type \<Rightarrow> (int \<times> u8 list \<times> mb) option)
      \<Rightarrow> mb \<Rightarrow> u8 list \<Rightarrow> (int \<times> u8 list \<times> mb) option" where
  "modbus_rtu_receive receive_msg st req =
     (if confirmation_to_ignore (backend_data (ctx st)) then do {
        (rc, req, st) \<leftarrow> receive_msg st req MSG_CONFIRMATION;
        Some (0, req, set_confirmation_to_ignore False st)
      } else do {
        (rc, req, st) \<leftarrow> receive_msg st req MSG_INDICATION;
        Some (rc, req, if rc = 0 then set_confirmation_to_ignore True st else st)
      })"

definition modbus_rtu_recv :: "mb \<Rightarrow> u8 list \<Rightarrow> int \<Rightarrow> (int \<times> u8 list \<times> mb) option" where
  "modbus_rtu_recv st rsp rsp_length = do {
     (res, rsp, st) \<leftarrow> modbus_serial_recv st rsp rsp_length;
     if res = -1 then Some (-1, rsp, set_errno EMBXGTAR st)
     else if res = -2 then Some (-1, rsp, set_errno ETIMEDOUT st)
     else Some (res, rsp, st)
   }"

definition modbus_rtu_flush :: "mb \<Rightarrow> int \<times> mb" where
  "modbus_rtu_flush st = (0, st)"

definition modbus_rtu_pre_check_confirmation ::
    "mb \<Rightarrow> u8 list \<Rightarrow> u8 list \<Rightarrow> int \<Rightarrow> (int \<times> mb) option" where
  "modbus_rtu_pre_check_confirmation st req rsp rsp_length = do {
     q \<leftarrow> rd req 0;
     r \<leftarrow> rd rsp 0;
     if q \<noteq> r \<and> uint q \<noteq> MODBUS_BROADCAST_ADDRESS then Some (-1, set_errno EMBBADSLAVE st)
     else Some (0, st)
   }"

definition modbus_rtu_check_integrity :: "mb \<Rightarrow> u8 list \<Rightarrow> int \<Rightarrow> (int \<times> mb) option" where
  "modbus_rtu_check_integrity st msg msg_length = do {
     sl \<leftarrow> rd msg 0;
     if uint sl \<noteq> slave (ctx st) \<and> uint sl \<noteq> MODBUS_BROADCAST_ADDRESS then Some (0, st)
     else do {
       crc_calculated \<leftarrow> crc16_rtu msg (word_of_int (msg_length - 2));
       h \<leftarrow> rd msg (msg_length - 2);
       l \<leftarrow> rd msg (msg_length - 1);
       if uint crc_calculated = be16 h l then Some (msg_length, st)
       else let st = (if bit (error_recovery (ctx st)) 2 then snd (modbus_rtu_flush st) else st)
            in Some (-1, set_errno EMBBADCRC st)
     }
   }"

definition modbus_rtu_connect :: "mb \<Rightarrow> int \<times> mb" where
  "modbus_rtu_connect st = modbus_serial_connect st (baud (backend_data (ctx st)))"

definition modbus_rtu_get_rts :: "modbus_ptr \<Rightarrow> mb \<Rightarrow> int \<times> mb" where
  "modbus_rtu_get_rts p st = (if p = Null then (-1, set_errno EINVAL st) else (-1, st))"

definition modbus_rtu_set_rts :: "modbus_ptr \<Rightarrow> mb \<Rightarrow> int \<Rightarrow> int \<times> mb" where
  "modbus_rtu_set_rts p st mode = (if p = Null then (-1, set_errno EINVAL st) else (-1, st))"

definition modbus_rtu_close :: "mb \<Rightarrow> mb" where
  "modbus_rtu_close st =
     (if sock (ctx st) \<noteq> -1 then st\<lparr>ctx := (ctx st)\<lparr>sock := -1\<rparr>\<rparr> else st)"

definition modbus_rtu_select :: "mb \<Rightarrow> int" where
  "modbus_rtu_select st = 0"

definition modbus_rtu_free :: "mb \<Rightarrow> mb" where
  "modbus_rtu_free st = st"

definition modbus_rtu_backend :: modbus_backend where
  "modbus_rtu_backend =
     \<lparr>backend_type = BACKEND_TYPE_RTU,
      header_length = 1,
      checksum_length = 2,
      max_adu_length = MODBUS_RTU_MAX_ADU_LENGTH,
      be_set_slave = modbus_rtu_set_slave,
      build_request_basis = modbus_rtu_build_request_basis,
      build_response_basis = modbus_rtu_build_response_basis,
      prepare_response_tid = modbus_rtu_prepare_response_tid,
      send_msg_pre = modbus_rtu_send_msg_pre,
      be_send = modbus_rtu_send,
      be_receive = modbus_rtu_receive,
      be_recv = modbus_rtu_recv,
      check_integrity = modbus_rtu_check_integrity,
      pre_check_confirmation = Some modbus_rtu_pre_check_confirmation,
      be_connect = modbus_rtu_connect,
      be_close = modbus_rtu_close,
      be_flush = modbus_rtu_flush,
      be_select = modbus_rtu_select,
      be_free = modbus_rtu_free\<rparr>"

section \<open>Creating the context\<close>

text \<open>\<open>_modbus_init_common\<close> of \<open>modbus.c\<close>.\<close>

definition modbus_init_common :: "modbus \<Rightarrow> modbus" where
  "modbus_init_common c = c\<lparr>slave := -1, sock := -1, debug := False, error_recovery := 0,
     response_timeout := 100000, byte_timeout := (0, 100000), indication_timeout := (0, 0)\<rparr>"

text \<open>\<open>strcpy\<close> into the static \<open>char devicestr[64]\<close>.\<close>

definition modbus_new_rtu ::
    "mb \<Rightarrow> string option \<Rightarrow> int \<Rightarrow> char \<Rightarrow> int \<Rightarrow> int \<Rightarrow> (modbus_ptr \<times> mb) option" where
  "modbus_new_rtu st dev bd par dbit sbit =
     (case dev of
        None \<Rightarrow> Some (Null, set_errno EINVAL st)
      | Some name \<Rightarrow>
          if name = [] then Some (Null, set_errno EINVAL st)
          else if bd = 0 then Some (Null, set_errno EINVAL st)
          else if 64 \<le> length name then None
          else
            let c = modbus_init_common (ctx st);
                r = (backend_data c)\<lparr>device := name, baud := bd\<rparr>
            in if par = CHR ''N'' \<or> par = CHR ''E'' \<or> par = CHR ''O''
               then Some (Ctx, st\<lparr>ctx := c\<lparr>backend_data := r\<lparr>parity := par, data_bit := dbit,
                      stop_bit := sbit, confirmation_to_ignore := False\<rparr>\<rparr>\<rparr>)
               else Some (Null, set_errno EINVAL (st\<lparr>ctx := c\<lparr>backend_data := r\<rparr>\<rparr>)))"

section \<open>What the library relies on in a backend\<close>

text \<open>The static buffers have their declared size and the slave address has been set.\<close>

definition mb_ok :: "mb \<Rightarrow> bool" where
  "mb_ok st \<longleftrightarrow> 0 \<le> slave (ctx st) \<and> slave (ctx st) \<le> 247 \<and>
     length (g_req st) = MAX_MESSAGE_LENGTH \<and> length (g_rsp st) = MAX_MESSAGE_LENGTH"

definition log_sent :: "u8 list \<Rightarrow> mb \<Rightarrow> mb" where
  "log_sent bs st = st\<lparr>port := (port st)\<lparr>sent := sent (port st) @ [bs]\<rparr>\<rparr>"

text \<open>The bytes the next reception delivers, the error it raises when it delivers none, and the
  state after it.\<close>

definition line_read :: "nat \<Rightarrow> mb \<Rightarrow> u8 list" where
  "line_read n st = (case incoming (port st) of Rx bs # _ \<Rightarrow> take n bs | _ \<Rightarrow> [])"

definition line_error :: "mb \<Rightarrow> errno" where
  "line_error st = (case incoming (port st) of Rx _ # _ \<Rightarrow> EMBXGTAR | _ \<Rightarrow> ETIMEDOUT)"

definition line_next :: "mb \<Rightarrow> mb" where
  "line_next st = st\<lparr>port := (port st)\<lparr>incoming := tl (incoming (port st))\<rparr>\<rparr>"

named_theorems mb_frame \<open>which parts of the library state an update leaves alone\<close>

lemma mb_frame_simps [simp, mb_frame]:
  "ctx (log_sent bs st) = ctx st" "g_req (log_sent bs st) = g_req st"
  "g_rsp (log_sent bs st) = g_rsp st" "incoming (port (log_sent bs st)) = incoming (port st)"
  "sent (port (log_sent bs st)) = sent (port st) @ [bs]"
  "libmodbuserrno (log_sent bs st) = libmodbuserrno st"
  "ctx (line_next st) = ctx st" "g_req (line_next st) = g_req st"
  "g_rsp (line_next st) = g_rsp st" "sent (port (line_next st)) = sent (port st)"
  "incoming (port (line_next st)) = tl (incoming (port st))"
  "ctx (set_errno e st) = ctx st" "g_req (set_errno e st) = g_req st"
  "g_rsp (set_errno e st) = g_rsp st" "port (set_errno e st) = port st"
  "libmodbuserrno (set_errno e st) = Some e"
  by (simp_all add: log_sent_def line_next_def set_errno_def)

lemma mb_ok_updates [simp]:
  "mb_ok (log_sent bs st) = mb_ok st" "mb_ok (line_next st) = mb_ok st"
  "mb_ok (set_errno e st) = mb_ok st"
  "line_read n (set_errno e st) = line_read n st" "line_read n (log_sent bs st) = line_read n st"
  by (simp_all add: mb_ok_def line_read_def)

lemma length_line_read: "length (line_read n st) \<le> n"
  by (simp add: line_read_def split: list.split reception.split)

locale modbus_framing =
  fixes be :: modbus_backend
    and hdr :: "mb \<Rightarrow> u8 list"
    and addressed :: "mb \<Rightarrow> u8 list \<Rightarrow> bool"
    and frame :: "u8 list \<Rightarrow> u8 list"
  assumes header_pos: "0 < header_length be"
    and checksum_nonneg: "0 \<le> checksum_length be"
    and max_adu_fits: "0 < max_adu_length be" "max_adu_length be \<le> 260"
    and header_fits: "header_length be + checksum_length be + 253 \<le> max_adu_length be"
    and hdr_length: "int (length (hdr st)) = header_length be"
    and hdr_ctx: "ctx st = ctx st' \<Longrightarrow> hdr st = hdr st'"
    and addressed_ctx: "ctx st = ctx st' \<Longrightarrow> addressed st = addressed st'"
    and addressed_hdr: "mb_ok st \<Longrightarrow> addressed st (hdr st)"
    and addressed_broadcast:
      "addressed st h \<Longrightarrow> int (length h) = header_length be
        \<Longrightarrow> uint (last (hdr st)) = MODBUS_BROADCAST_ADDRESS \<Longrightarrow> mb_ok st \<Longrightarrow> h = hdr st"
    and frame_length: "length (frame m) = length m + nat (checksum_length be)"
    and frame_prefix: "take (length m) (frame m) = m"
    and build_request:
      "mb_ok st \<Longrightarrow> header_length be + 5 \<le> int (length buf)
        \<Longrightarrow> build_request_basis be st function addr nb buf
          = Some (header_length be + 5,
              hdr st @ [word_of_int function, hi8 addr, lo8 addr, hi8 nb, lo8 nb]
                @ drop (nat (header_length be) + 5) buf)"
    and send_pre:
      "nat (checksum_length be) \<le> length rest \<Longrightarrow> length m < 65536
        \<Longrightarrow> send_msg_pre be (m @ rest) (int (length m))
          = Some (int (length (frame m)), frame m @ drop (nat (checksum_length be)) rest)"
    and send:
      "0 \<le> n \<Longrightarrow> n \<le> int (length buf) \<Longrightarrow> be_send be st buf n = Some (n, log_sent (take (nat n) buf) st)"
    and flush: "be_flush be st = (0, st)"
    and recv:
      "max_adu_length be \<le> int (length buf)
        \<Longrightarrow> be_recv be st buf (max_adu_length be)
          = (let bs = line_read (nat (max_adu_length be)) st
             in if bs = [] then Some (-1, buf, set_errno (line_error st) (line_next st))
                else Some (int (length bs), bs @ drop (length bs) buf, line_next st))"
    and integrity:
      "header_length be + checksum_length be < n \<Longrightarrow> n \<le> int (length buf) \<Longrightarrow> n < 65536
        \<Longrightarrow> check_integrity be st buf n
          = Some (if \<not> addressed st (take (nat (header_length be)) buf) then (0, st)
                  else if take (nat n) buf = frame (take (nat (n - checksum_length be)) buf)
                  then (n, st) else (-1, set_errno EMBBADCRC st))"
    and pre_check:
      "\<exists>f. pre_check_confirmation be = Some f \<and>
         (\<forall>st req rsp n. header_length be \<le> int (length req) \<longrightarrow> header_length be \<le> int (length rsp) \<longrightarrow>
            f st req rsp n =
              (if take (nat (header_length be)) req = take (nat (header_length be)) rsp
                  \<or> uint (req ! (nat (header_length be) - 1)) = MODBUS_BROADCAST_ADDRESS
               then Some (0, st) else Some (-1, set_errno EMBBADSLAVE st)))"

section \<open>The RTU backend is an instance\<close>

definition rtu_hdr :: "mb \<Rightarrow> u8 list" where
  "rtu_hdr st = [word_of_int (slave (ctx st))]"

definition rtu_addressed :: "mb \<Rightarrow> u8 list \<Rightarrow> bool" where
  "rtu_addressed st h \<longleftrightarrow>
     uint (hd h) = slave (ctx st) \<or> uint (hd h) = MODBUS_BROADCAST_ADDRESS"

definition rtu_frame :: "u8 list \<Rightarrow> u8 list" where
  "rtu_frame m = m @ crc_bytes (crc16_of crcModBus_table 0xFFFF m)"

lemma length_crc_bytes [simp]: "length (crc_bytes c) = 2"
  by (simp add: crc_bytes_def)

lemma length_rtu_frame [simp]: "length (rtu_frame m) = length m + 2"
  by (simp add: rtu_frame_def)

lemma unat_word16: "n < 65536 \<Longrightarrow> unat (word_of_int (int n) :: u16) = n"
  by (simp add: unsigned_of_nat take_bit_nat_eq_self)

lemma crc16_rtu_prefix:
  "length m < 65536 \<Longrightarrow> crc16_rtu (m @ rest) (word_of_int (int (length m)))
     = Some (bswap16 (crc16_of crcModBus_table 0xFFFF m))"
  by (simp add: crc16_rtu_eq unsigned_of_nat take_bit_nat_eq_self)

lemma rtu_send_msg_pre_frame:
  "2 \<le> length rest \<Longrightarrow> length m < 65536
    \<Longrightarrow> modbus_rtu_send_msg_pre (m @ rest) (int (length m))
      = Some (int (length (rtu_frame m)), rtu_frame m @ drop 2 rest)"
  using crc16_rtu_prefix [of m rest]
  by (simp add: modbus_rtu_send_msg_pre_def mem_simps bswap16_bytes rtu_frame_def
      del: of_int_of_nat_eq)

lemma rtu_recv_law:
  "256 \<le> length buf \<Longrightarrow> modbus_rtu_recv st buf 256
     = (let bs = line_read 256 st
        in if bs = [] then Some (-1, buf, set_errno (line_error st) (line_next st))
           else Some (int (length bs), bs @ drop (length bs) buf, line_next st))"
proof -
  assume len: "256 \<le> length buf"
  have min: "length (take 256 bs) \<le> length buf" for bs :: "u8 list"
    using len by simp
  show ?thesis
  proof (cases "incoming (port st)")
    case Nil
    then show ?thesis
      by (simp add: modbus_rtu_recv_def modbus_serial_recv_def line_read_def line_error_def
          line_next_def)
  next
    case (Cons r rest)
    show ?thesis
    proof (cases r)
      case (Rx bs)
      with Cons min [of bs] len show ?thesis
        by (cases "bs = []")
          (auto simp: modbus_rtu_recv_def modbus_serial_recv_def line_read_def line_error_def
            line_next_def Let_def mem_simps min_def)
    next
      case RxTimeout
      with Cons show ?thesis
        by (simp add: modbus_rtu_recv_def modbus_serial_recv_def line_read_def line_error_def
          line_next_def)
    qed
  qed
qed

lemma be16_eq_uint_bswap: "uint (bswap16 c) = be16 h l \<longleftrightarrow> [h, l] = crc_bytes c"
  by (metis bswap16_bytes reg_bytes_eq_iff)

lemma uint_slave: "mb_ok st \<Longrightarrow> uint (word_of_int (slave (ctx st)) :: u8) = slave (ctx st)"
  by (simp add: mb_ok_def uint_word_of_int take_bit_eq_mod)

lemma rtu_integrity_crc:
  assumes "2 < n" "n \<le> length buf" "n < 65536"
    and "uint (buf ! 0) = slave (ctx st) \<or> uint (buf ! 0) = MODBUS_BROADCAST_ADDRESS"
  shows "modbus_rtu_check_integrity st buf (int n)
     = (if take n buf = rtu_frame (take (n - 2) buf) then Some (int n, st)
        else Some (-1, set_errno EMBBADCRC st))"
proof -
  let ?m = "take (n - 2) buf"
  have "Suc (n - 2) = n - 1" "Suc (n - 1) = n" using assms(1) by simp_all
  with assms(1,2) Cons_nth_drop_Suc [of "n - 2" buf] Cons_nth_drop_Suc [of "n - 1" buf]
  have "drop (n - 2) buf = buf ! (n - 2) # buf ! (n - 1) # drop n buf" by simp
  moreover have "n - 2 + 2 = n" using assms(1) by simp
  ultimately have "take n buf = ?m @ [buf ! (n - 2), buf ! (n - 1)]"
    using take_add [of "n - 2" 2 buf] by (simp del: add_2_eq_Suc')
  then have frame: "take n buf = rtu_frame ?m
      \<longleftrightarrow> [buf ! (n - 2), buf ! (n - 1)] = crc_bytes (crc16_of crcModBus_table 0xFFFF ?m)"
    by (simp add: rtu_frame_def)
  have "length ?m = n - 2" using assms(2) by simp
  with crc16_rtu_prefix [of ?m "drop (n - 2) buf"] assms
  have crc: "crc16_rtu buf (word_of_int (int (n - 2)))
      = Some (bswap16 (crc16_of crcModBus_table 0xFFFF ?m))"
    by simp
  have ints: "int n - 2 = int (n - 2)" "int n - 1 = int (n - 1)"
    using assms(1) by simp_all
  have reads: "rd buf 0 = Some (buf ! 0)" "rd buf (int (n - 2)) = Some (buf ! (n - 2))"
    "rd buf (int (n - 1)) = Some (buf ! (n - 1))"
    by (rule rd_0 rd_int; use assms(1,2) in linarith)+
  show ?thesis
    unfolding modbus_rtu_check_integrity_def ints crc frame reads
    using assms(4) by (auto simp: modbus_rtu_flush_def be16_eq_uint_bswap)
qed

lemma rtu_integrity:
  assumes "3 < n" "n \<le> int (length buf)" "n < 65536"
  shows "modbus_rtu_check_integrity st buf n
     = Some (if \<not> rtu_addressed st (take 1 buf) then (0, st)
             else if take (nat n) buf = rtu_frame (take (nat (n - 2)) buf) then (n, st)
             else (-1, set_errno EMBBADCRC st))"
proof -
  have hd: "hd (take 1 buf) = buf ! 0" and rd: "rd buf 0 = Some (buf ! 0)"
    using assms by (cases buf; simp add: rd_def)+
  show ?thesis
  proof (cases "uint (buf ! 0) = slave (ctx st) \<or> uint (buf ! 0) = MODBUS_BROADCAST_ADDRESS")
    case True
    define k where "k = nat n"
    then have k: "n = int k" using assms(1) by simp
    with rtu_integrity_crc [OF _ _ _ True, of k] True assms hd show ?thesis
      by (auto simp: nat_diff_distrib rtu_addressed_def)
  next
    case False
    with hd rd show ?thesis by (simp add: modbus_rtu_check_integrity_def rtu_addressed_def)
  qed
qed

lemma rtu_pre_check:
  "Suc 0 \<le> length req \<Longrightarrow> Suc 0 \<le> length rsp \<Longrightarrow>
     modbus_rtu_pre_check_confirmation st req rsp n =
       (if take (Suc 0) req = take (Suc 0) rsp \<or> uint (req ! 0) = MODBUS_BROADCAST_ADDRESS
        then Some (0, st) else Some (-1, set_errno EMBBADSLAVE st))"
  by (cases req; cases rsp) (auto simp: modbus_rtu_pre_check_confirmation_def rd_def)

interpretation rtu: modbus_framing modbus_rtu_backend rtu_hdr rtu_addressed rtu_frame
proof (unfold_locales, goal_cases)
  case (9 st)
  then show ?case by (simp add: rtu_hdr_def rtu_addressed_def uint_slave)
next
  case (10 st h)
  then show ?case
    by (cases h) (auto simp: rtu_hdr_def rtu_addressed_def uint_slave modbus_rtu_backend_def
        word_uint_eq_iff)
next
  case (13 st buf fc addr nb)
  then show ?case
    by (simp add: modbus_rtu_backend_def modbus_rtu_build_request_basis_def mb_ok_def mem_simps
        rtu_hdr_def numeral_eq_Suc)
next
  case (14 rest m)
  then show ?case
    using rtu_send_msg_pre_frame [of rest m] by (simp add: modbus_rtu_backend_def)
next
  case (15 n buf st)
  then show ?case
    by (simp add: modbus_rtu_backend_def modbus_rtu_send_def modbus_serial_send_def mem_simps
        log_sent_def)
next
  case (17 buf st)
  then show ?case
    using rtu_recv_law [of buf st] by (simp add: modbus_rtu_backend_def)
next
  case (18 n buf st)
  then show ?case
    using rtu_integrity [of n buf st] by (simp add: modbus_rtu_backend_def)
next
  case 19
  then show ?case
    by (auto simp: modbus_rtu_backend_def rtu_pre_check)
qed (simp_all add: modbus_rtu_backend_def rtu_hdr_def rtu_frame_def modbus_rtu_flush_def
    rtu_addressed_def fun_eq_iff)

end
