(* ===== verification/ModbusClient.thy ===== *)
theory ModbusClient
  imports ModbusBase "HOL-Library.Signed_Division"
begin

unbundle bit_operations_syntax

text \<open>
  The backend-independent core of \<open>libmodbus/src/modbus.c\<close> and its client (master) functions:
  sending and receiving messages, checking a confirmation against its request, and the
  \<open>modbus_read_*\<close> and \<open>modbus_write_*\<close> operations.  The client lemmas are proved in the locale
  \<open>modbus_framing\<close>, for any backend, and instantiated at the RTU backend.
\<close>

section \<open>Messages\<close>

definition modbus_strerror :: "(errno \<Rightarrow> string) \<Rightarrow> errno \<Rightarrow> string" where
  "modbus_strerror strerror errnum =
     (if errnum = EMB 1 then ''Illegal function''
      else if errnum = EMB 2 then ''Illegal data address''
      else if errnum = EMB 3 then ''Illegal data value''
      else if errnum = EMB 4 then ''Slave device or server failure''
      else if errnum = EMB 5 then ''Acknowledge''
      else if errnum = EMB 6 then ''Slave device or server is busy''
      else if errnum = EMB 7 then ''Negative acknowledge''
      else if errnum = EMB 8 then ''Memory parity error''
      else if errnum = EMB 10 then ''Gateway path unavailable''
      else if errnum = EMBXGTAR then ''Target device failed to respond''
      else if errnum = EMBBADCRC then ''Invalid CRC''
      else if errnum = EMBBADDATA then ''Invalid data''
      else if errnum = EMBBADEXC then ''Invalid exception code''
      else if errnum = EMBMDATA then ''Too many data''
      else if errnum = EMBBADSLAVE then ''Response not from requested slave''
      else strerror errnum)"

definition modbus_flush :: "modbus_backend \<Rightarrow> modbus_ptr \<Rightarrow> mb \<Rightarrow> int \<times> mb" where
  "modbus_flush be p st = (if p = Null then (-1, set_errno EINVAL st) else be_flush be st)"

definition modbus_connect :: "modbus_backend \<Rightarrow> modbus_ptr \<Rightarrow> mb \<Rightarrow> int \<times> mb" where
  "modbus_connect be p st = (if p = Null then (-1, set_errno EINVAL st) else be_connect be st)"

definition modbus_close :: "modbus_backend \<Rightarrow> modbus_ptr \<Rightarrow> mb \<Rightarrow> mb" where
  "modbus_close be p st = (if p = Null then st else be_close be st)"

definition modbus_free :: "modbus_backend \<Rightarrow> modbus_ptr \<Rightarrow> mb \<Rightarrow> mb" where
  "modbus_free be p st = (if p = Null then st else be_free be st)"

text \<open>\<open>compute_response_length_from_request\<close>: the length of the confirmation that answers \<open>req\<close>.\<close>

definition compute_response_length_from_request :: "modbus_backend \<Rightarrow> u8 list \<Rightarrow> int option" where
  "compute_response_length_from_request be req = (let offset = header_length be in do {
     fc \<leftarrow> rd req offset;
     let total = (\<lambda>len. Some (offset + len + checksum_length be)) in
     if uint fc = MODBUS_FC_READ_COILS \<or> uint fc = MODBUS_FC_READ_DISCRETE_INPUTS then do {
       h \<leftarrow> rd req (offset + 3);
       l \<leftarrow> rd req (offset + 4);
       let nb = be16 h l in
       total (2 + nb div 8 + (if nb mod 8 \<noteq> 0 then 1 else 0))
     } else if uint fc = MODBUS_FC_WRITE_AND_READ_REGISTERS
         \<or> uint fc = MODBUS_FC_READ_HOLDING_REGISTERS
         \<or> uint fc = MODBUS_FC_READ_INPUT_REGISTERS then do {
       h \<leftarrow> rd req (offset + 3);
       l \<leftarrow> rd req (offset + 4);
       total (2 + 2 * be16 h l)
     } else if uint fc = MODBUS_FC_READ_EXCEPTION_STATUS then total 3
     else if uint fc = MODBUS_FC_REPORT_SLAVE_ID then Some MSG_LENGTH_UNDEFINED
     else if uint fc = MODBUS_FC_MASK_WRITE_REGISTER then total 7
     else total 5
   })"

definition link_recovery :: "mb \<Rightarrow> bool" where
  "link_recovery st = bit (error_recovery (ctx st)) 1"

definition protocol_recovery :: "mb \<Rightarrow> bool" where
  "protocol_recovery st = bit (error_recovery (ctx st)) 2"

text \<open>The repair after a failed send: reconnect or flush, keeping the error number.\<close>

definition repair_link :: "modbus_backend \<Rightarrow> mb \<Rightarrow> mb" where
  "repair_link be st =
     (let saved = libmodbuserrno st;
          st = (if saved \<in> {Some EBADF, Some ECONNRESET, Some EPIPE}
                then snd (modbus_connect be Ctx (modbus_close be Ctx st))
                else snd (modbus_flush be Ctx st))
      in st\<lparr>libmodbuserrno := saved\<rparr>)"

text \<open>The \<open>do ... while\<close> of \<open>send_msg\<close>: in link recovery mode a failing send is retried for ever.
  The function is partial; \<^term>\<open>None\<close> also stands for this.\<close>

partial_function (option) send_loop ::
    "modbus_backend \<Rightarrow> mb \<Rightarrow> u8 list \<Rightarrow> int \<Rightarrow> (int \<times> mb) option" where
  "send_loop be st msg n = do {
     (rc, st) \<leftarrow> be_send be st msg n;
     if rc = -1 \<and> link_recovery st then send_loop be (repair_link be st) msg n
     else Some (rc, st)
   }"

definition send_msg :: "modbus_backend \<Rightarrow> mb \<Rightarrow> u8 list \<Rightarrow> int \<Rightarrow> (int \<times> u8 list \<times> mb) option" where
  "send_msg be st msg msg_length = do {
     (n, msg) \<leftarrow> send_msg_pre be msg msg_length;
     (rc, st) \<leftarrow> send_loop be st msg n;
     if rc > 0 \<and> rc \<noteq> n then Some (-1, msg, set_errno EMBBADDATA st)
     else Some (rc, msg, st)
   }"

definition modbus_send_raw_request ::
    "modbus_backend \<Rightarrow> modbus_ptr \<Rightarrow> mb \<Rightarrow> u8 list \<Rightarrow> int \<Rightarrow> (int \<times> mb) option" where
  "modbus_send_raw_request be p st raw_req raw_req_length =
     (if p = Null then Some (-1, set_errno EINVAL st)
      else if raw_req_length < 2 \<or> raw_req_length > MODBUS_MAX_PDU_LENGTH + 1
      then Some (-1, set_errno EINVAL st)
      else do {
        sl \<leftarrow> rd raw_req 0;
        fc \<leftarrow> rd raw_req 1;
        (req_length, req) \<leftarrow> build_response_basis be
           \<lparr>sft_slave = uint sl, sft_function = uint fc, sft_t_id = 0\<rparr> (g_req st);
        (req_length, req) \<leftarrow>
          (if raw_req_length > 2 then do {
             bs \<leftarrow> rds raw_req 2 (raw_req_length - 2);
             req \<leftarrow> wrs req req_length bs;
             Some (req_length + (raw_req_length - 2), req)
           } else Some (req_length, req));
        (rc, req, st) \<leftarrow> send_msg be st req req_length;
        Some (rc, st\<lparr>g_req := req\<rparr>)
      })"

definition compute_meta_length_after_function :: "int \<Rightarrow> msg_type \<Rightarrow> int" where
  "compute_meta_length_after_function fc ty =
     (if ty = MSG_INDICATION then
        (if fc \<le> MODBUS_FC_WRITE_SINGLE_REGISTER then 4
         else if fc = MODBUS_FC_WRITE_MULTIPLE_COILS \<or> fc = MODBUS_FC_WRITE_MULTIPLE_REGISTERS then 5
         else if fc = MODBUS_FC_MASK_WRITE_REGISTER then 6
         else if fc = MODBUS_FC_WRITE_AND_READ_REGISTERS then 9
         else 0)
      else
        (if fc = MODBUS_FC_WRITE_SINGLE_COIL \<or> fc = MODBUS_FC_WRITE_SINGLE_REGISTER
            \<or> fc = MODBUS_FC_WRITE_MULTIPLE_COILS \<or> fc = MODBUS_FC_WRITE_MULTIPLE_REGISTERS then 4
         else if fc = MODBUS_FC_FILERECORD_WRITE then 1
         else if fc = MODBUS_FC_MASK_WRITE_REGISTER then 6
         else 1))"

definition compute_data_length_after_meta :: "modbus_backend \<Rightarrow> u8 list \<Rightarrow> msg_type \<Rightarrow> int option" where
  "compute_data_length_after_meta be msg ty = do {
     f \<leftarrow> rd msg (header_length be);
     let fc = uint f in do {
     len \<leftarrow>
       (if ty = MSG_INDICATION then
          (if fc = MODBUS_FC_WRITE_MULTIPLE_COILS \<or> fc = MODBUS_FC_WRITE_MULTIPLE_REGISTERS
           then map_option uint (rd msg (header_length be + 5))
           else if fc = MODBUS_FC_WRITE_AND_READ_REGISTERS
           then map_option uint (rd msg (header_length be + 9))
           else Some 0)
        else
          (if fc \<le> MODBUS_FC_READ_INPUT_REGISTERS \<or> fc = MODBUS_FC_REPORT_SLAVE_ID
              \<or> fc = MODBUS_FC_WRITE_AND_READ_REGISTERS \<or> fc = MODBUS_FC_FILERECORD_WRITE
           then map_option uint (rd msg (header_length be + 1))
           else Some 0));
     Some (len + checksum_length be) }
   }"

text \<open>\<open>_modbus_receive_msg\<close>: the caller's buffer is returned with the state.\<close>

definition modbus_receive_msg ::
    "modbus_backend \<Rightarrow> mb \<Rightarrow> u8 list \<Rightarrow> msg_type \<Rightarrow> (int \<times> u8 list \<times> mb) option" where
  "modbus_receive_msg be st msg ty = do {
     (rc, msg, st) \<leftarrow> be_recv be st msg (max_adu_length be);
     let (rc, st) = (if rc = 0 then (-1, set_errno ECONNRESET st) else (rc, st)) in do {
       f \<leftarrow> rd msg (header_length be);
       data \<leftarrow> compute_data_length_after_meta be msg ty;
       let length_to_read =
         header_length be + 1 + compute_meta_length_after_function (uint f) ty + data in
       if rc \<noteq> length_to_read then Some (-1, msg, st)
       else do {
         (rc, st) \<leftarrow> check_integrity be st msg rc;
         Some (rc, msg, st)
       }
     }
   }"

definition modbus_receive ::
    "modbus_backend \<Rightarrow> modbus_ptr \<Rightarrow> mb \<Rightarrow> u8 list \<Rightarrow> (int \<times> u8 list \<times> mb) option" where
  "modbus_receive be p st req =
     (if p = Null then Some (-1, req, set_errno EINVAL st)
      else be_receive be (modbus_receive_msg be) st req)"

definition modbus_receive_confirmation ::
    "modbus_backend \<Rightarrow> modbus_ptr \<Rightarrow> mb \<Rightarrow> u8 list \<Rightarrow> (int \<times> u8 list \<times> mb) option" where
  "modbus_receive_confirmation be p st rsp =
     (if p = Null then Some (-1, rsp, set_errno EINVAL st)
      else modbus_receive_msg be st rsp MSG_CONFIRMATION)"

text \<open>The flush that several error paths make in protocol recovery mode.\<close>

definition recover_protocol :: "modbus_backend \<Rightarrow> mb \<Rightarrow> mb" where
  "recover_protocol be st = (if protocol_recovery st then snd (modbus_flush be Ctx st) else st)"

text \<open>The number of values in a request and in its confirmation, the \<open>switch\<close> at the end of
  \<open>check_confirmation\<close>.\<close>

definition confirmation_counts ::
    "modbus_backend \<Rightarrow> u8 list \<Rightarrow> u8 list \<Rightarrow> int \<Rightarrow> (int \<times> int) option" where
  "confirmation_counts be req rsp fc = (let offset = header_length be in
     if fc = MODBUS_FC_READ_COILS \<or> fc = MODBUS_FC_READ_DISCRETE_INPUTS then do {
       h \<leftarrow> rd req (offset + 3);
       l \<leftarrow> rd req (offset + 4);
       c \<leftarrow> rd rsp (offset + 1);
       let nb = be16 h l in
       Some (nb div 8 + (if nb mod 8 \<noteq> 0 then 1 else 0), uint c)
     } else if fc = MODBUS_FC_WRITE_AND_READ_REGISTERS \<or> fc = MODBUS_FC_READ_HOLDING_REGISTERS
         \<or> fc = MODBUS_FC_READ_INPUT_REGISTERS then do {
       h \<leftarrow> rd req (offset + 3);
       l \<leftarrow> rd req (offset + 4);
       c \<leftarrow> rd rsp (offset + 1);
       Some (be16 h l, uint c div 2)
     } else if fc = MODBUS_FC_WRITE_MULTIPLE_COILS \<or> fc = MODBUS_FC_WRITE_MULTIPLE_REGISTERS then do {
       h \<leftarrow> rd req (offset + 3);
       l \<leftarrow> rd req (offset + 4);
       h' \<leftarrow> rd rsp (offset + 3);
       l' \<leftarrow> rd rsp (offset + 4);
       Some (be16 h l, be16 h' l')
     } else if fc = MODBUS_FC_REPORT_SLAVE_ID then do {
       c \<leftarrow> rd rsp (offset + 1);
       Some (uint c, uint c)
     } else Some (1, 1))"

definition check_confirmation ::
    "modbus_backend \<Rightarrow> mb \<Rightarrow> u8 list \<Rightarrow> u8 list \<Rightarrow> int \<Rightarrow> (int \<times> mb) option" where
  "check_confirmation be st req rsp rsp_length = (let offset = header_length be in do {
     f \<leftarrow> rd rsp offset;
     let fc = uint f in do {
     (rc, st) \<leftarrow> (case pre_check_confirmation be of
                   Some pre \<Rightarrow> pre st req rsp rsp_length
                 | None \<Rightarrow> Some (0, st));
     if rc = -1 then Some (-1, recover_protocol be st)
     else do {
     rsp_length_computed \<leftarrow> compute_response_length_from_request be req;
     q \<leftarrow> rd req offset;
     if fc \<ge> 0x80 then
       (if rsp_length = offset + 2 + checksum_length be \<and> uint q = fc - 0x80 then do {
          c \<leftarrow> rd rsp (offset + 1);
          let exception_code = uint c in
          Some (-1, set_errno (if exception_code < MODBUS_EXCEPTION_MAX then EMB exception_code
                               else EMBBADEXC) st)
        } else Some (-1, set_errno EMBBADEXC st))
     else if rsp_length = rsp_length_computed \<or> rsp_length_computed = MSG_LENGTH_UNDEFINED then
       (if fc \<noteq> uint q then Some (-1, set_errno EMBBADDATA (recover_protocol be st))
        else do {
          (req_nb_value, rsp_nb_value) \<leftarrow> confirmation_counts be req rsp fc;
          if req_nb_value = rsp_nb_value then Some (rsp_nb_value, st)
          else Some (-1, set_errno EMBBADDATA (recover_protocol be st))
        })
     else Some (-1, set_errno EMBBADDATA (recover_protocol be st))
   } } })"

section \<open>Client operations\<close>

text \<open>What every client function does with a request of \<open>req_length\<close> bytes that it has put in
  \<open>req\<close>: send it, and when it went out wait for the confirmation in \<open>rsp\<close> and check it.\<close>

definition transact ::
    "modbus_backend \<Rightarrow> mb \<Rightarrow> u8 list \<Rightarrow> int \<Rightarrow> (int \<times> u8 list \<times> mb) option" where
  "transact be st req req_length = do {
     (rc, req, st) \<leftarrow> send_msg be st req req_length;
     if rc > 0 then do {
       (rc, rsp, st) \<leftarrow> modbus_receive_msg be st (g_rsp st) MSG_CONFIRMATION;
       let st = st\<lparr>g_rsp := rsp\<rparr> in
       if rc = -1 then Some (-1, req, st)
       else do {
         (rc, st) \<leftarrow> check_confirmation be st req (g_rsp st) rc;
         Some (rc, req, st)
       }
     } else Some (rc, req, st)
   }"

text \<open>A request in the static buffer \<open>req\<close>.\<close>

definition transact_static ::
    "modbus_backend \<Rightarrow> mb \<Rightarrow> u8 list \<Rightarrow> int \<Rightarrow> (int \<times> mb) option" where
  "transact_static be st req req_length = do {
     (rc, req, st) \<leftarrow> transact be st req req_length;
     Some (rc, st\<lparr>g_req := req\<rparr>)
   }"

text \<open>The two loops of \<open>read_io_status\<close>: \<open>k\<close> is the position of the mask \<open>bit\<close>, \<open>n\<close> the number of
  response bytes left.\<close>

function unpack_byte :: "u8 \<Rightarrow> nat \<Rightarrow> int \<Rightarrow> int \<Rightarrow> u8 list \<Rightarrow> (int \<times> u8 list) option" where
  "unpack_byte temp k pos nb dest =
     (if k < 8 \<and> pos < nb then do {
        dest \<leftarrow> wr dest pos (if bit temp k then 1 else 0);
        unpack_byte temp (Suc k) (pos + 1) nb dest
      } else Some (pos, dest))"
  by pat_completeness auto
termination by (relation "measure (\<lambda>(temp, k, pos, nb, dest). 8 - k)") auto

declare unpack_byte.simps [simp del]

fun unpack_bits :: "u8 list \<Rightarrow> int \<Rightarrow> nat \<Rightarrow> int \<Rightarrow> int \<Rightarrow> u8 list \<Rightarrow> u8 list option" where
  "unpack_bits rsp i 0 pos nb dest = Some dest"
| "unpack_bits rsp i (Suc n) pos nb dest = do {
     temp \<leftarrow> rd rsp i;
     (pos, dest) \<leftarrow> unpack_byte temp 0 pos nb dest;
     unpack_bits rsp (i + 1) n pos nb dest
   }"

definition read_io_status ::
    "modbus_backend \<Rightarrow> mb \<Rightarrow> int \<Rightarrow> int \<Rightarrow> int \<Rightarrow> u8 list \<Rightarrow> (int \<times> u8 list \<times> mb) option" where
  "read_io_status be st fc addr nb dest = do {
     (req_length, req) \<leftarrow> build_request_basis be st fc addr nb (g_req st);
     (rc, st) \<leftarrow> transact_static be st req req_length;
     if rc = -1 then Some (-1, dest, st)
     else do {
       dest \<leftarrow> unpack_bits (g_rsp st) (header_length be + 2) (nat rc) 0 nb dest;
       Some (rc, dest, st)
     }
   }"

definition modbus_read_bits ::
    "modbus_backend \<Rightarrow> modbus_ptr \<Rightarrow> mb \<Rightarrow> int \<Rightarrow> int \<Rightarrow> u8 list \<Rightarrow> (int \<times> u8 list \<times> mb) option" where
  "modbus_read_bits be p st addr nb dest =
     (if p = Null then Some (-1, dest, set_errno EINVAL st)
      else if nb > MODBUS_MAX_READ_BITS then Some (-1, dest, set_errno EMBMDATA st)
      else do {
        (rc, dest, st) \<leftarrow> read_io_status be st MODBUS_FC_READ_COILS addr nb dest;
        if rc = -1 then Some (-1, dest, st) else Some (nb, dest, st)
      })"

definition modbus_read_input_bits ::
    "modbus_backend \<Rightarrow> modbus_ptr \<Rightarrow> mb \<Rightarrow> int \<Rightarrow> int \<Rightarrow> u8 list \<Rightarrow> (int \<times> u8 list \<times> mb) option" where
  "modbus_read_input_bits be p st addr nb dest =
     (if p = Null then Some (-1, dest, set_errno EINVAL st)
      else if nb > MODBUS_MAX_READ_BITS then Some (-1, dest, set_errno EMBMDATA st)
      else do {
        (rc, dest, st) \<leftarrow> read_io_status be st MODBUS_FC_READ_DISCRETE_INPUTS addr nb dest;
        if rc = -1 then Some (-1, dest, st) else Some (nb, dest, st)
      })"

text \<open>\<open>dest[i] = (rsp[pos] << 8) | rsp[pos + 1]\<close> for the \<open>n\<close> registers left.\<close>

fun copy_regs :: "u8 list \<Rightarrow> int \<Rightarrow> nat \<Rightarrow> int \<Rightarrow> u16 list \<Rightarrow> u16 list option" where
  "copy_regs rsp pos 0 i dest = Some dest"
| "copy_regs rsp pos (Suc n) i dest = do {
     h \<leftarrow> rd rsp pos;
     l \<leftarrow> rd rsp (pos + 1);
     dest \<leftarrow> wr dest i (word_of_int (be16 h l));
     copy_regs rsp (pos + 2) n (i + 1) dest
   }"

definition read_registers ::
    "modbus_backend \<Rightarrow> mb \<Rightarrow> int \<Rightarrow> int \<Rightarrow> int \<Rightarrow> u16 list \<Rightarrow> (int \<times> u16 list \<times> mb) option" where
  "read_registers be st fc addr nb dest =
     (if nb > MODBUS_MAX_READ_REGISTERS then Some (-1, dest, set_errno EMBMDATA st)
      else do {
        (req_length, req) \<leftarrow> build_request_basis be st fc addr nb (g_req st);
        (rc, st) \<leftarrow> transact_static be st req req_length;
        if rc = -1 then Some (-1, dest, st)
        else do {
          dest \<leftarrow> copy_regs (g_rsp st) (header_length be + 2) (nat rc) 0 dest;
          Some (rc, dest, st)
        }
      })"

definition modbus_read_registers ::
    "modbus_backend \<Rightarrow> modbus_ptr \<Rightarrow> mb \<Rightarrow> int \<Rightarrow> int \<Rightarrow> u16 list \<Rightarrow> (int \<times> u16 list \<times> mb) option" where
  "modbus_read_registers be p st addr nb dest =
     (if p = Null then Some (-1, dest, set_errno EINVAL st)
      else if nb > MODBUS_MAX_READ_REGISTERS then Some (-1, dest, set_errno EMBMDATA st)
      else read_registers be st MODBUS_FC_READ_HOLDING_REGISTERS addr nb dest)"

definition modbus_read_input_registers ::
    "modbus_backend \<Rightarrow> modbus_ptr \<Rightarrow> mb \<Rightarrow> int \<Rightarrow> int \<Rightarrow> u16 list \<Rightarrow> (int \<times> u16 list \<times> mb) option" where
  "modbus_read_input_registers be p st addr nb dest =
     (if p = Null then Some (-1, dest, set_errno EINVAL st)
      else if nb > MODBUS_MAX_READ_REGISTERS then Some (-1, dest, set_errno EMBMDATA st)
      else read_registers be st MODBUS_FC_READ_INPUT_REGISTERS addr nb dest)"

text \<open>A local buffer before its first store.  Its contents are indeterminate in C; no byte of it is
  read before it is written.\<close>

definition uninit :: "nat \<Rightarrow> u8 list" where
  "uninit n = replicate n 0"

definition write_single :: "modbus_backend \<Rightarrow> modbus_ptr \<Rightarrow> mb \<Rightarrow> int \<Rightarrow> int \<Rightarrow> u16 \<Rightarrow> (int \<times> mb) option" where
  "write_single be p st fc addr value =
     (if p = Null then Some (-1, set_errno EINVAL st)
      else do {
        (req_length, req) \<leftarrow> build_request_basis be st fc addr (uint value) (uninit MIN_REQ_LENGTH);
        (rc, req, st) \<leftarrow> transact be st req req_length;
        Some (rc, st)
      })"

definition modbus_write_bit :: "modbus_backend \<Rightarrow> modbus_ptr \<Rightarrow> mb \<Rightarrow> int \<Rightarrow> int \<Rightarrow> (int \<times> mb) option" where
  "modbus_write_bit be p st addr status =
     (if p = Null then Some (-1, set_errno EINVAL st)
      else write_single be p st MODBUS_FC_WRITE_SINGLE_COIL addr (if status \<noteq> 0 then 0xFF00 else 0))"

definition modbus_write_register :: "modbus_backend \<Rightarrow> modbus_ptr \<Rightarrow> mb \<Rightarrow> int \<Rightarrow> u16 \<Rightarrow> (int \<times> mb) option" where
  "modbus_write_register be p st addr value =
     (if p = Null then Some (-1, set_errno EINVAL st)
      else write_single be p st MODBUS_FC_WRITE_SINGLE_REGISTER addr value)"

text \<open>The loops of \<open>modbus_write_bits\<close>: \<open>k\<close> is the position of the mask \<open>bit\<close>, \<open>acc\<close> the byte
  \<open>req[req_length]\<close>, \<open>n\<close> the number of bytes left.\<close>

function pack_byte :: "nat \<Rightarrow> int \<Rightarrow> int \<Rightarrow> int \<Rightarrow> u8 list \<Rightarrow> u8 \<Rightarrow> (int \<times> int \<times> u8) option" where
  "pack_byte k bit_check pos nb src acc =
     (if k < 8 then
        if bit_check < nb then do {
          v \<leftarrow> rd src pos;
          pack_byte (Suc k) (bit_check + 1) (pos + 1) nb src
            (if v \<noteq> 0 then acc OR push_bit k 1 else acc AND NOT (push_bit k 1))
        } else Some (bit_check + 1, pos, acc)
      else Some (bit_check, pos, acc))"
  by pat_completeness auto
termination by (relation "measure (\<lambda>(k, _). 8 - k)") auto

declare pack_byte.simps [simp del]

fun pack_bits ::
    "nat \<Rightarrow> int \<Rightarrow> int \<Rightarrow> int \<Rightarrow> u8 list \<Rightarrow> u8 list \<Rightarrow> int \<Rightarrow> (int \<times> u8 list) option" where
  "pack_bits 0 bit_check pos nb src req req_length = Some (req_length, req)"
| "pack_bits (Suc n) bit_check pos nb src req req_length = do {
     (bit_check, pos, b) \<leftarrow> pack_byte 0 bit_check pos nb src 0;
     req \<leftarrow> wr req req_length b;
     pack_bits n bit_check pos nb src req (req_length + 1)
   }"

definition modbus_write_bits ::
    "modbus_backend \<Rightarrow> modbus_ptr \<Rightarrow> mb \<Rightarrow> int \<Rightarrow> int \<Rightarrow> u8 list \<Rightarrow> (int \<times> mb) option" where
  "modbus_write_bits be p st addr nb src =
     (if p = Null then Some (-1, set_errno EINVAL st)
      else if nb > MODBUS_MAX_WRITE_BITS then Some (-1, set_errno EMBMDATA st)
      else do {
        (req_length, req) \<leftarrow> build_request_basis be st MODBUS_FC_WRITE_MULTIPLE_COILS addr nb (g_req st);
        let byte_count = nb sdiv 8 + (if nb smod 8 \<noteq> 0 then 1 else 0) in do {
        req \<leftarrow> wr req req_length (word_of_int byte_count);
        (req_length, req) \<leftarrow> pack_bits (nat byte_count) 0 0 nb src req (req_length + 1);
        transact_static be st req req_length }
      })"

text \<open>The stores \<open>req[req_length++] = src[i] >> 8; req[req_length++] = src[i] & 0xFF\<close> for the \<open>n\<close>
  registers left.\<close>

fun store_regs :: "u16 list \<Rightarrow> int \<Rightarrow> nat \<Rightarrow> u8 list \<Rightarrow> int \<Rightarrow> (int \<times> u8 list) option" where
  "store_regs src i 0 req req_length = Some (req_length, req)"
| "store_regs src i (Suc n) req req_length = do {
     v \<leftarrow> rd src i;
     req \<leftarrow> wrs req req_length (reg_bytes v);
     store_regs src (i + 1) n req (req_length + 2)
   }"

definition modbus_write_registers ::
    "modbus_backend \<Rightarrow> modbus_ptr \<Rightarrow> mb \<Rightarrow> int \<Rightarrow> int \<Rightarrow> u16 list \<Rightarrow> (int \<times> mb) option" where
  "modbus_write_registers be p st addr nb src =
     (if p = Null then Some (-1, set_errno EINVAL st)
      else if nb > MODBUS_MAX_WRITE_REGISTERS then Some (-1, set_errno EMBMDATA st)
      else do {
        (req_length, req) \<leftarrow> build_request_basis be st MODBUS_FC_WRITE_MULTIPLE_REGISTERS addr nb (g_req st);
        let byte_count = nb * 2 in do {
        req \<leftarrow> wr req req_length (word_of_int byte_count);
        (req_length, req) \<leftarrow> store_regs src 0 (nat nb) req (req_length + 1);
        transact_static be st req req_length }
      })"

text \<open>No NULL check: with a NULL context the C code dereferences it.\<close>

definition modbus_mask_write_register ::
    "modbus_backend \<Rightarrow> modbus_ptr \<Rightarrow> mb \<Rightarrow> int \<Rightarrow> u16 \<Rightarrow> u16 \<Rightarrow> (int \<times> mb) option" where
  "modbus_mask_write_register be p st addr and_mask or_mask =
     (if p = Null then None
      else do {
        (req_length, req) \<leftarrow>
          build_request_basis be st MODBUS_FC_MASK_WRITE_REGISTER addr 0 (uninit (MIN_REQ_LENGTH + 2));
        let req_length = req_length - 2 in do {
        req \<leftarrow> wrs req req_length (reg_bytes and_mask @ reg_bytes or_mask);
        (rc, req, st) \<leftarrow> transact be st req (req_length + 4);
        Some (rc, st) }
      })"

definition modbus_write_and_read_registers ::
    "modbus_backend \<Rightarrow> modbus_ptr \<Rightarrow> mb \<Rightarrow> int \<Rightarrow> int \<Rightarrow> u16 list \<Rightarrow> int \<Rightarrow> int \<Rightarrow> u16 list
      \<Rightarrow> (int \<times> u16 list \<times> mb) option" where
  "modbus_write_and_read_registers be p st write_addr write_nb src read_addr read_nb dest =
     (if p = Null then Some (-1, dest, set_errno EINVAL st)
      else if write_nb > MODBUS_MAX_WR_WRITE_REGISTERS then Some (-1, dest, set_errno EMBMDATA st)
      else if read_nb > MODBUS_MAX_WR_READ_REGISTERS then Some (-1, dest, set_errno EMBMDATA st)
      else do {
        (req_length, req) \<leftarrow>
          build_request_basis be st MODBUS_FC_WRITE_AND_READ_REGISTERS read_addr read_nb (g_req st);
        let byte_count = write_nb * 2 in do {
        req \<leftarrow> wrs req req_length
          [hi8 write_addr, lo8 write_addr, hi8 write_nb, lo8 write_nb, word_of_int byte_count];
        (req_length, req) \<leftarrow> store_regs src 0 (nat write_nb) req (req_length + 5);
        (rc, st) \<leftarrow> transact_static be st req req_length;
        if rc = -1 then Some (-1, dest, st)
        else do {
          dest \<leftarrow> copy_regs (g_rsp st) (header_length be + 2) (nat rc) 0 dest;
          Some (rc, dest, st)
        } }
      })"

definition modbus_report_slave_id ::
    "modbus_backend \<Rightarrow> modbus_ptr \<Rightarrow> mb \<Rightarrow> int \<Rightarrow> u8 list \<Rightarrow> (int \<times> u8 list \<times> mb) option" where
  "modbus_report_slave_id be p st max_dest dest =
     (if p = Null \<or> max_dest \<le> 0 then Some (-1, dest, set_errno EINVAL st)
      else do {
        (req_length, req) \<leftarrow>
          build_request_basis be st MODBUS_FC_REPORT_SLAVE_ID 0 0 (uninit MIN_REQ_LENGTH);
        (rc, req, st) \<leftarrow> transact be st req (req_length - 4);
        if rc = -1 then Some (-1, dest, st)
        else do {
          bs \<leftarrow> rds (g_rsp st) (header_length be + 2) (max 0 (min rc max_dest));
          dest \<leftarrow> wrs dest 0 bs;
          Some (rc, dest, st)
        }
      })"

section \<open>Context parameters\<close>

definition modbus_set_slave :: "modbus_backend \<Rightarrow> modbus_ptr \<Rightarrow> mb \<Rightarrow> int \<Rightarrow> int \<times> mb" where
  "modbus_set_slave be p st sl = (if p = Null then (-1, set_errno EINVAL st) else be_set_slave be st sl)"

definition modbus_get_slave :: "modbus_ptr \<Rightarrow> mb \<Rightarrow> int \<times> mb" where
  "modbus_get_slave p st = (if p = Null then (-1, set_errno EINVAL st) else (slave (ctx st), st))"

definition modbus_set_error_recovery :: "modbus_ptr \<Rightarrow> mb \<Rightarrow> int \<Rightarrow> int \<times> mb" where
  "modbus_set_error_recovery p st mode =
     (if p = Null then (-1, set_errno EINVAL st)
      else (0, st\<lparr>ctx := (ctx st)\<lparr>error_recovery := mode mod 256\<rparr>\<rparr>))"

definition modbus_set_socket :: "modbus_ptr \<Rightarrow> mb \<Rightarrow> int \<Rightarrow> int \<times> mb" where
  "modbus_set_socket p st s =
     (if p = Null then (-1, set_errno EINVAL st) else (0, st\<lparr>ctx := (ctx st)\<lparr>sock := s\<rparr>\<rparr>))"

definition modbus_get_socket :: "modbus_ptr \<Rightarrow> mb \<Rightarrow> int \<times> mb" where
  "modbus_get_socket p st = (if p = Null then (-1, set_errno EINVAL st) else (sock (ctx st), st))"

text \<open>The functions that return a timeout by reference yield it as an option.\<close>

definition modbus_get_response_timeout :: "modbus_ptr \<Rightarrow> mb \<Rightarrow> int \<times> (int \<times> int) option \<times> mb" where
  "modbus_get_response_timeout p st =
     (if p = Null then (-1, None, set_errno EINVAL st)
      else (0, Some (0, response_timeout (ctx st)), st))"

definition modbus_set_response_timeout :: "modbus_ptr \<Rightarrow> mb \<Rightarrow> u32 \<Rightarrow> u32 \<Rightarrow> int \<times> mb" where
  "modbus_set_response_timeout p st to_sec to_usec =
     (if p = Null \<or> (to_sec = 0 \<and> to_usec = 0) \<or> to_usec > 999999 then (-1, set_errno EINVAL st)
      else (0, st\<lparr>ctx := (ctx st)\<lparr>response_timeout := uint to_usec\<rparr>\<rparr>))"

definition modbus_get_byte_timeout :: "modbus_ptr \<Rightarrow> mb \<Rightarrow> int \<times> (int \<times> int) option \<times> mb" where
  "modbus_get_byte_timeout p st =
     (if p = Null then (-1, None, set_errno EINVAL st) else (0, Some (byte_timeout (ctx st)), st))"

definition modbus_set_byte_timeout :: "modbus_ptr \<Rightarrow> mb \<Rightarrow> u32 \<Rightarrow> u32 \<Rightarrow> int \<times> mb" where
  "modbus_set_byte_timeout p st to_sec to_usec =
     (if p = Null \<or> to_usec > 999999 then (-1, set_errno EINVAL st)
      else (0, st\<lparr>ctx := (ctx st)\<lparr>byte_timeout := (uint to_sec, uint to_usec)\<rparr>\<rparr>))"

definition modbus_get_indication_timeout :: "modbus_ptr \<Rightarrow> mb \<Rightarrow> int \<times> (int \<times> int) option \<times> mb" where
  "modbus_get_indication_timeout p st =
     (if p = Null then (-1, None, set_errno EINVAL st) else (0, Some (indication_timeout (ctx st)), st))"

definition modbus_set_indication_timeout :: "modbus_ptr \<Rightarrow> mb \<Rightarrow> u32 \<Rightarrow> u32 \<Rightarrow> int \<times> mb" where
  "modbus_set_indication_timeout p st to_sec to_usec =
     (if p = Null \<or> to_usec > 999999 then (-1, set_errno EINVAL st)
      else (0, st\<lparr>ctx := (ctx st)\<lparr>indication_timeout := (uint to_sec, uint to_usec)\<rparr>\<rparr>))"

definition modbus_get_header_length :: "modbus_backend \<Rightarrow> modbus_ptr \<Rightarrow> mb \<Rightarrow> int \<times> mb" where
  "modbus_get_header_length be p st =
     (if p = Null then (-1, set_errno EINVAL st) else (header_length be, st))"

definition modbus_set_debug :: "modbus_ptr \<Rightarrow> mb \<Rightarrow> int \<Rightarrow> int \<times> mb" where
  "modbus_set_debug p st flag =
     (if p = Null then (-1, set_errno EINVAL st)
      else (0, st\<lparr>ctx := (ctx st)\<lparr>debug := flag \<noteq> 0\<rparr>\<rparr>))"

section \<open>What an exchange promises\<close>

text \<open>The client's contract, on protocol data units (the message less header and checksum).  The
  length and the counts of the confirmation that answers the request \<open>rq\<close>: \<close>

definition reply_length :: "u8 list \<Rightarrow> int" where
  "reply_length rq = (let fc = uint (rq ! 0); nb = be16 (rq ! 3) (rq ! 4) in
     if fc \<in> {1, 2} then 2 + (nb + 7) div 8
     else if fc \<in> {3, 4, 0x17} then 2 + 2 * nb
     else if fc = 7 then 3 else if fc = 0x16 then 7 else 5)"

definition reply_counts :: "u8 list \<Rightarrow> u8 list \<Rightarrow> int \<times> int" where
  "reply_counts rq rp = (let fc = uint (rp ! 0); nb = be16 (rq ! 3) (rq ! 4) in
     if fc \<in> {1, 2} then ((nb + 7) div 8, uint (rp ! 1))
     else if fc \<in> {3, 4, 0x17} then (nb, uint (rp ! 1) div 2)
     else if fc \<in> {0x0F, 0x10} then (nb, be16 (rp ! 3) (rp ! 4))
     else if fc = 0x11 then (uint (rp ! 1), uint (rp ! 1)) else (1, 1))"

text \<open>The verdict on a confirmation \<open>rp\<close> of length \<open>n\<close>: an error number, or the count.\<close>

definition judge :: "u8 list \<Rightarrow> u8 list \<Rightarrow> int \<Rightarrow> errno + int" where
  "judge rq rp n =
     (if uint (rp ! 0) \<ge> 0x80 then
        Inl (if n = 2 \<and> uint (rq ! 0) = uint (rp ! 0) - 0x80 \<and> uint (rp ! 1) < 12
             then EMB (uint (rp ! 1)) else EMBBADEXC)
      else if (n = reply_length rq \<or> uint (rq ! 0) = 0x11) \<and> rp ! 0 = rq ! 0
          \<and> fst (reply_counts rq rp) = snd (reply_counts rq rp)
      then Inr (snd (reply_counts rq rp)) else Inl EMBBADDATA)"

text \<open>A confirmation announces its own length.\<close>

definition well_sized :: "modbus_backend \<Rightarrow> u8 list \<Rightarrow> bool" where
  "well_sized be bs \<longleftrightarrow> (let h = nat (header_length be) in
     h + 2 \<le> length bs \<and>
     int (length bs) = header_length be + 1
       + compute_meta_length_after_function (uint (bs ! h)) MSG_CONFIRMATION
       + (if uint (bs ! h) \<le> 4 \<or> uint (bs ! h) \<in> {0x11, 0x15, 0x17} then uint (bs ! (h + 1)) else 0)
       + checksum_length be)"

text \<open>The outcome of an exchange in which \<open>bs\<close> arrives: \<open>Inl None\<close> is a failure that leaves
  \<open>libmodbuserrno\<close> as it was.\<close>

definition exchange_outcome ::
    "modbus_backend \<Rightarrow> (u8 list \<Rightarrow> u8 list) \<Rightarrow> (u8 list \<Rightarrow> bool) \<Rightarrow> u8 list \<Rightarrow> u8 list \<Rightarrow> errno \<Rightarrow> u8 list
      \<Rightarrow> errno option + int" where
  "exchange_outcome be frame addressed H rq e bs =
     (let h = nat (header_length be); c = nat (checksum_length be);
          rp = take (length bs - h - c) (drop h bs) in
      if bs = [] then Inl (Some e)
      else if \<not> well_sized be bs then Inl None
      else if \<not> addressed (take h bs) then
        (if uint (last H) = MODBUS_BROADCAST_ADDRESS
         then map_sum Some id (judge rq rp (- header_length be - checksum_length be))
         else Inl (Some EMBBADSLAVE))
      else if bs \<noteq> frame (take (length bs - c) bs) then Inl (Some EMBBADCRC)
      else if take h bs \<noteq> H \<and> uint (last H) \<noteq> MODBUS_BROADCAST_ADDRESS then Inl (Some EMBBADSLAVE)
      else map_sum Some id (judge rq rp (int (length rp))))"

definition conclude :: "errno option + int \<Rightarrow> mb \<Rightarrow> int \<times> mb" where
  "conclude r st = (case r of Inr n \<Rightarrow> (n, st) | Inl None \<Rightarrow> (-1, st) | Inl (Some e) \<Rightarrow> (-1, set_errno e st))"

text \<open>The state after the message \<open>adu\<close> went out and \<open>bs\<close> came in.\<close>

definition exchanged :: "u8 list \<Rightarrow> u8 list \<Rightarrow> mb \<Rightarrow> mb" where
  "exchanged adu bs st =
     line_next (log_sent adu st)\<lparr>g_rsp := bs @ drop (length bs) (g_rsp st)\<rparr>"

text \<open>Requests whose confirmation can be checked: only \<open>modbus_report_slave_id\<close> sends less than five
  bytes.\<close>

definition checkable :: "u8 list \<Rightarrow> bool" where
  "checkable rq \<longleftrightarrow> rq \<noteq> [] \<and> (5 \<le> length rq \<or> uint (rq ! 0) = 0x11)"

lemma exchanged_simps [simp]:
  "ctx (exchanged adu bs st) = ctx st" "g_req (exchanged adu bs st) = g_req st"
  "g_rsp (exchanged adu bs st) = bs @ drop (length bs) (g_rsp st)"
  "sent (port (exchanged adu bs st)) = sent (port st) @ [adu]"
  "incoming (port (exchanged adu bs st)) = tl (incoming (port st))"
  "libmodbuserrno (exchanged adu bs st) = libmodbuserrno st"
  by (simp_all add: exchanged_def line_next_def log_sent_def)

lemma conclude_simps [simp]:
  "conclude (Inr n) st = (n, st)" "conclude (Inl None) st = (-1, st)"
  "conclude (Inl (Some e)) st = (-1, set_errno e st)"
  "ctx (snd (conclude r st)) = ctx st" "g_req (snd (conclude r st)) = g_req st"
  "g_rsp (snd (conclude r st)) = g_rsp st" "port (snd (conclude r st)) = port st"
  by (auto simp: conclude_def split: sum.split option.split)

lemma bits_bytes: "nb div 8 + (if nb mod 8 \<noteq> 0 then 1 else 0) = ((nb :: int) + 7) div 8"
proof -
  define r where "r = nb mod 8"
  have "(nb + 7) div 8 = (r + 7 + nb div 8 * 8) div 8" by (simp add: r_def)
  also have "\<dots> = nb div 8 + (r + 7) div 8" by simp
  also have "(r + 7) div 8 = (if r \<noteq> 0 then 1 else 0)"
  proof -
    have "0 \<le> r" "r < 8" by (simp_all add: r_def)
    then have "r \<noteq> 0 \<Longrightarrow> (r + 7) div 8 = 1" by linarith
    then show ?thesis by simp
  qed
  finally show ?thesis by (simp add: r_def)
qed

lemma reply_length_pos: "0 < reply_length rq"
proof -
  have "0 \<le> (be16 h l + 7) div 8" "0 < 2 + 2 * be16 h l" for h l
    using be16_nonneg [of h l] by linarith+
  then show ?thesis by (simp add: reply_length_def Let_def add_pos_nonneg)
qed

lemma nth_append_01:
  "2 \<le> length rp \<Longrightarrow> (rp @ junk) ! 0 = rp ! 0" "2 \<le> length rp \<Longrightarrow> (rp @ junk) ! 1 = rp ! 1"
  by (simp_all only: nth_append) auto

lemma reply_counts_prefix:
  assumes "2 \<le> length rp" "uint (rp ! 0) \<in> {0x0F, 0x10} \<Longrightarrow> 5 \<le> length rp"
  shows "reply_counts rq (rp @ junk) = reply_counts rq rp"
proof (cases "uint (rp ! 0) \<in> {0x0F, 0x10}")
  case True
  with assms(2) have nth: "(rp @ junk) ! 3 = rp ! 3" "(rp @ junk) ! 4 = rp ! 4"
    by (simp_all add: nth_append)
  show ?thesis unfolding reply_counts_def nth_append_01 [OF assms(1)] nth ..
next
  case False
  then show ?thesis unfolding reply_counts_def nth_append_01 [OF assms(1)] by (simp add: Let_def)
qed

lemma judge_prefix:
  assumes "2 \<le> length rp" "n \<le> int (length rp)"
  shows "judge rq (rp @ junk) n = judge rq rp n"
proof -
  have "reply_counts rq (rp @ junk) = reply_counts rq rp"
    if "n = reply_length rq \<or> uint (rq ! 0) = 0x11" "rp ! 0 = rq ! 0"
  proof (rule reply_counts_prefix [OF assms(1)])
    assume "uint (rp ! 0) \<in> {0x0F, 0x10}"
    with that have "n = 5" by (auto simp: reply_length_def Let_def)
    with assms(2) show "5 \<le> length rp" by simp
  qed
  then show ?thesis unfolding judge_def nth_append_01 [OF assms(1)] by auto
qed

context modbus_framing
begin

lemma hdr_nat [simp]: "length (hdr st) = nat (header_length be)"
  using hdr_length [of st] by simp

lemma nat_header [simp]: "int (nat (header_length be)) = header_length be"
  using header_pos by simp

lemma nat_checksum [simp]: "int (nat (checksum_length be)) = checksum_length be"
  using checksum_nonneg by simp

lemma hdr_nonempty: "hdr st \<noteq> []"
  using hdr_nat [of st] header_pos by (metis length_0_conv zero_less_nat_eq less_irrefl)

lemma recover_protocol_id [simp]: "recover_protocol be st = st"
  by (simp add: recover_protocol_def modbus_flush_def flush)

lemma send_loop_sends:
  "0 \<le> n \<Longrightarrow> n \<le> int (length buf) \<Longrightarrow> send_loop be st buf n = Some (n, log_sent (take (nat n) buf) st)"
  by (subst send_loop.simps) (simp add: send)

lemma send_msg_sends:
  assumes "nat (checksum_length be) \<le> length rest" "length m < 65536"
  shows "send_msg be st (m @ rest) (int (length m))
    = Some (int (length (frame m)), frame m @ drop (nat (checksum_length be)) rest, log_sent (frame m) st)"
  using send_pre [OF assms] by (simp add: send_msg_def send_loop_sends)

text \<open>Byte \<open>i\<close> of the protocol data unit.\<close>

lemma rd_pdu:
  "length H = nat (header_length be) \<Longrightarrow> i < length q
    \<Longrightarrow> rd (H @ q) (header_length be + int i) = Some (q ! i)"
  using header_pos by (simp add: rd_def nth_append nat_add_distrib)

lemmas rd_pdus = rd_pdu [where i = 0, simplified] rd_pdu [where i = 1, simplified]
  rd_pdu [where i = 3, simplified] rd_pdu [where i = 4, simplified]

lemma checkable_reads:
  assumes "length H = nat (header_length be)" "checkable rq"
  shows "rd (H @ rq @ junk) (header_length be) = Some (rq ! 0)"
    and "uint (rq ! 0) \<noteq> 0x11 \<Longrightarrow> rd (H @ rq @ junk) (header_length be + 3) = Some (rq ! 3)"
    and "uint (rq ! 0) \<noteq> 0x11 \<Longrightarrow> rd (H @ rq @ junk) (header_length be + 4) = Some (rq ! 4)"
  using assms by (auto simp: rd_pdus checkable_def nth_append)

lemma response_length_spec:
  assumes "length H = nat (header_length be)" "checkable rq"
  shows "compute_response_length_from_request be (H @ rq @ junk)
    = Some (if uint (rq ! 0) = 0x11 then -1
            else header_length be + reply_length rq + checksum_length be)"
proof (cases "uint (rq ! 0) = 0x11")
  case True
  then show ?thesis
    using checkable_reads [OF assms] by (simp add: compute_response_length_from_request_def Let_def)
next
  case False
  with checkable_reads [OF assms] show ?thesis
    by (simp add: compute_response_length_from_request_def Let_def reply_length_def
        bits_bytes [symmetric])
qed

lemma confirmation_counts_spec:
  assumes "length H = nat (header_length be)" "length H' = nat (header_length be)" "checkable rq"
    "5 \<le> length rp" "rp ! 0 = rq ! 0"
  shows "confirmation_counts be (H @ rq @ junk) (H' @ rp) (uint (rp ! 0))
    = Some (reply_counts rq rp)"
proof -
  have rp: "rd (H' @ rp) (header_length be + 1) = Some (rp ! 1)"
    "rd (H' @ rp) (header_length be + 3) = Some (rp ! 3)"
    "rd (H' @ rp) (header_length be + 4) = Some (rp ! 4)"
    by (use assms in \<open>auto simp: rd_pdus\<close>)
  show ?thesis
  proof (cases "uint (rq ! 0) = 0x11")
    case True
    with rp assms(5) show ?thesis
      by (simp add: confirmation_counts_def Let_def reply_counts_def)
  next
    case False
    with rp assms(5) checkable_reads [OF assms(1,3)] show ?thesis
      by (simp add: confirmation_counts_def Let_def reply_counts_def bits_bytes [symmetric])
  qed
qed

lemma check_confirmation_judges:
  assumes "length H = nat (header_length be)" "length H' = nat (header_length be)" "checkable rq"
    "5 \<le> length rp"
  shows "check_confirmation be st (H @ rq @ junk) (H' @ rp) n
    = Some (if H = H' \<or> uint (last H) = MODBUS_BROADCAST_ADDRESS
            then conclude (map_sum Some id (judge rq rp (n - header_length be - checksum_length be))) st
            else (-1, set_errno EMBBADSLAVE st))"
proof -
  obtain pre where pre: "pre_check_confirmation be = Some pre"
    "\<And>st req rsp n. header_length be \<le> int (length req) \<Longrightarrow> header_length be \<le> int (length rsp) \<Longrightarrow>
      pre st req rsp n =
        (if take (nat (header_length be)) req = take (nat (header_length be)) rsp
            \<or> uint (req ! (nat (header_length be) - 1)) = MODBUS_BROADCAST_ADDRESS
         then Some (0, st) else Some (-1, set_errno EMBBADSLAVE st))"
    using pre_check by blast
  have H: "H \<noteq> []" "nat (header_length be) - 1 < nat (header_length be)"
    using assms(1) header_pos by auto
  then have last: "(H @ rq @ junk) ! (nat (header_length be) - 1) = last H"
    by (simp only: nth_append H(2) if_True assms(1) last_conv_nth [OF H(1)])
  have ok: "pre st (H @ rq @ junk) (H' @ rp) n
     = (if H = H' \<or> uint (last H) = MODBUS_BROADCAST_ADDRESS then Some (0, st)
        else Some (-1, set_errno EMBBADSLAVE st))"
    using pre(2) [of "H @ rq @ junk" "H' @ rp" st n] assms(1,2) last by simp
  have rp: "rd (H' @ rp) (header_length be) = Some (rp ! 0)"
    "rd (H' @ rp) (header_length be + 1) = Some (rp ! 1)" and "rp \<noteq> []"
    by (use rd_pdu [OF assms(2), of 0 rp] rd_pdu [OF assms(2), of 1 rp] assms(4) in force)+
  note rq = checkable_reads(1) [OF assms(1,3)] response_length_spec [OF assms(1,3)]
  note counts = confirmation_counts_spec [OF assms]
  show ?thesis
  proof (cases "H = H' \<or> uint (last H) = MODBUS_BROADCAST_ADDRESS")
    case False
    then show ?thesis
      by (simp add: check_confirmation_def Let_def rp pre(1) ok)
  next
    case True
    let ?k = "n - header_length be - checksum_length be"
    have run: "check_confirmation be st (H @ rq @ junk) (H' @ rp) n =
      (if uint (rp ! 0) \<ge> 0x80 then
         (if ?k = 2 \<and> uint (rq ! 0) = uint (rp ! 0) - 0x80
          then Some (-1, set_errno (if uint (rp ! 1) < 12 then EMB (uint (rp ! 1)) else EMBBADEXC) st)
          else Some (-1, set_errno EMBBADEXC st))
       else if ?k = reply_length rq \<or> uint (rq ! 0) = 0x11 then
         (if uint (rp ! 0) \<noteq> uint (rq ! 0) then Some (-1, set_errno EMBBADDATA st)
          else do {
            (a, b) \<leftarrow> confirmation_counts be (H @ rq @ junk) (H' @ rp) (uint (rp ! 0));
            if a = b then Some (b, st) else Some (-1, set_errno EMBBADDATA st)
          })
       else Some (-1, set_errno EMBBADDATA st))"
    proof -
      let ?L = "header_length be + reply_length rq + checksum_length be"
      have "n = header_length be + 2 + checksum_length be \<longleftrightarrow> ?k = 2" "n = ?L \<longleftrightarrow> ?k = reply_length rq"
        "?L \<noteq> -1"
        using reply_length_pos [of rq] header_pos checksum_nonneg by linarith+
      then have k: "n = header_length be + 2 + checksum_length be \<longleftrightarrow> ?k = 2"
        "n = (if uint (rq ! 0) = 17 then -1 else ?L) \<or> (if uint (rq ! 0) = 17 then -1 else ?L) = -1
          \<longleftrightarrow> ?k = reply_length rq \<or> uint (rq ! 0) = 17"
        by auto
      show ?thesis
        using True k
        by (simp add: check_confirmation_def rp(1,2) rq pre(1) ok Let_def cong: if_cong
            split del: if_split)
    qed
    show ?thesis
    proof (cases "rp ! 0 = rq ! 0")
      case same: True
      then show ?thesis
        unfolding run counts [OF same] judge_def conclude_def using True
        by (cases "reply_counts rq rp") (simp add: if_distrib)
    next
      case False
      then have "uint (rp ! 0) \<noteq> uint (rq ! 0)" by (simp add: word_uint_eq_iff)
      with False show ?thesis
        unfolding run judge_def conclude_def using True
        by simp
    qed
  qed
qed

text \<open>The bytes that the next reception delivers.\<close>

abbreviation (input) "arrives st \<equiv> line_read (nat (max_adu_length be)) st"

lemma length_arrives: "int (length (arrives st)) \<le> max_adu_length be"
  using length_line_read [of "nat (max_adu_length be)" st] max_adu_fits by linarith

lemma well_sized_length:
  "well_sized be bs \<Longrightarrow> header_length be + 2 + checksum_length be \<le> int (length bs)"
  by (auto simp: well_sized_def Let_def compute_meta_length_after_function_def uint_lt_256
      split: if_splits)

lemma receive_confirmation_spec:
  assumes "max_adu_length be \<le> int (length buf)"
  shows "modbus_receive_msg be st buf MSG_CONFIRMATION =
    Some (let h = nat (header_length be); bs = arrives st; msg = bs @ drop (length bs) buf in
      if bs = [] then (-1, buf, set_errno (line_error st) (line_next st))
      else if \<not> well_sized be bs then (-1, msg, line_next st)
      else if \<not> addressed st (take h bs) then (0, msg, line_next st)
      else if bs \<noteq> frame (take (length bs - nat (checksum_length be)) bs)
      then (-1, msg, set_errno EMBBADCRC (line_next st))
      else (int (length bs), msg, line_next st))"
proof -
  define h where "h = nat (header_length be)"
  define bs where "bs = arrives st"
  define msg where "msg = bs @ drop (length bs) buf"
  define expected where "expected =
    header_length be + 1 + compute_meta_length_after_function (uint (msg ! h)) MSG_CONFIRMATION
      + (if uint (msg ! h) \<le> 4 \<or> uint (msg ! h) \<in> {0x11, 0x15, 0x17} then uint (msg ! (h + 1)) else 0)
      + checksum_length be"
  have "int (length bs) \<le> max_adu_length be" using length_arrives [of st] by (simp add: bs_def)
  then have len: "length bs \<le> 260" "length msg = length buf" "h + 1 < length buf" "int h = header_length be"
    "length bs \<le> length buf"
    using max_adu_fits header_fits checksum_nonneg header_pos assms
    by (simp_all add: msg_def h_def)
  have reads: "rd msg (header_length be) = Some (msg ! h)"
    "rd msg (header_length be + 1) = Some (msg ! (h + 1))"
    using len rd_int [of h msg] rd_int [of "h + 1" msg] by (simp_all add: add.commute)
  have data: "compute_data_length_after_meta be msg MSG_CONFIRMATION
      = Some ((if uint (msg ! h) \<le> 4 \<or> uint (msg ! h) \<in> {0x11, 0x15, 0x17} then uint (msg ! (h + 1)) else 0)
          + checksum_length be)"
    using reads by (auto simp: compute_data_length_after_meta_def Let_def)
  have "header_length be + 2 + checksum_length be \<le> expected"
    by (simp add: expected_def compute_meta_length_after_function_def)
  moreover have "int (length bs) = expected \<longleftrightarrow> well_sized be bs" if "h + 2 \<le> length bs"
    using that by (simp add: well_sized_def Let_def expected_def msg_def h_def nth_append)
  moreover have "\<not> well_sized be bs" if "\<not> h + 2 \<le> length bs"
    using that by (simp add: well_sized_def Let_def h_def)
  ultimately have sized: "int (length bs) = expected \<longleftrightarrow> well_sized be bs"
    using len(4) checksum_nonneg by (cases "h + 2 \<le> length bs") auto
  note got = recv [of buf st, unfolded Let_def, folded bs_def, folded msg_def]
  show ?thesis
  proof (cases "bs = []")
    case True
    then have "msg = buf" by (simp add: msg_def)
    with True sized got assms max_adu_fits data reads len
      \<open>header_length be + 2 + checksum_length be \<le> expected\<close> checksum_nonneg header_pos
    show ?thesis
      by (auto simp: modbus_receive_msg_def Let_def bs_def [symmetric] expected_def)
  next
    case False
    have pos: "int (length bs) > 0" using False by simp
    have rest: "modbus_receive_msg be st buf MSG_CONFIRMATION =
      (if int (length bs) \<noteq> expected then Some (-1, msg, line_next st)
       else do { (rc, st) \<leftarrow> check_integrity be (line_next st) msg (int (length bs)); Some (rc, msg, st) })"
      using False got assms max_adu_fits data reads
      by (simp add: modbus_receive_msg_def Let_def expected_def add.assoc)
    show ?thesis
    proof (cases "well_sized be bs")
      case False
      then show ?thesis using rest sized \<open>bs \<noteq> []\<close>
        by (simp add: Let_def bs_def [symmetric] msg_def [symmetric])
    next
      case True
      from well_sized_length [OF True]
      have l: "header_length be + checksum_length be < int (length bs)" by simp
      then have "h \<le> length bs" using len(4) checksum_nonneg by linarith
      then have t: "take h msg = take h bs" "take (length bs) msg = bs"
        "take (length bs - nat (checksum_length be)) msg = take (length bs - nat (checksum_length be)) bs"
        by (simp_all add: msg_def)
      have "nat (int (length bs) - checksum_length be) = length bs - nat (checksum_length be)"
        using checksum_nonneg by simp
      then have "check_integrity be (line_next st) msg (int (length bs)) =
        Some (if \<not> addressed st (take h bs) then (0, line_next st)
              else if bs = frame (take (length bs - nat (checksum_length be)) bs)
              then (int (length bs), line_next st) else (-1, set_errno EMBBADCRC (line_next st)))"
        using integrity [of "int (length bs)" msg "line_next st"] l len t
          addressed_ctx [of "line_next st" st] by (simp add: h_def)
      then show ?thesis using rest True sized \<open>bs \<noteq> []\<close>
        by (simp add: Let_def bs_def [symmetric] msg_def [symmetric] h_def)
    qed
  qed
qed

lemma set_errno_exchanged:
  "(set_errno e (line_next (log_sent adu st)))\<lparr>g_rsp := bs @ drop (length bs) (g_rsp st)\<rparr>
     = set_errno e (exchanged adu bs st)"
  "(line_next (log_sent adu st))\<lparr>g_rsp := bs @ drop (length bs) (g_rsp st)\<rparr> = exchanged adu bs st"
  "(set_errno e (line_next (log_sent adu st)))\<lparr>g_rsp := g_rsp st\<rparr> = set_errno e (exchanged adu [] st)"
  by (simp_all add: exchanged_def set_errno_def)

text \<open>An exchange does what its contract says.\<close>

lemma transact_spec:
  assumes ok: "mb_ok st" and rq: "checkable rq" and room: "nat (checksum_length be) \<le> length rest"
    and small: "length (hdr st @ rq) < 65536"
  shows "transact be st (hdr st @ rq @ rest) (header_length be + int (length rq))
    = Some (let adu = frame (hdr st @ rq); bs = arrives st;
                r = exchange_outcome be frame (addressed st) (hdr st) rq (line_error st) bs
            in (fst (conclude r st), adu @ drop (nat (checksum_length be)) rest,
                snd (conclude r (exchanged adu bs st))))"
proof -
  define h where "h = nat (header_length be)"
  define c where "c = nat (checksum_length be)"
  define H where "H = hdr st"
  define adu where "adu = frame (H @ rq)"
  define bs where "bs = arrives st"
  define st1 where "st1 = log_sent adu st"
  define msg where "msg = bs @ drop (length bs) (g_rsp st)"
  have hc: "int h = header_length be" "int c = checksum_length be" "length H = h"
    using header_pos checksum_nonneg by (simp_all add: h_def c_def H_def)
  have sent: "send_msg be st (H @ rq @ rest) (header_length be + int (length rq))
      = Some (int (length adu), adu @ drop c rest, st1)"
    using send_msg_sends [OF room small, of st] hc
    by (simp add: st1_def adu_def c_def H_def add.commute)
  have adu: "adu = H @ rq @ drop (length (H @ rq)) adu" and pos: "0 < int (length adu)"
    using frame_prefix [of "H @ rq"] append_take_drop_id [of "length (H @ rq)" adu]
      frame_length [of "H @ rq"] hc header_pos by (auto simp: adu_def)
  define junk where "junk = drop (length (H @ rq)) adu @ drop c rest"
  have req: "adu @ drop c rest = H @ rq @ junk"
    using adu by (simp add: junk_def)
  have st1: "ctx st1 = ctx st" "g_rsp st1 = g_rsp st" "mb_ok st1" "arrives st1 = bs"
    "line_error st1 = line_error st" "addressed st1 = addressed st" "length (g_rsp st1) = 260"
    using ok addressed_ctx [of st1 st]
    by (simp_all add: st1_def bs_def line_error_def mb_ok_def)
  have big: "max_adu_length be \<le> int (length (g_rsp st1))" using st1(7) max_adu_fits by simp
  note got = receive_confirmation_spec [OF big, of st1, unfolded st1 Let_def, folded h_def c_def msg_def]
  let ?judged = "\<lambda>n. check_confirmation be (exchanged adu bs st) (H @ rq @ junk) msg n"
  have run: "transact be st (H @ rq @ rest) (header_length be + int (length rq)) =
    (if bs = [] then Some (-1, H @ rq @ junk, set_errno (line_error st) (exchanged adu bs st))
     else if \<not> well_sized be bs then Some (-1, H @ rq @ junk, exchanged adu bs st)
     else if \<not> addressed st (take h bs) then do { (rc, st) \<leftarrow> ?judged 0; Some (rc, H @ rq @ junk, st) }
     else if bs \<noteq> frame (take (length bs - c) bs)
     then Some (-1, H @ rq @ junk, set_errno EMBBADCRC (exchanged adu bs st))
     else do { (rc, st) \<leftarrow> ?judged (int (length bs)); Some (rc, H @ rq @ junk, st) })"
    using pos st1(2)
    by (simp add: transact_def sent got req msg_def set_errno_exchanged st1_def [symmetric])
       (simp add: st1_def set_errno_exchanged)
  have judged: "?judged n = Some (conclude
      (if take h bs = H \<or> uint (last H) = MODBUS_BROADCAST_ADDRESS
       then map_sum Some id (judge rq (take (length bs - h - c) (drop h bs)) (n - header_length be - checksum_length be))
       else Inl (Some EMBBADSLAVE)) (exchanged adu bs st))"
    if "well_sized be bs" "n \<le> int (length bs)" for n
  proof -
    let ?pdu = "take (length bs - h - c) (drop h bs)"
    from well_sized_length [OF that(1)] hc have l: "h + 2 + c \<le> length bs" by linarith
    then have pdu: "2 \<le> length ?pdu" "n - header_length be - checksum_length be \<le> int (length ?pdu)"
      using that(2) hc by auto
    define junk' where "junk' = drop (length bs - h - c) (drop h bs) @ drop (length bs) (g_rsp st)"
    have "?pdu @ junk' = drop h bs @ drop (length bs) (g_rsp st)"
      unfolding junk'_def append_assoc [symmetric] append_take_drop_id ..
    then have msg: "msg = take h bs @ ?pdu @ junk'"
      by (simp add: msg_def)
    have "5 \<le> length (?pdu @ junk')"
    proof -
      have "length msg = 260"
        using st1(2,7) length_arrives [of st] max_adu_fits by (simp add: msg_def bs_def)
      moreover have "h \<le> 255" using header_fits max_adu_fits hc by linarith
      ultimately show ?thesis using l by (simp add: msg)
    qed
    moreover have "length H = nat (header_length be)" "length (take h bs) = nat (header_length be)"
      using l hc(3) by (simp_all add: h_def)
    ultimately have "?judged n = Some (if H = take h bs \<or> uint (last H) = MODBUS_BROADCAST_ADDRESS
        then conclude (map_sum Some id (judge rq ?pdu (n - header_length be - checksum_length be)))
          (exchanged adu bs st)
        else (-1, set_errno EMBBADSLAVE (exchanged adu bs st)))"
      unfolding msg judge_prefix [OF pdu, of rq junk', symmetric]
      by (intro check_confirmation_judges rq)
    then show ?thesis by (auto simp: conclude_def)
  qed
  have other: "\<not> addressed st (take h bs) \<Longrightarrow> take h bs \<noteq> H"
    using addressed_hdr [OF ok] by (auto simp: H_def)
  define r where "r = exchange_outcome be frame (addressed st) H rq (line_error st) bs"
  have "transact be st (H @ rq @ rest) (header_length be + int (length rq))
      = Some (case conclude r (exchanged adu bs st) of (rc, st) \<Rightarrow> (rc, H @ rq @ junk, st))"
  proof (cases "bs = [] \<or> \<not> well_sized be bs")
    case True
    then show ?thesis
      unfolding run r_def by (auto simp: exchange_outcome_def conclude_def)
  next
    case False
    then have sized: "bs \<noteq> []" "well_sized be bs" by simp_all
    have len: "int (length bs - (h + c)) = int (length bs) - header_length be - checksum_length be"
      using well_sized_length [OF sized(2)] hc by linarith
    show ?thesis
    proof (cases "addressed st (take h bs)")
      case True
      with sized judged [OF sized(2), of "int (length bs)"] len show ?thesis
        unfolding run r_def
        by (auto simp: exchange_outcome_def Let_def h_def [symmetric] c_def [symmetric]
            split: prod.split)
    next
      case False
      with sized other judged [OF sized(2), of 0] show ?thesis
        unfolding run r_def
        by (auto simp: exchange_outcome_def Let_def h_def [symmetric] c_def [symmetric]
            split: prod.split)
    qed
  qed
  moreover have "fst (conclude r st) = fst (conclude r (exchanged adu bs st))"
    by (simp add: conclude_def split: sum.split option.split)
  ultimately show ?thesis
    by (simp add: Let_def r_def H_def adu_def bs_def c_def req [unfolded H_def adu_def c_def, symmetric]
        split: prod.split)
qed

end

end
