(* ===== verification/ModbusClientSpec.thy ===== *)
theory ModbusClientSpec
  imports ModbusClient
begin

unbundle bit_operations_syntax

text \<open>
  What the client functions of \<open>modbus.c\<close> return, for every reply and every error: a reading
  function yields exactly the values of a well-formed confirmation to its request, or fails and
  leaves its destination alone; no access is outside a buffer.
\<close>

section \<open>Copying registers\<close>

lemma word_of_reg_bytes: "word_of_int (be16 (hi8 (uint r)) (lo8 (uint r))) = (r :: u16)"
  using reg_bytes_be16 [of r] by (simp add: reg_bytes_hi_lo)

lemma copy_regs_spec:
  "i + length regs \<le> length dest \<Longrightarrow>
   copy_regs (pre @ regs_bytes regs @ post) (int (length pre)) (length regs) (int i) dest
     = Some (take i dest @ regs @ drop (i + length regs) dest)"
proof (induction regs arbitrary: pre i dest)
  case (Cons r regs)
  let ?h = "hi8 (uint r)" and ?l = "lo8 (uint r)"
  have reads: "rd (pre @ ?h # ?l # regs_bytes regs @ post) (int (length pre)) = Some ?h"
    "rd (pre @ ?h # ?l # regs_bytes regs @ post) (int (length pre) + 1) = Some ?l"
    using rd_int [of "length pre + 1" "pre @ ?h # ?l # regs_bytes regs @ post"]
    by (simp_all add: rd_def nth_append add.commute)
  have store: "wr dest (int i) r = Some (dest[i := r])"
    using Cons.prems by (simp add: wr_def)
  from Cons.IH [of "i + 1" "dest[i := r]" "pre @ [?h, ?l]"] Cons.prems show ?case
    by (simp add: reg_bytes_hi_lo reads store word_of_reg_bytes add.commute [of 1] add.commute [of 2]
        add.commute [of "length regs" i]
        take_Suc_conv_app_nth upd_conv_take_nth_drop)
qed simp

lemma store_regs_spec:
  "i + n \<le> length src \<Longrightarrow> length pre + 2 * n \<le> length req \<Longrightarrow>
   store_regs src (int i) n (pre @ drop (length pre) req) (int (length pre))
     = Some (int (length (pre @ regs_bytes (take n (drop i src)))),
         (pre @ regs_bytes (take n (drop i src)))
           @ drop (length (pre @ regs_bytes (take n (drop i src)))) req)"
proof (induction n arbitrary: pre i)
  case (Suc n)
  let ?pre = "pre @ reg_bytes (src ! i)"
  have "rd src (int i) = Some (src ! i)" using Suc.prems by (simp add: rd_def)
  moreover have "wrs (pre @ drop (length pre) req) (int (length pre)) (reg_bytes (src ! i))
      = Some (?pre @ drop (length ?pre) req)"
    using Suc.prems by (simp add: mem_simps)
  moreover have "take (Suc n) (drop i src) = src ! i # take n (drop (i + 1) src)"
    using Suc.prems by (simp add: Cons_nth_drop_Suc [symmetric])
  ultimately show ?case
    using Suc.IH [of "i + 1" ?pre] Suc.prems by (simp add: add_ac)
qed simp

text \<open>A store behind what has been written so far.\<close>

lemma wr_after_prefix:
  assumes "length pre < length req"
  shows "wr (pre @ drop (length pre) req) (int (length pre)) b
      = Some ((pre @ [b]) @ drop (length (pre @ [b])) req)"
  using assms by (cases "drop (length pre) req")
    (auto simp: wr_def list_update_append drop_Suc tl_drop [symmetric])

lemma wrs_behind_prefix:
  "length pre + length vs \<le> length req
    \<Longrightarrow> wrs (pre @ drop (length pre) req) (int (length pre)) vs
      = Some ((pre @ vs) @ drop (length (pre @ vs)) req)"
  by (simp add: mem_simps add.commute)

section \<open>Packing and unpacking bits\<close>

abbreviation (input) "bit_value b k \<equiv> (if bit b k then 1 else 0 :: u8)"

definition bits_of_bytes :: "u8 list \<Rightarrow> u8 list" where
  "bits_of_bytes bs = concat (map (\<lambda>b. map (\<lambda>k. bit_value b k) [0..<8]) bs)"

lemma length_bits_of_bytes [simp]: "length (bits_of_bytes bs) = 8 * length bs"
  by (induction bs) (simp_all add: bits_of_bytes_def)

lemma unpack_byte_spec:
  "k \<le> 8 \<Longrightarrow> p \<le> nb \<Longrightarrow> nb \<le> length dest \<Longrightarrow>
   unpack_byte temp k (int p) (int nb) dest
     = (let m = min (8 - k) (nb - p)
        in Some (int (p + m), take p dest @ map (bit_value temp) [k..<k + m] @ drop (p + m) dest))"
proof (induction "8 - k" arbitrary: k p dest)
  case 0
  then show ?case by (simp add: unpack_byte.simps)
next
  case (Suc j)
  show ?case
  proof (cases "p < nb")
    case True
    have k: "k < 8" using Suc.hyps(2) by simp
    let ?v = "bit_value temp k"
    define m where "m = min (8 - Suc k) (nb - Suc p)"
    have m: "min (8 - k) (nb - p) = Suc m" using k True by (simp add: m_def)
    have "wr dest (int p) ?v = Some (dest[p := ?v])"
      using True Suc.prems by (simp add: wr_def)
    with k True have "unpack_byte temp k (int p) (int nb) dest
        = unpack_byte temp (Suc k) (int (Suc p)) (int nb) (dest[p := ?v])"
      by (subst unpack_byte.simps) (simp add: add.commute)
    also have "\<dots> = Some (int (Suc p + m), take (Suc p) (dest[p := ?v])
        @ map (bit_value temp) [Suc k..<Suc k + m] @ drop (Suc p + m) (dest[p := ?v]))"
      using Suc.hyps(1) [of "Suc k" "Suc p" "dest[p := ?v]"] Suc.hyps(2) Suc.prems True
      by (simp add: Let_def m_def)
    also have "take (Suc p) (dest[p := ?v]) = take p dest @ [?v]"
      using True Suc.prems by (simp add: take_Suc_conv_app_nth)
    also have "map (bit_value temp) [k..<k + Suc m] = ?v # map (bit_value temp) [Suc k..<Suc k + m]"
      by (simp add: upt_conv_Cons del: upt_Suc)
    ultimately show ?thesis using m True Suc.prems
      by (simp add: Let_def)
  next
    case False
    then show ?thesis using Suc.prems
      by (subst unpack_byte.simps) (simp add: Let_def)
  qed
qed

lemma unpack_bits_spec:
  "p \<le> nb \<Longrightarrow> nb \<le> length dest \<Longrightarrow>
   unpack_bits (pre @ bs @ post) (int (length pre)) (length bs) (int p) (int nb) dest
     = (let m = min (8 * length bs) (nb - p)
        in Some (take p dest @ take m (bits_of_bytes bs) @ drop (p + m) dest))"
proof (induction bs arbitrary: pre p dest)
  case Nil
  then show ?case by (simp add: bits_of_bytes_def)
next
  case (Cons b bs)
  define m where "m = min 8 (nb - p)"
  define dest' where "dest' = take p dest @ map (bit_value b) [0..<m] @ drop (p + m) dest"
  have "rd (pre @ b # bs @ post) (int (length pre)) = Some b"
    by (simp add: rd_def)
  moreover have "unpack_byte b 0 (int p) (int nb) dest = Some (int (p + m), dest')"
    using unpack_byte_spec [of 0 p nb dest b] Cons.prems by (simp add: Let_def m_def dest'_def)
  moreover have len: "p + m \<le> nb" "nb \<le> length dest'"
    using Cons.prems by (auto simp: m_def dest'_def)
  ultimately have "unpack_bits (pre @ (b # bs) @ post) (int (length pre)) (length (b # bs)) (int p) (int nb) dest
      = unpack_bits ((pre @ [b]) @ bs @ post) (int (length (pre @ [b]))) (length bs) (int (p + m)) (int nb) dest'"
    by (simp add: add.commute)
  note run = this [unfolded Cons.IH [OF len, of "pre @ [b]"]]
  have "take m (map (bit_value b) [0..<8]) = map (bit_value b) [0..<m]"
    by (simp add: m_def take_map del: upt_Suc)
  moreover have "take (p + m) dest' = take p dest @ map (bit_value b) [0..<m]"
    "drop (p + m + r) dest' = drop (p + m + r) dest" for r
  proof -
    define P where "P = take p dest @ map (bit_value b) [0..<m]"
    have "length P = p + m" "dest' = P @ drop (p + m) dest"
      using Cons.prems by (simp_all add: P_def dest'_def)
    then show "take (p + m) dest' = take p dest @ map (bit_value b) [0..<m]"
      "drop (p + m + r) dest' = drop (p + m + r) dest"
      by (simp_all add: P_def add.commute)
  qed
  moreover have "min (8 * length (b # bs)) (nb - p) = m + min (8 * length bs) (nb - (p + m))"
    "m = 8 \<or> min (8 * length bs) (nb - (p + m)) = 0" "m \<le> 8"
    by (auto simp: m_def)
  ultimately show ?case
    unfolding run by (auto simp: Let_def bits_of_bytes_def add.assoc simp del: upt_Suc)
qed

lemma pack_byte_spec:
  "k \<le> 8 \<Longrightarrow> p \<le> nb \<Longrightarrow> nb \<le> length src \<Longrightarrow> \<forall>j\<ge>k. \<not> bit acc j \<Longrightarrow>
   \<exists>bc b. pack_byte k (int p) (int p) (int nb) src acc = Some (bc, int (p + min (8 - k) (nb - p)), b) \<and>
     (bc = int p + 8 - int k \<or> nb < p + (8 - k)) \<and>
     (\<forall>j. bit b j \<longleftrightarrow> (if j < k then bit acc j else j < 8 \<and> p + (j - k) < nb \<and> src ! (p + (j - k)) \<noteq> 0))"
proof (induction "8 - k" arbitrary: k p acc)
  case 0
  then have "k = 8" by simp
  then have "pack_byte k (int p) (int p) (int nb) src acc = Some (int p, int p, acc)"
    by (subst pack_byte.simps) simp
  moreover have "bit acc j \<longleftrightarrow> (if j < k then bit acc j
      else j < 8 \<and> p + (j - k) < nb \<and> src ! (p + (j - k)) \<noteq> 0)" for j
    using 0(5) \<open>k = 8\<close> by (cases "j < k") simp_all
  ultimately show ?case using \<open>k = 8\<close> by (intro exI [of _ "int p"] exI [of _ acc] conjI) auto
next
  case (Suc n)
  show ?case
  proof (cases "p < nb")
    case True
    have k: "k < 8" using Suc.hyps(2) by simp
    define v where "v = src ! p"
    define acc' where "acc' = (if v \<noteq> 0 then acc OR push_bit k 1 else acc AND NOT (push_bit k 1))"
    have acc': "bit acc' j \<longleftrightarrow> (if j = k then v \<noteq> 0 else bit acc j)" for j
      using k Suc.prems(4) by (auto simp: acc'_def bit_simps dest: bit_imp_le_length)
    have "rd src (int p) = Some v" using True Suc.prems by (simp add: rd_def v_def)
    with k True have run: "pack_byte k (int p) (int p) (int nb) src acc
        = pack_byte (Suc k) (int (Suc p)) (int (Suc p)) (int nb) src acc'"
      by (subst pack_byte.simps) (simp add: acc'_def add.commute)
    have "n = 8 - Suc k" "Suc k \<le> 8" "Suc p \<le> nb" "\<forall>j\<ge>Suc k. \<not> bit acc' j"
      using acc' Suc.prems(4) Suc.hyps(2) True k by simp_all
    from Suc.hyps(1) [OF this(1,2,3) Suc.prems(3) this(4)]
    obtain bc b where ih:
      "pack_byte (Suc k) (int (Suc p)) (int (Suc p)) (int nb) src acc'
         = Some (bc, int (Suc p + min (8 - Suc k) (nb - Suc p)), b)"
      "bc = int (Suc p) + 8 - int (Suc k) \<or> nb < Suc p + (8 - Suc k)"
      "\<And>j. bit b j \<longleftrightarrow> (if j < Suc k then bit acc' j
         else j < 8 \<and> Suc p + (j - Suc k) < nb \<and> src ! (Suc p + (j - Suc k)) \<noteq> 0)"
      by blast
    have "Suc p + min (8 - Suc k) (nb - Suc p) = p + min (8 - k) (nb - p)"
      using True k by linarith
    with run ih(1) have "pack_byte k (int p) (int p) (int nb) src acc
        = Some (bc, int (p + min (8 - k) (nb - p)), b)"
      by (simp only:)
    moreover have "bc = int p + 8 - int k \<or> nb < p + (8 - k)"
      using ih(2) k by (elim disjE) linarith+
    moreover have "bit b j \<longleftrightarrow> (if j < k then bit acc j
        else j < 8 \<and> p + (j - k) < nb \<and> src ! (p + (j - k)) \<noteq> 0)" for j
    proof (cases "j \<le> k")
      case True
      then show ?thesis using ih(3) [of j] acc' \<open>p < nb\<close> k by (auto simp: v_def)
    next
      case False
      then have "Suc p + (j - Suc k) = p + (j - k)" by simp
      then show ?thesis using ih(3) [of j] False by simp
    qed
    ultimately show ?thesis by blast
  next
    case False
    with Suc.prems(2) have p: "p = nb" by simp
    with Suc.prems Suc.hyps(2) have "pack_byte k (int p) (int p) (int nb) src acc
        = Some (int p + 1, int (p + min (8 - k) (nb - p)), acc)"
      by (subst pack_byte.simps) simp
    moreover have "nb < p + (8 - k)" using p Suc.hyps(2) by linarith
    moreover have "bit acc j \<longleftrightarrow> (if j < k then bit acc j
        else j < 8 \<and> p + (j - k) < nb \<and> src ! (p + (j - k)) \<noteq> 0)" for j
    proof -
      have "\<not> p + (j - k) < nb" using p by linarith
      then show ?thesis using Suc.prems(4) by (metis not_less)
    qed
    ultimately show ?thesis by blast
  qed
qed

text \<open>The bytes that carry \<open>bits\<close>, eight to a byte and the first in the least significant bit.\<close>

definition byte_of :: "u8 list \<Rightarrow> u8" where
  "byte_of bits = horner_sum of_bool 2 (map (\<lambda>v. v \<noteq> 0) (take 8 bits))"

fun bytes_of_bits :: "nat \<Rightarrow> u8 list \<Rightarrow> u8 list" where
  "bytes_of_bits 0 bits = []"
| "bytes_of_bits (Suc n) bits = byte_of bits # bytes_of_bits n (drop 8 bits)"

lemma bit_byte_of: "bit (byte_of bits) j \<longleftrightarrow> j < 8 \<and> j < length bits \<and> bits ! j \<noteq> 0"
  by (auto simp: byte_of_def bit_horner_sum_bit_word_iff)

lemma length_bytes_of_bits [simp]: "length (bytes_of_bits n bits) = n"
  by (induction n arbitrary: bits) simp_all

lemma pack_byte_byte_of:
  assumes "p \<le> nb" "nb \<le> length src"
  obtains bc where "pack_byte 0 (int p) (int p) (int nb) src 0
      = Some (bc, int (p + min 8 (nb - p)), byte_of (take (nb - p) (drop p src)))"
    and "p + 8 \<le> nb \<Longrightarrow> bc = int p + 8"
proof -
  from pack_byte_spec [of 0 p nb src 0] assms obtain bc b where
    b: "pack_byte 0 (int p) (int p) (int nb) src 0 = Some (bc, int (p + min 8 (nb - p)), b)"
      "bc = int p + 8 \<or> nb < p + 8"
      "\<And>j. bit b j \<longleftrightarrow> j < 8 \<and> p + j < nb \<and> src ! (p + j) \<noteq> 0"
    by auto
  have "b = byte_of (take (nb - p) (drop p src))"
    by (rule bit_word_eqI) (use assms(2) in \<open>auto simp: b(3) bit_byte_of\<close>)
  with b(1,2) that show thesis by auto
qed

lemma pack_bits_spec:
  "p \<le> nb \<Longrightarrow> nb \<le> length src \<Longrightarrow> n = (nb - p + 7) div 8 \<Longrightarrow> length pre + n \<le> length req \<Longrightarrow>
   pack_bits n (int p) (int p) (int nb) src (pre @ drop (length pre) req) (int (length pre))
     = Some (int (length pre + n),
         pre @ bytes_of_bits n (take (nb - p) (drop p src)) @ drop (length pre + n) req)"
proof (induction n arbitrary: p pre)
  case (Suc n)
  define b where "b = byte_of (take (nb - p) (drop p src))"
  obtain bc where bc: "pack_byte 0 (int p) (int p) (int nb) src 0
      = Some (bc, int (p + min 8 (nb - p)), b)" "p + 8 \<le> nb \<Longrightarrow> bc = int p + 8"
    using pack_byte_byte_of [OF Suc.prems(1,2)] unfolding b_def by blast
  have store: "wr (pre @ drop (length pre) req) (int (length pre)) b
      = Some ((pre @ [b]) @ drop (length (pre @ [b])) req)"
    using Suc.prems(4) by (intro wr_after_prefix) simp
  show ?case
  proof (cases "p + 8 \<le> nb")
    case True
    then have "n = (nb - (p + 8) + 7) div 8" using Suc.prems(3) by linarith
    from Suc.IH [OF True Suc.prems(2) this, of "pre @ [b]"] Suc.prems(4)
    have ih: "pack_bits n (int (p + 8)) (int (p + 8)) (int nb) src
        ((pre @ [b]) @ drop (length (pre @ [b])) req) (int (length pre) + 1)
      = Some (int (length pre + Suc n), (pre @ [b]) @ bytes_of_bits n (take (nb - (p + 8)) (drop (p + 8) src))
          @ drop (length pre + Suc n) req)"
      by (simp add: add.commute)
    have rest: "drop 8 (take (nb - p) (drop p src)) = take (nb - (p + 8)) (drop (p + 8) src)"
      by (simp add: drop_take add.commute)
    have bc': "pack_byte 0 (int p) (int p) (int nb) src 0 = Some (int (p + 8), int (p + 8), b)"
      using bc(1) bc(2) [OF True] True by (simp add: min_def)
    show ?thesis
      unfolding pack_bits.simps bytes_of_bits.simps rest b_def [symmetric] bc' Option.bind.simps
        prod.case store ih
      by simp
  next
    case False
    then have "n = 0" using Suc.prems(3) by linarith
    with bc store show ?thesis by (simp add: b_def)
  qed
qed simp

text \<open>Unpacking undoes packing.\<close>

lemma bits_of_bytes_of_bits:
  "nb \<le> 8 * n \<Longrightarrow> nb = length bits \<Longrightarrow>
   take nb (bits_of_bytes (bytes_of_bits n bits)) = map (\<lambda>v. if v \<noteq> 0 then 1 else 0) bits"
proof (induction n arbitrary: nb bits)
  case (Suc n)
  have head: "take nb (map (bit_value (byte_of bits)) [0..<8])
      = map (\<lambda>v. if v \<noteq> 0 then 1 else 0) (take 8 bits)"
    using Suc.prems(2) by (intro nth_equalityI) (auto simp: bit_byte_of nth_append)
  have "take (nb - 8) (bits_of_bytes (bytes_of_bits n (drop 8 bits)))
      = map (\<lambda>v. if v \<noteq> 0 then 1 else 0) (drop 8 bits)"
    using Suc.IH [of "nb - 8" "drop 8 bits"] Suc.prems by simp
  with head show ?case
    by (simp add: bits_of_bytes_def del: upt_Suc) (metis append_take_drop_id map_append)
qed simp

section \<open>Replies and their frames\<close>

text \<open>The length that a confirmation announces for itself.\<close>

definition pdu_sized :: "u8 list \<Rightarrow> bool" where
  "pdu_sized rp \<longleftrightarrow> 2 \<le> length rp \<and>
     int (length rp) = 1 + compute_meta_length_after_function (uint (rp ! 0)) MSG_CONFIRMATION
       + (if uint (rp ! 0) \<le> 4 \<or> uint (rp ! 0) \<in> {0x11, 0x15, 0x17} then uint (rp ! 1) else 0)"

lemma judge_negative:
  "n < 0 \<Longrightarrow> uint (rq ! 0) \<noteq> 0x11 \<Longrightarrow> judge rq rp n \<noteq> Inr k"
  using reply_length_pos [of rq] by (simp add: judge_def)

context modbus_framing
begin

lemma frame_cases: "frame m = m @ drop (length m) (frame m)"
  by (metis append_take_drop_id frame_prefix)

lemma well_sized_frame: "well_sized be (frame (hdr st @ rp)) \<longleftrightarrow> pdu_sized rp"
proof (cases "2 \<le> length rp")
  case True
  obtain x where x: "frame (hdr st @ rp) = hdr st @ rp @ x" "length x = nat (checksum_length be)"
    using frame_cases [of "hdr st @ rp"] frame_length [of "hdr st @ rp"]
    by (metis append_assoc length_append add_left_cancel)
  have nth: "(hdr st @ rp @ x) ! nat (header_length be) = rp ! 0"
    "(hdr st @ rp @ x) ! (nat (header_length be) + 1) = rp ! 1"
    using True by (cases rp; auto simp: nth_append)+
  show ?thesis
    using True x(2) header_pos checksum_nonneg
    unfolding well_sized_def pdu_sized_def Let_def x(1) nth by auto
next
  case False
  have "header_length be + 2 + checksum_length be \<le> int (length (frame (hdr st @ rp)))"
    if "well_sized be (frame (hdr st @ rp))"
    using well_sized_length [OF that] .
  with False show ?thesis
    using checksum_nonneg header_pos by (auto simp: pdu_sized_def frame_length)
qed

lemma exchange_outcome_frame:
  assumes "mb_ok st" "pdu_sized rp"
  shows "exchange_outcome be frame (addressed st) (hdr st) rq e (frame (hdr st @ rp))
    = map_sum Some id (judge rq rp (int (length rp)))"
proof -
  define bs where "bs = frame (hdr st @ rp)"
  obtain x where x: "bs = hdr st @ rp @ x" "length x = nat (checksum_length be)"
    using frame_cases [of "hdr st @ rp"] frame_length [of "hdr st @ rp"]
    unfolding bs_def by (metis append_assoc length_append add_left_cancel)
  then have len: "length bs = nat (header_length be) + length rp + nat (checksum_length be)" by simp
  have m: "take (length bs - nat (checksum_length be)) bs = hdr st @ rp" using x by simp
  have h: "take (nat (header_length be)) bs = hdr st"
    "take (length bs - nat (header_length be) - nat (checksum_length be)) (drop (nat (header_length be)) bs) = rp"
    using x by simp_all
  have fr: "frame (hdr st @ rp) = bs" by (simp add: bs_def)
  have "bs \<noteq> []" using len assms(2) by (auto simp: pdu_sized_def)
  moreover have "well_sized be bs" using assms(2) well_sized_frame by (simp add: bs_def)
  ultimately show ?thesis
    unfolding exchange_outcome_def Let_def fr m h
    using addressed_hdr [OF assms(1)] by simp
qed

text \<open>An exchange succeeds exactly on an acceptable confirmation in an intact frame.\<close>

lemma exchange_outcome_Inr:
  assumes "mb_ok st" "uint (rq ! 0) \<noteq> 0x11"
  shows "exchange_outcome be frame (addressed st) (hdr st) rq e bs = Inr n \<longleftrightarrow>
    (\<exists>rp. bs = frame (hdr st @ rp) \<and> pdu_sized rp \<and> judge rq rp (int (length rp)) = Inr n)"
proof
  assume *: "exchange_outcome be frame (addressed st) (hdr st) rq e bs = Inr n"
  define h where "h = nat (header_length be)"
  define c where "c = nat (checksum_length be)"
  define rp where "rp = take (length bs - h - c) (drop h bs)"
  have never: "map_sum Some id (judge rq rp (- header_length be - checksum_length be)) \<noteq> Inr n"
    using judge_negative [OF _ assms(2), of "- header_length be - checksum_length be" rp n]
      header_pos checksum_nonneg by (cases "judge rq rp (- header_length be - checksum_length be)") auto
  from * never have sized: "bs \<noteq> []" "well_sized be bs" "addressed st (take h bs)"
    and bs: "bs = frame (take (length bs - c) bs)"
    and hd: "take h bs = hdr st \<or> uint (last (hdr st)) = MODBUS_BROADCAST_ADDRESS"
    and j: "map_sum Some id (judge rq rp (int (length rp))) = Inr n"
    unfolding exchange_outcome_def Let_def h_def [symmetric] c_def [symmetric] rp_def [symmetric]
    by (auto split: if_splits)
  have l: "h + 2 + c \<le> length bs"
    using well_sized_length [OF sized(2)] nat_header nat_checksum unfolding h_def c_def by linarith
  then have "int (length (take h bs)) = header_length be"
    using nat_header by (simp add: h_def del: nat_header)
  with sized(3) hd addressed_broadcast [of st "take h bs"] assms(1)
  have "take h bs = hdr st" by auto
  moreover have "take (length bs - c) bs = take h bs @ rp"
    using l by (simp add: rp_def take_add [symmetric])
  ultimately have bs': "bs = frame (hdr st @ rp)" using bs by simp
  moreover have "pdu_sized rp" using sized(2) bs' well_sized_frame by simp
  moreover have "judge rq rp (int (length rp)) = Inr n"
    using j by (cases "judge rq rp (int (length rp))") auto
  ultimately show "\<exists>rp. bs = frame (hdr st @ rp) \<and> pdu_sized rp \<and> judge rq rp (int (length rp)) = Inr n"
    by blast
next
  assume "\<exists>rp. bs = frame (hdr st @ rp) \<and> pdu_sized rp \<and> judge rq rp (int (length rp)) = Inr n"
  then show "exchange_outcome be frame (addressed st) (hdr st) rq e bs = Inr n"
    using exchange_outcome_frame [OF assms(1)] by auto
qed

end

section \<open>The confirmations of each request\<close>

definition request_pdu :: "int \<Rightarrow> int \<Rightarrow> int \<Rightarrow> u8 list" where
  "request_pdu fc addr nb = [word_of_int fc, hi8 addr, lo8 addr, hi8 nb, lo8 nb]"

lemma request_pdu_simps [simp]:
  "length (request_pdu fc addr nb) = 5" "request_pdu fc addr nb \<noteq> []"
  "request_pdu fc addr nb ! 0 = word_of_int fc"
  "request_pdu fc addr nb ! 3 = hi8 nb" "request_pdu fc addr nb ! 4 = lo8 nb"
  by (simp_all add: request_pdu_def)

lemma uint_small8: "0 \<le> x \<Longrightarrow> x < 256 \<Longrightarrow> uint (word_of_int x :: u8) = x"
  by (simp add: uint_word_of_int take_bit_eq_mod)

lemma regs_of_bytes: "length data = 2 * k \<Longrightarrow> \<exists>regs. length regs = k \<and> regs_bytes regs = data"
proof (induction k arbitrary: data)
  case (Suc k)
  then obtain h l rest where data: "data = h # l # rest" "length rest = 2 * k"
    by (auto simp: length_Suc_conv)
  with Suc.IH obtain regs where regs: "length regs = k" "regs_bytes regs = rest" by blast
  have "reg_bytes (word_of_int (be16 h l)) = [h, l]"
    by (simp add: reg_bytes_eq_iff uint_word_of_int take_bit_eq_mod)
  with data regs show ?case
    by (intro exI [of _ "word_of_int (be16 h l) # regs"]) simp
qed simp

lemma judge_Inr_iff:
  "judge rq rp n = Inr k \<longleftrightarrow> uint (rp ! 0) < 0x80 \<and> (n = reply_length rq \<or> uint (rq ! 0) = 0x11)
     \<and> rp ! 0 = rq ! 0 \<and> reply_counts rq rp = (k, k)"
  unfolding judge_def by (cases "reply_counts rq rp") auto

lemma pdu_sized_Cons:
  "pdu_sized (a # b # data) \<longleftrightarrow>
     int (length data) = compute_meta_length_after_function (uint a) MSG_CONFIRMATION - 1
       + (if uint a \<le> 4 \<or> uint a \<in> {0x11, 0x15, 0x17} then uint b else 0)"
proof -
  define m where "m = compute_meta_length_after_function (uint a) MSG_CONFIRMATION"
  define d where "d = (if uint a \<le> 4 \<or> uint a \<in> {0x11, 0x15, 0x17} then uint b else 0)"
  have "pdu_sized (a # b # data) \<longleftrightarrow> int (length (a # b # data)) = 1 + m + d"
    unfolding pdu_sized_def m_def d_def nth_Cons_0 One_nat_def nth_Cons_Suc by simp
  then show ?thesis unfolding m_def [symmetric] d_def [symmetric] by auto
qed

lemma pdu_sized_shape: "pdu_sized rp \<Longrightarrow> \<exists>a b data. rp = a # b # data"
  by (cases rp; cases "tl rp") (auto simp: pdu_sized_def)

text \<open>An acceptable confirmation repeats the function code and has the length that both the request
  and the confirmation itself give it.\<close>

lemma accepted_iff:
  assumes "uint (rq ! 0) < 0x80" "uint (rq ! 0) \<noteq> 0x11"
  shows "pdu_sized rp \<and> judge rq rp (int (length rp)) = Inr n \<longleftrightarrow>
    (\<exists>b data. rp = rq ! 0 # b # data \<and> pdu_sized (rq ! 0 # b # data) \<and>
       2 + int (length data) = reply_length rq \<and>
       reply_counts rq (rq ! 0 # b # data) = (n, n))"
    (is "?L \<longleftrightarrow> ?R")
proof
  assume L: ?L
  then obtain a b data where rp: "rp = a # b # data" using pdu_sized_shape by blast
  from L have "a = rq ! 0" by (simp add: judge_Inr_iff rp)
  with L assms(2) rp show ?R
    by (auto simp: judge_Inr_iff)
next
  assume ?R
  then obtain b data where "rp = rq ! 0 # b # data" "pdu_sized rp"
    "2 + int (length data) = reply_length rq" "reply_counts rq rp = (n, n)" by blast
  with assms show ?L by (simp add: judge_Inr_iff)
qed

lemma reply_counts_cases:
  "uint (rp ! 0) \<in> {1, 2} \<Longrightarrow> reply_counts rq rp = ((be16 (rq ! 3) (rq ! 4) + 7) div 8, uint (rp ! 1))"
  "uint (rp ! 0) \<in> {3, 4, 0x17} \<Longrightarrow> reply_counts rq rp = (be16 (rq ! 3) (rq ! 4), uint (rp ! 1) div 2)"
  "uint (rp ! 0) \<in> {0x0F, 0x10} \<Longrightarrow> reply_counts rq rp = (be16 (rq ! 3) (rq ! 4), be16 (rp ! 3) (rp ! 4))"
  "uint (rp ! 0) \<in> {5, 6, 0x16} \<Longrightarrow> reply_counts rq rp = (1, 1)"
  by (auto simp: reply_counts_def Let_def)

lemma reply_length_cases:
  "uint (rq ! 0) \<in> {1, 2} \<Longrightarrow> reply_length rq = 2 + (be16 (rq ! 3) (rq ! 4) + 7) div 8"
  "uint (rq ! 0) \<in> {3, 4, 0x17} \<Longrightarrow> reply_length rq = 2 + 2 * be16 (rq ! 3) (rq ! 4)"
  "uint (rq ! 0) \<in> {5, 6, 0x0F, 0x10} \<Longrightarrow> reply_length rq = 5"
  "uint (rq ! 0) = 0x16 \<Longrightarrow> reply_length rq = 7"
  by (auto simp: reply_length_def Let_def)

lemma meta_cases:
  "fc \<in> {1, 2, 3, 4, 0x17} \<Longrightarrow> compute_meta_length_after_function fc MSG_CONFIRMATION = 1"
  "fc \<in> {5, 6, 0x0F, 0x10} \<Longrightarrow> compute_meta_length_after_function fc MSG_CONFIRMATION = 4"
  "fc = 0x16 \<Longrightarrow> compute_meta_length_after_function fc MSG_CONFIRMATION = 6"
  by (auto simp: compute_meta_length_after_function_def)

lemma word_of_uint_eq: "uint (b :: u8) = k \<longleftrightarrow> 0 \<le> k \<and> k < 256 \<and> b = word_of_int k"
  using uint_lt_256 [of b] by (auto simp: uint_small8)

text \<open>When the request is for registers, for bits, a single write, or a multiple write.\<close>

lemma judge_registers:
  assumes fc: "uint (rq ! 0) \<in> {3, 4, 0x17}" and nb: "be16 (rq ! 3) (rq ! 4) = nb"
  shows "pdu_sized rp \<and> judge rq rp (int (length rp)) = Inr n \<longleftrightarrow>
    n = nb \<and> nb \<le> 127 \<and> (\<exists>regs. int (length regs) = nb \<and> rp = rq ! 0 # word_of_int (2 * nb) # regs_bytes regs)"
    (is "?L \<longleftrightarrow> ?R")
proof -
  have pre: "uint (rq ! 0) < 0x80" "uint (rq ! 0) \<noteq> 0x11"
    and meta: "compute_meta_length_after_function (uint (rq ! 0)) MSG_CONFIRMATION = 1"
    and data: "uint (rq ! 0) \<le> 4 \<or> uint (rq ! 0) \<in> {0x11, 0x15, 0x17}"
    using fc meta_cases(1) [of "uint (rq ! 0)"] by auto
  have "0 \<le> nb" using nb by auto
  have len: "reply_length rq = 2 + 2 * nb"
    using reply_length_cases(2) [OF fc] nb by simp
  have counts: "reply_counts rq (rq ! 0 # b # xs) = (nb, uint b div 2)" for b xs
    using reply_counts_cases(2) [of "rq ! 0 # b # xs" rq] fc nb by simp
  have "?L \<longleftrightarrow> (\<exists>b data. rp = rq ! 0 # b # data \<and> uint b = 2 * nb \<and> int (length data) = 2 * nb \<and> n = nb)"
    unfolding accepted_iff [OF pre(1,2)] pdu_sized_Cons meta len counts if_P [OF data] by auto
  also have "\<dots> \<longleftrightarrow> n = nb \<and> nb \<le> 127 \<and> (\<exists>data. rp = rq ! 0 # word_of_int (2 * nb) # data \<and> int (length data) = 2 * nb)"
    unfolding word_of_uint_eq using \<open>0 \<le> nb\<close> by auto
  also have "\<dots> \<longleftrightarrow> ?R"
  proof -
    have "int (length data) = 2 * nb \<longleftrightarrow> (\<exists>regs. int (length regs) = nb \<and> data = regs_bytes regs)" for data
    proof
      assume "int (length data) = 2 * nb"
      then have "length data = 2 * nat nb" by simp
      with regs_of_bytes [OF this] \<open>0 \<le> nb\<close>
      show "\<exists>regs. int (length regs) = nb \<and> data = regs_bytes regs" by (metis int_nat_eq)
    qed auto
    then show ?thesis by auto
  qed
  finally show ?thesis .
qed

lemma judge_bits:
  assumes fc: "uint (rq ! 0) \<in> {1, 2}" and nb: "be16 (rq ! 3) (rq ! 4) = nb"
  shows "pdu_sized rp \<and> judge rq rp (int (length rp)) = Inr n \<longleftrightarrow>
    n = (nb + 7) div 8 \<and> n \<le> 255 \<and> (\<exists>data. int (length data) = n \<and> rp = rq ! 0 # word_of_int n # data)"
    (is "?L \<longleftrightarrow> ?R")
proof -
  have pre: "uint (rq ! 0) < 0x80" "uint (rq ! 0) \<noteq> 0x11"
    and meta: "compute_meta_length_after_function (uint (rq ! 0)) MSG_CONFIRMATION = 1"
    and data: "uint (rq ! 0) \<le> 4 \<or> uint (rq ! 0) \<in> {0x11, 0x15, 0x17}"
    using fc meta_cases(1) [of "uint (rq ! 0)"] by auto
  have len: "reply_length rq = 2 + (nb + 7) div 8"
    using reply_length_cases(1) [OF fc] nb by simp
  have counts: "reply_counts rq (rq ! 0 # b # xs) = ((nb + 7) div 8, uint b)" for b xs
    using reply_counts_cases(1) [of "rq ! 0 # b # xs" rq] fc nb by simp
  have "?L \<longleftrightarrow> (\<exists>b data. rp = rq ! 0 # b # data \<and> uint b = n \<and> int (length data) = n \<and> n = (nb + 7) div 8)"
    unfolding accepted_iff [OF pre(1,2)] pdu_sized_Cons meta len counts if_P [OF data] by auto
  also have "\<dots> \<longleftrightarrow> ?R"
    unfolding word_of_uint_eq using be16_nonneg [of "rq ! 3" "rq ! 4"] nb
    by (auto simp: pos_imp_zdiv_nonneg_iff)
  finally show ?thesis .
qed

lemma four_bytes: "length xs = 4 \<longleftrightarrow> (\<exists>b data. xs = b # data \<and> length data = 3)"
  by (cases xs) auto

lemma six_bytes: "length xs = 6 \<longleftrightarrow> (\<exists>b data. xs = b # data \<and> length data = 5)"
  by (cases xs) auto

lemma judge_single:
  assumes fc: "uint (rq ! 0) \<in> {5, 6}"
  shows "pdu_sized rp \<and> judge rq rp (int (length rp)) = Inr n \<longleftrightarrow>
    n = 1 \<and> (\<exists>echo. length echo = 4 \<and> rp = rq ! 0 # echo)"
proof -
  have pre: "uint (rq ! 0) < 0x80" "uint (rq ! 0) \<noteq> 0x11"
    and meta: "compute_meta_length_after_function (uint (rq ! 0)) MSG_CONFIRMATION = 4"
    and len: "reply_length rq = 5" 
    and data: "\<not> (uint (rq ! 0) \<le> 4 \<or> uint (rq ! 0) \<in> {0x11, 0x15, 0x17})"
    using meta_cases(2) [of "uint (rq ! 0)"] reply_length_cases(3) [of rq] fc by fastforce+
  have counts: "reply_counts rq (rq ! 0 # xs) = (1, 1)" for xs
    by (rule reply_counts_cases(4)) (use fc in auto)
  have "pdu_sized rp \<and> judge rq rp (int (length rp)) = Inr n
      \<longleftrightarrow> (\<exists>b data. rp = rq ! 0 # b # data \<and> length data = 3 \<and> n = 1)"
    unfolding accepted_iff [OF pre(1,2)] pdu_sized_Cons meta len counts if_not_P [OF data] by auto
  also have "\<dots> \<longleftrightarrow> n = 1 \<and> (\<exists>echo. length echo = 4 \<and> rp = rq ! 0 # echo)"
    unfolding four_bytes by blast
  finally show ?thesis .
qed

lemma judge_mask_write:
  assumes fc: "uint (rq ! 0) = 0x16"
  shows "pdu_sized rp \<and> judge rq rp (int (length rp)) = Inr n \<longleftrightarrow>
    n = 1 \<and> (\<exists>echo. length echo = 6 \<and> rp = rq ! 0 # echo)"
proof -
  have pre: "uint (rq ! 0) < 0x80" "uint (rq ! 0) \<noteq> 0x11"
    and meta: "compute_meta_length_after_function (uint (rq ! 0)) MSG_CONFIRMATION = 6"
    and len: "reply_length rq = 7"
    and data: "\<not> (uint (rq ! 0) \<le> 4 \<or> uint (rq ! 0) \<in> {0x11, 0x15, 0x17})"
    using meta_cases(3) [of "uint (rq ! 0)"] reply_length_cases(4) [of rq] fc by simp_all
  have counts: "reply_counts rq (rq ! 0 # xs) = (1, 1)" for xs
    by (rule reply_counts_cases(4)) (use fc in auto)
  have "pdu_sized rp \<and> judge rq rp (int (length rp)) = Inr n
      \<longleftrightarrow> (\<exists>b data. rp = rq ! 0 # b # data \<and> length data = 5 \<and> n = 1)"
    unfolding accepted_iff [OF pre(1,2)] pdu_sized_Cons meta len counts if_not_P [OF data] by auto
  also have "\<dots> \<longleftrightarrow> n = 1 \<and> (\<exists>echo. length echo = 6 \<and> rp = rq ! 0 # echo)"
    unfolding six_bytes by blast
  finally show ?thesis .
qed

lemma judge_multiple:
  assumes fc: "uint (rq ! 0) \<in> {0x0F, 0x10}" and nb: "be16 (rq ! 3) (rq ! 4) = nb"
  shows "pdu_sized rp \<and> judge rq rp (int (length rp)) = Inr n \<longleftrightarrow>
    n = nb \<and> (\<exists>a b. rp = [rq ! 0, a, b, hi8 nb, lo8 nb])"
proof -
  have pre: "uint (rq ! 0) < 0x80" "uint (rq ! 0) \<noteq> 0x11"
    and meta: "compute_meta_length_after_function (uint (rq ! 0)) MSG_CONFIRMATION = 4"
    and len: "reply_length rq = 5"
    and data: "\<not> (uint (rq ! 0) \<le> 4 \<or> uint (rq ! 0) \<in> {0x11, 0x15, 0x17})"
    using meta_cases(2) [of "uint (rq ! 0)"] reply_length_cases(3) [of rq] fc by fastforce+
  have counts: "reply_counts rq (rq ! 0 # xs) = (nb, be16 ((rq ! 0 # xs) ! 3) ((rq ! 0 # xs) ! 4))" for xs
    using reply_counts_cases(3) [of "rq ! 0 # xs" rq] fc nb by simp
  have three: "int (length data) = 3 \<longleftrightarrow> (\<exists>c d e. data = [c, d, e])" for data :: "u8 list"
    by (auto simp: length_Suc_conv numeral_eq_Suc)
  have "pdu_sized rp \<and> judge rq rp (int (length rp)) = Inr n \<longleftrightarrow>
      (\<exists>b data. rp = rq ! 0 # b # data \<and> int (length data) = 3 \<and> n = nb \<and>
        be16 ((rq ! 0 # b # data) ! 3) ((rq ! 0 # b # data) ! 4) = nb)"
    unfolding accepted_iff [OF pre(1,2)] pdu_sized_Cons meta len counts if_not_P [OF data] by auto
  also have "\<dots> \<longleftrightarrow> n = nb \<and> (\<exists>a b. rp = [rq ! 0, a, b, hi8 nb, lo8 nb])"
  proof -
    have "be16 d e = nb \<longleftrightarrow> d = hi8 nb \<and> e = lo8 nb" for d e
      using nb hi8_be16 [of d e] lo8_be16 [of d e] by (metis hi8_be16 lo8_be16)
    then show ?thesis unfolding three by auto
  qed
  finally show ?thesis .
qed

text \<open>An exception reply.\<close>

lemma judge_exception:
  assumes "uint f = uint (rq ! 0) + 0x80"
  shows "judge rq [f, code] 2 = Inl (if uint code < 12 then EMB (uint code) else EMBBADEXC)"
    and "pdu_sized [f, code]"
proof -
  have f: "0x80 \<le> uint f" using assms by simp
  then show "judge rq [f, code] 2 = Inl (if uint code < 12 then EMB (uint code) else EMBBADEXC)"
    using assms by (simp add: judge_def)
  from f show "pdu_sized [f, code]"
    by (auto simp: pdu_sized_def compute_meta_length_after_function_def)
qed

section \<open>The client operations\<close>

lemma conclude_update:
  "fst (conclude r (st\<lparr>g_req := q\<rparr>)) = fst (conclude r st)"
  "snd (conclude r (st\<lparr>g_req := q\<rparr>)) = (snd (conclude r st))\<lparr>g_req := q\<rparr>"
  by (simp_all add: conclude_def set_errno_def split: sum.split option.split)

lemma conclude_fst: "fst (conclude r st) = (case r of Inr n \<Rightarrow> n | Inl e \<Rightarrow> -1)"
  by (simp add: conclude_def split: sum.split option.split)

lemma conclude_Inl: "r = Inl e \<Longrightarrow> conclude r st = (-1, snd (conclude r st))"
  by (simp add: conclude_def split: option.split)

lemma checkable_request [simp]: "checkable (request_pdu fc addr nb @ extra)"
  by (simp add: checkable_def)

context modbus_framing
begin

text \<open>The outcome of sending \<open>rq\<close>, and the state of the library when it returns.\<close>

definition outcome :: "mb \<Rightarrow> u8 list \<Rightarrow> errno option + int" where
  "outcome st rq = exchange_outcome be frame (addressed st) (hdr st) rq (line_error st) (arrives st)"

definition after :: "mb \<Rightarrow> u8 list \<Rightarrow> mb \<Rightarrow> bool" where
  "after st rq st' \<longleftrightarrow> mb_ok st' \<and> ctx st' = ctx st \<and>
     sent (port st') = sent (port st) @ [frame (hdr st @ rq)] \<and>
     incoming (port st') = tl (incoming (port st)) \<and>
     g_rsp st' = arrives st @ drop (length (arrives st)) (g_rsp st) \<and>
     libmodbuserrno st' = (case outcome st rq of Inl (Some e) \<Rightarrow> Some e | _ \<Rightarrow> libmodbuserrno st)"

lemma after_rsp: "after st rq st' \<Longrightarrow> g_rsp st' = arrives st @ drop (length (arrives st)) (g_rsp st)"
  by (auto simp only: after_def)

lemma mb_ok_rsp: "mb_ok st \<Longrightarrow> length (arrives st) \<le> length (g_rsp st)"
  using length_arrives [of st] max_adu_fits by (simp add: mb_ok_def)

lemma after_exchange:
  assumes "mb_ok st"
  shows "after st rq (snd (conclude (outcome st rq) (exchanged (frame (hdr st @ rq)) (arrives st) st)))"
  using assms mb_ok_rsp [OF assms]
  by (auto simp: after_def mb_ok_def conclude_def split: sum.split option.split)

lemma after_g_req:
  assumes "after st rq st'" "length q = MAX_MESSAGE_LENGTH"
  shows "after st rq (st'\<lparr>g_req := q\<rparr>)"
proof -
  have "mb_ok st'" using assms(1) by (simp only: after_def)
  with assms(2) have "mb_ok (st'\<lparr>g_req := q\<rparr>)" by (simp add: mb_ok_def)
  with assms(1) show ?thesis unfolding after_def by simp
qed

text \<open>A request in a local buffer and one in the static buffer.\<close>

lemma transact_local:
  assumes "mb_ok st" "checkable rq" "nat (checksum_length be) \<le> length rest" "length (hdr st @ rq) < 65536"
  obtains st' req where "transact be st (hdr st @ rq @ rest) (header_length be + int (length rq))
      = Some (case outcome st rq of Inr n \<Rightarrow> n | Inl e \<Rightarrow> -1, req, st')"
    and "after st rq st'" "length req = length (hdr st @ rq @ rest)"
proof -
  note run = transact_spec [OF assms, unfolded Let_def, folded outcome_def]
  let ?st = "snd (conclude (outcome st rq) (exchanged (frame (hdr st @ rq)) (arrives st) st))"
  have "length (frame (hdr st @ rq) @ drop (nat (checksum_length be)) rest) = length (hdr st @ rq @ rest)"
    using assms(3) by (simp add: frame_length)
  then show thesis
    using that [OF run [unfolded conclude_fst] after_exchange [OF assms(1)]] by simp
qed

lemma transact_static_local:
  assumes "mb_ok st" "checkable rq" "length (hdr st @ rq @ rest) = MAX_MESSAGE_LENGTH"
    "nat (checksum_length be) \<le> length rest"
  obtains st' where "transact_static be st (hdr st @ rq @ rest) (header_length be + int (length rq))
      = Some (case outcome st rq of Inr n \<Rightarrow> n | Inl e \<Rightarrow> -1, st')"
    and "after st rq st'"
proof -
  have "length (hdr st @ rq) < 65536" using assms(3) by simp
  then obtain st' req where
    "transact be st (hdr st @ rq @ rest) (header_length be + int (length rq))
      = Some (case outcome st rq of Inr n \<Rightarrow> n | Inl e \<Rightarrow> -1, req, st')"
    "after st rq st'" "length req = length (hdr st @ rq @ rest)"
    using transact_local [OF assms(1,2,4)] by blast
  with assms(3) that [of "st'\<lparr>g_req := req\<rparr>"] show thesis
    by (simp add: transact_static_def after_g_req)
qed

lemma build_request_pdu:
  assumes "mb_ok st" "header_length be + 5 \<le> int (length buf)"
  shows "build_request_basis be st fc addr nb buf
    = Some (header_length be + 5, hdr st @ request_pdu fc addr nb @ drop (nat (header_length be) + 5) buf)"
  using build_request [OF assms, of fc addr nb] by (simp add: request_pdu_def)

lemma room: "header_length be + checksum_length be \<le> 7" "nat (header_length be) + nat (checksum_length be) \<le> 7"
  using header_fits max_adu_fits header_pos checksum_nonneg by linarith+

text \<open>Reading registers.\<close>

lemma checkable_request0 [simp]: "checkable (request_pdu fc addr nb)"
  using checkable_request [of fc addr nb "[]"] by simp

lemma outcome_registers:
  assumes "mb_ok st" "fc \<in> {3, 4, 0x17}" "0 \<le> nb" "nb \<le> 125"
  shows "outcome st (request_pdu fc addr nb @ extra) = Inr n \<longleftrightarrow> n = nb \<and>
    (\<exists>regs. int (length regs) = nb \<and>
       arrives st = frame (hdr st @ word_of_int fc # word_of_int (2 * nb) # regs_bytes regs))"
proof -
  let ?rq = "request_pdu fc addr nb @ extra"
  have rq: "?rq ! 0 = word_of_int fc" "be16 (?rq ! 3) (?rq ! 4) = nb" "uint (?rq ! 0) = fc"
    using assms(2-4) by (auto simp: nth_append be16_hi8_lo8_id uint_small8)
  then have "uint (?rq ! 0) \<in> {3, 4, 0x17}" "uint (?rq ! 0) \<noteq> 0x11" using assms(2) by auto
  from exchange_outcome_Inr [OF assms(1) this(2)] judge_registers [OF this(1) rq(2)] assms(4)
  show ?thesis unfolding outcome_def rq(1) by auto
qed

lemma copy_reply:
  assumes "g_rsp st' = frame (hdr st @ a # b # regs_bytes regs) @ tail" "length regs \<le> length dest"
  shows "copy_regs (g_rsp st') (header_length be + 2) (length regs) 0 dest
    = Some (regs @ drop (length regs) dest)"
proof -
  let ?pre = "hdr st @ [a, b]"
  obtain x where "frame (hdr st @ a # b # regs_bytes regs) = (hdr st @ a # b # regs_bytes regs) @ x"
    using frame_cases by blast
  then have "g_rsp st' = ?pre @ regs_bytes regs @ x @ tail" using assms(1) by simp
  moreover have "header_length be + 2 = int (length ?pre)" using header_pos by simp
  ultimately show ?thesis
    using copy_regs_spec [of 0 regs dest ?pre "x @ tail"] assms(2)
    by (simp only: int_ops(1) take_0 append_Nil add_0 True_implies_equals)
qed

lemma read_registers_spec:
  assumes ok: "mb_ok st" and fc: "fc \<in> {3, 4}" and nb: "0 \<le> nb" "nb \<le> 125" "nb \<le> int (length dest)"
  obtains st' where "after st (request_pdu fc addr nb) st'"
    and "\<And>regs. int (length regs) = nb \<Longrightarrow>
        arrives st = frame (hdr st @ word_of_int fc # word_of_int (2 * nb) # regs_bytes regs) \<Longrightarrow>
        read_registers be st fc addr nb dest = Some (nb, regs @ drop (length regs) dest, st')"
    and "(\<nexists>regs. int (length regs) = nb \<and>
        arrives st = frame (hdr st @ word_of_int fc # word_of_int (2 * nb) # regs_bytes regs)) \<Longrightarrow>
        read_registers be st fc addr nb dest = Some (-1, dest, st')"
proof -
  let ?rq = "request_pdu fc addr nb"
  let ?rest = "drop (nat (header_length be) + 5) (g_req st)"
  have len: "length (g_req st) = 260" using ok by (simp add: mb_ok_def)
  then have buf: "length (hdr st @ ?rq @ ?rest) = 260" "nat (checksum_length be) \<le> length ?rest"
    using room by simp_all
  then obtain st' where run: "transact_static be st (hdr st @ ?rq @ ?rest) (header_length be + int (length ?rq))
      = Some (case outcome st ?rq of Inr n \<Rightarrow> n | Inl e \<Rightarrow> -1, st')" and after: "after st ?rq st'"
    using transact_static_local [OF ok checkable_request0 buf] by blast
  then have run': "transact_static be st (hdr st @ ?rq @ ?rest) (header_length be + 5)
      = Some (case outcome st ?rq of Inr n \<Rightarrow> n | Inl e \<Rightarrow> -1, st')"
    by (simp only: request_pdu_simps of_nat_numeral)
  have built: "build_request_basis be st fc addr nb (g_req st)
      = Some (header_length be + 5, hdr st @ ?rq @ ?rest)"
    using build_request_pdu [OF ok, of "g_req st" fc addr nb] len room by simp
  have fc': "fc \<in> {3, 4, 0x17}" using fc by auto
  note out = outcome_registers [OF ok fc' nb(1,2), of addr "[]", unfolded append_Nil2]
  show thesis
  proof (rule that [OF after])
    fix regs
    assume regs: "int (length regs) = nb"
      "arrives st = frame (hdr st @ word_of_int fc # word_of_int (2 * nb) # regs_bytes regs)"
    then have "outcome st ?rq = Inr nb"
      by (intro out [THEN iffD2] conjI exI [of _ regs] refl)
    moreover have "g_rsp st' = frame (hdr st @ word_of_int fc # word_of_int (2 * nb) # regs_bytes regs)
        @ drop (length (frame (hdr st @ word_of_int fc # word_of_int (2 * nb) # regs_bytes regs))) (g_rsp st)"
      using after_rsp [OF after] unfolding regs(2) .
    then have "copy_regs (g_rsp st') (header_length be + 2) (length regs) 0 dest
        = Some (regs @ drop (length regs) dest)"
      by (rule copy_reply) (use regs(1) nb(3) in linarith)
    moreover have "nat nb = length regs" "\<not> nb > 125" "nb \<noteq> -1" using regs(1) nb by simp_all
    ultimately show "read_registers be st fc addr nb dest = Some (nb, regs @ drop (length regs) dest, st')"
      by (simp only: read_registers_def built run' Option.bind.simps prod.case sum.case if_False)
  next
    assume "\<nexists>regs. int (length regs) = nb \<and>
        arrives st = frame (hdr st @ word_of_int fc # word_of_int (2 * nb) # regs_bytes regs)"
    then have "outcome st ?rq \<noteq> Inr n" for n by (simp only: out simp_thms)
    then obtain e where "outcome st ?rq = Inl e" by (cases "outcome st ?rq") auto
    then show "read_registers be st fc addr nb dest = Some (-1, dest, st')"
      using nb by (simp add: read_registers_def built run')
  qed
qed

text \<open>The writing functions: the code they return, and the one message they send.\<close>

lemma outcome_multiple:
  assumes "mb_ok st" "fc \<in> {0x0F, 0x10}" "0 \<le> nb" "nb < 65536"
  shows "outcome st (request_pdu fc addr nb @ extra) = Inr n \<longleftrightarrow> n = nb \<and>
    (\<exists>a b. arrives st = frame (hdr st @ [word_of_int fc, a, b, hi8 nb, lo8 nb]))"
proof -
  let ?rq = "request_pdu fc addr nb @ extra"
  have rq: "?rq ! 0 = word_of_int fc" "be16 (?rq ! 3) (?rq ! 4) = nb" "uint (?rq ! 0) = fc"
    using assms(2-4) by (auto simp: nth_append be16_hi8_lo8_id uint_small8)
  then have "uint (?rq ! 0) \<in> {0x0F, 0x10}" "uint (?rq ! 0) \<noteq> 0x11" using assms(2) by auto
  from exchange_outcome_Inr [OF assms(1) this(2)] judge_multiple [OF this(1) rq(2)]
  show ?thesis unfolding outcome_def rq(1) by auto
qed

lemma outcome_single:
  assumes "mb_ok st" "fc \<in> {5, 6}"
  shows "outcome st (request_pdu fc addr nb @ extra) = Inr n \<longleftrightarrow> n = 1 \<and>
    (\<exists>echo. length echo = 4 \<and> arrives st = frame (hdr st @ word_of_int fc # echo))"
proof -
  let ?rq = "request_pdu fc addr nb @ extra"
  have rq: "?rq ! 0 = word_of_int fc" "uint (?rq ! 0) = fc"
    using assms(2) by (auto simp: nth_append uint_small8)
  then have "uint (?rq ! 0) \<in> {5, 6}" "uint (?rq ! 0) \<noteq> 0x11" using assms(2) by auto
  from exchange_outcome_Inr [OF assms(1) this(2)] judge_single [OF this(1)]
  show ?thesis unfolding outcome_def rq(1) by auto
qed

lemma case_outcome:
  "(\<And>n. r = Inr n \<longleftrightarrow> n = k \<and> P) \<Longrightarrow> (case r of Inr n \<Rightarrow> n | Inl e \<Rightarrow> -1) = (if P then k else (-1 :: int))"
  by (cases r) auto

text \<open>Stepping through a request: what has been written is the message so far, and the rest of the
  buffer is untouched.\<close>

lemma built:
  assumes "mb_ok st" "header_length be + 5 \<le> int (length buf)"
  shows "build_request_basis be st fc addr nb buf
    = Some (int (length (hdr st @ request_pdu fc addr nb)),
        (hdr st @ request_pdu fc addr nb) @ drop (length (hdr st @ request_pdu fc addr nb)) buf)"
  using build_request_pdu [OF assms, of fc addr nb] header_pos by (simp add: add.commute)

lemma exchange_static:
  assumes "mb_ok st" "checkable rq" "length (hdr st @ rq) + nat (checksum_length be) \<le> MAX_MESSAGE_LENGTH"
  obtains st' where "transact_static be st ((hdr st @ rq) @ drop (length (hdr st @ rq)) (g_req st))
        (int (length (hdr st @ rq)))
      = Some (case outcome st rq of Inr n \<Rightarrow> n | Inl e \<Rightarrow> -1, st')"
    and "after st rq st'"
proof -
  let ?rest = "drop (length (hdr st @ rq)) (g_req st)"
  have "length (g_req st) = 260" using assms(1) by (simp add: mb_ok_def)
  then have "length (hdr st @ rq @ ?rest) = MAX_MESSAGE_LENGTH" "nat (checksum_length be) \<le> length ?rest"
    using assms(3) by simp_all
  from transact_static_local [OF assms(1,2) this] obtain st' where
    "transact_static be st (hdr st @ rq @ ?rest) (header_length be + int (length rq))
      = Some (case outcome st rq of Inr n \<Rightarrow> n | Inl e \<Rightarrow> -1, st')" "after st rq st'"
    by blast
  with that show thesis using header_pos by simp
qed

lemma exchange_local:
  assumes "mb_ok st" "checkable rq" "length (hdr st @ rq) + nat (checksum_length be) \<le> length buf"
    "length buf < 65536"
  obtains st' req where "transact be st ((hdr st @ rq) @ drop (length (hdr st @ rq)) buf) (int (length (hdr st @ rq)))
      = Some (case outcome st rq of Inr n \<Rightarrow> n | Inl e \<Rightarrow> -1, req, st')"
    and "after st rq st'"
proof -
  let ?rest = "drop (length (hdr st @ rq)) buf"
  have "nat (checksum_length be) \<le> length ?rest" "length (hdr st @ rq) < 65536"
    using assms(3,4) by simp_all
  from transact_local [OF assms(1,2) this] obtain st' req where
    "transact be st (hdr st @ rq @ ?rest) (header_length be + int (length rq))
      = Some (case outcome st rq of Inr n \<Rightarrow> n | Inl e \<Rightarrow> -1, req, st')" "after st rq st'"
    by blast
  with that show thesis using header_pos by simp
qed

lemmas unfold_steps = Option.bind.simps prod.case modbus_ptr.distinct if_False Let_def

lemma length_uninit [simp]: "length (uninit n) = n"
  by (simp add: uninit_def)

lemma write_single_spec:
  assumes ok: "mb_ok st" and fc: "fc \<in> {5, 6}"
  obtains st' where "write_single be Ctx st fc addr v
      = Some (if \<exists>echo. length echo = 4 \<and> arrives st = frame (hdr st @ word_of_int fc # echo) then 1 else -1, st')"
    and "after st (request_pdu fc addr (uint v)) st'"
proof -
  let ?rq = "request_pdu fc addr (uint v)"
  have fit: "length (hdr st @ ?rq) + nat (checksum_length be) \<le> length (uninit MIN_REQ_LENGTH)"
    "length (uninit MIN_REQ_LENGTH) < 65536" "header_length be + 5 \<le> int (length (uninit MIN_REQ_LENGTH))"
    using room checksum_nonneg by simp_all
  obtain st' req where run: "transact be st ((hdr st @ ?rq) @ drop (length (hdr st @ ?rq)) (uninit MIN_REQ_LENGTH))
        (int (length (hdr st @ ?rq)))
      = Some (case outcome st ?rq of Inr n \<Rightarrow> n | Inl e \<Rightarrow> -1, req, st')" and after: "after st ?rq st'"
    using exchange_local [OF ok checkable_request0 fit(1,2)] by blast
  note out = case_outcome [OF outcome_single [OF ok fc, of addr "uint v" "[]", unfolded append_Nil2]]
  have "write_single be Ctx st fc addr v
      = Some (if \<exists>echo. length echo = 4 \<and> arrives st = frame (hdr st @ word_of_int fc # echo) then 1 else -1, st')"
    by (simp only: write_single_def built [OF ok fit(3)] run out unfold_steps)
  with after that show thesis by blast
qed

lemma write_registers_spec:
  assumes ok: "mb_ok st" and nb: "0 \<le> nb" "nb \<le> 123" "nb \<le> int (length src)"
  obtains st' where "modbus_write_registers be Ctx st addr nb src
      = Some (if \<exists>a b. arrives st = frame (hdr st @ [0x10, a, b, hi8 nb, lo8 nb]) then nb else -1, st')"
    and "after st (request_pdu 0x10 addr nb @ word_of_int (nb * 2) # regs_bytes (take (nat nb) src)) st'"
proof -
  define regs where "regs = regs_bytes (take (nat nb) src)"
  let ?B = "hdr st @ request_pdu 0x10 addr nb"
  let ?C = "?B @ [word_of_int (nb * 2)]"
  have len: "length (g_req st) = 260" using ok by (simp add: mb_ok_def)
  have regs: "length regs = 2 * nat nb" using nb by (simp add: regs_def)
  have fit: "length ?C + length regs + nat (checksum_length be) \<le> 260"
    using regs nb room(2) by simp
  have count: "wr (?B @ drop (length ?B) (g_req st)) (int (length ?B)) (word_of_int (nb * 2))
      = Some (?C @ drop (length ?C) (g_req st))"
    by (rule wr_after_prefix) (use len fit in simp)
  have next_pos: "int (length ?B) + 1 = int (length ?C)" by simp
  have store: "store_regs src 0 (nat nb) (?C @ drop (length ?C) (g_req st)) (int (length ?C))
      = Some (int (length (?C @ regs)), (?C @ regs) @ drop (length (?C @ regs)) (g_req st))"
    using store_regs_spec [of 0 "nat nb" src ?C "g_req st"] nb len fit regs by (simp add: regs_def)
  let ?rq = "request_pdu 0x10 addr nb @ word_of_int (nb * 2) # regs"
  have msg: "?C @ regs = hdr st @ ?rq" by simp
  have fitq: "length (hdr st @ ?rq) + nat (checksum_length be) \<le> 260" using fit by simp
  obtain st' where run: "transact_static be st ((hdr st @ ?rq) @ drop (length (hdr st @ ?rq)) (g_req st))
        (int (length (hdr st @ ?rq)))
      = Some (case outcome st ?rq of Inr n \<Rightarrow> n | Inl e \<Rightarrow> -1, st')" and after: "after st ?rq st'"
    using exchange_static [OF ok checkable_request fitq] by blast
  have "0x10 \<in> {0x0F, 0x10 :: int}" "nb < 65536" "\<not> nb > 123" using nb by simp_all
  note out = case_outcome [OF outcome_multiple [OF ok this(1) nb(1) this(2)]]
  have base: "header_length be + 5 \<le> int (length (g_req st))" using len room checksum_nonneg by simp
  have "modbus_write_registers be Ctx st addr nb src
      = Some (if \<exists>a b. arrives st = frame (hdr st @ [word_of_int 0x10, a, b, hi8 nb, lo8 nb]) then nb else -1, st')"
    by (simp only: modbus_write_registers_def built [OF ok base] count next_pos store msg run out
        unfold_steps \<open>\<not> nb > 123\<close>)
  with after that show thesis unfolding regs_def by simp
qed

lemma write_bits_spec:
  assumes ok: "mb_ok st" and nb: "0 \<le> nb" "nb \<le> 1968" "nb \<le> int (length src)"
  obtains st' where "modbus_write_bits be Ctx st addr nb src
      = Some (if \<exists>a b. arrives st = frame (hdr st @ [0x0F, a, b, hi8 nb, lo8 nb]) then nb else -1, st')"
    and "after st (request_pdu 0x0F addr nb @ word_of_int ((nb + 7) div 8)
          # bytes_of_bits (nat ((nb + 7) div 8)) (take (nat nb) src)) st'"
proof -
  define n where "n = (nat nb + 7) div 8"
  define data where "data = bytes_of_bits n (take (nat nb) src)"
  have n: "int n = (nb + 7) div 8" "n \<le> 246" using nb by (simp_all add: n_def zdiv_int)
  have count_eq: "nb sdiv 8 + (if nb smod 8 \<noteq> 0 then 1 else 0) = int n"
  proof -
    have "nb sdiv 8 = nb div 8" "nb smod 8 = nb mod 8"
      using nb(1) by (simp_all add: signed_divide_int_def signed_modulo_int_def sgn_if)
    then show ?thesis using n(1) bits_bytes [of nb] by simp
  qed
  let ?B = "hdr st @ request_pdu 0x0F addr nb"
  let ?C = "?B @ [word_of_int (int n)]"
  have len: "length (g_req st) = 260" using ok by (simp add: mb_ok_def)
  have data: "length data = n" by (simp add: data_def)
  have fit: "length ?C + length data + nat (checksum_length be) \<le> 260"
    using data n(2) room(2) by simp
  have count: "wr (?B @ drop (length ?B) (g_req st)) (int (length ?B)) (word_of_int (int n))
      = Some (?C @ drop (length ?C) (g_req st))"
    by (rule wr_after_prefix) (use len fit in simp)
  have next_pos: "int (length ?B) + 1 = int (length ?C)" by simp
  have "0 \<le> nat nb" "nat nb \<le> length src" "n = (nat nb - 0 + 7) div 8" "length ?C + n \<le> length (g_req st)"
    using nb len fit data by (simp_all add: n_def)
  from pack_bits_spec [OF this]
  have store: "pack_bits (nat (int n)) 0 0 nb src (?C @ drop (length ?C) (g_req st)) (int (length ?C))
      = Some (int (length (?C @ data)), (?C @ data) @ drop (length (?C @ data)) (g_req st))"
    using nb(1) by (simp add: data_def int_ops(1) add.assoc)
  let ?rq = "request_pdu 0x0F addr nb @ word_of_int (int n) # data"
  have msg: "?C @ data = hdr st @ ?rq" by simp
  have fitq: "length (hdr st @ ?rq) + nat (checksum_length be) \<le> 260" using fit by simp
  obtain st' where run: "transact_static be st ((hdr st @ ?rq) @ drop (length (hdr st @ ?rq)) (g_req st))
        (int (length (hdr st @ ?rq)))
      = Some (case outcome st ?rq of Inr n \<Rightarrow> n | Inl e \<Rightarrow> -1, st')" and after: "after st ?rq st'"
    using exchange_static [OF ok checkable_request fitq] by blast
  have "0x0F \<in> {0x0F, 0x10 :: int}" "nb < 65536" "\<not> nb > 1968" using nb by simp_all
  note out = case_outcome [OF outcome_multiple [OF ok this(1) nb(1) this(2)]]
  have base: "header_length be + 5 \<le> int (length (g_req st))" using len room checksum_nonneg by simp
  have "modbus_write_bits be Ctx st addr nb src
      = Some (if \<exists>a b. arrives st = frame (hdr st @ [word_of_int 0x0F, a, b, hi8 nb, lo8 nb]) then nb else -1, st')"
    by (simp only: modbus_write_bits_def built [OF ok base] count_eq count next_pos store msg run out
        unfold_steps \<open>\<not> nb > 1968\<close>)
  with after that show thesis unfolding data_def n(1) [symmetric] by simp
qed

lemma outcome_mask_write:
  assumes "mb_ok st" "uint (rq ! 0) = 0x16"
  shows "outcome st rq = Inr n \<longleftrightarrow> n = 1 \<and>
    (\<exists>echo. length echo = 6 \<and> arrives st = frame (hdr st @ rq ! 0 # echo))"
proof -
  have "uint (rq ! 0) \<noteq> 0x11" using assms(2) by simp
  from exchange_outcome_Inr [OF assms(1) this] judge_mask_write [OF assms(2)]
  show ?thesis unfolding outcome_def by auto
qed

lemma mask_write_spec:
  assumes ok: "mb_ok st"
  obtains st' where "modbus_mask_write_register be Ctx st addr and_mask or_mask
      = Some (if \<exists>echo. length echo = 6 \<and> arrives st = frame (hdr st @ 0x16 # echo) then 1 else -1, st')"
    and "after st ([0x16, hi8 addr, lo8 addr] @ reg_bytes and_mask @ reg_bytes or_mask) st'"
proof -
  let ?buf = "uninit (MIN_REQ_LENGTH + 2)"
  let ?P = "hdr st @ [0x16, hi8 addr, lo8 addr]"
  let ?B = "hdr st @ request_pdu 0x16 addr 0"
  let ?m = "reg_bytes and_mask @ reg_bytes or_mask"
  let ?rq = "[0x16, hi8 addr, lo8 addr] @ ?m"
  have fit: "length (hdr st @ ?rq) + nat (checksum_length be) \<le> length ?buf" "length ?buf < 65536"
    "header_length be + 5 \<le> int (length ?buf)"
    using room checksum_nonneg by simp_all
  have pos: "int (length ?B) - 2 = int (length ?P)" "int (length ?P) + 4 = int (length (hdr st @ ?rq))" by simp_all
  have "?B @ drop (length ?B) ?buf = ?P @ [hi8 0, lo8 0] @ drop (length ?B) ?buf"
    by (simp add: request_pdu_def)
  moreover have "length ?m \<le> length ([hi8 0, lo8 0] @ drop (length ?B) ?buf)"
    using room(2) by simp
  ultimately have store: "wrs (?B @ drop (length ?B) ?buf) (int (length ?P)) ?m
      = Some ((hdr st @ ?rq) @ drop (length (hdr st @ ?rq)) ?buf)"
    using wrs_after_prefix [of ?m "[hi8 0, lo8 0] @ drop (length ?B) ?buf" ?P]
    by (simp add: numeral_eq_Suc)
  obtain st' req where run: "transact be st ((hdr st @ ?rq) @ drop (length (hdr st @ ?rq)) ?buf)
        (int (length (hdr st @ ?rq)))
      = Some (case outcome st ?rq of Inr n \<Rightarrow> n | Inl e \<Rightarrow> -1, req, st')" and after: "after st ?rq st'"
    by (rule exchange_local [OF ok _ fit(1,2)]) (auto simp: checkable_def)
  have fc: "?rq ! 0 = 0x16" "uint (?rq ! 0) = 0x16" by simp_all
  note out = case_outcome [OF outcome_mask_write [OF ok fc(2), unfolded fc(1)]]
  have "modbus_mask_write_register be Ctx st addr and_mask or_mask
      = Some (if \<exists>echo. length echo = 6 \<and> arrives st = frame (hdr st @ 0x16 # echo) then 1 else -1, st')"
    by (simp only: modbus_mask_write_register_def built [OF ok fit(3)] pos store run out unfold_steps)
  with after that show thesis by blast
qed

lemma outcome_bits:
  assumes "mb_ok st" "fc \<in> {1, 2}" "0 \<le> nb" "nb \<le> 2000"
  shows "outcome st (request_pdu fc addr nb @ extra) = Inr n \<longleftrightarrow> n = (nb + 7) div 8 \<and>
    (\<exists>data. int (length data) = (nb + 7) div 8 \<and>
       arrives st = frame (hdr st @ word_of_int fc # word_of_int ((nb + 7) div 8) # data))"
proof -
  let ?rq = "request_pdu fc addr nb @ extra"
  have rq: "?rq ! 0 = word_of_int fc" "be16 (?rq ! 3) (?rq ! 4) = nb" "uint (?rq ! 0) = fc"
    using assms(2-4) by (auto simp: nth_append be16_hi8_lo8_id uint_small8)
  then have fc: "uint (?rq ! 0) \<in> {1, 2}" "uint (?rq ! 0) \<noteq> 0x11" using assms(2) by auto
  have "(nb + 7) div 8 \<le> 255" using assms(4) by linarith
  with exchange_outcome_Inr [OF assms(1) fc(2)] judge_bits [OF fc(1) rq(2)]
  show ?thesis unfolding outcome_def rq(1) by auto
qed

lemma read_io_status_spec:
  assumes ok: "mb_ok st" and fc: "fc \<in> {1, 2}" and nb: "0 \<le> nb" "nb \<le> 2000" "nb \<le> int (length dest)"
  obtains st' where "after st (request_pdu fc addr nb) st'"
    and "\<And>data. int (length data) = (nb + 7) div 8 \<Longrightarrow>
        arrives st = frame (hdr st @ word_of_int fc # word_of_int ((nb + 7) div 8) # data) \<Longrightarrow>
        read_io_status be st fc addr nb dest
          = Some ((nb + 7) div 8, take (nat nb) (bits_of_bytes data) @ drop (nat nb) dest, st')"
    and "(\<nexists>data. int (length data) = (nb + 7) div 8 \<and>
        arrives st = frame (hdr st @ word_of_int fc # word_of_int ((nb + 7) div 8) # data)) \<Longrightarrow>
        read_io_status be st fc addr nb dest = Some (-1, dest, st')"
proof -
  let ?rq = "request_pdu fc addr nb"
  have len: "length (g_req st) = 260" using ok by (simp add: mb_ok_def)
  have base: "header_length be + 5 \<le> int (length (g_req st))" using len room checksum_nonneg by simp
  have fitq: "length (hdr st @ ?rq) + nat (checksum_length be) \<le> 260" using room(2) by simp
  obtain st' where run: "transact_static be st ((hdr st @ ?rq) @ drop (length (hdr st @ ?rq)) (g_req st))
        (int (length (hdr st @ ?rq)))
      = Some (case outcome st ?rq of Inr n \<Rightarrow> n | Inl e \<Rightarrow> -1, st')" and after: "after st ?rq st'"
    using exchange_static [OF ok checkable_request0 fitq] by blast
  note out = outcome_bits [OF ok fc nb(1,2), of addr "[]", unfolded append_Nil2]
  show thesis
  proof (rule that [OF after])
    fix data
    let ?n = "(nb + 7) div 8"
    assume data: "int (length data) = ?n"
      "arrives st = frame (hdr st @ word_of_int fc # word_of_int ?n # data)"
    then have ok': "outcome st ?rq = Inr ?n"
      by (intro out [THEN iffD2] conjI exI [of _ data] refl)
    obtain x where x: "frame (hdr st @ word_of_int fc # word_of_int ?n # data)
        = (hdr st @ word_of_int fc # word_of_int ?n # data) @ x"
      using frame_cases by blast
    let ?pre = "hdr st @ [word_of_int fc, word_of_int ?n]"
    obtain post where rsp: "g_rsp st' = ?pre @ data @ post"
      using after_rsp [OF after] unfolding data(2) x by simp
    have "nat nb \<le> length dest" using nb(3) by simp
    from unpack_bits_spec [OF _ this, of 0 ?pre data post]
    have unpack: "unpack_bits (g_rsp st') (header_length be + 2) (nat ?n) 0 nb dest
        = Some (take (nat nb) (bits_of_bytes data) @ drop (nat nb) dest)"
    proof -
      have "length data = nat ?n" using data(1) by simp
      moreover have "min (8 * nat ?n) (nat nb) = nat nb" using nb(1) by linarith
      moreover have "int (length ?pre) = header_length be + 2" using header_pos by simp
      ultimately show ?thesis
        using unpack_bits_spec [OF le0 \<open>nat nb \<le> length dest\<close>, of ?pre data post] nb(1)
        unfolding rsp by (simp only: Let_def int_ops(1) take_0 append_Nil add_0 diff_zero int_nat_eq if_True)
    qed
    have "?n \<noteq> -1" using nb(1) by linarith
    then show "read_io_status be st fc addr nb dest
        = Some (?n, take (nat nb) (bits_of_bytes data) @ drop (nat nb) dest, st')"
      by (simp only: read_io_status_def built [OF ok base] run ok' unpack sum.case unfold_steps)
  next
    assume "\<nexists>data. int (length data) = (nb + 7) div 8 \<and>
        arrives st = frame (hdr st @ word_of_int fc # word_of_int ((nb + 7) div 8) # data)"
    then have "outcome st ?rq \<noteq> Inr n" for n by (simp only: out simp_thms)
    then obtain e where "outcome st ?rq = Inl e" by (cases "outcome st ?rq") auto
    then show "read_io_status be st fc addr nb dest = Some (-1, dest, st')"
      by (simp only: read_io_status_def built [OF ok base] run sum.case unfold_steps if_True simp_thms)
  qed
qed

lemma write_and_read_spec:
  assumes ok: "mb_ok st" and w: "0 \<le> wnb" "wnb \<le> 121" "wnb \<le> int (length src)"
    and r: "0 \<le> rnb" "rnb \<le> 125" "rnb \<le> int (length dest)"
  obtains st' where "after st (request_pdu 0x17 raddr rnb
        @ [hi8 waddr, lo8 waddr, hi8 wnb, lo8 wnb, word_of_int (wnb * 2)]
        @ regs_bytes (take (nat wnb) src)) st'"
    and "\<And>regs. int (length regs) = rnb \<Longrightarrow>
        arrives st = frame (hdr st @ word_of_int 0x17 # word_of_int (2 * rnb) # regs_bytes regs) \<Longrightarrow>
        modbus_write_and_read_registers be Ctx st waddr wnb src raddr rnb dest
          = Some (rnb, regs @ drop (length regs) dest, st')"
    and "(\<nexists>regs. int (length regs) = rnb \<and>
        arrives st = frame (hdr st @ word_of_int 0x17 # word_of_int (2 * rnb) # regs_bytes regs)) \<Longrightarrow>
        modbus_write_and_read_registers be Ctx st waddr wnb src raddr rnb dest = Some (-1, dest, st')"
proof -
  define regs where "regs = regs_bytes (take (nat wnb) src)"
  let ?m = "[hi8 waddr, lo8 waddr, hi8 wnb, lo8 wnb, word_of_int (wnb * 2)]"
  let ?B = "hdr st @ request_pdu 0x17 raddr rnb"
  let ?C = "?B @ ?m"
  let ?rq = "request_pdu 0x17 raddr rnb @ ?m @ regs"
  have len: "length (g_req st) = 260" using ok by (simp add: mb_ok_def)
  have regs: "length regs = 2 * nat wnb" using w by (simp add: regs_def)
  have fit: "length ?C + length regs + nat (checksum_length be) \<le> 260"
    using regs w room(2) by simp
  have store1: "wrs (?B @ drop (length ?B) (g_req st)) (int (length ?B)) ?m
      = Some (?C @ drop (length ?C) (g_req st))"
    by (rule wrs_behind_prefix) (use len fit in simp)
  have next_pos: "int (length ?B) + 5 = int (length ?C)" by simp
  have store2: "store_regs src 0 (nat wnb) (?C @ drop (length ?C) (g_req st)) (int (length ?C))
      = Some (int (length (?C @ regs)), (?C @ regs) @ drop (length (?C @ regs)) (g_req st))"
    using store_regs_spec [of 0 "nat wnb" src ?C "g_req st"] w len fit regs by (simp add: regs_def)
  have msg: "?C @ regs = hdr st @ ?rq" by simp
  have fitq: "length (hdr st @ ?rq) + nat (checksum_length be) \<le> 260" using fit by simp
  obtain st' where run: "transact_static be st ((hdr st @ ?rq) @ drop (length (hdr st @ ?rq)) (g_req st))
        (int (length (hdr st @ ?rq)))
      = Some (case outcome st ?rq of Inr n \<Rightarrow> n | Inl e \<Rightarrow> -1, st')" and after: "after st ?rq st'"
    using exchange_static [OF ok checkable_request fitq] by blast
  have "0x17 \<in> {3, 4, 0x17 :: int}" by simp
  note out = outcome_registers [OF ok this r(1,2), of raddr "?m @ regs"]
  have base: "header_length be + 5 \<le> int (length (g_req st))" using len room checksum_nonneg by simp
  have bounds: "\<not> wnb > 121" "\<not> rnb > 125" using w r by simp_all
  note step = modbus_write_and_read_registers_def built [OF ok base] store1 next_pos store2 msg run
    unfold_steps bounds
  show thesis
  proof (rule that [OF after [unfolded regs_def]])
    fix rs
    assume rs: "int (length rs) = rnb"
      "arrives st = frame (hdr st @ word_of_int 0x17 # word_of_int (2 * rnb) # regs_bytes rs)"
    then have ok': "outcome st ?rq = Inr rnb"
      by (intro out [THEN iffD2] conjI exI [of _ rs] refl)
    have "g_rsp st' = frame (hdr st @ word_of_int 0x17 # word_of_int (2 * rnb) # regs_bytes rs)
        @ drop (length (frame (hdr st @ word_of_int 0x17 # word_of_int (2 * rnb) # regs_bytes rs))) (g_rsp st)"
      using after_rsp [OF after] unfolding rs(2) .
    then have copy: "copy_regs (g_rsp st') (header_length be + 2) (length rs) 0 dest
        = Some (rs @ drop (length rs) dest)"
      by (rule copy_reply) (use rs(1) r(3) in linarith)
    have n: "nat rnb = length rs" "rnb \<noteq> -1" using rs(1) r by simp_all
    show "modbus_write_and_read_registers be Ctx st waddr wnb src raddr rnb dest
        = Some (rnb, rs @ drop (length rs) dest, st')"
      by (simp only: step ok' sum.case n copy)
  next
    assume "\<nexists>regs. int (length regs) = rnb \<and>
        arrives st = frame (hdr st @ word_of_int 0x17 # word_of_int (2 * rnb) # regs_bytes regs)"
    then have "outcome st ?rq \<noteq> Inr n" for n by (simp only: out simp_thms)
    then obtain e where "outcome st ?rq = Inl e" by (cases "outcome st ?rq") auto
    then show "modbus_write_and_read_registers be Ctx st waddr wnb src raddr rnb dest = Some (-1, dest, st')"
      by (simp only: step sum.case if_True simp_thms)
  qed
qed

end

section \<open>Failures and their error numbers\<close>

context modbus_framing
begin

lemma outcome_silence: "arrives st = [] \<Longrightarrow> outcome st rq = Inl (Some (line_error st))"
  by (simp add: outcome_def exchange_outcome_def Let_def)

lemma outcome_missized: "arrives st \<noteq> [] \<Longrightarrow> \<not> well_sized be (arrives st) \<Longrightarrow> outcome st rq = Inl None"
  by (simp add: outcome_def exchange_outcome_def Let_def)

lemma outcome_corrupted:
  assumes "well_sized be (arrives st)" "addressed st (take (nat (header_length be)) (arrives st))"
    and "arrives st \<noteq> frame (take (length (arrives st) - nat (checksum_length be)) (arrives st))"
  shows "outcome st rq = Inl (Some EMBBADCRC)"
proof -
  have "arrives st \<noteq> []" using assms(1) by (auto simp: well_sized_def Let_def)
  with assms show ?thesis
    unfolding outcome_def exchange_outcome_def Let_def by simp
qed

lemma outcome_exception:
  assumes "mb_ok st" "arrives st = frame (hdr st @ [f, code])" "uint f = uint (rq ! 0) + 0x80"
  shows "outcome st rq = Inl (Some (if uint code < 12 then EMB (uint code) else EMBBADEXC))"
  using exchange_outcome_frame [OF assms(1) judge_exception(2) [OF assms(3)]] judge_exception(1) [OF assms(3)]
  unfolding outcome_def assms(2) by simp

lemma read_registers_fails:
  assumes ok: "mb_ok st" and fc: "fc \<in> {3, 4}" and nb: "0 \<le> nb" "nb \<le> 125" "nb \<le> int (length dest)"
    and fail: "outcome st (request_pdu fc addr nb) = Inl e"
  shows "\<exists>st'. read_registers be st fc addr nb dest = Some (-1, dest, st') \<and>
    libmodbuserrno st' = (case e of Some e \<Rightarrow> Some e | None \<Rightarrow> libmodbuserrno st)"
proof -
  have "fc \<in> {3, 4, 0x17}" using fc by auto
  note out = outcome_registers [OF ok this nb(1,2), of addr "[]", unfolded append_Nil2]
  have "outcome st (request_pdu fc addr nb) \<noteq> Inr nb" using fail by simp
  then have none: "\<nexists>regs. int (length regs) = nb \<and>
      arrives st = frame (hdr st @ word_of_int fc # word_of_int (2 * nb) # regs_bytes regs)"
    by (simp only: out simp_thms)
  obtain st' where st': "after st (request_pdu fc addr nb) st'"
    "read_registers be st fc addr nb dest = Some (-1, dest, st')"
    by (rule read_registers_spec [OF ok fc nb, of addr]) (use none in blast)
  then have "libmodbuserrno st' = (case outcome st (request_pdu fc addr nb) of
      Inl (Some e) \<Rightarrow> Some e | _ \<Rightarrow> libmodbuserrno st)"
    by (simp only: after_def)
  then have "libmodbuserrno st' = (case e of Some e \<Rightarrow> Some e | None \<Rightarrow> libmodbuserrno st)"
    by (cases e) (simp_all only: fail sum.case option.case)
  with st'(2) show ?thesis by blast
qed

end

section \<open>The client over RTU\<close>

text \<open>The message an RTU client sends and the reply it waits for.\<close>

definition rtu_adu :: "mb \<Rightarrow> u8 list \<Rightarrow> u8 list" where
  "rtu_adu st pdu = rtu_frame (word_of_int (slave (ctx st)) # pdu)"

lemma rtu_adu_frame [simp]: "rtu_frame (rtu_hdr st @ pdu) = rtu_adu st pdu"
  by (simp add: rtu_adu_def rtu_hdr_def)

lemma rtu_max_adu [simp]: "max_adu_length modbus_rtu_backend = 256"
  by (simp add: modbus_rtu_backend_def)

text \<open>What every client function leaves behind: one message went out, at most one reception was
  used up, and the library is ready for the next call.\<close>

definition exchanged_once :: "mb \<Rightarrow> u8 list \<Rightarrow> mb \<Rightarrow> bool" where
  "exchanged_once st pdu st' \<longleftrightarrow> mb_ok st' \<and> ctx st' = ctx st \<and>
     sent (port st') = sent (port st) @ [rtu_adu st pdu] \<and>
     incoming (port st') = tl (incoming (port st))"

lemma rtu_after: "rtu.after st pdu st' \<Longrightarrow> exchanged_once st pdu st'"
  unfolding rtu.after_def exchanged_once_def rtu_adu_frame by blast

text \<open>C1: \<open>modbus_read_registers\<close> and \<open>modbus_read_input_registers\<close> return: they send exactly the
  request, and they yield \<open>nb\<close> and the registers of the reply if and only if the line delivers an
  intact frame from the slave that confirms the request; otherwise they return -1 and the destination
  keeps its contents.  No access is out of bounds.\<close>

theorem modbus_read_registers_exact:
  assumes "mb_ok st" "0 \<le> nb" "nb \<le> 125" "nb \<le> int (length dest)"
    and "(f, fc) \<in> {(modbus_read_registers, 3), (modbus_read_input_registers, 4)}"
  shows "\<exists>rc dest' st'. f modbus_rtu_backend Ctx st addr nb dest = Some (rc, dest', st') \<and>
    exchanged_once st (request_pdu fc addr nb) st' \<and>
    (rc = nb \<and> (\<exists>regs. int (length regs) = nb \<and> dest' = regs @ drop (length regs) dest \<and>
        line_read 256 st = rtu_adu st (word_of_int fc # word_of_int (2 * nb) # regs_bytes regs))
     \<or> rc = -1 \<and> dest' = dest \<and> (\<nexists>regs. int (length regs) = nb \<and>
        line_read 256 st = rtu_adu st (word_of_int fc # word_of_int (2 * nb) # regs_bytes regs)))"
proof -
  have f: "f modbus_rtu_backend Ctx st addr nb dest = read_registers modbus_rtu_backend st fc addr nb dest"
    and fc: "fc \<in> {3, 4}"
    using assms(3,5) by (auto simp: modbus_read_registers_def modbus_read_input_registers_def)
  show ?thesis unfolding f
    by (rule rtu.read_registers_spec [OF assms(1) fc assms(2-4), of addr]; drule rtu_after)
      (simp only: rtu_adu_frame rtu_max_adu nat_numeral, blast)
qed

text \<open>A state of the library to try the theorems on: slave 1, and what the line will deliver.\<close>

definition mb_sample :: "reception list \<Rightarrow> mb" where
  "mb_sample rs =
     \<lparr>ctx = \<lparr>slave = 1, sock = 0, debug = False, error_recovery = 0, response_timeout = 100000,
        byte_timeout = (0, 100000), indication_timeout = (0, 0),
        backend_data = \<lparr>device = ''USART3'', baud = 9600, parity = CHR ''N'', data_bit = 8, stop_bit = 1,
          confirmation_to_ignore = False\<rparr>\<rparr>,
      libmodbuserrno = None, g_req = replicate 260 0, g_rsp = replicate 260 0,
      port = \<lparr>sent = [], incoming = rs, serial_baud = None\<rparr>\<rparr>"

lemma mb_sample_simps [simp]:
  "sent (port (mb_sample rs)) = []" "slave (ctx (mb_sample rs)) = 1" "incoming (port (mb_sample rs)) = rs"
  "libmodbuserrno (mb_sample rs) = None"
  by (simp_all add: mb_sample_def)

lemma mb_sample_ok [simp]: "mb_ok (mb_sample rs)"
  by (simp add: mb_ok_def mb_sample_def)

lemma line_read_sample: "line_read n (mb_sample (Rx bs # rs)) = take n bs" "line_read n (mb_sample (RxTimeout # rs)) = []"
  by (simp_all add: line_read_def mb_sample_def)

lemma rtu_adu_nonempty [simp]: "rtu_adu st pdu \<noteq> []"
  by (simp add: rtu_adu_def rtu_frame_def)

theorem modbus_read_registers_exact_witness:
  "\<exists>st'. modbus_read_registers modbus_rtu_backend Ctx (mb_sample [RxTimeout]) 0x10 2 [7, 8, 9]
     = Some (-1, [7, 8, 9], st') \<and> exchanged_once (mb_sample [RxTimeout]) (request_pdu 3 0x10 2) st'"
  using modbus_read_registers_exact [of "mb_sample [RxTimeout]" 2 "[7, 8, 9]" modbus_read_registers 3 "0x10"]
  by (auto simp: line_read_sample dest!: sym [of "[]"])

text \<open>The error a failing read leaves in \<open>libmodbuserrno\<close>: a timeout or an empty reception its own
  number, an exception reply the number of its exception code, a damaged frame \<open>EMBBADCRC\<close>; a frame
  of the wrong size leaves the number of an earlier error standing.\<close>

theorem modbus_read_registers_errors:
  assumes "mb_ok st" "0 \<le> nb" "nb \<le> 125" "nb \<le> int (length dest)"
    and "(f, fc) \<in> {(modbus_read_registers, 3), (modbus_read_input_registers, 4)}"
    and "bs = line_read 256 st" "fails = (\<lambda>e. \<exists>st'. f modbus_rtu_backend Ctx st addr nb dest = Some (-1, dest, st')
           \<and> libmodbuserrno st' = e)"
  shows "(bs = [] \<longrightarrow> fails (Some (line_error st))) \<and>
    (\<forall>code. bs = rtu_adu st [word_of_int (fc + 0x80), code] \<longrightarrow>
       fails (Some (if uint code < 12 then EMB (uint code) else EMBBADEXC))) \<and>
    (well_sized modbus_rtu_backend bs \<and> rtu_addressed st (take 1 bs) \<and> bs \<noteq> rtu_frame (take (length bs - 2) bs)
       \<longrightarrow> fails (Some EMBBADCRC)) \<and>
    (bs \<noteq> [] \<and> \<not> well_sized modbus_rtu_backend bs \<longrightarrow> fails (libmodbuserrno st))"
proof -
  let ?rq = "request_pdu fc addr nb"
  have f: "f modbus_rtu_backend Ctx st addr nb dest = read_registers modbus_rtu_backend st fc addr nb dest"
    and fc: "fc \<in> {3, 4}" and exc: "uint (word_of_int (fc + 0x80) :: u8) = uint (?rq ! 0) + 0x80"
    using assms(3,5) by (auto simp: modbus_read_registers_def modbus_read_input_registers_def)
  have fails: "fails (case e of Some e \<Rightarrow> Some e | None \<Rightarrow> libmodbuserrno st)"
    if "rtu.outcome st ?rq = Inl e" for e
    using rtu.read_registers_fails [OF assms(1) fc assms(2-4) that] unfolding assms(7) f .
  have bs: "line_read (nat (max_adu_length modbus_rtu_backend)) st = bs" by (simp add: assms(6))
  have lens: "nat (header_length modbus_rtu_backend) = 1" "nat (checksum_length modbus_rtu_backend) = 2"
    by (simp_all add: modbus_rtu_backend_def)
  note errs = rtu.outcome_silence [of st ?rq] rtu.outcome_missized [of st ?rq]
    rtu.outcome_corrupted [of st ?rq] rtu.outcome_exception [OF assms(1) _ exc]
  show ?thesis
    using errs [unfolded bs lens rtu_adu_frame] fails [of None] fails [of "Some x" for x]
    by (simp only: option.case) blast
qed

theorem modbus_read_registers_errors_witness:
  "\<exists>st'. modbus_read_registers modbus_rtu_backend Ctx (mb_sample [RxTimeout]) 0x10 2 [7, 8, 9]
     = Some (-1, [7, 8, 9], st') \<and> libmodbuserrno st' = Some ETIMEDOUT"
  using modbus_read_registers_errors [of "mb_sample [RxTimeout]" 2 "[7, 8, 9]" modbus_read_registers 3
      "[]" "\<lambda>e. \<exists>st'. modbus_read_registers modbus_rtu_backend Ctx (mb_sample [RxTimeout]) 0x10 2 [7, 8, 9]
        = Some (-1, [7, 8, 9], st') \<and> libmodbuserrno st' = e" "0x10"]
  by (simp add: line_read_sample line_error_def)

text \<open>C34: \<open>modbus_read_bits\<close> and \<open>modbus_read_input_bits\<close>: one request, and \<open>nb\<close> bits taken from the
  bytes of the reply, least significant bit first, exactly when an intact confirmation arrives.\<close>

theorem modbus_read_bits_exact:
  assumes "mb_ok st" "0 \<le> nb" "nb \<le> 2000" "nb \<le> int (length dest)"
    and "(f, fc) \<in> {(modbus_read_bits, 1), (modbus_read_input_bits, 2)}"
  shows "\<exists>rc dest' st'. f modbus_rtu_backend Ctx st addr nb dest = Some (rc, dest', st') \<and>
    exchanged_once st (request_pdu fc addr nb) st' \<and>
    (rc = nb \<and> (\<exists>data. int (length data) = (nb + 7) div 8 \<and>
        dest' = take (nat nb) (bits_of_bytes data) @ drop (nat nb) dest \<and>
        line_read 256 st = rtu_adu st (word_of_int fc # word_of_int ((nb + 7) div 8) # data))
     \<or> rc = -1 \<and> dest' = dest \<and> (\<nexists>data. int (length data) = (nb + 7) div 8 \<and>
        line_read 256 st = rtu_adu st (word_of_int fc # word_of_int ((nb + 7) div 8) # data)))"
proof -
  have f: "f modbus_rtu_backend Ctx st addr nb dest = do {
      (rc, dest, st) \<leftarrow> read_io_status modbus_rtu_backend st fc addr nb dest;
      if rc = -1 then Some (-1, dest, st) else Some (nb, dest, st) }"
    and fc: "fc \<in> {1, 2}"
    using assms(3,5) by (auto simp: modbus_read_bits_def modbus_read_input_bits_def)
  have n: "(nb + 7) div 8 \<noteq> -1" using assms(2) by linarith
  note spec = rtu.read_io_status_spec [OF assms(1) fc assms(2-4), of addr, unfolded rtu_adu_frame
      rtu_max_adu nat_numeral]
  obtain st' where after: "rtu.after st (request_pdu fc addr nb) st'"
    and hit: "\<And>data. int (length data) = (nb + 7) div 8 \<Longrightarrow>
        line_read 256 st = rtu_adu st (word_of_int fc # word_of_int ((nb + 7) div 8) # data) \<Longrightarrow>
        read_io_status modbus_rtu_backend st fc addr nb dest
          = Some ((nb + 7) div 8, take (nat nb) (bits_of_bytes data) @ drop (nat nb) dest, st')"
    and miss: "(\<nexists>data. int (length data) = (nb + 7) div 8 \<and>
        line_read 256 st = rtu_adu st (word_of_int fc # word_of_int ((nb + 7) div 8) # data)) \<Longrightarrow>
        read_io_status modbus_rtu_backend st fc addr nb dest = Some (-1, dest, st')"
    by (rule spec) (rule that)
  note st' = rtu_after [OF after]
  show ?thesis
  proof (cases "\<exists>data. int (length data) = (nb + 7) div 8 \<and>
        line_read 256 st = rtu_adu st (word_of_int fc # word_of_int ((nb + 7) div 8) # data)")
    case True
    then obtain data where data: "int (length data) = (nb + 7) div 8"
      "line_read 256 st = rtu_adu st (word_of_int fc # word_of_int ((nb + 7) div 8) # data)" by blast
    from hit [OF this] n have "f modbus_rtu_backend Ctx st addr nb dest
        = Some (nb, take (nat nb) (bits_of_bytes data) @ drop (nat nb) dest, st')"
      unfolding f by simp
    with st' data show ?thesis by blast
  next
    case False
    from miss [OF this] have "f modbus_rtu_backend Ctx st addr nb dest = Some (-1, dest, st')"
      unfolding f by simp
    with st' False show ?thesis by blast
  qed
qed

theorem modbus_read_bits_exact_witness:
  "\<exists>st'. modbus_read_bits modbus_rtu_backend Ctx (mb_sample [RxTimeout]) 0 3 [7, 8, 9]
     = Some (-1, [7, 8, 9], st') \<and> exchanged_once (mb_sample [RxTimeout]) (request_pdu 1 0 3) st'"
  using modbus_read_bits_exact [of "mb_sample [RxTimeout]" 3 "[7, 8, 9]" modbus_read_bits 1 0]
  by (auto simp: line_read_sample dest!: sym [of "[]"])

text \<open>\<open>modbus_write_register\<close> and \<open>modbus_write_bit\<close> send the single-write request and return 1
  exactly when a confirmation of that function arrives; whatever the confirmation echoes is
  accepted.\<close>

theorem modbus_write_single_exact:
  assumes "mb_ok st"
  shows "(\<exists>st'. modbus_write_register modbus_rtu_backend Ctx st addr v
      = Some (if \<exists>echo. length echo = 4 \<and> line_read 256 st = rtu_adu st (6 # echo) then 1 else -1, st')
      \<and> exchanged_once st (request_pdu 6 addr (uint v)) st') \<and>
    (\<exists>st'. modbus_write_bit modbus_rtu_backend Ctx st addr status
      = Some (if \<exists>echo. length echo = 4 \<and> line_read 256 st = rtu_adu st (5 # echo) then 1 else -1, st')
      \<and> exchanged_once st (request_pdu 5 addr (if status \<noteq> 0 then 0xFF00 else 0)) st')"
proof -
  have spec: "\<exists>st'. write_single modbus_rtu_backend Ctx st fc addr v
      = Some (if \<exists>echo. length echo = 4 \<and> line_read 256 st = rtu_adu st (word_of_int fc # echo) then 1 else -1, st')
      \<and> exchanged_once st (request_pdu fc addr (uint v)) st'" if "fc \<in> {5, 6}" for fc v
    by (rule rtu.write_single_spec [OF assms that, of addr v]; drule rtu_after)
      (simp only: rtu_adu_frame rtu_max_adu nat_numeral, blast)
  have "uint (if status \<noteq> 0 then 0xFF00 else 0 :: u16) = (if status \<noteq> 0 then 0xFF00 else 0)" by simp
  with spec [of 6 v] spec [of 5 "if status \<noteq> 0 then 0xFF00 else 0"] show ?thesis
    by (simp add: modbus_write_register_def modbus_write_bit_def)
qed

theorem modbus_write_single_exact_witness:
  "\<exists>st'. modbus_write_register modbus_rtu_backend Ctx (mb_sample [RxTimeout]) 2 7 = Some (-1, st')"
  using modbus_write_single_exact [of "mb_sample [RxTimeout]" 2 7 0]
  by (auto simp: line_read_sample dest!: sym [of "[]"])

text \<open>C33: \<open>modbus_write_registers\<close> and \<open>modbus_write_bits\<close>: the request carries the values in wire
  order, the bits packed least significant first, and the call returns \<open>nb\<close> exactly when a
  confirmation with that count arrives.\<close>

theorem modbus_write_multiple_exact:
  assumes "mb_ok st" "0 \<le> nb" "nb \<le> 123" "nb \<le> int (length src)"
    and "0 \<le> k" "k \<le> 1968" "k \<le> int (length bits)"
  shows "(\<exists>st'. modbus_write_registers modbus_rtu_backend Ctx st addr nb src
      = Some (if \<exists>a b. line_read 256 st = rtu_adu st [0x10, a, b, hi8 nb, lo8 nb] then nb else -1, st')
      \<and> exchanged_once st (request_pdu 0x10 addr nb
           @ word_of_int (nb * 2) # regs_bytes (take (nat nb) src)) st') \<and>
    (\<exists>st'. modbus_write_bits modbus_rtu_backend Ctx st addr k bits
      = Some (if \<exists>a b. line_read 256 st = rtu_adu st [0x0F, a, b, hi8 k, lo8 k] then k else -1, st')
      \<and> exchanged_once st (request_pdu 0x0F addr k
           @ word_of_int ((k + 7) div 8) # bytes_of_bits (nat ((k + 7) div 8)) (take (nat k) bits)) st')"
proof (rule conjI)
  show "\<exists>st'. modbus_write_registers modbus_rtu_backend Ctx st addr nb src
      = Some (if \<exists>a b. line_read 256 st = rtu_adu st [0x10, a, b, hi8 nb, lo8 nb] then nb else -1, st')
      \<and> exchanged_once st (request_pdu 0x10 addr nb
           @ word_of_int (nb * 2) # regs_bytes (take (nat nb) src)) st'"
    by (rule rtu.write_registers_spec [OF assms(1-4), of addr]; drule rtu_after)
      (simp only: rtu_adu_frame rtu_max_adu nat_numeral, blast)
  show "\<exists>st'. modbus_write_bits modbus_rtu_backend Ctx st addr k bits
      = Some (if \<exists>a b. line_read 256 st = rtu_adu st [0x0F, a, b, hi8 k, lo8 k] then k else -1, st')
      \<and> exchanged_once st (request_pdu 0x0F addr k
           @ word_of_int ((k + 7) div 8) # bytes_of_bits (nat ((k + 7) div 8)) (take (nat k) bits)) st'"
    by (rule rtu.write_bits_spec [OF assms(1,5-7), of addr]; drule rtu_after)
      (simp only: rtu_adu_frame rtu_max_adu nat_numeral, blast)
qed

theorem modbus_write_multiple_exact_witness:
  "\<exists>st'. modbus_write_registers modbus_rtu_backend Ctx (mb_sample [RxTimeout]) 2 2 [5, 6] = Some (-1, st')
     \<and> sent (port st') = [rtu_frame ([1] @ request_pdu 0x10 2 2 @ [4, 0, 5, 0, 6])]"
  using modbus_write_multiple_exact [of "mb_sample [RxTimeout]" 2 "[5, 6]" 1 "[1]" 2]
  by (auto simp: line_read_sample exchanged_once_def reg_bytes_def dest!: sym [of "[]"])
     (simp add: rtu_adu_def)

text \<open>\<open>modbus_mask_write_register\<close> and \<open>modbus_write_and_read_registers\<close> send one request with all
  their operands and succeed exactly on an intact confirmation.\<close>

theorem modbus_mask_write_and_rw_exact:
  assumes "mb_ok st" "0 \<le> wnb" "wnb \<le> 121" "wnb \<le> int (length src)"
    and "0 \<le> rnb" "rnb \<le> 125" "rnb \<le> int (length dest)"
  shows "(\<exists>st'. modbus_mask_write_register modbus_rtu_backend Ctx st addr and_mask or_mask
      = Some (if \<exists>echo. length echo = 6 \<and> line_read 256 st = rtu_adu st (0x16 # echo) then 1 else -1, st')
      \<and> exchanged_once st ([0x16, hi8 addr, lo8 addr] @ reg_bytes and_mask @ reg_bytes or_mask) st') \<and>
    (\<exists>rc dest' st'. modbus_write_and_read_registers modbus_rtu_backend Ctx st waddr wnb src raddr rnb dest
        = Some (rc, dest', st') \<and>
      exchanged_once st (request_pdu 0x17 raddr rnb
        @ [hi8 waddr, lo8 waddr, hi8 wnb, lo8 wnb, word_of_int (wnb * 2)] @ regs_bytes (take (nat wnb) src)) st' \<and>
      (rc = rnb \<and> (\<exists>regs. int (length regs) = rnb \<and> dest' = regs @ drop (length regs) dest \<and>
          line_read 256 st = rtu_adu st (word_of_int 0x17 # word_of_int (2 * rnb) # regs_bytes regs))
       \<or> rc = -1 \<and> dest' = dest \<and> (\<nexists>regs. int (length regs) = rnb \<and>
          line_read 256 st = rtu_adu st (word_of_int 0x17 # word_of_int (2 * rnb) # regs_bytes regs))))"
proof (rule conjI)
  show "\<exists>st'. modbus_mask_write_register modbus_rtu_backend Ctx st addr and_mask or_mask
      = Some (if \<exists>echo. length echo = 6 \<and> line_read 256 st = rtu_adu st (0x16 # echo) then 1 else -1, st')
      \<and> exchanged_once st ([0x16, hi8 addr, lo8 addr] @ reg_bytes and_mask @ reg_bytes or_mask) st'"
    by (rule rtu.mask_write_spec [OF assms(1), of addr and_mask or_mask]; drule rtu_after)
      (simp only: rtu_adu_frame rtu_max_adu nat_numeral, blast)
next
  show "\<exists>rc dest' st'. modbus_write_and_read_registers modbus_rtu_backend Ctx st waddr wnb src raddr rnb dest
        = Some (rc, dest', st') \<and>
      exchanged_once st (request_pdu 0x17 raddr rnb
        @ [hi8 waddr, lo8 waddr, hi8 wnb, lo8 wnb, word_of_int (wnb * 2)] @ regs_bytes (take (nat wnb) src)) st' \<and>
      (rc = rnb \<and> (\<exists>regs. int (length regs) = rnb \<and> dest' = regs @ drop (length regs) dest \<and>
          line_read 256 st = rtu_adu st (word_of_int 0x17 # word_of_int (2 * rnb) # regs_bytes regs))
       \<or> rc = -1 \<and> dest' = dest \<and> (\<nexists>regs. int (length regs) = rnb \<and>
          line_read 256 st = rtu_adu st (word_of_int 0x17 # word_of_int (2 * rnb) # regs_bytes regs)))"
    by (rule rtu.write_and_read_spec [OF assms, of raddr waddr]; drule rtu_after)
      (simp only: rtu_adu_frame rtu_max_adu nat_numeral, blast)
qed

theorem modbus_mask_write_and_rw_exact_witness:
  "\<exists>st'. modbus_mask_write_register modbus_rtu_backend Ctx (mb_sample [RxTimeout]) 2 5 6 = Some (-1, st')"
  using modbus_mask_write_and_rw_exact [of "mb_sample [RxTimeout]" 1 "[5]" 1 "[0]" 2 5 6 0 0]
  by (auto simp: line_read_sample dest!: sym [of "[]"])

end
