(* ===== verification/ModbusData.thy ===== *)
theory ModbusData
  imports ModbusBase
begin

unbundle bit_operations_syntax

text \<open>
  \<open>libmodbus/src/modbus-data.c\<close>: bits to and from bytes, and floats to and from two registers in
  the four byte orders.  A \<open>float\<close> is its 32-bit pattern: the code only copies it.
\<close>

section \<open>Bits\<close>

definition modbus_set_bits_from_byte :: "u8 list \<Rightarrow> int \<Rightarrow> u8 \<Rightarrow> u8 list option" where
  "modbus_set_bits_from_byte dest idx value =
     for_up 0 8 (\<lambda>i dest. wr dest (idx + int i) (if bit value i then 1 else 0)) dest"

text \<open>The loop variable is unsigned: \<open>idx\<close> and \<open>idx + nb_bits\<close> are taken modulo \<open>2 ^ 32\<close>.  \<open>shift\<close>
  is \<open>i - idx\<close> modulo 8.\<close>

definition modbus_set_bits_from_bytes :: "u8 list \<Rightarrow> int \<Rightarrow> u32 \<Rightarrow> u8 list \<Rightarrow> u8 list option" where
  "modbus_set_bits_from_bytes dest idx nb_bits tab_byte =
     (let i = unat (word_of_int idx :: u32); e = unat (word_of_int idx + nb_bits)
      in for_up 0 (e - i) (\<lambda>k dest. do {
           b \<leftarrow> rd tab_byte (int (k div 8));
           wr dest (int (i + k)) (if bit b (k mod 8) then 1 else 0)
         }) dest)"

text \<open>With more than 8 bits the assertion \<open>nb_bits < 8\<close> fails.\<close>

definition modbus_get_byte_from_bits :: "u8 list \<Rightarrow> int \<Rightarrow> u32 \<Rightarrow> u8 option" where
  "modbus_get_byte_from_bits src idx nb_bits =
     (if nb_bits > 8 then None
      else for_up 0 (unat nb_bits) (\<lambda>i value. do {
        v \<leftarrow> rd src (idx + int i);
        Some (value OR push_bit i v)
      }) 0)"

section \<open>Floats\<close>

text \<open>\<open>(x >> 8) & 0xFF\<close>, \<open>x & 0xFF\<close> and \<open>(a << 24) | (b << 16) | (c << 8) | d\<close>.\<close>

definition hi_byte :: "u16 \<Rightarrow> u8" where
  "hi_byte x = ucast (drop_bit 8 x AND 0xFF)"

definition lo_byte :: "u16 \<Rightarrow> u8" where
  "lo_byte x = ucast (x AND 0xFF)"

definition abcd :: "u8 \<Rightarrow> u8 \<Rightarrow> u8 \<Rightarrow> u8 \<Rightarrow> u32" where
  "abcd a b c d = push_bit 24 (ucast a) OR push_bit 16 (ucast b) OR push_bit 8 (ucast c) OR ucast d"

definition modbus_get_float_abcd :: "u16 list \<Rightarrow> u32 option" where
  "modbus_get_float_abcd src = do {
     x \<leftarrow> rd src 0;
     y \<leftarrow> rd src 1;
     let a = hi_byte x; b = lo_byte x; c = hi_byte y; d = lo_byte y in Some (abcd a b c d)
   }"

definition modbus_get_float_dcba :: "u16 list \<Rightarrow> u32 option" where
  "modbus_get_float_dcba src = do {
     x \<leftarrow> rd src 0;
     y \<leftarrow> rd src 1;
     let d = hi_byte x; c = lo_byte x; b = hi_byte y; a = lo_byte y in Some (abcd a b c d)
   }"

definition modbus_get_float_badc :: "u16 list \<Rightarrow> u32 option" where
  "modbus_get_float_badc src = do {
     x \<leftarrow> rd src 0;
     y \<leftarrow> rd src 1;
     let b = hi_byte x; a = lo_byte x; d = hi_byte y; c = lo_byte y in Some (abcd a b c d)
   }"

definition modbus_get_float_cdab :: "u16 list \<Rightarrow> u32 option" where
  "modbus_get_float_cdab src = do {
     x \<leftarrow> rd src 0;
     y \<leftarrow> rd src 1;
     let c = hi_byte x; d = lo_byte x; a = hi_byte y; b = lo_byte y in Some (abcd a b c d)
   }"

definition modbus_get_float :: "u16 list \<Rightarrow> u32 option" where
  "modbus_get_float src = modbus_get_float_cdab src"

text \<open>\<open>(i >> k) & 0xFF\<close> and \<open>(h << 8) | l\<close>.\<close>

definition byte_at :: "nat \<Rightarrow> u32 \<Rightarrow> u8" where
  "byte_at k i = ucast (drop_bit k i AND 0xFF)"

definition word16 :: "u8 \<Rightarrow> u8 \<Rightarrow> u16" where
  "word16 h l = push_bit 8 (ucast h) OR ucast l"

definition modbus_set_float_abcd :: "u32 \<Rightarrow> u16 list \<Rightarrow> u16 list option" where
  "modbus_set_float_abcd i dest =
     (let a = byte_at 24 i; b = byte_at 16 i; c = byte_at 8 i; d = byte_at 0 i in do {
       dest \<leftarrow> wr dest 0 (word16 a b);
       wr dest 1 (word16 c d)
     })"

definition modbus_set_float_dcba :: "u32 \<Rightarrow> u16 list \<Rightarrow> u16 list option" where
  "modbus_set_float_dcba i dest =
     (let a = byte_at 24 i; b = byte_at 16 i; c = byte_at 8 i; d = byte_at 0 i in do {
       dest \<leftarrow> wr dest 0 (word16 d c);
       wr dest 1 (word16 b a)
     })"

definition modbus_set_float_badc :: "u32 \<Rightarrow> u16 list \<Rightarrow> u16 list option" where
  "modbus_set_float_badc i dest =
     (let a = byte_at 24 i; b = byte_at 16 i; c = byte_at 8 i; d = byte_at 0 i in do {
       dest \<leftarrow> wr dest 0 (word16 b a);
       wr dest 1 (word16 d c)
     })"

definition modbus_set_float_cdab :: "u32 \<Rightarrow> u16 list \<Rightarrow> u16 list option" where
  "modbus_set_float_cdab i dest =
     (let a = byte_at 24 i; b = byte_at 16 i; c = byte_at 8 i; d = byte_at 0 i in do {
       dest \<leftarrow> wr dest 0 (word16 c d);
       wr dest 1 (word16 a b)
     })"

definition modbus_set_float :: "u32 \<Rightarrow> u16 list \<Rightarrow> u16 list option" where
  "modbus_set_float f dest = modbus_set_float_cdab f dest"

section \<open>Reading back what was written\<close>

lemma low_byte_ucast:
  "(ucast (x AND 0xFF :: u16) :: u8) = ucast x" "(ucast (y AND 0xFF :: u32) :: u8) = ucast y"
proof -
  have m: "(0xFF :: u16) = mask 8" "(0xFF :: u32) = mask 8" by (simp_all add: mask_eq_exp_minus_1)
  show "(ucast (x AND 0xFF :: u16) :: u8) = ucast x" "(ucast (y AND 0xFF :: u32) :: u8) = ucast y"
    unfolding m by (rule bit_word_eqI; simp add: bit_simps)+
qed

lemmas byte_defs = hi_byte_def [unfolded low_byte_ucast] lo_byte_def [unfolded low_byte_ucast]
  byte_at_def [unfolded low_byte_ucast]

lemma word16_bytes [byte_simps]: "hi_byte (word16 h l) = h" "lo_byte (word16 h l) = l"
  by (rule bit_word_eqI; auto simp: byte_defs word16_def bit_simps dest: bit_imp_le_length)+

lemma abcd_bytes [byte_simps]:
  "abcd (byte_at 24 i) (byte_at 16 i) (byte_at 8 i) (byte_at 0 i) = i"
proof (rule bit_word_eqI)
  fix n assume "n < LENGTH(32)"
  then have "n < 8 \<or> 8 \<le> n \<and> n < 16 \<or> 16 \<le> n \<and> n < 24 \<or> 24 \<le> n \<and> n < 32" by auto
  then show "bit (abcd (byte_at 24 i) (byte_at 16 i) (byte_at 8 i) (byte_at 0 i)) n = bit i n"
    by (elim disjE) (auto simp: abcd_def byte_defs bit_simps dest: bit_imp_le_length)
qed

lemma two_stores:
  "2 \<le> length dest \<Longrightarrow> (do { d \<leftarrow> wr dest 0 x; wr d 1 y }) = Some (x # y # drop 2 dest)"
  by (cases dest; cases "tl dest") (auto simp: wr_def)

text \<open>Each byte order reads back the float it wrote, whatever the bit pattern, and leaves the
  registers behind the two it uses alone.\<close>

theorem modbus_float_roundtrip:
  assumes "2 \<le> length dest"
    and "(put, fetch) \<in> {(modbus_set_float_abcd, modbus_get_float_abcd), (modbus_set_float_dcba, modbus_get_float_dcba),
      (modbus_set_float_badc, modbus_get_float_badc), (modbus_set_float_cdab, modbus_get_float_cdab),
      (modbus_set_float, modbus_get_float)}"
  shows "\<exists>regs. put f dest = Some regs \<and> fetch regs = Some f \<and> length regs = length dest \<and> drop 2 regs = drop 2 dest"
  using assms
  by (auto simp: modbus_set_float_abcd_def modbus_set_float_dcba_def modbus_set_float_badc_def
      modbus_set_float_cdab_def modbus_set_float_def modbus_get_float_abcd_def modbus_get_float_dcba_def
      modbus_get_float_badc_def modbus_get_float_cdab_def modbus_get_float_def two_stores Let_def rd_def byte_simps)

theorem modbus_float_roundtrip_witness:
  "\<exists>regs. modbus_set_float_badc 0x3F800000 [1, 2, 3] = Some regs \<and> modbus_get_float_badc regs = Some 0x3F800000"
  using modbus_float_roundtrip [of "[1, 2, 3]" modbus_set_float_badc modbus_get_float_badc "0x3F800000"] by auto

lemma bit_push_bool: "v \<in> {0, 1} \<Longrightarrow> k < 8 \<Longrightarrow> bit (push_bit k (v :: u8)) j \<longleftrightarrow> j = k \<and> v = 1"
  by (cases "v = 1") (auto simp: bit_simps)

lemma get_byte_bits:
  assumes "idx + n \<le> length src" "n \<le> 8" "\<forall>v\<in>set src. v \<in> {0, 1}"
  shows "\<exists>b. modbus_get_byte_from_bits src (int idx) (of_nat n) = Some b \<and>
    (\<forall>j. bit b j \<longleftrightarrow> j < n \<and> src ! (idx + j) = 1)"
proof -
  have n: "unat (of_nat n :: u32) = n" using assms(2) by (intro unat_of_nat32) simp
  then have "\<not> (of_nat n :: u32) > 8" using assms(2) by (simp add: word_less_nat_alt)
  moreover have "\<exists>b. for_up 0 n (\<lambda>i value. do { v \<leftarrow> rd src (int idx + int i); Some (value OR push_bit i v) }) 0
      = Some b \<and> (\<forall>j. bit b j \<longleftrightarrow> j < 0 + n \<and> src ! (idx + j) = 1)"
  proof (rule for_up_invariant)
    fix k and b :: u8
    assume k: "k < 0 + n" and b: "\<forall>j. bit b j \<longleftrightarrow> j < k \<and> src ! (idx + j) = 1"
    let ?v = "src ! (idx + k)"
    have "idx + k < length src" using k assms(1) by simp
    then have "rd src (int idx + int k) = Some ?v" "?v \<in> {0, 1}"
      using assms(3) nth_mem by (auto simp: rd_def nat_add_distrib)
    moreover have "bit (b OR push_bit k ?v) j \<longleftrightarrow> j < Suc k \<and> src ! (idx + j) = 1" for j
      using b k assms(2) bit_push_bool [OF \<open>?v \<in> {0, 1}\<close>, of k j]
      by (simp only: bit_or_iff less_Suc_eq) auto
    ultimately show "\<exists>b'. (do { v \<leftarrow> rd src (int idx + int k); Some (b OR push_bit k v) }) = Some b' \<and>
        (\<forall>j. bit b' j \<longleftrightarrow> j < Suc k \<and> src ! (idx + j) = 1)"
      by auto
  qed simp
  ultimately show ?thesis using n by (simp add: modbus_get_byte_from_bits_def)
qed

text \<open>Spreading a byte over eight cells and collecting the cells again gives the byte back; only
  those eight cells change.\<close>

theorem modbus_bits_byte_roundtrip:
  assumes "idx + 8 \<le> length dest"
  shows "\<exists>bits. modbus_set_bits_from_byte dest (int idx) v = Some bits \<and>
    take idx bits = take idx dest \<and> drop (idx + 8) bits = drop (idx + 8) dest \<and>
    modbus_get_byte_from_bits (take 8 (drop idx bits)) 0 8 = Some v"
proof -
  let ?cells = "map (\<lambda>i. if bit v i then 1 else 0 :: u8) [0..<8]"
  have "modbus_set_bits_from_byte dest (int idx) v = Some (take idx dest @ ?cells @ drop (idx + 8) dest)"
    using for_up_store [OF assms, of "\<lambda>i. if bit v i then 1 else 0"]
    by (simp add: modbus_set_bits_from_byte_def)
  moreover have "\<exists>b. modbus_get_byte_from_bits ?cells (int 0) (of_nat 8) = Some b \<and>
      (\<forall>j. bit b j \<longleftrightarrow> j < 8 \<and> ?cells ! (0 + j) = 1)"
    by (rule get_byte_bits) (auto simp del: upt_Suc)
  then have "modbus_get_byte_from_bits ?cells 0 8 = Some v"
  proof (elim exE conjE)
    fix b
    assume b: "modbus_get_byte_from_bits ?cells (int 0) (of_nat 8) = Some b"
      "\<forall>j. bit b j \<longleftrightarrow> j < 8 \<and> ?cells ! (0 + j) = 1"
    have "b = v" by (rule bit_word_eqI) (use b(2) in \<open>auto simp del: upt_Suc\<close>)
    with b(1) show ?thesis by simp
  qed
  moreover have "take 8 (drop idx (take idx dest @ ?cells @ drop (idx + 8) dest)) = ?cells"
    using assms by (simp del: upt_Suc)
  ultimately show ?thesis using assms by (simp del: upt_Suc)
qed

theorem modbus_bits_byte_roundtrip_witness:
  "\<exists>bits. modbus_set_bits_from_byte (replicate 10 7) (int 1) 0xA5 = Some bits \<and>
    modbus_get_byte_from_bits (take 8 (drop 1 bits)) 0 8 = Some 0xA5"
  using modbus_bits_byte_roundtrip [of 1 "replicate 10 7" "0xA5"] by auto

end
