(* ===== verification/ModbusServer.thy ===== *)
theory ModbusServer
  imports ModbusClientSpec ModbusData
begin

unbundle bit_operations_syntax

text \<open>
  The server (slave) side of \<open>libmodbus/src/modbus.c\<close>: the mapping, \<open>modbus_reply\<close> with one
  definition for each function code, and \<open>modbus_reply_exception\<close>.  The response is built in the
  static buffer \<open>rsp\<close>.  \<open>LIBMODBUS_VERSION_STRING\<close>, which the build generates, is a parameter.
\<close>

section \<open>The mapping\<close>

record modbus_mapping =
  nb_bits :: int
  start_bits :: int
  nb_input_bits :: int
  start_input_bits :: int
  nb_input_registers :: int
  start_input_registers :: int
  nb_registers :: int
  start_registers :: int
  tab_bits :: "u8 list"
  tab_input_bits :: "u8 list"
  tab_input_registers :: "u16 list"
  tab_registers :: "u16 list"

text \<open>\<open>malloc\<close> is the parameter \<open>avail\<close>: whether each of the five allocations succeeds, in the order
  of the code.  A table of size 0 is \<open>NULL\<close> and is not allocated.\<close>

definition modbus_mapping_new_start_address ::
    "(nat \<Rightarrow> bool) \<Rightarrow> u32 \<Rightarrow> u32 \<Rightarrow> u32 \<Rightarrow> u32 \<Rightarrow> u32 \<Rightarrow> u32 \<Rightarrow> u32 \<Rightarrow> u32 \<Rightarrow> modbus_mapping option" where
  "modbus_mapping_new_start_address avail sb nb sib nib sr nr sir nir =
     (if \<not> avail 0 then None
      else if nb \<noteq> 0 \<and> \<not> avail 1 then None
      else if nib \<noteq> 0 \<and> \<not> avail 2 then None
      else if nr \<noteq> 0 \<and> \<not> avail 3 then None
      else if nir \<noteq> 0 \<and> \<not> avail 4 then None
      else Some \<lparr>nb_bits = sint nb, start_bits = sint sb, nb_input_bits = sint nib,
        start_input_bits = sint sib, nb_input_registers = sint nir, start_input_registers = sint sir,
        nb_registers = sint nr, start_registers = sint sr,
        tab_bits = replicate (unat nb) 0, tab_input_bits = replicate (unat nib) 0,
        tab_input_registers = replicate (unat nir) 0, tab_registers = replicate (unat nr) 0\<rparr>)"

definition modbus_mapping_new :: "(nat \<Rightarrow> bool) \<Rightarrow> int \<Rightarrow> int \<Rightarrow> int \<Rightarrow> int \<Rightarrow> modbus_mapping option" where
  "modbus_mapping_new avail nb nib nr nir =
     modbus_mapping_new_start_address avail 0 (word_of_int nb) 0 (word_of_int nib) 0 (word_of_int nr)
       0 (word_of_int nir)"

section \<open>Building a response\<close>

text \<open>A response being built: its length, the buffer, the mapping and the library state.\<close>

type_synonym response = "(int \<times> u8 list \<times> modbus_mapping \<times> mb) option"

text \<open>\<open>response_io_status\<close>; \<open>n\<close> is the number of bits left.\<close>

fun response_io_status :: "u8 list \<Rightarrow> int \<Rightarrow> nat \<Rightarrow> nat \<Rightarrow> int \<Rightarrow> u8 list \<Rightarrow> int \<Rightarrow> (int \<times> u8 list) option" where
  "response_io_status tab i 0 shift one_byte rsp offset =
     (if shift \<noteq> 0 then do {
        rsp \<leftarrow> wr rsp offset (word_of_int one_byte);
        Some (offset + 1, rsp)
      } else Some (offset, rsp))"
| "response_io_status tab i (Suc n) shift one_byte rsp offset = do {
     v \<leftarrow> rd tab i;
     let one_byte = one_byte OR push_bit shift (uint v) in
     if shift = 7 then do {
       rsp \<leftarrow> wr rsp offset (word_of_int one_byte);
       response_io_status tab (i + 1) n 0 0 rsp (offset + 1)
     } else response_io_status tab (i + 1) n (shift + 1) one_byte rsp offset
   }"

definition response_exception ::
    "modbus_backend \<Rightarrow> mb \<Rightarrow> sft \<Rightarrow> int \<Rightarrow> u8 list \<Rightarrow> modbus_mapping \<Rightarrow> bool \<Rightarrow> response" where
  "response_exception be st sft exception_code rsp mapping to_flush =
     (let st = (if to_flush then snd (modbus_flush be Ctx st) else st) in do {
        (rsp_length, rsp) \<leftarrow>
          build_response_basis be (sft\<lparr>sft_function := sft_function sft + 0x80\<rparr>) rsp;
        rsp \<leftarrow> wr rsp rsp_length (word_of_int exception_code);
        Some (rsp_length + 1, rsp, mapping, st)
      })"

text \<open>The 16-bit value at \<open>req[pos]\<close>, \<open>(req[pos] << 8) + req[pos + 1]\<close>.\<close>

definition rd16 :: "u8 list \<Rightarrow> int \<Rightarrow> int option" where
  "rd16 req pos = do { h \<leftarrow> rd req pos; l \<leftarrow> rd req (pos + 1); Some (be16 h l) }"

definition reply_read_bits ::
    "modbus_backend \<Rightarrow> mb \<Rightarrow> sft \<Rightarrow> u8 list \<Rightarrow> int \<Rightarrow> u8 list \<Rightarrow> modbus_mapping \<Rightarrow> response" where
  "reply_read_bits be st sft req address rsp m = (let offset = header_length be;
       is_input = sft_function sft = MODBUS_FC_READ_DISCRETE_INPUTS;
       start = (if is_input then start_input_bits m else start_bits m);
       count = (if is_input then nb_input_bits m else nb_bits m);
       tab = (if is_input then tab_input_bits m else tab_bits m) in do {
     nb \<leftarrow> rd16 req (offset + 3);
     let mapping_address = address - start in
     if nb < 1 \<or> MODBUS_MAX_READ_BITS < nb
     then response_exception be st sft MODBUS_EXCEPTION_ILLEGAL_DATA_VALUE rsp m True
     else if mapping_address < 0 \<or> mapping_address + nb > count
     then response_exception be st sft MODBUS_EXCEPTION_ILLEGAL_DATA_ADDRESS rsp m False
     else do {
       (rsp_length, rsp) \<leftarrow> build_response_basis be sft rsp;
       rsp \<leftarrow> wr rsp rsp_length (word_of_int (nb div 8 + (if nb mod 8 \<noteq> 0 then 1 else 0)));
       (rsp_length, rsp) \<leftarrow> response_io_status tab mapping_address (nat nb) 0 0 rsp (rsp_length + 1);
       Some (rsp_length, rsp, m, st)
     }
   })"

definition reply_read_registers ::
    "modbus_backend \<Rightarrow> mb \<Rightarrow> sft \<Rightarrow> u8 list \<Rightarrow> int \<Rightarrow> u8 list \<Rightarrow> modbus_mapping \<Rightarrow> response" where
  "reply_read_registers be st sft req address rsp m = (let offset = header_length be;
       is_input = sft_function sft = MODBUS_FC_READ_INPUT_REGISTERS;
       start = (if is_input then start_input_registers m else start_registers m);
       count = (if is_input then nb_input_registers m else nb_registers m);
       tab = (if is_input then tab_input_registers m else tab_registers m) in do {
     nb \<leftarrow> rd16 req (offset + 3);
     let mapping_address = address - start in
     if nb < 1 \<or> MODBUS_MAX_READ_REGISTERS < nb
     then response_exception be st sft MODBUS_EXCEPTION_ILLEGAL_DATA_VALUE rsp m True
     else if mapping_address < 0 \<or> mapping_address + nb > count
     then response_exception be st sft MODBUS_EXCEPTION_ILLEGAL_DATA_ADDRESS rsp m False
     else do {
       (rsp_length, rsp) \<leftarrow> build_response_basis be sft rsp;
       rsp \<leftarrow> wr rsp rsp_length (word_of_int (push_bit 1 nb));
       (rsp_length, rsp) \<leftarrow> store_regs tab mapping_address (nat nb) rsp (rsp_length + 1);
       Some (rsp_length, rsp, m, st)
     }
   })"

definition reply_write_single_coil ::
    "modbus_backend \<Rightarrow> mb \<Rightarrow> sft \<Rightarrow> u8 list \<Rightarrow> int \<Rightarrow> int \<Rightarrow> u8 list \<Rightarrow> modbus_mapping \<Rightarrow> response" where
  "reply_write_single_coil be st sft req req_length address rsp m = (let offset = header_length be;
       mapping_address = address - start_bits m in
     if mapping_address < 0 \<or> mapping_address \<ge> nb_bits m
     then response_exception be st sft MODBUS_EXCEPTION_ILLEGAL_DATA_ADDRESS rsp m False
     else do {
       data \<leftarrow> rd16 req (offset + 3);
       if data = 0xFF00 \<or> data = 0 then do {
         tab \<leftarrow> wr (tab_bits m) mapping_address (if data \<noteq> 0 then 1 else 0);
         bs \<leftarrow> rds req 0 req_length;
         rsp \<leftarrow> wrs rsp 0 bs;
         Some (req_length, rsp, m\<lparr>tab_bits := tab\<rparr>, st)
       } else response_exception be st sft MODBUS_EXCEPTION_ILLEGAL_DATA_VALUE rsp m False
     })"

definition reply_write_single_register ::
    "modbus_backend \<Rightarrow> mb \<Rightarrow> sft \<Rightarrow> u8 list \<Rightarrow> int \<Rightarrow> int \<Rightarrow> u8 list \<Rightarrow> modbus_mapping \<Rightarrow> response" where
  "reply_write_single_register be st sft req req_length address rsp m = (let offset = header_length be;
       mapping_address = address - start_registers m in
     if mapping_address < 0 \<or> mapping_address \<ge> nb_registers m
     then response_exception be st sft MODBUS_EXCEPTION_ILLEGAL_DATA_ADDRESS rsp m False
     else do {
       data \<leftarrow> rd16 req (offset + 3);
       tab \<leftarrow> wr (tab_registers m) mapping_address (word_of_int data);
       bs \<leftarrow> rds req 0 req_length;
       rsp \<leftarrow> wrs rsp 0 bs;
       Some (req_length, rsp, m\<lparr>tab_registers := tab\<rparr>, st)
     })"

text \<open>The echo of address and quantity that ends the multiple writes: \<open>memcpy(rsp + n, req + n, 4)\<close>.\<close>

definition echo_quantity ::
    "modbus_backend \<Rightarrow> mb \<Rightarrow> sft \<Rightarrow> u8 list \<Rightarrow> u8 list \<Rightarrow> modbus_mapping \<Rightarrow> response" where
  "echo_quantity be st sft req rsp m = do {
     (rsp_length, rsp) \<leftarrow> build_response_basis be sft rsp;
     bs \<leftarrow> rds req rsp_length 4;
     rsp \<leftarrow> wrs rsp rsp_length bs;
     Some (rsp_length + 4, rsp, m, st)
   }"

definition reply_write_multiple_coils ::
    "modbus_backend \<Rightarrow> mb \<Rightarrow> sft \<Rightarrow> u8 list \<Rightarrow> int \<Rightarrow> u8 list \<Rightarrow> modbus_mapping \<Rightarrow> response" where
  "reply_write_multiple_coils be st sft req address rsp m = (let offset = header_length be in do {
     nb \<leftarrow> rd16 req (offset + 3);
     bytes \<leftarrow> rd req (offset + 5);
     let mapping_address = address - start_bits m in
     if nb < 1 \<or> MODBUS_MAX_WRITE_BITS < nb \<or> uint bytes * 8 < nb
     then response_exception be st sft MODBUS_EXCEPTION_ILLEGAL_DATA_VALUE rsp m True
     else if mapping_address < 0 \<or> mapping_address + nb > nb_bits m
     then response_exception be st sft MODBUS_EXCEPTION_ILLEGAL_DATA_ADDRESS rsp m False
     else do {
       tab \<leftarrow> modbus_set_bits_from_bytes (tab_bits m) mapping_address (word_of_int nb)
                (drop (nat (offset + 6)) req);
       echo_quantity be st sft req rsp (m\<lparr>tab_bits := tab\<rparr>)
     }
   })"

text \<open>\<open>tab[i] = (req[pos] << 8) + req[pos + 1]\<close> for the \<open>n\<close> registers left.\<close>

fun load_regs :: "u8 list \<Rightarrow> int \<Rightarrow> nat \<Rightarrow> int \<Rightarrow> u16 list \<Rightarrow> u16 list option" where
  "load_regs req pos 0 i tab = Some tab"
| "load_regs req pos (Suc n) i tab = do {
     v \<leftarrow> rd16 req pos;
     tab \<leftarrow> wr tab i (word_of_int v);
     load_regs req (pos + 2) n (i + 1) tab
   }"

definition reply_write_multiple_registers ::
    "modbus_backend \<Rightarrow> mb \<Rightarrow> sft \<Rightarrow> u8 list \<Rightarrow> int \<Rightarrow> u8 list \<Rightarrow> modbus_mapping \<Rightarrow> response" where
  "reply_write_multiple_registers be st sft req address rsp m = (let offset = header_length be in do {
     nb \<leftarrow> rd16 req (offset + 3);
     nb_bytes \<leftarrow> rd req (offset + 5);
     let mapping_address = address - start_registers m in
     if nb < 1 \<or> MODBUS_MAX_WRITE_REGISTERS < nb \<or> uint nb_bytes \<noteq> nb * 2
     then response_exception be st sft MODBUS_EXCEPTION_ILLEGAL_DATA_VALUE rsp m True
     else if mapping_address < 0 \<or> mapping_address + nb > nb_registers m
     then response_exception be st sft MODBUS_EXCEPTION_ILLEGAL_DATA_ADDRESS rsp m False
     else do {
       tab \<leftarrow> load_regs req (offset + 6) (nat nb) mapping_address (tab_registers m);
       echo_quantity be st sft req rsp (m\<lparr>tab_registers := tab\<rparr>)
     }
   })"

text \<open>\<open>"LMB"\<close> is \<open>4C 4D 42\<close>.\<close>

definition reply_report_slave_id ::
    "modbus_backend \<Rightarrow> u8 list \<Rightarrow> mb \<Rightarrow> sft \<Rightarrow> u8 list \<Rightarrow> modbus_mapping \<Rightarrow> response" where
  "reply_report_slave_id be version st sft rsp m = do {
     (byte_count_pos, rsp) \<leftarrow> build_response_basis be sft rsp;
     rsp \<leftarrow> wrs rsp (byte_count_pos + 1) ([180, 0xFF] @ [0x4C, 0x4D, 0x42] @ version);
     let rsp_length = byte_count_pos + 3 + (3 + int (length version)) in do {
     rsp \<leftarrow> wr rsp byte_count_pos (word_of_int (rsp_length - byte_count_pos - 1));
     Some (rsp_length, rsp, m, st) }
   }"

definition reply_mask_write_register ::
    "modbus_backend \<Rightarrow> mb \<Rightarrow> sft \<Rightarrow> u8 list \<Rightarrow> int \<Rightarrow> int \<Rightarrow> u8 list \<Rightarrow> modbus_mapping \<Rightarrow> response" where
  "reply_mask_write_register be st sft req req_length address rsp m = (let offset = header_length be;
       mapping_address = address - start_registers m in
     if mapping_address < 0 \<or> mapping_address \<ge> nb_registers m
     then response_exception be st sft MODBUS_EXCEPTION_ILLEGAL_DATA_ADDRESS rsp m False
     else do {
       data \<leftarrow> rd (tab_registers m) mapping_address;
       a \<leftarrow> rd16 req (offset + 3);
       r \<leftarrow> rd16 req (offset + 5);
       let and_mask = word_of_int a; or_mask = word_of_int r;
           data = (data AND and_mask) OR (or_mask AND NOT and_mask) in do {
       tab \<leftarrow> wr (tab_registers m) mapping_address data;
       bs \<leftarrow> rds req 0 req_length;
       rsp \<leftarrow> wrs rsp 0 bs;
       Some (req_length, rsp, m\<lparr>tab_registers := tab\<rparr>, st) }
     })"

text \<open>The guard tests \<open>mapping_address < 0\<close> twice and never \<open>mapping_address_write < 0\<close>.\<close>

definition reply_write_and_read_registers ::
    "modbus_backend \<Rightarrow> mb \<Rightarrow> sft \<Rightarrow> u8 list \<Rightarrow> int \<Rightarrow> u8 list \<Rightarrow> modbus_mapping \<Rightarrow> response" where
  "reply_write_and_read_registers be st sft req address rsp m = (let offset = header_length be in do {
     nb \<leftarrow> rd16 req (offset + 3);
     address_write \<leftarrow> rd16 req (offset + 5);
     nb_write \<leftarrow> rd16 req (offset + 7);
     nb_write_bytes \<leftarrow> rd req (offset + 9);
     let mapping_address = address - start_registers m;
         mapping_address_write = address_write - start_registers m in
     if nb_write < 1 \<or> MODBUS_MAX_WR_WRITE_REGISTERS < nb_write \<or> nb < 1
         \<or> MODBUS_MAX_WR_READ_REGISTERS < nb \<or> uint nb_write_bytes \<noteq> nb_write * 2
     then response_exception be st sft MODBUS_EXCEPTION_ILLEGAL_DATA_VALUE rsp m True
     else if mapping_address < 0 \<or> mapping_address + nb > nb_registers m \<or> mapping_address < 0
         \<or> mapping_address_write + nb_write > nb_registers m
     then response_exception be st sft MODBUS_EXCEPTION_ILLEGAL_DATA_ADDRESS rsp m False
     else do {
       (rsp_length, rsp) \<leftarrow> build_response_basis be sft rsp;
       rsp \<leftarrow> wr rsp rsp_length (word_of_int (push_bit 1 nb));
       tab \<leftarrow> load_regs req (offset + 10) (nat nb_write) mapping_address_write (tab_registers m);
       (rsp_length, rsp) \<leftarrow> store_regs tab mapping_address (nat nb) rsp (rsp_length + 1);
       Some (rsp_length, rsp, m\<lparr>tab_registers := tab\<rparr>, st)
     }
   })"

text \<open>The \<open>switch (function)\<close> of \<open>modbus_reply\<close>; the code with no response,
  \<open>MODBUS_FC_READ_EXCEPTION_STATUS\<close>, returns before it.\<close>

definition reply_dispatch ::
    "modbus_backend \<Rightarrow> u8 list \<Rightarrow> mb \<Rightarrow> sft \<Rightarrow> u8 list \<Rightarrow> int \<Rightarrow> int \<Rightarrow> u8 list \<Rightarrow> modbus_mapping \<Rightarrow> response" where
  "reply_dispatch be version st sft req req_length address rsp m = (let f = sft_function sft in
     if f = MODBUS_FC_READ_COILS \<or> f = MODBUS_FC_READ_DISCRETE_INPUTS
     then reply_read_bits be st sft req address rsp m
     else if f = MODBUS_FC_READ_HOLDING_REGISTERS \<or> f = MODBUS_FC_READ_INPUT_REGISTERS
     then reply_read_registers be st sft req address rsp m
     else if f = MODBUS_FC_WRITE_SINGLE_COIL
     then reply_write_single_coil be st sft req req_length address rsp m
     else if f = MODBUS_FC_WRITE_SINGLE_REGISTER
     then reply_write_single_register be st sft req req_length address rsp m
     else if f = MODBUS_FC_WRITE_MULTIPLE_COILS
     then reply_write_multiple_coils be st sft req address rsp m
     else if f = MODBUS_FC_WRITE_MULTIPLE_REGISTERS
     then reply_write_multiple_registers be st sft req address rsp m
     else if f = MODBUS_FC_REPORT_SLAVE_ID
     then reply_report_slave_id be version st sft rsp m
     else if f = MODBUS_FC_MASK_WRITE_REGISTER
     then reply_mask_write_register be st sft req req_length address rsp m
     else if f = MODBUS_FC_WRITE_AND_READ_REGISTERS
     then reply_write_and_read_registers be st sft req address rsp m
     else response_exception be st sft MODBUS_EXCEPTION_ILLEGAL_FUNCTION rsp m True)"

text \<open>\<open>modbus_reply\<close> sends the response unless the request was a broadcast over RTU.\<close>

definition modbus_reply ::
    "modbus_backend \<Rightarrow> u8 list \<Rightarrow> modbus_ptr \<Rightarrow> mb \<Rightarrow> u8 list \<Rightarrow> int \<Rightarrow> modbus_mapping
      \<Rightarrow> (int \<times> modbus_mapping \<times> mb) option" where
  "modbus_reply be version p st req req_length m =
     (if p = Null then Some (-1, m, set_errno EINVAL st)
      else let offset = header_length be in do {
        slave_id \<leftarrow> rd req (offset - 1);
        fc \<leftarrow> rd req offset;
        address \<leftarrow> rd16 req (offset + 1);
        let (t_id, req_length) = prepare_response_tid be req req_length;
            sft = \<lparr>sft_slave = uint slave_id, sft_function = uint fc, sft_t_id = t_id\<rparr> in
        if uint fc = MODBUS_FC_READ_EXCEPTION_STATUS then Some (-1, m, set_errno ENOPROTOOPT st)
        else do {
          (rsp_length, rsp, m, st) \<leftarrow> reply_dispatch be version st sft req req_length address (g_rsp st) m;
          if backend_type be = BACKEND_TYPE_RTU \<and> uint slave_id = MODBUS_BROADCAST_ADDRESS
          then Some (0, m, st\<lparr>g_rsp := rsp\<rparr>)
          else do {
            (rc, rsp, st) \<leftarrow> send_msg be st rsp rsp_length;
            Some (rc, m, st\<lparr>g_rsp := rsp\<rparr>)
          }
        }
      })"

definition modbus_reply_exception ::
    "modbus_backend \<Rightarrow> modbus_ptr \<Rightarrow> mb \<Rightarrow> u8 list \<Rightarrow> u32 \<Rightarrow> (int \<times> mb) option" where
  "modbus_reply_exception be p st req exception_code =
     (if p = Null then Some (-1, set_errno EINVAL st)
      else let offset = header_length be in do {
        slave_id \<leftarrow> rd req (offset - 1);
        fc \<leftarrow> rd req offset;
        let (t_id, dummy_length) = prepare_response_tid be req 99;
            sft = \<lparr>sft_slave = uint slave_id, sft_function = uint fc + 0x80, sft_t_id = t_id\<rparr> in do {
        (rsp_length, rsp) \<leftarrow> build_response_basis be sft (g_rsp st);
        if uint exception_code < MODBUS_EXCEPTION_MAX then do {
          rsp \<leftarrow> wr rsp rsp_length (ucast exception_code);
          (rc, rsp, st) \<leftarrow> send_msg be st rsp (rsp_length + 1);
          Some (rc, st\<lparr>g_rsp := rsp\<rparr>)
        } else Some (-1, set_errno EINVAL (st\<lparr>g_rsp := rsp\<rparr>)) }
      })"

section \<open>strlcpy\<close>

text \<open>The strings are buffers that contain their terminating NUL; the result is the destination and
  the length of the source.\<close>

fun strlcpy_copy :: "u8 list \<Rightarrow> u8 list \<Rightarrow> nat \<Rightarrow> nat \<Rightarrow> (u8 list \<times> nat \<times> nat \<times> bool) option" where
  "strlcpy_copy dest src k 0 = Some (dest, k, 0, False)"
| "strlcpy_copy dest src k (Suc n) = do {
     c \<leftarrow> rd src (int k);
     dest \<leftarrow> wr dest (int k) c;
     if c = 0 then Some (dest, k + 1, Suc n, True) else strlcpy_copy dest src (k + 1) n
   }"

text \<open>\<open>while (*s++);\<close> from position \<open>k\<close>: the position after the NUL.\<close>

function skip_to_nul :: "u8 list \<Rightarrow> nat \<Rightarrow> nat option" where
  "skip_to_nul src k =
     (if k < length src then (if src ! k = 0 then Some (k + 1) else skip_to_nul src (k + 1)) else None)"
  by pat_completeness auto
termination by (relation "measure (\<lambda>(src, k). length src - k)") auto

declare skip_to_nul.simps [simp del]

definition strlcpy :: "u8 list \<Rightarrow> u8 list \<Rightarrow> nat \<Rightarrow> (u8 list \<times> nat) option" where
  "strlcpy dest src dest_size = do {
     (dest, k, n, stopped) \<leftarrow>
       (if 1 < dest_size then strlcpy_copy dest src 0 (dest_size - 1) else Some (dest, 0, 0, False));
     if stopped then Some (dest, k - 1)
     else do {
       dest \<leftarrow> (if dest_size \<noteq> 0 then wr dest (int k) 0 else Some dest);
       k \<leftarrow> skip_to_nul src k;
       Some (dest, k - 1)
     }
   }"

section \<open>Packing, setting and loading\<close>

lemma response_io_spec:
  "i + n \<le> length tab \<Longrightarrow> length bs < 8 \<Longrightarrow> \<forall>v\<in>set (bs @ tab). v \<in> {0, 1} \<Longrightarrow>
   (\<And>j. bit ob j \<longleftrightarrow> j < length bs \<and> bs ! j \<noteq> 0) \<Longrightarrow> m = (length bs + n + 7) div 8 \<Longrightarrow>
   length pre + m \<le> length rsp \<Longrightarrow>
   response_io_status tab (int i) n (length bs) ob (pre @ drop (length pre) rsp) (int (length pre))
     = Some (int (length pre + m), (pre @ bytes_of_bits m (bs @ take n (drop i tab))) @ drop (length pre + m) rsp)"
proof (induction n arbitrary: i bs ob m pre)
  case 0
  have byte: "word_of_int ob = byte_of bs"
    by (rule bit_word_eqI) (auto simp: bit_word_of_int_iff "0.prems"(4) bit_byte_of)
  show ?case
  proof (cases "bs = []")
    case True
    then show ?thesis using "0.prems"(5) by simp
  next
    case False
    then have m: "m = 1" using "0.prems"(2,5) by (cases bs) auto
    then have "wr (pre @ drop (length pre) rsp) (int (length pre)) (byte_of bs)
        = Some ((pre @ [byte_of bs]) @ drop (length (pre @ [byte_of bs])) rsp)"
      using "0.prems"(6) by (intro wr_after_prefix) simp
    then show ?thesis using False m byte by simp
  qed
next
  case (Suc n)
  define v where "v = tab ! i"
  define bs' where "bs' = bs @ [v]"
  define ob' where "ob' = ob OR push_bit (length bs) (uint v)"
  have tab: "rd tab (int i) = Some v" "take (Suc n) (drop i tab) = v # take n (drop (i + 1) tab)"
    using Suc.prems(1) by (simp_all add: rd_def v_def Cons_nth_drop_Suc [symmetric])
  have v01: "v \<in> {0, 1}" using Suc.prems(1,3) by (auto simp: v_def)
  have ob': "bit ob' j \<longleftrightarrow> j < length bs' \<and> bs' ! j \<noteq> 0" for j
    using v01 Suc.prems(4) [of j]
    by (auto simp: ob'_def bs'_def bit_or_iff bit_push_bit_iff nth_append less_Suc_eq bit_1_iff)
  have set': "\<forall>v\<in>set (bs' @ tab). v \<in> {0, 1}" using Suc.prems(3) v01 by (auto simp: bs'_def)
  show ?case
  proof (cases "length bs = 7")
    case True
    have byte: "word_of_int ob' = byte_of bs'"
      by (rule bit_word_eqI) (auto simp: bit_word_of_int_iff ob' bit_byte_of)
    define m' where "m' = (n + 7) div 8"
    have m: "m = Suc m'" using Suc.prems(5) True by (simp add: m'_def)
    have w: "wr (pre @ drop (length pre) rsp) (int (length pre)) (byte_of bs')
        = Some ((pre @ [byte_of bs']) @ drop (length (pre @ [byte_of bs'])) rsp)"
      using Suc.prems(6) m by (intro wr_after_prefix) simp
    have ih: "response_io_status tab (int (i + 1)) n (length ([] :: u8 list)) 0
        ((pre @ [byte_of bs']) @ drop (length (pre @ [byte_of bs'])) rsp) (int (length (pre @ [byte_of bs'])))
      = Some (int (length (pre @ [byte_of bs']) + m'),
          ((pre @ [byte_of bs']) @ bytes_of_bits m' ([] @ take n (drop (i + 1) tab)))
            @ drop (length (pre @ [byte_of bs']) + m') rsp)"
      by (rule Suc.IH [of "i + 1" "[]" 0 m' "pre @ [byte_of bs']"]) (use Suc.prems m in \<open>auto simp: m'_def\<close>)
    have "length bs' = 8" using True by (simp add: bs'_def)
    then have "bytes_of_bits m (bs' @ take n (drop (i + 1) tab))
        = byte_of bs' # bytes_of_bits m' (take n (drop (i + 1) tab))"
      by (simp add: m byte_of_def)
    moreover have "ob OR push_bit 7 (uint v) = ob'" using True by (simp add: ob'_def)
    ultimately show ?thesis
      using True w ih byte m by (simp add: tab Let_def bs'_def add.commute)
  next
    case False
    have "response_io_status tab (int (i + 1)) n (length bs') ob' (pre @ drop (length pre) rsp) (int (length pre))
      = Some (int (length pre + m), (pre @ bytes_of_bits m (bs' @ take n (drop (i + 1) tab))) @ drop (length pre + m) rsp)"
      by (rule Suc.IH) (use Suc.prems False ob' set' in \<open>auto simp: bs'_def\<close>)
    with False show ?thesis
      by (simp add: tab ob'_def [symmetric] Let_def bs'_def add.commute)
  qed
qed

lemma nth_bits_of_bytes:
  "k < 8 * length bs \<Longrightarrow> bits_of_bytes bs ! k = bit_value (bs ! (k div 8)) (k mod 8)"
proof (induction bs arbitrary: k)
  case (Cons b bs)
  show ?case
  proof (cases "k < 8")
    case True
    then show ?thesis by (simp add: bits_of_bytes_def nth_append del: upt_Suc)
  next
    case False
    with Cons.prems Cons.IH [of "k - 8"] show ?thesis
      by (simp add: bits_of_bytes_def nth_append le_div_geq le_mod_geq del: upt_Suc)
  qed
qed simp

lemma set_bits_spec:
  assumes "a + n \<le> length tab" "length tab < 2 ^ 31" "n \<le> 8 * length bytes"
  shows "modbus_set_bits_from_bytes tab (int a) (word_of_int (int n)) bytes
    = Some (take a tab @ take n (bits_of_bytes bytes) @ drop (a + n) tab)"
proof -
  let ?v = "\<lambda>k. bit_value (bytes ! (k div 8)) (k mod 8)"
  have "unat (word_of_int (int a) :: u32) = a" "unat (word_of_int (int a) + word_of_int (int n) :: u32) = a + n"
    using assms(1,2) unat_of_nat32 [of a] unat_of_nat32 [of "a + n"] by simp_all
  then have "modbus_set_bits_from_bytes tab (int a) (word_of_int (int n)) bytes
      = for_up 0 n (\<lambda>k dest. do {
           b \<leftarrow> rd bytes (int (k div 8));
           wr dest (int (a + k)) (if bit b (k mod 8) then 1 else 0)
         }) tab"
    by (simp add: modbus_set_bits_from_bytes_def Let_def)
  also have "\<dots> = for_up 0 n (\<lambda>k dest. wr dest (int (a + k)) (?v k)) tab"
  proof (rule for_up_cong)
    fix k and dest :: "u8 list" assume "k < 0 + n"
    with assms(3) have "k div 8 < length bytes" by auto
    then show "(do {
           b \<leftarrow> rd bytes (int (k div 8));
           wr dest (int (a + k)) (if bit b (k mod 8) then 1 else 0)
         }) = wr dest (int (a + k)) (?v k)"
      by (simp only: rd_int Option.bind.simps)
  qed
  also have "\<dots> = Some (take a tab @ map ?v [0..<n] @ drop (a + n) tab)"
    by (rule for_up_store [OF assms(1)])
  also have "map ?v [0..<n] = take n (bits_of_bytes bytes)"
    using assms(3) by (intro nth_equalityI) (auto simp: nth_bits_of_bytes)
  finally show ?thesis .
qed

fun bytes_regs :: "u8 list \<Rightarrow> u16 list" where
  "bytes_regs (h # l # bs) = word_of_int (be16 h l) # bytes_regs bs"
| "bytes_regs _ = []"

lemma bytes_regs_of_regs [simp]: "bytes_regs (regs_bytes rs) = rs"
  by (induction rs) (simp_all add: reg_bytes_hi_lo word_of_reg_bytes)

lemma load_regs_spec:
  "length bs = 2 * n \<Longrightarrow> i + n \<le> length tab \<Longrightarrow>
   load_regs (pre @ bs @ post) (int (length pre)) n (int i) tab
     = Some (take i tab @ bytes_regs bs @ drop (i + n) tab) \<and> length (bytes_regs bs) = n"
proof (induction n arbitrary: bs pre i tab)
  case (Suc n)
  then obtain h l rest where bs: "bs = h # l # rest" "length rest = 2 * n"
    by (auto simp: length_Suc_conv)
  let ?tab = "tab[i := word_of_int (be16 h l)]"
  have "rd16 (pre @ h # l # rest @ post) (int (length pre)) = Some (be16 h l)"
    using rd_int [of "length pre" "pre @ h # l # rest @ post"]
      rd_int [of "length pre + 1" "pre @ h # l # rest @ post"]
    by (simp add: rd16_def nth_append add.commute)
  moreover have "wr tab (int i) (word_of_int (be16 h l)) = Some ?tab"
    using Suc.prems(2) by (simp add: wr_def)
  moreover have "take (i + 1) ?tab = take i tab @ [word_of_int (be16 h l)]"
    "drop (i + 1 + n) ?tab = drop (i + Suc n) tab"
    using Suc.prems(2) by (simp_all add: take_Suc_conv_app_nth)
  ultimately show ?case
    using Suc.IH [of rest "i + 1" ?tab "pre @ [h, l]"] Suc.prems(2) bs by (simp add: add.commute)
qed simp

section \<open>Copying a string\<close>

text \<open>\<open>len\<close> is the length of the C string in \<open>src\<close>.\<close>

definition c_string :: "u8 list \<Rightarrow> nat \<Rightarrow> bool" where
  "c_string src len \<longleftrightarrow> len < length src \<and> src ! len = 0 \<and> (\<forall>j<len. src ! j \<noteq> 0)"

lemma strlcpy_copy_spec:
  "c_string src len \<Longrightarrow> i \<le> len \<Longrightarrow> i + n \<le> length dest \<Longrightarrow>
   strlcpy_copy dest src i n =
     (if len < i + n
      then Some (take i dest @ drop i (take (len + 1) src) @ drop (len + 1) dest, len + 1, i + n - len, True)
      else Some (take i dest @ drop i (take (i + n) src) @ drop (i + n) dest, i + n, 0, False))"
proof (induction n arbitrary: dest i)
  case (Suc n)
  have rd: "rd src (int i) = Some (src ! i)" using Suc.prems by (simp add: rd_def c_string_def)
  have wr: "wr dest (int i) (src ! i) = Some (dest[i := src ! i])" using Suc.prems by (simp add: wr_def)
  show ?case
  proof (cases "i = len")
    case True
    then have "drop i (take (i + 1) src) = [src ! i]"
      using Suc.prems by (simp add: c_string_def drop_take take_Suc_conv_app_nth)
    then show ?thesis
      using True Suc.prems rd wr by (simp add: c_string_def upd_conv_take_nth_drop)
  next
    case False
    with Suc.prems have "src ! i \<noteq> 0" "i + 1 \<le> len" "i < length src" by (auto simp: c_string_def)
    moreover have "drop i (take k src) = src ! i # drop (i + 1) (take k src)" if "i < k" for k
      using that \<open>i < length src\<close> by (simp add: Cons_nth_drop_Suc [symmetric])
    ultimately show ?thesis
      using Suc.IH [of "i + 1" "dest[i := src ! i]"] Suc.prems
      by (simp add: rd wr take_Suc_conv_app_nth)
  qed
qed simp

lemma skip_to_nul_spec: "c_string src len \<Longrightarrow> k \<le> len \<Longrightarrow> skip_to_nul src k = Some (len + 1)"
proof (induction "len - k" arbitrary: k)
  case 0
  then show ?case by (subst skip_to_nul.simps) (auto simp: c_string_def)
next
  case (Suc n)
  then have "k < len" "src ! k \<noteq> 0" "k < length src" by (auto simp: c_string_def)
  with Suc.hyps(1) [of "k + 1"] Suc.hyps(2) Suc.prems(1) show ?case by (subst skip_to_nul.simps) simp
qed

text \<open>\<open>strlcpy\<close> copies at most \<open>dest_size - 1\<close> characters, always terminates the destination, leaves
  what lies behind untouched, and returns the length of the source, so that truncation can be detected.\<close>

theorem strlcpy_truncates:
  assumes "c_string src len" "1 \<le> dest_size" "dest_size \<le> length dest" "n = min len (dest_size - 1)"
  shows "strlcpy dest src dest_size = Some (take n src @ [0] @ drop (n + 1) dest, len)"
proof -
  have len: "len < length src" "src ! len = 0" using assms(1) by (simp_all add: c_string_def)
  show ?thesis
  proof (cases "dest_size = 1")
    case True
    moreover obtain d ds where "dest = d # ds" using assms(2,3) by (cases dest) auto
    ultimately show ?thesis
      using assms by (simp add: strlcpy_def skip_to_nul_spec wr_def)
  next
    case False
    then have copy: "strlcpy_copy dest src 0 (dest_size - 1) =
      (if len < dest_size - 1 then Some (take (len + 1) src @ drop (len + 1) dest, len + 1, dest_size - 1 - len, True)
       else Some (take (dest_size - 1) src @ drop (dest_size - 1) dest, dest_size - 1, 0, False))"
      using strlcpy_copy_spec [OF assms(1), of 0 "dest_size - 1" dest] assms(3) by simp
    show ?thesis
    proof (cases "len < dest_size - 1")
      case True
      with False len assms(2,4) copy show ?thesis by (simp add: strlcpy_def take_Suc_conv_app_nth)
    next
      case le: False
      obtain k where k: "dest_size = Suc k" using assms(2) by (cases dest_size) auto
      then have "drop k dest = dest ! k # drop (Suc k) dest"
        using assms(3) by (simp add: Cons_nth_drop_Suc)
      with le False len assms copy k show ?thesis
        by (simp add: strlcpy_def skip_to_nul_spec wr_def list_update_append)
    qed
  qed
qed

theorem strlcpy_truncates_witness:
  "strlcpy [9, 9, 9] [65, 66, 0] 2 = Some ([65, 0, 9], 2)"
  using strlcpy_truncates [of "[65, 66, 0]" 2 2 "[9, 9, 9]" 1]
  by (simp add: c_string_def less_2_cases_iff all_conj_distrib)

end
