(* ===== verification/ModbusServerSpec.thy ===== *)
theory ModbusServerSpec
  imports ModbusServer
begin

unbundle bit_operations_syntax

text \<open>
  What the server promises.  \<open>serve\<close> is the protocol on data units: it maps a mapping and a request to
  the reply and the new mapping, on lists, with no buffers, offsets or frames.  \<open>modbus_reply\<close> refines
  it for every well-formed request: it sends the frame of that reply, leaves that mapping, and accesses
  nothing out of bounds.  The exception is the write address of a write-and-read request, whose lower
  bound the code does not check.
\<close>

section \<open>The protocol on data units\<close>

definition segment :: "int \<Rightarrow> int \<Rightarrow> 'a list \<Rightarrow> 'a list" where
  "segment i n xs = take (nat n) (drop (nat i) xs)"

definition splice :: "int \<Rightarrow> 'a list \<Rightarrow> 'a list \<Rightarrow> 'a list" where
  "splice i vs xs = take (nat i) xs @ vs @ drop (nat i + length vs) xs"

type_synonym served = "u8 list \<times> modbus_mapping"

definition refuse :: "u8 \<Rightarrow> int \<Rightarrow> modbus_mapping \<Rightarrow> served" where
  "refuse fc code m = ([fc + 0x80, word_of_int code], m)"

text \<open>The check that every operation on a range makes first: the quantity, then the addresses.\<close>

definition guarded :: "u8 \<Rightarrow> modbus_mapping \<Rightarrow> bool \<Rightarrow> bool \<Rightarrow> served \<Rightarrow> served" where
  "guarded fc m value_ok address_ok result =
     (if \<not> value_ok then refuse fc MODBUS_EXCEPTION_ILLEGAL_DATA_VALUE m
      else if \<not> address_ok then refuse fc MODBUS_EXCEPTION_ILLEGAL_DATA_ADDRESS m
      else result)"

definition in_table :: "int \<Rightarrow> 'a list \<Rightarrow> int \<Rightarrow> int \<Rightarrow> bool" where
  "in_table start tab addr nb \<longleftrightarrow> start \<le> addr \<and> addr + nb \<le> start + int (length tab)"

definition serve_read_bits :: "u8 \<Rightarrow> int \<Rightarrow> u8 list \<Rightarrow> int \<Rightarrow> int \<Rightarrow> modbus_mapping \<Rightarrow> served" where
  "serve_read_bits fc start tab addr nb m =
     guarded fc m (1 \<le> nb \<and> nb \<le> 2000) (in_table start tab addr nb)
       (let n = (nb + 7) div 8
        in (fc # word_of_int n # bytes_of_bits (nat n) (segment (addr - start) nb tab), m))"

definition serve_read_registers :: "u8 \<Rightarrow> int \<Rightarrow> u16 list \<Rightarrow> int \<Rightarrow> int \<Rightarrow> modbus_mapping \<Rightarrow> served" where
  "serve_read_registers fc start tab addr nb m =
     guarded fc m (1 \<le> nb \<and> nb \<le> 125) (in_table start tab addr nb)
       (fc # word_of_int (2 * nb) # regs_bytes (segment (addr - start) nb tab), m)"

text \<open>A single write checks the address before the value, and echoes the request.\<close>

definition serve_write_coil :: "u8 list \<Rightarrow> int \<Rightarrow> int \<Rightarrow> modbus_mapping \<Rightarrow> served" where
  "serve_write_coil rq addr v m =
     (if \<not> in_table (start_bits m) (tab_bits m) addr 1
      then refuse (hd rq) MODBUS_EXCEPTION_ILLEGAL_DATA_ADDRESS m
      else if v \<noteq> 0 \<and> v \<noteq> 0xFF00 then refuse (hd rq) MODBUS_EXCEPTION_ILLEGAL_DATA_VALUE m
      else (rq, m\<lparr>tab_bits := splice (addr - start_bits m) [if v = 0 then 0 else 1] (tab_bits m)\<rparr>))"

definition serve_update_register :: "u8 list \<Rightarrow> int \<Rightarrow> (u16 \<Rightarrow> u16) \<Rightarrow> modbus_mapping \<Rightarrow> served" where
  "serve_update_register rq addr f m =
     (if \<not> in_table (start_registers m) (tab_registers m) addr 1
      then refuse (hd rq) MODBUS_EXCEPTION_ILLEGAL_DATA_ADDRESS m
      else let i = addr - start_registers m
        in (rq, m\<lparr>tab_registers := splice i [f (tab_registers m ! nat i)] (tab_registers m)\<rparr>))"

definition serve_write_coils :: "u8 list \<Rightarrow> int \<Rightarrow> int \<Rightarrow> u8 \<Rightarrow> u8 list \<Rightarrow> modbus_mapping \<Rightarrow> served" where
  "serve_write_coils rq addr nb count data m =
     guarded (hd rq) m (1 \<le> nb \<and> nb \<le> 1968 \<and> nb \<le> 8 * uint count)
       (in_table (start_bits m) (tab_bits m) addr nb)
       (take 5 rq, m\<lparr>tab_bits := splice (addr - start_bits m) (take (nat nb) (bits_of_bytes data)) (tab_bits m)\<rparr>)"

definition serve_write_registers :: "u8 list \<Rightarrow> int \<Rightarrow> int \<Rightarrow> u8 \<Rightarrow> u8 list \<Rightarrow> modbus_mapping \<Rightarrow> served" where
  "serve_write_registers rq addr nb count data m =
     guarded (hd rq) m (1 \<le> nb \<and> nb \<le> 123 \<and> uint count = 2 * nb)
       (in_table (start_registers m) (tab_registers m) addr nb)
       (take 5 rq, m\<lparr>tab_registers := splice (addr - start_registers m) (bytes_regs data) (tab_registers m)\<rparr>)"

definition serve_write_and_read ::
    "u8 \<Rightarrow> int \<Rightarrow> int \<Rightarrow> int \<Rightarrow> int \<Rightarrow> u8 \<Rightarrow> u8 list \<Rightarrow> modbus_mapping \<Rightarrow> served" where
  "serve_write_and_read fc addr nb waddr wnb count data m =
     guarded fc m (1 \<le> wnb \<and> wnb \<le> 121 \<and> 1 \<le> nb \<and> nb \<le> 125 \<and> uint count = 2 * wnb)
       (in_table (start_registers m) (tab_registers m) addr nb
          \<and> in_table (start_registers m) (tab_registers m) waddr wnb)
       (let tab = splice (waddr - start_registers m) (bytes_regs data) (tab_registers m)
        in (fc # word_of_int (2 * nb) # regs_bytes (segment (addr - start_registers m) nb tab),
            m\<lparr>tab_registers := tab\<rparr>))"

definition serve :: "u8 list \<Rightarrow> modbus_mapping \<Rightarrow> u8 list \<Rightarrow> served" where
  "serve version m rq =
     (let f = uint (rq ! 0); addr = be16 (rq ! 1) (rq ! 2); nb = be16 (rq ! 3) (rq ! 4) in
      if f = 1 then serve_read_bits (hd rq) (start_bits m) (tab_bits m) addr nb m
      else if f = 2 then serve_read_bits (hd rq) (start_input_bits m) (tab_input_bits m) addr nb m
      else if f = 3 then serve_read_registers (hd rq) (start_registers m) (tab_registers m) addr nb m
      else if f = 4 then serve_read_registers (hd rq) (start_input_registers m) (tab_input_registers m) addr nb m
      else if f = 5 then serve_write_coil rq addr nb m
      else if f = 6 then serve_update_register rq addr (\<lambda>_. word_of_int nb) m
      else if f = 15 then serve_write_coils rq addr nb (rq ! 5) (drop 6 rq) m
      else if f = 16 then serve_write_registers rq addr nb (rq ! 5) (drop 6 rq) m
      else if f = 17 then
        (let data = [180, 0xFF, 0x4C, 0x4D, 0x42] @ version in (hd rq # word_of_int (int (length data)) # data, m))
      else if f = 22 then
        serve_update_register rq addr (\<lambda>r. let a = word_of_int nb; or_mask = word_of_int (be16 (rq ! 5) (rq ! 6))
          in (r AND a) OR (or_mask AND NOT a)) m
      else if f = 23 then
        serve_write_and_read (hd rq) addr nb (be16 (rq ! 5) (rq ! 6)) (be16 (rq ! 7) (rq ! 8)) (rq ! 9) (drop 10 rq) m
      else refuse (hd rq) MODBUS_EXCEPTION_ILLEGAL_FUNCTION m)"

text \<open>The length a request has by the protocol, the one \<open>modbus_receive\<close> takes from the line.\<close>

definition request_sized :: "u8 list \<Rightarrow> bool" where
  "request_sized rq \<longleftrightarrow> rq \<noteq> [] \<and> length rq \<le> 253 \<and>
     (let f = uint (rq ! 0) in
      if f \<in> {1, 2, 3, 4, 5, 6} then length rq = 5
      else if f \<in> {15, 16} then 6 \<le> length rq \<and> length rq = 6 + unat (rq ! 5)
      else if f = 22 then length rq = 7
      else if f = 23 then 10 \<le> length rq \<and> length rq = 10 + unat (rq ! 9)
      else True)"

text \<open>A mapping as \<open>modbus_mapping_new\<close> makes it: the counts are the sizes of the tables and the bits
  are 0 or 1.\<close>

definition mapping_ok :: "modbus_mapping \<Rightarrow> bool" where
  "mapping_ok m \<longleftrightarrow>
     nb_bits m = int (length (tab_bits m)) \<and> nb_input_bits m = int (length (tab_input_bits m)) \<and>
     nb_registers m = int (length (tab_registers m)) \<and>
     nb_input_registers m = int (length (tab_input_registers m)) \<and>
     0 \<le> start_bits m \<and> 0 \<le> start_input_bits m \<and> 0 \<le> start_registers m \<and> 0 \<le> start_input_registers m \<and>
     length (tab_bits m) < 2 ^ 31 \<and> length (tab_input_bits m) < 2 ^ 31 \<and>
     set (tab_bits m) \<subseteq> {0, 1} \<and> set (tab_input_bits m) \<subseteq> {0, 1}"

text \<open>The test that \<open>modbus_reply\<close> lacks for a write-and-read request.\<close>

definition write_address_checked :: "modbus_mapping \<Rightarrow> u8 list \<Rightarrow> bool" where
  "write_address_checked m rq \<longleftrightarrow> (uint (rq ! 0) = 23 \<longrightarrow> start_registers m \<le> be16 (rq ! 5) (rq ! 6))"

lemmas serve_parts = serve_read_bits_def serve_read_registers_def serve_write_coil_def
  serve_update_register_def serve_write_coils_def serve_write_registers_def serve_write_and_read_def

section \<open>Slices of a table\<close>

lemma segment_int: "segment (int i) (int n) xs = take n (drop i xs)"
  by (simp add: segment_def)

lemma length_segment: "0 \<le> i \<Longrightarrow> 0 \<le> n \<Longrightarrow> i + n \<le> int (length xs) \<Longrightarrow> length (segment i n xs) = nat n"
  by (simp add: segment_def)

lemma length_splice: "0 \<le> i \<Longrightarrow> i + int (length vs) \<le> int (length xs) \<Longrightarrow> length (splice i vs xs) = length xs"
  by (simp add: splice_def)

lemma set_splice: "set (splice i vs xs) \<subseteq> set xs \<union> set vs"
  by (auto simp: splice_def dest: in_set_takeD in_set_dropD)

lemma segment_splice:
  "0 \<le> i \<Longrightarrow> i \<le> int (length xs) \<Longrightarrow> segment i (int (length vs)) (splice i vs xs) = vs"
  by (simp add: segment_def splice_def min_def)

lemma segment_splice_disjoint:
  assumes "0 \<le> i" "i + int (length vs) \<le> int (length xs)" "0 \<le> j" "0 \<le> n"
    and "j + n \<le> i \<or> i + int (length vs) \<le> j"
  shows "segment j n (splice i vs xs) = segment j n xs"
proof -
  obtain i' j' n' where n: "i = int i'" "j = int j'" "n = int n'"
    using assms by (meson nonneg_eq_int)
  show ?thesis
  proof (cases "j' + n' \<le> i'")
    case True
    have "i' \<le> length xs" using assms(2) by (simp add: n)
    then have "take n' (drop j' (take i' xs @ ys)) = take n' (drop j' xs)" for ys
      using True by (simp add: drop_take)
    then show ?thesis by (simp only: n segment_def splice_def nat_int)
  next
    case False
    then have "i' + length vs \<le> j'" using assms(5) by (simp add: n)
    with assms(2) show ?thesis by (simp add: n segment_def splice_def min_def)
  qed
qed

lemma wr_splice: "0 \<le> i \<Longrightarrow> i < int (length xs) \<Longrightarrow> wr xs i v = Some (splice i [v] xs)"
  by (simp add: wr_def splice_def upd_conv_take_nth_drop)

section \<open>The shape of a request\<close>

lemma split_heads: "length rq = n + k \<Longrightarrow> \<exists>xs ys. rq = xs @ ys \<and> length xs = n \<and> length ys = k"
  by (intro exI [of _ "take n rq"] exI [of _ "drop n rq"]) simp

lemma five_bytes: "length rq = 5 \<Longrightarrow> \<exists>a b c d e. rq = [a, b, c, d, e]"
  by (auto simp: numeral_eq_Suc length_Suc_conv)

lemma seven_bytes: "length rq = 7 \<Longrightarrow> \<exists>a b c d e f g. rq = [a, b, c, d, e, f, g]"
  by (auto simp: numeral_eq_Suc length_Suc_conv)

lemma six_bytes_and_data:
  assumes "length rq = 6 + unat (rq ! 5)"
  shows "\<exists>a b c d e n data. rq = [a, b, c, d, e, n] @ data \<and> length data = unat n"
proof -
  obtain xs ys where rq: "rq = xs @ ys" "length xs = 6" "length ys = unat (rq ! 5)"
    using split_heads [OF assms] by blast
  then obtain a b c d e n where "xs = [a, b, c, d, e, n]" by (auto simp: numeral_eq_Suc length_Suc_conv)
  with rq show ?thesis by auto
qed

lemma ten_bytes_and_data:
  assumes "length rq = 10 + unat (rq ! 9)"
  shows "\<exists>a b c d e f g h i n data. rq = [a, b, c, d, e, f, g, h, i, n] @ data \<and> length data = unat n"
proof -
  obtain xs ys where rq: "rq = xs @ ys" "length xs = 10" "length ys = unat (rq ! 9)"
    using split_heads [OF assms] by blast
  then obtain a b c d e f g h i n where "xs = [a, b, c, d, e, f, g, h, i, n]"
    by (auto simp: numeral_eq_Suc length_Suc_conv)
  with rq show ?thesis by auto
qed

lemma request_shapes:
  "request_sized rq \<Longrightarrow> uint (rq ! 0) \<in> {1, 2, 3, 4, 5, 6} \<Longrightarrow> \<exists>a b c d e. rq = [a, b, c, d, e]"
  "request_sized rq \<Longrightarrow> uint (rq ! 0) \<in> {15, 16}
    \<Longrightarrow> \<exists>a b c d e n data. rq = [a, b, c, d, e, n] @ data \<and> length data = unat n"
  "request_sized rq \<Longrightarrow> uint (rq ! 0) = 22 \<Longrightarrow> \<exists>a b c d e f g. rq = [a, b, c, d, e, f, g]"
  "request_sized rq \<Longrightarrow> uint (rq ! 0) = 23
    \<Longrightarrow> \<exists>a b c d e f g h i n data. rq = [a, b, c, d, e, f, g, h, i, n] @ data \<and> length data = unat n"
  by (intro five_bytes six_bytes_and_data seven_bytes ten_bytes_and_data;
      auto simp: request_sized_def Let_def)+

section \<open>Sizes and the invariant of the mapping\<close>

lemma mapping_ok_bits: "mapping_ok m \<Longrightarrow> length xs = length (tab_bits m) \<Longrightarrow> set xs \<subseteq> {0, 1}
    \<Longrightarrow> mapping_ok (m\<lparr>tab_bits := xs\<rparr>)"
  by (simp add: mapping_ok_def)

lemma mapping_ok_registers: "mapping_ok m \<Longrightarrow> length xs = length (tab_registers m)
    \<Longrightarrow> mapping_ok (m\<lparr>tab_registers := xs\<rparr>)"
  by (simp add: mapping_ok_def)

lemma set_bits_of_bytes: "set (bits_of_bytes bs) \<subseteq> {0, 1}"
  by (auto simp: bits_of_bytes_def)

lemma guarded_cases:
  assumes "P (refuse fc 3 m)" "P (refuse fc 2 m)" "v \<Longrightarrow> a \<Longrightarrow> P r"
  shows "P (guarded fc m v a r)"
  using assms by (simp add: guarded_def)

lemma refuse_simps [simp]: "snd (refuse fc code m) = m" "length (fst (refuse fc code m)) = 2"
  by (simp_all add: refuse_def)

lemma length_bytes_regs: "length (bytes_regs data) = length data div 2"
  by (induction data rule: bytes_regs.induct) simp_all

lemma serve_length:
  assumes "request_sized rq" "length version \<le> 240"
  shows "length (fst (serve version m rq)) \<le> 253"
proof -
  have rq: "length rq \<le> 253" using assms(1) by (simp add: request_sized_def)
  have "length (fst (serve_read_bits fc start tab addr nb m)) \<le> 253" for fc start tab addr nb
    unfolding serve_read_bits_def by (rule guarded_cases) (auto simp: Let_def nat_le_iff)
  moreover have "length (fst (serve_read_registers fc start tab addr nb m)) \<le> 253" for fc start tab addr nb
    unfolding serve_read_registers_def by (rule guarded_cases) (auto simp: segment_def)
  moreover have "length (fst (serve_write_and_read fc addr nb wa wn c data m)) \<le> 253" for fc addr nb wa wn c data
    unfolding serve_write_and_read_def by (rule guarded_cases) (auto simp: segment_def Let_def)
  moreover have "length (fst (serve_write_coil rq addr v m)) \<le> 253" for addr v
    using rq by (simp add: serve_write_coil_def)
  moreover have "length (fst (serve_update_register rq addr f m)) \<le> 253" for addr f
    using rq by (simp add: serve_update_register_def Let_def)
  moreover have "length (fst (serve_write_coils rq addr nb c data m)) \<le> 253" for addr nb c data
    unfolding serve_write_coils_def by (rule guarded_cases) auto
  moreover have "length (fst (serve_write_registers rq addr nb c data m)) \<le> 253" for addr nb c data
    unfolding serve_write_registers_def by (rule guarded_cases) auto
  ultimately show ?thesis using assms(2) by (simp add: serve_def Let_def)
qed

lemma serve_bits_ok:
  assumes "mapping_ok m"
  shows "mapping_ok (snd (serve_write_coil rq addr v m))"
    and "int (length data) = uint c \<Longrightarrow> mapping_ok (snd (serve_write_coils rq addr nb c data m))"
proof -
  have bits: "set (tab_bits m) \<subseteq> {0, 1}" using assms by (simp add: mapping_ok_def)
  have splice: "mapping_ok (m\<lparr>tab_bits := splice (addr - start_bits m) vs (tab_bits m)\<rparr>)"
    if "in_table (start_bits m) (tab_bits m) addr (int (length vs))" "set vs \<subseteq> {0, 1}" for vs
    using that bits set_splice [of "addr - start_bits m" vs "tab_bits m"]
    by (intro mapping_ok_bits [OF assms] length_splice) (auto simp: in_table_def)
  show "mapping_ok (snd (serve_write_coil rq addr v m))"
    using assms splice [of "[0]"] splice [of "[1]"] by (simp add: serve_write_coil_def)
  show "mapping_ok (snd (serve_write_coils rq addr nb c data m))" if d: "int (length data) = uint c"
    unfolding serve_write_coils_def
  proof (rule guarded_cases)
    assume v: "1 \<le> nb \<and> nb \<le> 1968 \<and> nb \<le> 8 * uint c" and a: "in_table (start_bits m) (tab_bits m) addr nb"
    let ?vs = "take (nat nb) (bits_of_bytes data)"
    have "nat nb \<le> 8 * length data" using v d by linarith
    with v have "int (length ?vs) = nb" by simp
    with a set_bits_of_bytes [of data] splice [of ?vs]
    show "mapping_ok (snd (take 5 rq, m\<lparr>tab_bits := splice (addr - start_bits m) ?vs (tab_bits m)\<rparr>))"
      by (auto dest!: in_set_takeD)
  qed (simp_all add: assms)
qed

lemma serve_registers_ok:
  assumes "mapping_ok m"
  shows "mapping_ok (snd (serve_update_register rq addr f m))"
    and "int (length data) = uint c \<Longrightarrow> mapping_ok (snd (serve_write_registers rq addr nb c data m))"
    and "int (length data) = uint c \<Longrightarrow> mapping_ok (snd (serve_write_and_read fc addr nb wa wn c data m))"
proof -
  have splice: "mapping_ok (m\<lparr>tab_registers := splice (a - start_registers m) vs (tab_registers m)\<rparr>)"
    if "in_table (start_registers m) (tab_registers m) a (int (length vs))" for a vs
    using that by (intro mapping_ok_registers [OF assms] length_splice) (auto simp: in_table_def)
  show "mapping_ok (snd (serve_update_register rq addr f m))"
    using assms splice by (simp add: serve_update_register_def Let_def)
  show "mapping_ok (snd (serve_write_registers rq addr nb c data m))" if "int (length data) = uint c"
    unfolding serve_write_registers_def
    by (rule guarded_cases) (use that splice [of addr "bytes_regs data"] in \<open>simp_all add: assms length_bytes_regs zdiv_int\<close>)
  show "mapping_ok (snd (serve_write_and_read fc addr nb wa wn c data m))" if "int (length data) = uint c"
    unfolding serve_write_and_read_def
    by (rule guarded_cases)
      (use that splice [of wa "bytes_regs data"] in \<open>simp_all add: assms length_bytes_regs zdiv_int Let_def\<close>)
qed

lemma request_data:
  assumes "request_sized rq"
  shows "uint (rq ! 0) \<in> {15, 16} \<Longrightarrow> int (length (drop 6 rq)) = uint (rq ! 5)"
    and "uint (rq ! 0) = 23 \<Longrightarrow> int (length (drop 10 rq)) = uint (rq ! 9)"
  using assms by (auto simp: request_sized_def Let_def)

lemma serve_mapping_ok:
  assumes "request_sized rq" "mapping_ok m"
  shows "mapping_ok (snd (serve version m rq))"
proof -
  have "snd (serve_read_bits fc start tab addr nb m) = m" for fc start tab addr nb
    by (simp add: serve_read_bits_def guarded_def Let_def)
  moreover have "snd (serve_read_registers fc start tab addr nb m) = m" for fc start tab addr nb
    by (simp add: serve_read_registers_def guarded_def)
  ultimately show ?thesis
    using serve_bits_ok [OF assms(2)] serve_registers_ok [OF assms(2)] request_data [OF assms(1)] assms(2)
    by (simp add: serve_def Let_def)
qed

text \<open>Only the coils and the holding registers ever change.\<close>

definition same_frame :: "modbus_mapping \<Rightarrow> modbus_mapping \<Rightarrow> bool" where
  "same_frame m m' \<longleftrightarrow> m'\<lparr>tab_bits := tab_bits m, tab_registers := tab_registers m\<rparr> = m"

lemma same_frame_simps [simp]:
  "same_frame m m" "same_frame m (m\<lparr>tab_bits := xs\<rparr>)" "same_frame m (m\<lparr>tab_registers := ys\<rparr>)"
  by (simp_all add: same_frame_def)

lemma serve_frame: "same_frame m (snd (serve version m rq))"
proof -
  have "same_frame m (snd (serve_read_bits fc start tab addr nb m))" for fc start tab addr nb
    by (simp add: serve_read_bits_def guarded_def Let_def)
  moreover have "same_frame m (snd (serve_read_registers fc start tab addr nb m))" for fc start tab addr nb
    by (simp add: serve_read_registers_def guarded_def)
  moreover have "same_frame m (snd (serve_write_coil rq addr v m))" for addr v
    by (simp add: serve_write_coil_def)
  moreover have "same_frame m (snd (serve_update_register rq addr f m))" for addr f
    by (simp add: serve_update_register_def Let_def)
  moreover have "same_frame m (snd (serve_write_coils rq addr nb c data m))" for addr nb c data
    by (simp add: serve_write_coils_def guarded_def)
  moreover have "same_frame m (snd (serve_write_registers rq addr nb c data m))" for addr nb c data
    by (simp add: serve_write_registers_def guarded_def)
  moreover have "same_frame m (snd (serve_write_and_read fc addr nb wa wn c data m))" for fc addr nb wa wn c data
    by (simp add: serve_write_and_read_def guarded_def Let_def)
  ultimately show ?thesis by (simp add: serve_def Let_def)
qed

section \<open>Building replies\<close>

locale modbus_responding = modbus_framing +
  fixes rhdr :: "sft \<Rightarrow> u8 list"
  assumes rhdr_length: "int (length (rhdr sft)) = header_length be"
    and build_response:
      "header_length be + 1 \<le> int (length buf)
        \<Longrightarrow> build_response_basis be sft buf
          = Some (header_length be + 1,
              rhdr sft @ [word_of_int (sft_function sft)] @ drop (nat (header_length be) + 1) buf)"
    and response_tid: "snd (prepare_response_tid be rq n) = n - checksum_length be"
    and rhdr_echo:
      "int (length h) = header_length be
        \<Longrightarrow> rhdr \<lparr>sft_slave = uint (last h), sft_function = f, sft_t_id = fst (prepare_response_tid be (h @ rq) n)\<rparr> = h"

lemma rtu_rhdr_echo: "length h = 1 \<Longrightarrow> [word_of_int (uint (last h))] = (h :: u8 list)"
  by (cases h) simp_all

definition rtu_rhdr :: "sft \<Rightarrow> u8 list" where
  "rtu_rhdr sft = [word_of_int (sft_slave sft)]"

interpretation rtus: modbus_responding modbus_rtu_backend rtu_hdr rtu_addressed rtu_frame rtu_rhdr
proof unfold_locales
  show "int (length (rtu_rhdr sft)) = header_length modbus_rtu_backend" for sft
    by (simp add: modbus_rtu_backend_def rtu_rhdr_def)
  show "build_response_basis modbus_rtu_backend sft buf = Some (header_length modbus_rtu_backend + 1,
      rtu_rhdr sft @ [word_of_int (sft_function sft)] @ drop (nat (header_length modbus_rtu_backend) + 1) buf)"
    if "header_length modbus_rtu_backend + 1 \<le> int (length buf)" for sft buf
    using that by (simp add: modbus_rtu_backend_def modbus_rtu_build_response_basis_def wrs_def rtu_rhdr_def
        numeral_2_eq_2)
  show "snd (prepare_response_tid modbus_rtu_backend rq n) = n - checksum_length modbus_rtu_backend" for rq n
    by (simp add: modbus_rtu_backend_def modbus_rtu_prepare_response_tid_def)
  show "rtu_rhdr \<lparr>sft_slave = uint (last h), sft_function = f,
      sft_t_id = fst (prepare_response_tid modbus_rtu_backend (h @ rq) n)\<rparr> = h"
    if "int (length h) = header_length modbus_rtu_backend" for h f rq n
    using that rtu_rhdr_echo [of h] by (simp add: modbus_rtu_backend_def rtu_rhdr_def)
qed

context modbus_responding
begin

text \<open>The response under construction holds the header and the reply.\<close>

definition built_reply :: "u8 list \<Rightarrow> u8 list \<Rightarrow> mb \<Rightarrow> served \<Rightarrow> (int \<times> u8 list \<times> modbus_mapping \<times> mb)" where
  "built_reply h rsp st r = (header_length be + int (length (fst r)),
     h @ fst r @ drop (length h + length (fst r)) rsp, snd r, st)"

text \<open>What the dispatch knows about the secondary header of a request.\<close>

definition answers :: "sft \<Rightarrow> u8 list \<Rightarrow> u8 \<Rightarrow> bool" where
  "answers sft h fc \<longleftrightarrow> int (length h) = header_length be \<and> sft_function sft = uint fc \<and>
     (\<forall>f. rhdr (sft\<lparr>sft_function := f\<rparr>) = h)"

lemma header_bound: "header_length be + 253 \<le> 260"
  using header_fits max_adu_fits checksum_nonneg by linarith

lemma basis:
  assumes "answers sft h fc" "length rsp = 260"
  shows "build_response_basis be sft rsp
      = Some (int (length (h @ [fc])), (h @ [fc]) @ drop (length (h @ [fc])) rsp)"
    and "build_response_basis be (sft\<lparr>sft_function := sft_function sft + 0x80\<rparr>) rsp
      = Some (int (length (h @ [fc + 0x80])), (h @ [fc + 0x80]) @ drop (length (h @ [fc + 0x80])) rsp)"
proof -
  have h: "nat (header_length be) = length h" "header_length be = int (length h)"
    "sft_function sft = uint fc" "\<And>f. rhdr (sft\<lparr>sft_function := f\<rparr>) = h"
    using assms(1) by (auto simp: answers_def)
  have room: "header_length be + 1 \<le> int (length rsp)" using header_bound assms(2) by simp
  have "sft\<lparr>sft_function := sft_function sft\<rparr> = sft" by simp
  with h(4) have "rhdr sft = h" by metis
  with build_response [OF room, of sft] h show "build_response_basis be sft rsp
      = Some (int (length (h @ [fc])), (h @ [fc]) @ drop (length (h @ [fc])) rsp)"
    by (simp add: add.commute)
  have "word_of_int (uint fc + 0x80) = fc + 0x80" by (simp add: wi_hom_add [symmetric])
  with build_response [OF room, of "sft\<lparr>sft_function := sft_function sft + 0x80\<rparr>"] h
  show "build_response_basis be (sft\<lparr>sft_function := sft_function sft + 0x80\<rparr>) rsp
      = Some (int (length (h @ [fc + 0x80])), (h @ [fc + 0x80]) @ drop (length (h @ [fc + 0x80])) rsp)"
    by (simp add: add.commute)
qed

lemma response_exception_spec:
  assumes "answers sft h fc" "length rsp = 260"
  shows "response_exception be st sft code rsp m fl = Some (built_reply h rsp st (refuse fc code m))"
proof -
  let ?pre = "h @ [fc + 0x80]"
  have h: "header_length be = int (length h)" using assms(1) by (simp add: answers_def)
  then have "length h < 200" using header_bound by simp
  then have "wr (?pre @ drop (length ?pre) rsp) (int (length ?pre)) (word_of_int code)
      = Some ((?pre @ [word_of_int code]) @ drop (length (?pre @ [word_of_int code])) rsp)"
    using assms(2) by (intro wr_after_prefix) simp
  then show ?thesis
    using basis(2) [OF assms] h
    by (simp add: response_exception_def modbus_flush_def flush built_reply_def refuse_def Let_def)
qed

text \<open>Reading the request.\<close>

lemma rd_rq:
  "answers sft h fc \<Longrightarrow> k < length q \<Longrightarrow> rd (h @ q) (header_length be + int k) = Some (q ! k)"
  by (rule rd_pdu) (auto simp: answers_def)

lemma rd16_rq:
  assumes "answers sft h fc" "k + 1 < length q"
  shows "rd16 (h @ q) (header_length be + int k) = Some (be16 (q ! k) (q ! (k + 1)))"
proof -
  have "header_length be + int k + 1 = header_length be + int (k + 1)" by simp
  with rd_rq [OF assms(1), of k q] rd_rq [OF assms(1), of "k + 1" q] assms(2) show ?thesis
    by (simp only: rd16_def Option.bind.simps add_lessD1)
qed

lemmas rq_reads =
  rd16_rq [where k = 3, simplified] rd16_rq [where k = 5, simplified] rd16_rq [where k = 7, simplified]
  rd_rq [where k = 5, simplified] rd_rq [where k = 9, simplified]

lemma refused:
  assumes "answers sft h fc" "length rsp = 260"
  shows "response_exception be st sft MODBUS_EXCEPTION_ILLEGAL_DATA_VALUE rsp m True
      = Some (built_reply h rsp st (refuse fc MODBUS_EXCEPTION_ILLEGAL_DATA_VALUE m))"
    and "response_exception be st sft MODBUS_EXCEPTION_ILLEGAL_DATA_ADDRESS rsp m False
      = Some (built_reply h rsp st (refuse fc MODBUS_EXCEPTION_ILLEGAL_DATA_ADDRESS m))"
  by (rule response_exception_spec [OF assms])+

text \<open>A reply that carries \<open>n\<close> data bytes behind their count.\<close>

lemma count_byte:
  assumes "answers sft h fc" "length rsp = 260"
  shows "wr ((h @ [fc]) @ drop (length (h @ [fc])) rsp) (int (length (h @ [fc]))) b
      = Some ((h @ [fc, b]) @ drop (length (h @ [fc, b])) rsp)"
    and "length h \<le> 7" "header_length be = int (length h)"
proof -
  show h: "header_length be = int (length h)" using assms(1) by (simp add: answers_def)
  then show len: "length h \<le> 7" using header_bound by simp
  show "wr ((h @ [fc]) @ drop (length (h @ [fc])) rsp) (int (length (h @ [fc]))) b
      = Some ((h @ [fc, b]) @ drop (length (h @ [fc, b])) rsp)"
    using wr_after_prefix [of "h @ [fc]" rsp b] len assms(2) by simp
qed

lemma bits_reply:
  assumes "answers sft h fc" "length rsp = 260" "set tab \<subseteq> {0, 1}"
    and "0 \<le> i" "0 \<le> nb" "nb \<le> 2000" "i + nb \<le> int (length tab)"
  shows "response_io_status tab i (nat nb) 0 0 ((h @ [fc, b]) @ drop (length (h @ [fc, b])) rsp)
      (int (length (h @ [fc])) + 1)
    = Some (fst (built_reply h rsp st (fc # b # bytes_of_bits (nat ((nb + 7) div 8)) (segment i nb tab), m)),
        fst (snd (built_reply h rsp st (fc # b # bytes_of_bits (nat ((nb + 7) div 8)) (segment i nb tab), m))))"
proof -
  obtain k n where k: "i = int k" "nb = int n" using assms(4,5) by (meson nonneg_eq_int)
  let ?m = "(n + 7) div 8"
  have m: "nat ((nb + 7) div 8) = ?m" by (simp add: k nat_div_distrib)
  have "?m \<le> 250" using assms(6) k by simp
  moreover have "\<forall>v\<in>set tab. v = 0 \<or> v = 1" using assms(3) by auto
  ultimately show ?thesis
    using response_io_spec [of k n tab "[]" 0 ?m "h @ [fc, b]" rsp] assms(2,7) k m
      count_byte(2,3) [OF assms(1,2)]
    by (simp add: built_reply_def segment_def add_ac)
qed

lemma regs_reply:
  assumes "answers sft h fc" "length rsp = 260"
    and "0 \<le> i" "0 \<le> nb" "nb \<le> 125" "i + nb \<le> int (length tab)"
  shows "store_regs tab i (nat nb) ((h @ [fc, b]) @ drop (length (h @ [fc, b])) rsp)
      (int (length (h @ [fc])) + 1)
    = Some (fst (built_reply h rsp st (fc # b # regs_bytes (segment i nb tab), m)),
        fst (snd (built_reply h rsp st (fc # b # regs_bytes (segment i nb tab), m))))"
proof -
  obtain k n where k: "i = int k" "nb = int n" using assms(3,4) by (meson nonneg_eq_int)
  show ?thesis
    using store_regs_spec [of k n tab "h @ [fc, b]" rsp] assms k count_byte(2,3) [OF assms(1,2)]
    by (simp add: built_reply_def segment_def add_ac)
qed

lemma built_reply_split: "built_reply h rsp st (rp, m)
    = (fst (built_reply h rsp st (rp, m)), fst (snd (built_reply h rsp st (rp, m))), m, st)"
  by (simp add: built_reply_def)

lemma reply_read_bits_spec:
  assumes "answers sft h fc" "length rsp = 260" "mapping_ok m" "uint fc \<in> {1, 2}"
  shows "reply_read_bits be st sft (h @ [fc, ah, al, nh, nl] @ tail) (be16 ah al) rsp m
    = Some (built_reply h rsp st (serve version m [fc, ah, al, nh, nl]))"
proof -
  define start where "start = (if uint fc = 2 then start_input_bits m else start_bits m)"
  define tab where "tab = (if uint fc = 2 then tab_input_bits m else tab_bits m)"
  let ?nb = "be16 nh nl" and ?i = "be16 ah al - start"
  have tab: "set tab \<subseteq> {0, 1}"
    "(if uint fc = 2 then nb_input_bits m else nb_bits m) = int (length tab)"
    using assms(3) by (auto simp: mapping_ok_def tab_def)
  have fn: "sft_function sft = uint fc" using assms(1) by (simp add: answers_def)
  have rd: "rd16 (h @ [fc, ah, al, nh, nl] @ tail) (header_length be + 3) = Some ?nb"
    using rq_reads(1) [OF assms(1), of "[fc, ah, al, nh, nl] @ tail"] by simp
  have serve: "serve version m [fc, ah, al, nh, nl] = serve_read_bits fc start tab (be16 ah al) ?nb m"
    using assms(4) by (auto simp: serve_def start_def tab_def)
  note body = reply_read_bits_def fn start_def [symmetric] tab_def [symmetric] tab(2) rd Let_def
    Option.bind.simps prod.case refused [OF assms(1,2)] basis(1) [OF assms(1,2)] count_byte(1) [OF assms(1,2)]
    bits_bytes
  show ?thesis
  proof (cases "1 \<le> ?nb \<and> ?nb \<le> 2000 \<and> in_table start tab (be16 ah al) ?nb")
    case True
    then have b: "0 \<le> ?i" "0 \<le> ?nb" "?nb \<le> 2000" "?i + ?nb \<le> int (length tab)"
      and g: "(?nb < 1 \<or> 2000 < ?nb) = False" "(?i < 0 \<or> int (length tab) < ?i + ?nb) = False"
      by (auto simp: in_table_def)
    show ?thesis
      using True unfolding body g if_False bits_reply [OF assms(1,2) tab(1) b, of _ st m] serve
        serve_read_bits_def guarded_def
      by (simp add: built_reply_split [symmetric])
  next
    case False
    then show ?thesis
      unfolding body serve serve_read_bits_def guarded_def in_table_def by auto
  qed
qed

lemma reply_read_registers_spec:
  assumes "answers sft h fc" "length rsp = 260" "mapping_ok m" "uint fc \<in> {3, 4}"
  shows "reply_read_registers be st sft (h @ [fc, ah, al, nh, nl] @ tail) (be16 ah al) rsp m
    = Some (built_reply h rsp st (serve version m [fc, ah, al, nh, nl]))"
proof -
  define start where "start = (if uint fc = 4 then start_input_registers m else start_registers m)"
  define tab where "tab = (if uint fc = 4 then tab_input_registers m else tab_registers m)"
  let ?nb = "be16 nh nl" and ?i = "be16 ah al - start"
  have tab: "(if uint fc = 4 then nb_input_registers m else nb_registers m) = int (length tab)"
    using assms(3) by (auto simp: mapping_ok_def tab_def)
  have fn: "sft_function sft = uint fc" using assms(1) by (simp add: answers_def)
  have rd: "rd16 (h @ [fc, ah, al, nh, nl] @ tail) (header_length be + 3) = Some ?nb"
    using rq_reads(1) [OF assms(1), of "[fc, ah, al, nh, nl] @ tail"] by simp
  have serve: "serve version m [fc, ah, al, nh, nl] = serve_read_registers fc start tab (be16 ah al) ?nb m"
    using assms(4) by (auto simp: serve_def start_def tab_def)
  have shift: "push_bit 1 x = 2 * x" for x :: int by (simp add: push_bit_eq_mult)
  note body = reply_read_registers_def fn start_def [symmetric] tab_def [symmetric] tab rd Let_def
    Option.bind.simps prod.case refused [OF assms(1,2)] basis(1) [OF assms(1,2)] count_byte(1) [OF assms(1,2)]
    shift
  show ?thesis
  proof (cases "1 \<le> ?nb \<and> ?nb \<le> 125 \<and> in_table start tab (be16 ah al) ?nb")
    case True
    then have b: "0 \<le> ?i" "0 \<le> ?nb" "?nb \<le> 125" "?i + ?nb \<le> int (length tab)"
      and g: "(?nb < 1 \<or> 125 < ?nb) = False" "(?i < 0 \<or> int (length tab) < ?i + ?nb) = False"
      by (auto simp: in_table_def)
    show ?thesis
      using True unfolding body g if_False regs_reply [OF assms(1,2) b, of _ st m] serve
        serve_read_registers_def guarded_def
      by (simp add: built_reply_split [symmetric])
  next
    case False
    then show ?thesis
      unfolding body serve serve_read_registers_def guarded_def in_table_def by auto
  qed
qed

text \<open>The requests that are echoed whole.\<close>

lemma echo_request:
  assumes "answers sft h fc" "length rsp = 260" "length rq \<le> 253"
  shows "rds (h @ rq @ tail) 0 (header_length be + int (length rq)) = Some (h @ rq)"
    and "wrs rsp 0 (h @ rq) = Some (h @ rq @ drop (length h + length rq) rsp)"
  using count_byte(2,3) [OF assms(1,2)] assms(2,3) by (simp_all add: rds_def wrs_def nat_add_distrib)

lemma reply_write_single_coil_spec:
  assumes "answers sft h fc" "length rsp = 260" "mapping_ok m" "uint fc = 5" and rq: "rq = [fc, ah, al, vh, vl]"
  shows "reply_write_single_coil be st sft (h @ rq @ tail) (header_length be + int (length rq)) (be16 ah al) rsp m
    = Some (built_reply h rsp st (serve version m rq))"
proof -
  let ?v = "be16 vh vl" and ?i = "be16 ah al - start_bits m"
  have fn: "sft_function sft = uint fc" using assms(1) by (simp add: answers_def)
  have nb: "nb_bits m = int (length (tab_bits m))" using assms(3) by (simp add: mapping_ok_def)
  have rd: "rd16 (h @ rq @ tail) (header_length be + 3) = Some ?v"
    using rq_reads(1) [OF assms(1), of "rq @ tail"] by (simp add: rq)
  have serve: "serve version m rq = serve_write_coil rq (be16 ah al) ?v m"
    using assms(4) by (simp add: serve_def rq)
  have rq_len: "length rq \<le> 253" by (simp add: rq)
  note body = reply_write_single_coil_def fn nb rd Let_def Option.bind.simps prod.case
    response_exception_spec [OF assms(1,2)] echo_request [OF assms(1,2) rq_len]
  show ?thesis
  proof (cases "in_table (start_bits m) (tab_bits m) (be16 ah al) 1")
    case True
    then have "0 \<le> ?i" "?i < int (length (tab_bits m))" "(?i < 0 \<or> int (length (tab_bits m)) \<le> ?i) = False"
      by (auto simp: in_table_def)
    with True show ?thesis
      unfolding body serve serve_write_coil_def
      by (simp add: wr_splice built_reply_def rq)
  next
    case False
    then show ?thesis unfolding body serve serve_write_coil_def in_table_def by (auto simp: rq)
  qed
qed

lemma reply_write_single_register_spec:
  assumes "answers sft h fc" "length rsp = 260" "mapping_ok m" "uint fc = 6" and rq: "rq = [fc, ah, al, vh, vl]"
  shows "reply_write_single_register be st sft (h @ rq @ tail) (header_length be + int (length rq)) (be16 ah al) rsp m
    = Some (built_reply h rsp st (serve version m rq))"
proof -
  let ?v = "be16 vh vl" and ?i = "be16 ah al - start_registers m"
  have fn: "sft_function sft = uint fc" using assms(1) by (simp add: answers_def)
  have nb: "nb_registers m = int (length (tab_registers m))" using assms(3) by (simp add: mapping_ok_def)
  have rd: "rd16 (h @ rq @ tail) (header_length be + 3) = Some ?v"
    using rq_reads(1) [OF assms(1), of "rq @ tail"] by (simp add: rq)
  have serve: "serve version m rq = serve_update_register rq (be16 ah al) (\<lambda>_. word_of_int ?v) m"
    using assms(4) by (simp add: serve_def rq)
  have rq_len: "length rq \<le> 253" by (simp add: rq)
  note body = reply_write_single_register_def fn nb rd Let_def Option.bind.simps prod.case
    response_exception_spec [OF assms(1,2)] echo_request [OF assms(1,2) rq_len]
  show ?thesis
  proof (cases "in_table (start_registers m) (tab_registers m) (be16 ah al) 1")
    case True
    then have "0 \<le> ?i" "?i < int (length (tab_registers m))" "(?i < 0 \<or> int (length (tab_registers m)) \<le> ?i) = False"
      by (auto simp: in_table_def)
    with True show ?thesis
      unfolding body serve serve_update_register_def
      by (simp add: wr_splice built_reply_def rq)
  next
    case False
    then show ?thesis unfolding body serve serve_update_register_def in_table_def by (auto simp: rq)
  qed
qed

lemma reply_mask_write_register_spec:
  assumes "answers sft h fc" "length rsp = 260" "mapping_ok m" "uint fc = 22"
    and rq: "rq = [fc, ah, al, mh, ml, oh, ol]"
  shows "reply_mask_write_register be st sft (h @ rq @ tail) (header_length be + int (length rq)) (be16 ah al) rsp m
    = Some (built_reply h rsp st (serve version m rq))"
proof -
  let ?i = "be16 ah al - start_registers m"
  have fn: "sft_function sft = uint fc" using assms(1) by (simp add: answers_def)
  have nb: "nb_registers m = int (length (tab_registers m))" using assms(3) by (simp add: mapping_ok_def)
  have rd: "rd16 (h @ rq @ tail) (header_length be + 3) = Some (be16 mh ml)"
    "rd16 (h @ rq @ tail) (header_length be + 5) = Some (be16 oh ol)"
    using rq_reads(1,2) [OF assms(1), of "rq @ tail"] by (simp_all add: rq)
  have serve: "serve version m rq = serve_update_register rq (be16 ah al)
      (\<lambda>r. (r AND word_of_int (be16 mh ml)) OR (word_of_int (be16 oh ol) AND NOT (word_of_int (be16 mh ml)))) m"
    using assms(4) by (simp add: serve_def rq Let_def)
  have rq_len: "length rq \<le> 253" by (simp add: rq)
  note body = reply_mask_write_register_def fn nb rd Let_def Option.bind.simps prod.case
    response_exception_spec [OF assms(1,2)] echo_request [OF assms(1,2) rq_len]
  show ?thesis
  proof (cases "in_table (start_registers m) (tab_registers m) (be16 ah al) 1")
    case True
    then have "0 \<le> ?i" "?i < int (length (tab_registers m))" "(?i < 0 \<or> int (length (tab_registers m)) \<le> ?i) = False"
      by (auto simp: in_table_def)
    with True show ?thesis
      unfolding body serve serve_update_register_def
      by (simp add: wr_splice built_reply_def rq rd_in)
  next
    case False
    then show ?thesis unfolding body serve serve_update_register_def in_table_def by (auto simp: rq)
  qed
qed

text \<open>The writes of several values echo the address and the quantity.\<close>

lemma echo_quantity_spec:
  assumes "answers sft h fc" "length rsp = 260" "rq = [fc, ah, al, nh, nl] @ rest"
  shows "echo_quantity be st sft (h @ rq @ tail) rsp m = Some (built_reply h rsp st (take 5 rq, m))"
proof -
  note b = count_byte(2,3) [OF assms(1,2)]
  have "rds (h @ rq @ tail) (int (length (h @ [fc]))) 4 = Some [ah, al, nh, nl]"
    by (simp add: rds_def assms(3) nat_add_distrib)
  moreover have "wrs ((h @ [fc]) @ drop (length (h @ [fc])) rsp) (int (length (h @ [fc]))) [ah, al, nh, nl]
      = Some (((h @ [fc]) @ [ah, al, nh, nl]) @ drop (length ((h @ [fc]) @ [ah, al, nh, nl])) rsp)"
    using b assms(2) by (intro wrs_behind_prefix) simp
  ultimately show ?thesis
    using b by (simp add: echo_quantity_def basis(1) [OF assms(1,2), simplified] built_reply_def assms(3)
        numeral_eq_Suc)
qed

lemma bits_of_bytes_append: "bits_of_bytes (xs @ ys) = bits_of_bytes xs @ bits_of_bytes ys"
  by (simp add: bits_of_bytes_def)

lemma data_after: "answers sft h fc \<Longrightarrow> length pre = k
    \<Longrightarrow> drop (nat (header_length be + int k)) (h @ (pre @ data) @ tail) = data @ tail"
  by (auto simp: answers_def nat_add_distrib simp flip: nat_int)

lemma reply_write_multiple_coils_spec:
  assumes "answers sft h fc" "length rsp = 260" "mapping_ok m" "uint fc = 15"
    and rq: "rq = [fc, ah, al, nh, nl, count] @ data" and "length data = unat count"
  shows "reply_write_multiple_coils be st sft (h @ rq @ tail) (be16 ah al) rsp m
    = Some (built_reply h rsp st (serve version m rq))"
proof -
  let ?nb = "be16 nh nl" and ?i = "be16 ah al - start_bits m"
  have nb: "nb_bits m = int (length (tab_bits m))" "length (tab_bits m) < 2 ^ 31"
    using assms(3) by (simp_all add: mapping_ok_def)
  have rd: "rd16 (h @ rq @ tail) (header_length be + 3) = Some ?nb"
    "rd (h @ rq @ tail) (header_length be + 5) = Some count"
    using rq_reads(1,4) [OF assms(1), of "rq @ tail"] by (simp_all add: rq)
  have data: "drop (nat (header_length be + 6)) (h @ rq @ tail) = data @ tail"
    using data_after [OF assms(1), of "[fc, ah, al, nh, nl, count]" 6 data tail] by (simp add: rq)
  have serve: "serve version m rq = serve_write_coils rq (be16 ah al) ?nb count data m"
    using assms(4) by (simp add: serve_def rq)
  have echo: "echo_quantity be st sft (h @ rq @ tail) rsp x = Some (built_reply h rsp st (take 5 rq, x))" for x
    by (rule echo_quantity_spec [OF assms(1,2)]) (simp add: rq)
  note body = reply_write_multiple_coils_def nb(1) rd Let_def Option.bind.simps
    refused [OF assms(1,2)] data echo
  show ?thesis
  proof (cases "1 \<le> ?nb \<and> ?nb \<le> 1968 \<and> ?nb \<le> 8 * uint count \<and> in_table (start_bits m) (tab_bits m) (be16 ah al) ?nb")
    case True
    then have b: "0 \<le> ?i" "?i + ?nb \<le> int (length (tab_bits m))"
      and g: "(?nb < 1 \<or> 1968 < ?nb \<or> uint count * 8 < ?nb) = False"
        "(?i < 0 \<or> int (length (tab_bits m)) < ?i + ?nb) = False"
      by (auto simp: in_table_def)
    obtain a n where n: "?i = int a" "?nb = int n" using b(1) by (meson nonneg_eq_int be16_nonneg)
    have "int (length data) = uint count" by (simp add: assms(6))
    moreover have "int n \<le> 8 * uint count" using True n by simp
    ultimately have enough: "n \<le> 8 * length data" by linarith
    then have "take n (bits_of_bytes (data @ tail)) = take n (bits_of_bytes data)"
      by (simp add: bits_of_bytes_append)
    moreover have "length (take n (bits_of_bytes data)) = n" using enough by simp
    ultimately have "modbus_set_bits_from_bytes (tab_bits m) ?i (word_of_int ?nb) (data @ tail)
        = Some (splice ?i (take (nat ?nb) (bits_of_bytes data)) (tab_bits m))"
      using set_bits_spec [of a n "tab_bits m" "data @ tail"] b n nb(2) enough
      by (simp add: splice_def)
    then show ?thesis
      using True unfolding body g if_False serve serve_write_coils_def guarded_def by simp
  next
    case False
    then show ?thesis unfolding body serve serve_write_coils_def guarded_def in_table_def by (auto simp: rq)
  qed
qed

lemma load_data:
  assumes "answers sft h fc" "length data = nat (2 * nb)" "length pre = k"
    and "0 \<le> i" "0 \<le> nb" "i + nb \<le> int (length tab)"
  shows "load_regs (h @ (pre @ data) @ tail) (header_length be + int k) (nat nb) i tab
      = Some (splice i (bytes_regs data) tab)"
    and "length (bytes_regs data) = nat nb"
proof -
  obtain a n where n: "i = int a" "nb = int n" using assms(4,5) by (meson nonneg_eq_int)
  have pos: "header_length be + int k = int (length (h @ pre))"
    using assms(1,3) by (simp add: answers_def)
  have "length data = 2 * n" using assms(2) n by simp
  with load_regs_spec [of data n a tab "h @ pre" tail] assms(6) n pos
  show "load_regs (h @ (pre @ data) @ tail) (header_length be + int k) (nat nb) i tab
      = Some (splice i (bytes_regs data) tab)" "length (bytes_regs data) = nat nb"
    by (simp_all add: splice_def)
qed

lemma reply_write_multiple_registers_spec:
  assumes "answers sft h fc" "length rsp = 260" "mapping_ok m" "uint fc = 16"
    and rq: "rq = [fc, ah, al, nh, nl, count] @ data" and "length data = unat count"
  shows "reply_write_multiple_registers be st sft (h @ rq @ tail) (be16 ah al) rsp m
    = Some (built_reply h rsp st (serve version m rq))"
proof -
  let ?nb = "be16 nh nl" and ?i = "be16 ah al - start_registers m"
  have nb: "nb_registers m = int (length (tab_registers m))" using assms(3) by (simp add: mapping_ok_def)
  have rd: "rd16 (h @ rq @ tail) (header_length be + 3) = Some ?nb"
    "rd (h @ rq @ tail) (header_length be + 5) = Some count"
    using rq_reads(1,4) [OF assms(1), of "rq @ tail"] by (simp_all add: rq)
  have serve: "serve version m rq = serve_write_registers rq (be16 ah al) ?nb count data m"
    using assms(4) by (simp add: serve_def rq)
  have echo: "echo_quantity be st sft (h @ rq @ tail) rsp x = Some (built_reply h rsp st (take 5 rq, x))" for x
    by (rule echo_quantity_spec [OF assms(1,2)]) (simp add: rq)
  note body = reply_write_multiple_registers_def nb(1) rd Let_def Option.bind.simps
    refused [OF assms(1,2)] echo
  show ?thesis
  proof (cases "1 \<le> ?nb \<and> ?nb \<le> 123 \<and> uint count = 2 * ?nb
      \<and> in_table (start_registers m) (tab_registers m) (be16 ah al) ?nb")
    case True
    then have b: "0 \<le> ?i" "?i + ?nb \<le> int (length (tab_registers m))"
      and g: "(?nb < 1 \<or> 123 < ?nb \<or> uint count \<noteq> ?nb * 2) = False"
        "(?i < 0 \<or> int (length (tab_registers m)) < ?i + ?nb) = False"
      by (auto simp: in_table_def)
    have "length data = nat (2 * ?nb)" using True assms(6) by (simp add: unat_eq_nat_uint)
    from load_data(1) [OF assms(1) this, of "[fc, ah, al, nh, nl, count]" 6 ?i "tab_registers m" tail] b
    have "load_regs (h @ rq @ tail) (header_length be + 6) (nat ?nb) ?i (tab_registers m)
        = Some (splice ?i (bytes_regs data) (tab_registers m))"
      by (simp add: rq)
    then show ?thesis
      using True unfolding body g if_False serve serve_write_registers_def guarded_def by simp
  next
    case False
    then show ?thesis unfolding body serve serve_write_registers_def guarded_def in_table_def by (auto simp: rq)
  qed
qed

text \<open>A write address below the table passes the guard: the code then stores before the table.  The
  hypothesis on the write address is the test the guard lacks.\<close>

lemma reply_write_and_read_spec:
  assumes "answers sft h fc" "length rsp = 260" "mapping_ok m" "uint fc = 23"
    and rq: "rq = [fc, ah, al, nh, nl, wh, wl, ch, cl, count] @ data" and "length data = unat count"
    and below: "start_registers m \<le> be16 wh wl"
  shows "reply_write_and_read_registers be st sft (h @ rq @ tail) (be16 ah al) rsp m
    = Some (built_reply h rsp st (serve version m rq))"
proof -
  let ?nb = "be16 nh nl" and ?i = "be16 ah al - start_registers m"
  let ?wn = "be16 ch cl" and ?w = "be16 wh wl - start_registers m" and ?tab = "tab_registers m"
  have nb: "nb_registers m = int (length ?tab)" using assms(3) by (simp add: mapping_ok_def)
  have rd: "rd16 (h @ rq @ tail) (header_length be + 3) = Some ?nb"
    "rd16 (h @ rq @ tail) (header_length be + 5) = Some (be16 wh wl)"
    "rd16 (h @ rq @ tail) (header_length be + 7) = Some ?wn"
    "rd (h @ rq @ tail) (header_length be + 9) = Some count"
    using rq_reads(1-3,5) [OF assms(1), of "rq @ tail"] by (simp_all add: rq)
  have serve: "serve version m rq = serve_write_and_read fc (be16 ah al) ?nb (be16 wh wl) ?wn count data m"
    using assms(4) by (simp add: serve_def rq)
  have shift: "push_bit 1 x = 2 * x" for x :: int by (simp add: push_bit_eq_mult)
  note body = reply_write_and_read_registers_def nb(1) rd Let_def Option.bind.simps prod.case
    refused [OF assms(1,2)] basis(1) [OF assms(1,2)] count_byte(1) [OF assms(1,2)] shift
  show ?thesis
  proof (cases "1 \<le> ?wn \<and> ?wn \<le> 121 \<and> 1 \<le> ?nb \<and> ?nb \<le> 125 \<and> uint count = 2 * ?wn
      \<and> in_table (start_registers m) ?tab (be16 ah al) ?nb \<and> in_table (start_registers m) ?tab (be16 wh wl) ?wn")
    case True
    then have b: "0 \<le> ?i" "0 \<le> ?nb" "?nb \<le> 125" "?i + ?nb \<le> int (length ?tab)"
      and w: "0 \<le> ?w" "0 \<le> ?wn" "?w + ?wn \<le> int (length ?tab)"
      and g: "(?wn < 1 \<or> 121 < ?wn \<or> ?nb < 1 \<or> 125 < ?nb \<or> uint count \<noteq> ?wn * 2) = False"
        "(?i < 0 \<or> int (length ?tab) < ?i + ?nb \<or> ?i < 0 \<or> int (length ?tab) < ?w + ?wn) = False"
      by (auto simp: in_table_def)
    let ?new = "splice ?w (bytes_regs data) ?tab"
    have data: "length data = nat (2 * ?wn)" using True assms(6) by (simp add: unat_eq_nat_uint)
    have load: "load_regs (h @ rq @ tail) (header_length be + 10) (nat ?wn) ?w ?tab = Some ?new"
      using load_data(1) [OF assms(1) data, of "[fc, ah, al, nh, nl, wh, wl, ch, cl, count]" 10 ?w ?tab tail] w
      by (simp add: rq)
    have "length (bytes_regs data) = nat ?wn"
      using load_data(2) [OF assms(1) data, of "[fc, ah, al, nh, nl, wh, wl, ch, cl, count]" 10 ?w ?tab] w by simp
    then have "length ?new = length ?tab" using w by (intro length_splice) simp_all
    with b have b': "?i + ?nb \<le> int (length ?new)" by simp
    show ?thesis
      using True unfolding body g if_False load regs_reply [OF assms(1,2) b(1-3) b', of _ st "m\<lparr>tab_registers := ?new\<rparr>"]
        serve serve_write_and_read_def guarded_def
      by (simp add: built_reply_split [symmetric])
  next
    case False
    then show ?thesis
      using below unfolding body serve serve_write_and_read_def guarded_def in_table_def by auto
  qed
qed

lemma wr_at: "wr (xs @ y # ys) (int (length xs)) c = Some (xs @ c # ys)"
  by (simp add: wr_def)

lemma reply_report_slave_id_spec:
  assumes "answers sft h fc" "length rsp = 260" "uint fc = 17" "length version \<le> 240"
  shows "reply_report_slave_id be version st sft rsp m = Some (built_reply h rsp st (serve version m (fc # data)))"
proof -
  let ?data = "[180, 0xFF] @ [0x4C, 0x4D, 0x42] @ version" and ?old = "rsp ! (length h + 1)"
  note b = count_byte(2,3) [OF assms(1,2)]
  have split: "drop (length (h @ [fc])) rsp = ?old # drop (length (h @ [fc, ?old])) rsp"
    using b assms(2) by (simp add: Cons_nth_drop_Suc)
  have store: "wrs ((h @ [fc]) @ drop (length (h @ [fc])) rsp) (int (length (h @ [fc])) + 1) ?data
      = Some ((h @ [fc, ?old] @ ?data) @ drop (length (h @ [fc, ?old] @ ?data)) rsp)"
    using wrs_behind_prefix [of "h @ [fc, ?old]" ?data rsp] b assms(2,4) unfolding split
    by (simp add: add.commute)
  have count: "wr ((h @ [fc, ?old] @ ?data) @ rest) (int (length (h @ [fc]))) c
      = Some ((h @ [fc, c] @ ?data) @ rest)" for c rest
    using wr_at [of "h @ [fc]" ?old "?data @ rest" c] by simp
  show ?thesis
    unfolding reply_report_slave_id_def basis(1) [OF assms(1,2)] Option.bind.simps prod.case store Let_def count
    using b assms(3) by (simp add: built_reply_def serve_def add_ac)
qed

text \<open>The dispatch.\<close>

lemma dispatch_serves:
  assumes ans: "answers sft h (rq ! 0)" and rsp: "length rsp = 260" and m: "mapping_ok m"
    and sized: "request_sized rq" and version: "length version \<le> 240" and w: "write_address_checked m rq"
    and addr: "3 \<le> length rq \<longrightarrow> addr = be16 (rq ! 1) (rq ! 2)"
  shows "reply_dispatch be version st sft (h @ rq @ tail) (header_length be + int (length rq)) addr rsp m
    = Some (built_reply h rsp st (serve version m rq))"
proof -
  let ?f = "uint (rq ! 0)"
  have ne: "rq \<noteq> []" using sized by (simp add: request_sized_def)
  note specs = reply_dispatch_def Let_def
  consider "?f \<in> {1, 2}" | "?f \<in> {3, 4}" | "?f = 5" | "?f = 6" | "?f = 15" | "?f = 16" | "?f = 17" | "?f = 22"
    | "?f = 23" | "?f \<notin> {1, 2, 3, 4, 5, 6, 15, 16, 17, 22, 23}" by auto
  then show ?thesis
  proof cases
    case 1
    then obtain fc ah al nh nl where rq: "rq = [fc, ah, al, nh, nl]"
      using request_shapes(1) [OF sized] by auto
    with ans 1 have "answers sft h fc" "uint fc \<in> {1, 2}" "sft_function sft = uint fc"
      by (auto simp: answers_def)
    with reply_read_bits_spec [OF this(1) rsp m this(2), of st ah al nh nl tail version] show ?thesis
      using addr unfolding specs rq by auto
  next
    case 2
    then obtain fc ah al nh nl where rq: "rq = [fc, ah, al, nh, nl]"
      using request_shapes(1) [OF sized] by auto
    with ans 2 have "answers sft h fc" "uint fc \<in> {3, 4}" "sft_function sft = uint fc"
      by (auto simp: answers_def)
    with reply_read_registers_spec [OF this(1) rsp m this(2), of st ah al nh nl tail version] show ?thesis
      using addr unfolding specs rq by auto
  next
    case 3
    then obtain fc ah al nh nl where rq: "rq = [fc, ah, al, nh, nl]"
      using request_shapes(1) [OF sized] by auto
    with ans 3 have "answers sft h fc" "uint fc = 5" "sft_function sft = uint fc"
      by (auto simp: answers_def)
    with reply_write_single_coil_spec [OF this(1) rsp m this(2) rq, of st tail version] show ?thesis
      using addr unfolding specs rq by simp
  next
    case 4
    then obtain fc ah al nh nl where rq: "rq = [fc, ah, al, nh, nl]"
      using request_shapes(1) [OF sized] by auto
    with ans 4 have "answers sft h fc" "uint fc = 6" "sft_function sft = uint fc"
      by (auto simp: answers_def)
    with reply_write_single_register_spec [OF this(1) rsp m this(2) rq, of st tail version] show ?thesis
      using addr unfolding specs rq by simp
  next
    case 5
    then obtain fc ah al nh nl count data where
      rq: "rq = [fc, ah, al, nh, nl, count] @ data" "length data = unat count"
      using request_shapes(2) [OF sized] by auto
    with ans 5 have "answers sft h fc" "uint fc = 15" "sft_function sft = uint fc"
      by (auto simp: answers_def)
    with reply_write_multiple_coils_spec [OF this(1) rsp m this(2) rq, of st tail version] rq(1) show ?thesis
      using addr unfolding specs by simp
  next
    case 6
    then obtain fc ah al nh nl count data where
      rq: "rq = [fc, ah, al, nh, nl, count] @ data" "length data = unat count"
      using request_shapes(2) [OF sized] by auto
    with ans 6 have "answers sft h fc" "uint fc = 16" "sft_function sft = uint fc"
      by (auto simp: answers_def)
    with reply_write_multiple_registers_spec [OF this(1) rsp m this(2) rq, of st tail version] rq(1) show ?thesis
      using addr unfolding specs by simp
  next
    case 7
    obtain fc data where rq: "rq = fc # data" using ne by (cases rq) auto
    with ans 7 have "answers sft h fc" "uint fc = 17" "sft_function sft = uint fc"
      by (auto simp: answers_def)
    with reply_report_slave_id_spec [OF this(1) rsp this(2) version, of st m data] rq show ?thesis
      unfolding specs by simp
  next
    case 8
    then obtain fc ah al mh ml oh ol where rq: "rq = [fc, ah, al, mh, ml, oh, ol]"
      using request_shapes(3) [OF sized] by auto
    with ans 8 have "answers sft h fc" "uint fc = 22" "sft_function sft = uint fc"
      by (auto simp: answers_def)
    with reply_mask_write_register_spec [OF this(1) rsp m this(2) rq, of st tail version] show ?thesis
      using addr unfolding specs rq by simp
  next
    case 9
    then obtain fc ah al nh nl wh wl ch cl count data where
      rq: "rq = [fc, ah, al, nh, nl, wh, wl, ch, cl, count] @ data" "length data = unat count"
      using request_shapes(4) [OF sized] by auto
    with ans 9 w have "answers sft h fc" "uint fc = 23" "sft_function sft = uint fc"
      "start_registers m \<le> be16 wh wl"
      by (auto simp: answers_def write_address_checked_def)
    with reply_write_and_read_spec [OF this(1) rsp m this(2) rq this(4), of st tail version] rq(1) show ?thesis
      using addr unfolding specs by simp
  next
    case 10
    with ne ans show ?thesis unfolding specs
      by (simp add: response_exception_spec [OF ans rsp] serve_def hd_conv_nth Let_def answers_def)
  qed
qed

text \<open>The whole reply: the state of the library and the mapping when \<open>modbus_reply\<close> returns.\<close>

definition replied :: "u8 list \<Rightarrow> mb \<Rightarrow> u8 list \<Rightarrow> int \<times> mb" where
  "replied h st rp =
     (if backend_type be = BACKEND_TYPE_RTU \<and> uint (last h) = MODBUS_BROADCAST_ADDRESS
      then (0, st\<lparr>g_rsp := h @ rp @ drop (length h + length rp) (g_rsp st)\<rparr>)
      else let adu = frame (h @ rp) in
        (int (length adu), (log_sent adu st)\<lparr>g_rsp := adu @ drop (length adu) (g_rsp st)\<rparr>))"

lemma send_reply:
  assumes "length h + length rp + nat (checksum_length be) \<le> length rsp" "length h + length rp < 65536"
  shows "send_msg be st (h @ rp @ drop (length h + length rp) rsp) (int (length h) + int (length rp))
    = Some (int (length (frame (h @ rp))), frame (h @ rp) @ drop (length (frame (h @ rp))) rsp, log_sent (frame (h @ rp)) st)"
  using send_msg_sends [of "drop (length h + length rp) rsp" "h @ rp" st] assms
  by (simp add: frame_length add_ac)

lemma modbus_reply_serves:
  assumes ok: "mb_ok st" and m: "mapping_ok m" and h: "int (length h) = header_length be"
    and sized: "request_sized rq" and tail: "2 \<le> length tail" and version: "length version \<le> 240"
    and w: "write_address_checked m rq" and fc: "uint (rq ! 0) \<noteq> MODBUS_FC_READ_EXCEPTION_STATUS"
  shows "modbus_reply be version Ctx st (h @ rq @ tail) (header_length be + int (length rq) + checksum_length be) m
    = Some (let (rp, m') = serve version m rq; (rc, st') = replied h st rp in (rc, m', st'))"
proof -
  let ?req = "h @ rq @ tail" and ?n = "header_length be + int (length rq) + checksum_length be"
  obtain t where tid: "prepare_response_tid be ?req ?n = (t, header_length be + int (length rq))"
    using response_tid [of ?req ?n] by (cases "prepare_response_tid be ?req ?n") auto
  define sft where "sft = \<lparr>sft_slave = uint (last h), sft_function = uint (rq ! 0), sft_t_id = t\<rparr>"
  have "rhdr (sft\<lparr>sft_function := f\<rparr>) = h" for f
    using rhdr_echo [OF h, of f "rq @ tail" ?n] tid by (simp add: sft_def)
  then have ans: "answers sft h (rq ! 0)" by (simp add: answers_def h sft_def)
  have rq: "rq \<noteq> []" using sized by (simp add: request_sized_def)
  have "h \<noteq> []" using h header_pos by auto
  then have slave: "rd ?req (header_length be - 1) = Some (last h)"
    using h by (simp add: rd_def nth_append last_conv_nth nat_diff_distrib' flip: h)
  have f: "rd ?req (header_length be) = Some (rq ! 0)"
    using rd_rq [OF ans, of 0 "rq @ tail"] rq by (simp add: nth_append)
  have a: "rd16 ?req (header_length be + 1) = Some (be16 ((rq @ tail) ! 1) ((rq @ tail) ! 2))"
    using rd16_rq [OF ans, of 1 "rq @ tail"] rq tail by (cases rq) auto
  have "3 \<le> length rq \<longrightarrow> be16 ((rq @ tail) ! 1) ((rq @ tail) ! 2) = be16 (rq ! 1) (rq ! 2)"
    by (simp add: nth_append)
  moreover have rsp260: "length (g_rsp st) = 260" using ok by (simp add: mb_ok_def)
  ultimately have dispatch: "reply_dispatch be version st sft ?req (header_length be + int (length rq))
      (be16 ((rq @ tail) ! 1) ((rq @ tail) ! 2)) (g_rsp st) m
    = Some (built_reply h (g_rsp st) st (serve version m rq))"
    by (intro dispatch_serves [OF ans _ m sized version w])
  obtain rp m' where served: "serve version m rq = (rp, m')" by (cases "serve version m rq")
  have "length rp \<le> 253" using serve_length [OF sized version, of m] served by simp
  then have fits: "length h + length rp + nat (checksum_length be) \<le> length (g_rsp st)" "length h + length rp < 65536"
    using header_fits max_adu_fits(2) h nat_checksum checksum_nonneg rsp260 by linarith+
  have step: "modbus_reply be version Ctx st ?req ?n m
    = (if backend_type be = BACKEND_TYPE_RTU \<and> uint (last h) = MODBUS_BROADCAST_ADDRESS
       then Some (0, m', st\<lparr>g_rsp := h @ rp @ drop (length h + length rp) (g_rsp st)\<rparr>)
       else send_msg be st (h @ rp @ drop (length h + length rp) (g_rsp st)) (int (length h) + int (length rp))
         \<bind> (\<lambda>(rc, rsp, st). Some (rc, m', st\<lparr>g_rsp := rsp\<rparr>)))"
    unfolding modbus_reply_def Let_def modbus_ptr.distinct if_False slave f a Option.bind.simps tid prod.case
      sft_def [symmetric] dispatch served built_reply_def fst_conv snd_conv h
    using fc by simp
  show ?thesis
    unfolding step send_reply [OF fits] served replied_def
    by (simp add: Let_def)
qed

end

section \<open>The RTU server\<close>

text \<open>The state in which \<open>modbus_reply\<close> leaves the library when the slave \<open>a\<close> was addressed.\<close>

definition rtu_replied :: "u8 \<Rightarrow> mb \<Rightarrow> u8 list \<Rightarrow> int \<times> mb" where
  "rtu_replied a st rp =
     (if a = 0 then (0, st\<lparr>g_rsp := a # rp @ drop (Suc (length rp)) (g_rsp st)\<rparr>)
      else let adu = rtu_frame (a # rp) in
        (int (length adu), (log_sent adu st)\<lparr>g_rsp := adu @ drop (length adu) (g_rsp st)\<rparr>))"

lemma rtu_replied: "rtus.replied [a] st rp = rtu_replied a st rp"
proof -
  have "backend_type modbus_rtu_backend = BACKEND_TYPE_RTU" by (simp add: modbus_rtu_backend_def)
  moreover have "uint a = 0 \<longleftrightarrow> a = 0" by (simp add: uint_0_iff)
  ultimately show ?thesis by (simp only: rtus.replied_def rtu_replied_def) simp
qed

lemma rtu_header_checksum [simp]:
  "header_length modbus_rtu_backend = 1" "checksum_length modbus_rtu_backend = 2"
  by (simp_all add: modbus_rtu_backend_def)


text \<open>A mapping with two bits, one input bit, three registers from address 16 on, one input register.\<close>

definition mapping_sample :: modbus_mapping where
  "mapping_sample =
     \<lparr>nb_bits = 2, start_bits = 0, nb_input_bits = 1, start_input_bits = 0,
      nb_input_registers = 1, start_input_registers = 0, nb_registers = 3, start_registers = 16,
      tab_bits = [0, 1], tab_input_bits = [1], tab_input_registers = [7], tab_registers = [1, 2, 3]\<rparr>"

lemma mapping_sample_ok [simp]: "mapping_ok mapping_sample"
  by (simp add: mapping_ok_def mapping_sample_def)




text \<open>The missing test.  A write-and-read request with valid quantities and a valid read range, whose
  write range starts below the first register of the mapping, makes the server store outside its
  table: \<open>modbus_reply\<close> has undefined behaviour.\<close>

theorem modbus_reply_writes_below_table:
  assumes "mapping_ok m"
    and "rq = [0x17, ah, al, nh, nl, wh, wl, ch, cl, count] @ data"
    and "1 \<le> be16 ch cl" "be16 ch cl \<le> 121" "uint count = 2 * be16 ch cl" "int (length data) = uint count"
    and "1 \<le> be16 nh nl" "be16 nh nl \<le> 125" "in_table (start_registers m) (tab_registers m) (be16 ah al) (be16 nh nl)"
    and "be16 wh wl < start_registers m" "be16 wh wl + be16 ch cl \<le> start_registers m + int (length (tab_registers m))"
  shows "modbus_reply modbus_rtu_backend version Ctx st (a # rq @ tail) (int (length rq) + 3) m = None"
proof -
  let ?req = "a # rq @ tail" and ?t = "be16 wh wl - start_registers m"
  obtain d ds where data: "data = d # ds" using assms(3,5,6) by (cases data) auto
  then have ds: "ds \<noteq> []" using assms(3,5,6) by (cases ds) auto
  obtain n where n: "nat (be16 ch cl) = Suc n" using assms(3) by (cases "nat (be16 ch cl)") auto
  have load: "load_regs ?req 11 (nat (be16 ch cl)) ?t (tab_registers m) = None"
    using assms(10) by (cases "rd16 ?req 11") (simp_all add: n wr_def)
  have nb: "nb_registers m = int (length (tab_registers m))" using assms(1) by (simp add: mapping_ok_def)
  have g: "\<not> be16 ah al < start_registers m" "\<not> nb_registers m < be16 ah al - start_registers m + be16 nh nl"
    "\<not> nb_registers m < ?t + be16 ch cl"
    using assms(9,11) by (auto simp: in_table_def nb)
  have fails: "x \<bind> (\<lambda>(a, b). None) = (None :: (int \<times> u8 list \<times> modbus_mapping \<times> mb) option)"
    for x :: "(int \<times> u8 list) option" by (cases x) auto
  have reads: "rd16 ?req 2 = Some (be16 ah al)" "rd16 ?req 4 = Some (be16 nh nl)" "rd16 ?req 6 = Some (be16 wh wl)"
    "rd16 ?req 8 = Some (be16 ch cl)" "rd ?req 10 = Some count" "rd ?req 0 = Some a" "rd ?req 1 = Some 0x17"
    by (simp_all add: assms(2) rd_def rd16_def)
  have "reply_write_and_read_registers modbus_rtu_backend st sft ?req (be16 ah al) rsp m = None" for sft rsp
    unfolding reply_write_and_read_registers_def rtu_header_checksum Let_def
    using assms(3-5,7,8) by (simp add: reads g load [simplified] fails)
  then show ?thesis
    by (simp add: modbus_reply_def reply_dispatch_def reads Let_def split: prod.split)
qed

theorem modbus_reply_writes_below_table_witness:
  "modbus_reply modbus_rtu_backend [] Ctx (mb_sample []) [1, 0x17, 0, 16, 0, 1, 0, 15, 0, 1, 2, 0xAB, 0xCD, 0, 0] 15
     mapping_sample = None"
  using modbus_reply_writes_below_table [of mapping_sample
      "[0x17, 0, 16, 0, 1, 0, 15, 0, 1, 2, 0xAB, 0xCD]" 0 16 0 1 0 15 0 1 2 "[0xAB, 0xCD]" "[]" "mb_sample []" 1 "[0, 0]"]
  by (simp add: be16_eq in_table_def mapping_sample_def mapping_sample_ok [unfolded mapping_sample_def])

end
