(* ===== verification/ModbusWire.thy ===== *)
theory ModbusWire
  imports ModbusServerSpec
begin

unbundle bit_operations_syntax

text \<open>
  Client and server together: the bytes one of them puts on the line are what the other receives.
  Each theorem composes the client's refinement with the server's, so it speaks only of the registers
  the two ends hold.
\<close>

text \<open>The line delivers \<open>bs\<close> at the next reception.\<close>

definition deliver :: "u8 list \<Rightarrow> mb \<Rightarrow> mb" where
  "deliver bs st = st\<lparr>port := (port st)\<lparr>incoming := [Rx bs]\<rparr>\<rparr>"

lemma deliver_simps [simp]:
  "ctx (deliver bs st) = ctx st" "mb_ok (deliver bs st) = mb_ok st"
  "sent (port (deliver bs st)) = sent (port st)" "rtu_adu (deliver bs st) pdu = rtu_adu st pdu"
  "line_read n (deliver bs st) = take n bs" "libmodbuserrno (deliver bs st) = libmodbuserrno st"
  by (simp_all add: deliver_def mb_ok_def rtu_adu_def line_read_def)

lemma length_rtu_adu [simp]: "length (rtu_adu st pdu) = length pdu + 3"
  by (simp add: rtu_adu_def)

text \<open>The server's side of an exchange.\<close>

lemma reply_over_wire:
  assumes cl: "mb_ok cl" "0 < slave (ctx cl)" and srv: "mb_ok srv" "mapping_ok m"
    and rq: "request_sized rq" "write_address_checked m rq" "uint (rq ! 0) \<noteq> 7" and version: "length version \<le> 240"
    and served: "serve version m rq = (rp, m')"
  obtains srv' where "modbus_reply modbus_rtu_backend version Ctx srv (rtu_adu cl rq @ junk) (int (length (rtu_adu cl rq))) m
      = Some (int (length (rtu_adu cl rp)), m', srv')"
    and "sent (port srv') = sent (port srv) @ [rtu_adu cl rp]" "mb_ok srv'"
proof -
  let ?a = "word_of_int (slave (ctx cl)) :: u8"
  let ?crc = "crc_bytes (crc16_of crcModBus_table 0xFFFF (?a # rq))"
  have "uint ?a = slave (ctx cl)" using cl(1) by (rule uint_slave)
  with cl(2) have a: "?a \<noteq> 0" by auto
  have "length rp \<le> 253" using serve_length [OF rq(1) version, of m] served by simp
  then have fits: "length (rtu_adu cl rp) \<le> 260" by simp
  have run: "modbus_reply modbus_rtu_backend version Ctx srv (?a # rq @ ?crc @ junk) (int (length rq) + 3) m
      = Some (let (rc, st') = rtu_replied ?a srv rp in (rc, m', st'))"
    using rtus.modbus_reply_serves [OF srv _ rq(1) _ version rq(2,3), of "[?a]" "?crc @ junk"]
    by (simp add: rtu_replied served add.commute)
  have frame: "rtu_frame (?a # rp) = rtu_adu cl rp" by (simp add: rtu_adu_def)
  define srv' where "srv' = (log_sent (rtu_adu cl rp) srv)\<lparr>g_rsp := rtu_adu cl rp @ drop (length (rtu_adu cl rp)) (g_rsp srv)\<rparr>"
  have "mb_ok srv'" using srv(1) fits by (simp add: srv'_def mb_ok_def)
  moreover have "sent (port srv') = sent (port srv) @ [rtu_adu cl rp]" by (simp add: srv'_def)
  moreover have "rtu_adu cl rq @ junk = ?a # rq @ ?crc @ junk" by (simp add: rtu_adu_def rtu_frame_def)
  ultimately show thesis
    using that [of srv'] run a by (simp add: rtu_replied_def frame Let_def srv'_def add.commute)
qed

lemma request_pdu_fields:
  assumes "0 \<le> addr" "addr < 65536" "0 \<le> nb" "nb < 65536" "0 \<le> fc" "fc < 256"
  shows "uint (request_pdu fc addr nb ! 0) = fc" "be16 (request_pdu fc addr nb ! 1) (request_pdu fc addr nb ! 2) = addr"
    "be16 (request_pdu fc addr nb ! 3) (request_pdu fc addr nb ! 4) = nb"
    "hd (request_pdu fc addr nb) = word_of_int fc"
  using assms by (simp_all add: request_pdu_def be16_hi8_lo8_id uint_small8)

text \<open>C4: Reading over the wire.  A client that reads holding registers from a server obtains exactly
  the registers of the server's table, and the server's mapping is unchanged: the request the client
  sends is one the server answers, and the answer is one the client accepts.\<close>

theorem registers_read_over_the_wire:
  assumes "mb_ok cl" "0 < slave (ctx cl)" "mb_ok srv" "mapping_ok m" "length version \<le> 240"
    and "1 \<le> nb" "nb \<le> 125" "nb \<le> int (length dest)" "addr < 65536"
    and "in_table (start_registers m) (tab_registers m) addr nb"
    and "request = rtu_adu cl (request_pdu 3 addr nb)"
  shows "\<exists>rc srv' reply cl'.
    modbus_reply modbus_rtu_backend version Ctx srv (request @ junk) (int (length request)) m = Some (rc, m, srv') \<and>
    sent (port srv') = sent (port srv) @ [reply] \<and>
    modbus_read_registers modbus_rtu_backend Ctx (deliver reply cl) addr nb dest
      = Some (nb, segment (addr - start_registers m) nb (tab_registers m) @ drop (nat nb) dest, cl') \<and>
    sent (port cl') = sent (port cl) @ [request]"
proof -
  let ?regs = "segment (addr - start_registers m) nb (tab_registers m)"
  let ?rp = "word_of_int 3 # word_of_int (2 * nb) # regs_bytes ?regs"
  have "0 \<le> start_registers m" using assms(4) by (simp add: mapping_ok_def)
  then have addr: "0 \<le> addr" "0 \<le> addr - start_registers m" "0 \<le> nb" "nb < 65536"
    using assms(6,7,10) by (auto simp: in_table_def)
  then have regs: "length ?regs = nat nb"
    using assms(10) by (intro length_segment) (simp_all add: in_table_def)
  note fields = request_pdu_fields [OF addr(1) assms(9) addr(3,4), of 3, simplified]
  have served: "serve version m (request_pdu 3 addr nb) = (?rp, m)"
    using assms(6,7,10) by (simp add: serve_def fields serve_read_registers_def guarded_def Let_def)
  have rq: "request_sized (request_pdu 3 addr nb)" "write_address_checked m (request_pdu 3 addr nb)"
    "uint (request_pdu 3 addr nb ! 0) \<noteq> 7"
    using fields(1) by (simp_all add: request_sized_def write_address_checked_def)
  obtain srv' where srv: "modbus_reply modbus_rtu_backend version Ctx srv (request @ junk) (int (length request)) m
      = Some (int (length (rtu_adu cl ?rp)), m, srv')" "sent (port srv') = sent (port srv) @ [rtu_adu cl ?rp]"
    using reply_over_wire [OF assms(1-4) rq assms(5) served, of junk] unfolding assms(11) by blast
  let ?cl = "deliver (rtu_adu cl ?rp) cl"
  have arrives: "line_read (nat (max_adu_length modbus_rtu_backend)) ?cl = rtu_adu cl ?rp"
    using regs assms(7) by simp
  have rp: "rtu_frame (rtu_hdr ?cl @ word_of_int 3 # word_of_int (2 * nb) # regs_bytes ?regs) = rtu_adu cl ?rp"
    by simp
  have ok: "mb_ok ?cl" "(3 :: int) \<in> {3, 4}" "int (length ?regs) = nb" using assms(1) regs addr by simp_all
  obtain cl' where cl: "rtu.after ?cl (request_pdu 3 addr nb) cl'"
    "read_registers modbus_rtu_backend ?cl 3 addr nb dest = Some (nb, ?regs @ drop (length ?regs) dest, cl')"
    by (rule rtu.read_registers_spec [OF ok(1,2) addr(3) assms(7,8), of addr])
      (use ok(3) arrives rp in metis)
  then have "modbus_read_registers modbus_rtu_backend Ctx ?cl addr nb dest = Some (nb, ?regs @ drop (nat nb) dest, cl')"
    using assms(7) regs by (simp add: modbus_read_registers_def)
  moreover have "sent (port cl') = sent (port cl) @ [request]"
    using rtu_after [OF cl(1)] unfolding assms(11) by (simp add: exchanged_once_def)
  ultimately show ?thesis using srv by blast
qed

theorem registers_read_over_the_wire_witness:
  "\<exists>rc srv' reply cl'.
    modbus_reply modbus_rtu_backend [] Ctx (mb_sample []) (rtu_adu (mb_sample []) [3, 0, 17, 0, 2])
      (int (length (rtu_adu (mb_sample []) [3, 0, 17, 0, 2]))) mapping_sample = Some (rc, mapping_sample, srv') \<and>
    sent (port srv') = [reply] \<and>
    modbus_read_registers modbus_rtu_backend Ctx (deliver reply (mb_sample [])) 17 2 [9, 9, 9] = Some (2, [2, 3, 9], cl')"
proof -
  have "request_pdu 3 17 2 = [3, 0, 17, 0, 2]" by code_simp
  moreover have "segment (17 - start_registers mapping_sample) 2 (tab_registers mapping_sample) = [2, 3]" by code_simp
  moreover have "in_table (start_registers mapping_sample) (tab_registers mapping_sample) 17 2" by code_simp
  ultimately show ?thesis
    using registers_read_over_the_wire [of "mb_sample []" "mb_sample []" mapping_sample "[]" 2 "[9, 9, 9]" 17
        "rtu_adu (mb_sample []) [3, 0, 17, 0, 2]" "[]"]
    by auto
qed

text \<open>C3: Writing over the wire.  A client that writes registers finds them in the server's table, at the
  address it wrote, with every other register unchanged, and its call succeeds on the server's reply.\<close>

theorem registers_written_over_the_wire:
  assumes "mb_ok cl" "0 < slave (ctx cl)" "mb_ok srv" "mapping_ok m" "length version \<le> 240"
    and "1 \<le> nb" "nb \<le> 123" "nb \<le> int (length src)" "addr < 65536"
    and "in_table (start_registers m) (tab_registers m) addr nb"
    and "request = rtu_adu cl (request_pdu 16 addr nb @ word_of_int (nb * 2) # regs_bytes (take (nat nb) src))"
  shows "\<exists>rc srv' reply cl'.
    modbus_reply modbus_rtu_backend version Ctx srv (request @ junk) (int (length request)) m
      = Some (rc, m\<lparr>tab_registers := splice (addr - start_registers m) (take (nat nb) src) (tab_registers m)\<rparr>, srv') \<and>
    sent (port srv') = sent (port srv) @ [reply] \<and>
    modbus_write_registers modbus_rtu_backend Ctx (deliver reply cl) addr nb src = Some (nb, cl') \<and>
    sent (port cl') = sent (port cl) @ [request]"
proof -
  let ?data = "regs_bytes (take (nat nb) src)"
  let ?rq = "request_pdu 16 addr nb @ word_of_int (nb * 2) # ?data"
  let ?rp = "request_pdu 16 addr nb"
  let ?m = "m\<lparr>tab_registers := splice (addr - start_registers m) (take (nat nb) src) (tab_registers m)\<rparr>"
  have "0 \<le> start_registers m" using assms(4) by (simp add: mapping_ok_def)
  then have addr: "0 \<le> addr" "0 \<le> nb" "nb < 65536"
    using assms(6,7,10) by (auto simp: in_table_def)
  have small: "(16 :: int) < 256" by simp
  note fields = request_pdu_fields [OF addr(1) assms(9) addr(2,3) zero_le_numeral small]
  have count1: "uint (word_of_int (nb * 2) :: u8) = 2 * nb"
    using uint_small8 [of "nb * 2"] assms(6,7) by linarith
  then have "unat (word_of_int (nb * 2) :: u8) = nat (2 * nb)" by (simp only: unat_eq_nat_uint)
  then have count: "uint (word_of_int (nb * 2) :: u8) = 2 * nb" "unat (word_of_int (nb * 2) :: u8) = 2 * nat nb"
    using count1 addr by (simp_all only: nat_mult_distrib) simp
  have data: "length ?data = 2 * nat nb" using assms(6,8) by simp
  have rq_bytes: "?rq ! 0 = ?rp ! 0" "?rq ! 1 = ?rp ! 1" "?rq ! 2 = ?rp ! 2" "?rq ! 3 = ?rp ! 3" "?rq ! 4 = ?rp ! 4"
    "?rq ! 5 = word_of_int (nb * 2)" "drop 6 ?rq = ?data" "take 5 ?rq = ?rp" "hd ?rq = hd ?rp"
    by (simp_all add: nth_append request_pdu_def)
  have "serve version m ?rq = serve_write_registers ?rq addr nb (word_of_int (nb * 2)) ?data m"
    unfolding serve_def Let_def rq_bytes fields by simp
  then have served: "serve version m ?rq = (?rp, ?m)"
    by (simp only: serve_write_registers_def guarded_def count1 assms(6,7,10) simp_thms if_False if_True
        rq_bytes bytes_regs_of_regs)
  have rq: "request_sized ?rq" "write_address_checked m ?rq" "uint (?rq ! 0) \<noteq> 7"
    using assms(7) addr(2) data
    unfolding request_sized_def write_address_checked_def Let_def rq_bytes fields count(2)
    by (simp_all add: nat_le_iff)
  obtain srv' where srv: "modbus_reply modbus_rtu_backend version Ctx srv (request @ junk) (int (length request)) m
      = Some (int (length (rtu_adu cl ?rp)), ?m, srv')" "sent (port srv') = sent (port srv) @ [rtu_adu cl ?rp]"
    using reply_over_wire [OF assms(1-4) rq assms(5) served, of junk] unfolding assms(11) by blast
  let ?cl = "deliver (rtu_adu cl ?rp) cl"
  have arrives: "line_read (nat (max_adu_length modbus_rtu_backend)) ?cl = rtu_adu cl ?rp" by simp
  have accepted: "\<exists>a b. rtu_adu cl ?rp = rtu_frame (rtu_hdr ?cl @ [0x10, a, b, hi8 nb, lo8 nb])"
    by (intro exI [of _ "hi8 addr"] exI [of _ "lo8 addr"]) (simp add: request_pdu_def)
  have ok: "mb_ok ?cl" using assms(1) by simp
  obtain cl' where cl: "modbus_write_registers modbus_rtu_backend Ctx ?cl addr nb src = Some (nb, cl')"
    "rtu.after ?cl ?rq cl'"
    by (rule rtu.write_registers_spec [OF ok addr(2) assms(7,8), of addr])
      (use accepted arrives in \<open>simp only: if_True\<close>)
  have "sent (port cl') = sent (port cl) @ [request]"
    using rtu_after [OF cl(2)] unfolding assms(11) by (simp add: exchanged_once_def)
  with srv cl(1) show ?thesis by blast
qed

theorem registers_written_over_the_wire_witness:
  "\<exists>rc srv' reply cl'.
    modbus_reply modbus_rtu_backend [] Ctx (mb_sample []) (rtu_adu (mb_sample []) [16, 0, 17, 0, 2, 4, 0, 5, 1, 6])
      (int (length (rtu_adu (mb_sample []) [16, 0, 17, 0, 2, 4, 0, 5, 1, 6]))) mapping_sample
      = Some (rc, mapping_sample\<lparr>tab_registers := [1, 5, 262]\<rparr>, srv') \<and>
    sent (port srv') = [reply] \<and>
    modbus_write_registers modbus_rtu_backend Ctx (deliver reply (mb_sample [])) 17 2 [5, 262] = Some (2, cl')"
proof -
  have "request_pdu 16 17 2 @ word_of_int (2 * 2) # regs_bytes (take (nat 2) [5, 262])
      = [16, 0, 17, 0, 2, 4, 0, 5, 1, 6]" by code_simp
  moreover have "splice (17 - start_registers mapping_sample) (take (nat 2) [5, 262]) (tab_registers mapping_sample)
      = [1, 5, 262]" by code_simp
  moreover have "in_table (start_registers mapping_sample) (tab_registers mapping_sample) 17 2" by code_simp
  ultimately show ?thesis
    using registers_written_over_the_wire [of "mb_sample []" "mb_sample []" mapping_sample "[]" 2 "[5, 262]" 17
        "rtu_adu (mb_sample []) [16, 0, 17, 0, 2, 4, 0, 5, 1, 6]" "[]"]
    by auto
qed

text \<open>A read outside the server's table: the server answers with exception 2 and keeps its mapping,
  and the client's call returns -1, leaves the destination as it was and reports
  \<open>EMBXILADD\<close>, error 2, in \<open>libmodbuserrno\<close>.\<close>

theorem read_outside_table_over_the_wire:
  assumes "mb_ok cl" "0 < slave (ctx cl)" "mb_ok srv" "mapping_ok m" "length version \<le> 240"
    and "1 \<le> nb" "nb \<le> 125" "nb \<le> int (length dest)" "0 \<le> addr" "addr < 65536"
    and "\<not> in_table (start_registers m) (tab_registers m) addr nb"
    and "request = rtu_adu cl (request_pdu 3 addr nb)"
  shows "\<exists>rc srv' reply cl'.
    modbus_reply modbus_rtu_backend version Ctx srv (request @ junk) (int (length request)) m = Some (rc, m, srv') \<and>
    sent (port srv') = sent (port srv) @ [reply] \<and>
    modbus_read_registers modbus_rtu_backend Ctx (deliver reply cl) addr nb dest = Some (-1, dest, cl') \<and>
    libmodbuserrno cl' = Some (EMB 2)"
proof -
  let ?rp = "[0x83, 2]"
  have nb: "0 \<le> nb" "nb < 65536" using assms(6,7) by simp_all
  note fields = request_pdu_fields [OF assms(9,10) nb, of 3, simplified]
  have served: "serve version m (request_pdu 3 addr nb) = (?rp, m)"
    using assms(6,7,11) by (simp add: serve_def fields serve_read_registers_def guarded_def refuse_def Let_def)
  have rq: "request_sized (request_pdu 3 addr nb)" "write_address_checked m (request_pdu 3 addr nb)"
    "uint (request_pdu 3 addr nb ! 0) \<noteq> 7"
    using fields(1) by (simp_all add: request_sized_def write_address_checked_def)
  obtain srv' where srv: "modbus_reply modbus_rtu_backend version Ctx srv (request @ junk) (int (length request)) m
      = Some (int (length (rtu_adu cl ?rp)), m, srv')" "sent (port srv') = sent (port srv) @ [rtu_adu cl ?rp]"
    using reply_over_wire [OF assms(1-4) rq assms(5) served, of junk] unfolding assms(12) by blast
  let ?cl = "deliver (rtu_adu cl ?rp) cl"
  have ok: "mb_ok ?cl" "(3 :: int) \<in> {3, 4}" using assms(1) by simp_all
  have arrives: "line_read (nat (max_adu_length modbus_rtu_backend)) ?cl = rtu_frame (rtu_hdr ?cl @ [0x83, 2])"
    by simp
  have code: "uint (0x83 :: u8) = uint (request_pdu 3 addr nb ! 0) + 0x80" using fields(1) by simp
  have "rtu.outcome ?cl (request_pdu 3 addr nb) = Inl (Some (EMB 2))"
    using rtu.outcome_exception [OF ok(1) arrives code] by simp
  from rtu.read_registers_fails [OF ok nb(1) assms(7,8) this]
  obtain cl' where "read_registers modbus_rtu_backend ?cl 3 addr nb dest = Some (-1, dest, cl')"
    "libmodbuserrno cl' = Some (EMB 2)" by auto
  with assms(7) srv show ?thesis by (auto simp: modbus_read_registers_def)
qed

theorem read_outside_table_over_the_wire_witness:
  "\<exists>rc srv' reply cl'.
    modbus_reply modbus_rtu_backend [] Ctx (mb_sample []) (rtu_adu (mb_sample []) [3, 0, 18, 0, 2])
      (int (length (rtu_adu (mb_sample []) [3, 0, 18, 0, 2]))) mapping_sample = Some (rc, mapping_sample, srv') \<and>
    sent (port srv') = [reply] \<and>
    modbus_read_registers modbus_rtu_backend Ctx (deliver reply (mb_sample [])) 18 2 [9, 9] = Some (-1, [9, 9], cl') \<and>
    libmodbuserrno cl' = Some (EMB 2)"
proof -
  have "request_pdu 3 18 2 = [3, 0, 18, 0, 2]" by code_simp
  moreover have "\<not> in_table (start_registers mapping_sample) (tab_registers mapping_sample) 18 2" by code_simp
  ultimately show ?thesis
    using read_outside_table_over_the_wire [of "mb_sample []" "mb_sample []" mapping_sample "[]" 2 "[9, 9]" 18
        "rtu_adu (mb_sample []) [3, 0, 18, 0, 2]" "[]"]
    by auto
qed

end
