(* ===== verification/Regulator.thy ===== *)
theory Regulator
  imports ModbusWire
begin

unbundle bit_operations_syntax

text \<open>
  The connection with the regulator board: \<open>regulator/src/regulatorConnTSK.c\<close> and
  \<open>regulatorTcpRequest.c\<close>.  A packed C struct that goes over Modbus is a record with its memory image,
  a list of registers.  The tasks that call \<open>reg_waitCommand\<close> own a stack frame while they wait; the
  regulator task reaches it through the pointers in the command, and an access to a frame that is gone
  is undefined, \<^term>\<open>None\<close>.  The Modbus context is the one of \<open>modbus_new_rtu\<close>.
\<close>

section \<open>Data\<close>

record regVersion =
  v_major :: u16
  v_minor :: u16
  v_patch :: u16

record regTarget =
  voltage_set :: u32
  current_set :: u32
  vdac :: u32
  idac :: u32
  target_mode :: u16
  time_set :: u32

datatype regMode = reg_overcurrentShutdown | reg_limitation | reg_lowCurrentShutdown | reg_raw

datatype regSave = reg_save_nop | reg_save_do | reg_save_ok | reg_save_nothing | reg_save_error

datatype regCrange = reg_crange_hi | reg_crange_auto

record regState =
  rs_voltage :: u32
  rs_current :: u32
  rs_power :: u32
  rs_resistance :: u32
  rs_time :: u32
  rs_capacity :: u32
  rs_iFan :: u16
  rs_input_v1 :: u16
  rs_input_v2 :: u16
  rs_input_v3 :: u16
  rs_input_v4 :: u16
  rs_input_vg :: u16
  rs_temp_heatsink :: u16
  rs_temp_shunt :: u16
  rs_temp_ref :: u16
  rs_status :: u16
  rs_error :: u16
  rs_disablecause :: u16
  rs_vadc :: u32
  rs_iadc :: u32

fun regMode_code :: "regMode \<Rightarrow> u16" where
  "regMode_code reg_overcurrentShutdown = 0"
| "regMode_code reg_limitation = 1"
| "regMode_code reg_lowCurrentShutdown = 2"
| "regMode_code reg_raw = 3"

fun regSave_code :: "regSave \<Rightarrow> u16" where
  "regSave_code reg_save_nop = 0"
| "regSave_code reg_save_do = 1"
| "regSave_code reg_save_ok = 2"
| "regSave_code reg_save_nothing = 3"
| "regSave_code reg_save_error = 4"

fun regCrange_code :: "regCrange \<Rightarrow> u16" where
  "regCrange_code reg_crange_hi = 0"
| "regCrange_code reg_crange_auto = 1"

text \<open>The memory image of a 32-bit member, low half first: two registers of the packed struct.\<close>

definition le32 :: "u32 \<Rightarrow> u16 list" where
  "le32 w = [ucast w, ucast (drop_bit 16 w)]"

definition join32 :: "u16 \<Rightarrow> u16 \<Rightarrow> u32" where
  "join32 lo hi = ucast lo OR push_bit 16 (ucast hi)"

definition target_regs :: "regTarget \<Rightarrow> u16 list" where
  "target_regs t = le32 (voltage_set t) @ le32 (current_set t) @ le32 (vdac t) @ le32 (idac t)
     @ [target_mode t] @ le32 (time_set t)"

fun regs_target :: "u16 list \<Rightarrow> regTarget option" where
  "regs_target [v0, v1, c0, c1, vd0, vd1, id0, id1, m, t0, t1] =
     Some \<lparr>voltage_set = join32 v0 v1, current_set = join32 c0 c1, vdac = join32 vd0 vd1,
       idac = join32 id0 id1, target_mode = m, time_set = join32 t0 t1\<rparr>"
| "regs_target _ = None"

definition state_regs :: "regState \<Rightarrow> u16 list" where
  "state_regs s = le32 (rs_voltage s) @ le32 (rs_current s) @ le32 (rs_power s) @ le32 (rs_resistance s)
     @ le32 (rs_time s) @ le32 (rs_capacity s)
     @ [rs_iFan s, rs_input_v1 s, rs_input_v2 s, rs_input_v3 s, rs_input_v4 s, rs_input_vg s,
        rs_temp_heatsink s, rs_temp_shunt s, rs_temp_ref s, rs_status s, rs_error s, rs_disablecause s]
     @ le32 (rs_vadc s) @ le32 (rs_iadc s)"

definition regs_state :: "u16 list \<Rightarrow> regState" where
  "regs_state r =
     \<lparr>rs_voltage = join32 (r ! 0) (r ! 1), rs_current = join32 (r ! 2) (r ! 3),
      rs_power = join32 (r ! 4) (r ! 5), rs_resistance = join32 (r ! 6) (r ! 7),
      rs_time = join32 (r ! 8) (r ! 9), rs_capacity = join32 (r ! 10) (r ! 11),
      rs_iFan = r ! 12, rs_input_v1 = r ! 13, rs_input_v2 = r ! 14, rs_input_v3 = r ! 15,
      rs_input_v4 = r ! 16, rs_input_vg = r ! 17, rs_temp_heatsink = r ! 18, rs_temp_shunt = r ! 19,
      rs_temp_ref = r ! 20, rs_status = r ! 21, rs_error = r ! 22, rs_disablecause = r ! 23,
      rs_vadc = join32 (r ! 24) (r ! 25), rs_iadc = join32 (r ! 26) (r ! 27)\<rparr>"

abbreviation (input) "TARGET_WORDS \<equiv> (11 :: nat)"
abbreviation (input) "STATE_WORDS \<equiv> (28 :: nat)"

text \<open>The bit fields of \<open>regStatus_t\<close> and \<open>regError_t\<close>.\<close>

definition s_limitation :: "regState \<Rightarrow> bool" where "s_limitation s = bit (rs_status s) 0"
definition s_cRangeLoOverflow :: "regState \<Rightarrow> bool" where "s_cRangeLoOverflow s = bit (rs_status s) 1"
definition s_overheated :: "regState \<Rightarrow> bool" where "s_overheated s = bit (rs_status s) 2"
definition s_calibrationEmpty :: "regState \<Rightarrow> bool" where "s_calibrationEmpty s = bit (rs_status s) 3"

section \<open>State\<close>

text \<open>\<open>command_t\<close>: the pointers \<open>result\<close>, \<open>semaphore\<close>, \<open>src\<close> and \<open>dst\<close> all reach into the frame of the
  waiting task, named by \<open>owner\<close>.\<close>

record command =
  owner :: nat
  writeAddr :: int
  readAddr :: int
  writeNum :: int
  readNum :: int
  expireTime :: u32

text \<open>The frame of a waiting task: its source and destination variables, \<open>res\<close> (uninitialised until it
  is stored to), whether its semaphore was given, and when its wait ends.\<close>

record frame =
  f_src :: "u16 list"
  f_dst :: "u16 list"
  f_result :: "bool option"
  f_given :: bool
  f_deadline :: nat

text \<open>The file's static variables and the locals of the task that live across the loop.  The pair
  \<open>mobusRequstData\<close>, \<open>mobusRequstLen\<close> is the request of the TCP bridge.\<close>

record reg =
  commandQueue :: "command list"
  frames :: "nat \<Rightarrow> frame option"
  reg_version :: regVersion
  reg_target :: regTarget
  regMeas :: regState
  enabled :: u16
  mobusRequst :: "(u8 list \<times> int) option"
  mobusRequstResult :: bool
  tcpSem :: bool
  gremote :: bool
  connected :: bool
  errorCount :: nat

abbreviation (input) "QUEUE_LENGTH \<equiv> (8 :: nat)"
abbreviation (input) "defaultslave \<equiv> (1 :: int)"
abbreviation (input) "errorThreshold \<equiv> (5 :: nat)"
abbreviation (input) "EXPIRE \<equiv> (150 :: nat)"

definition zero_state :: regState where
  "zero_state = regs_state (replicate STATE_WORDS 0)"

definition initial_reg :: reg where
  "initial_reg =
     \<lparr>commandQueue = [], frames = \<lambda>_. None, reg_version = \<lparr>v_major = 0, v_minor = 0, v_patch = 0\<rparr>,
      reg_target = \<lparr>voltage_set = 0, current_set = 100, vdac = 0, idac = 0,
        target_mode = regMode_code reg_limitation, time_set = 0\<rparr>,
      regMeas = zero_state, enabled = 0, mobusRequst = None, mobusRequstResult = False, tcpSem = False,
      gremote = False, connected = True, errorCount = 0\<rparr>"

section \<open>Waiting for a command\<close>

text \<open>What a caller asks for: registers to write, or registers to read into \<open>rq_dst\<close>.\<close>

record request =
  rq_writeAddr :: int
  rq_src :: "u16 list"
  rq_readAddr :: int
  rq_dst :: "u16 list"

definition write_request :: "int \<Rightarrow> u16 list \<Rightarrow> request" where
  "write_request addr src = \<lparr>rq_writeAddr = addr, rq_src = src, rq_readAddr = 0, rq_dst = []\<rparr>"

definition read_request :: "int \<Rightarrow> u16 list \<Rightarrow> request" where
  "read_request addr dst = \<lparr>rq_writeAddr = 0, rq_src = [], rq_readAddr = addr, rq_dst = dst\<rparr>"

text \<open>\<open>reg_waitCommand\<close>, called by the task \<open>c\<close> at tick \<open>now\<close>, up to \<open>xSemaphoreTake\<close>.
  \<open>reg_waitCommand_check\<close> is what must hold for it to go that far; \<open>sem_ok\<close> says whether the
  semaphore could be created.  Between the test for space and \<open>xQueueSend\<close>, which fails silently on a
  full queue, another task may run: \<open>reg_waitCommand_send\<close> is the rest.\<close>

definition reg_waitCommand_check :: "bool \<Rightarrow> reg \<Rightarrow> bool" where
  "reg_waitCommand_check sem_ok r \<longleftrightarrow>
     \<not> (\<not> connected r \<or> QUEUE_LENGTH - length (commandQueue r) = 0) \<and> sem_ok"

definition reg_waitCommand_send :: "nat \<Rightarrow> nat \<Rightarrow> request \<Rightarrow> reg \<Rightarrow> reg" where
  "reg_waitCommand_send c now q r =
     (let cmd = \<lparr>owner = c, writeAddr = rq_writeAddr q, readAddr = rq_readAddr q,
            writeNum = int (length (rq_src q)), readNum = int (length (rq_dst q)),
            expireTime = of_nat now + of_nat EXPIRE\<rparr>;
          fr = \<lparr>f_src = rq_src q, f_dst = rq_dst q, f_result = None, f_given = False,
            f_deadline = now + EXPIRE + 10\<rparr>
      in r\<lparr>frames := (frames r)(c := Some fr),
           commandQueue := (if length (commandQueue r) < QUEUE_LENGTH then commandQueue r @ [cmd]
                            else commandQueue r)\<rparr>)"

text \<open>The end of the wait, at the semaphore or at the deadline: the frame goes away and the function
  returns \<open>cmd->result\<close>, the pointer to \<open>res\<close>, which is not null.\<close>

definition reg_waitCommand_return :: "nat \<Rightarrow> reg \<Rightarrow> bool \<times> reg" where
  "reg_waitCommand_return c r =
     (let result_is_null = False in (\<not> result_is_null, r\<lparr>frames := (frames r)(c := None)\<rparr>))"

section \<open>The interface of the panel\<close>

definition reg_versionGet :: "reg \<Rightarrow> regVersion \<times> bool" where
  "reg_versionGet r = (reg_version r, True)"

text \<open>A function that calls \<open>reg_waitCommand\<close>: it returns, with what it stored through its argument,
  or it waits for a request, and goes on with the value of \<open>reg_waitCommand\<close> and what the variable
  \<open>dst\<close> then holds.\<close>

datatype 'a call = Returns bool 'a | Waits request "bool \<Rightarrow> u16 list \<Rightarrow> 'a call"

definition reg_serialGet :: "u16 list \<Rightarrow> u16 list call" where
  "reg_serialGet sn = Waits (read_request 0x0004 (take 2 sn)) Returns"

text \<open>\<open>time_t\<close>: the two registers are its low half.\<close>

definition reg_calibrationTimeGet :: "u16 list \<Rightarrow> u16 list call" where
  "reg_calibrationTimeGet time =
     Waits (read_request 0x0300 (take 2 time)) (\<lambda>res dst. Returns res (dst @ drop 2 time))"

definition reg_dacMaxValueGet :: "u16 list \<Rightarrow> u16 list call" where
  "reg_dacMaxValueGet val = Waits (read_request 0x0302 (take 2 val)) Returns"

definition reg_getTarget :: "u16 list \<Rightarrow> u16 list call" where
  "reg_getTarget target = Waits (read_request 0x0100 (take TARGET_WORDS target)) Returns"

text \<open>\<open>state\<close> is compared with the last known state as a number.\<close>

definition reg_enableSet :: "bool \<Rightarrow> reg \<Rightarrow> unit call" where
  "reg_enableSet state r =
     (if (if state then 1 else 0) \<noteq> enabled r
      then (let enable = (if state then 1 else 0) in
            Waits (write_request 0x010B [enable]) (\<lambda>res _. if \<not> res then Returns False () else Returns True ()))
      else Returns True ())"

definition reg_wireResistanceSet :: "u32 \<Rightarrow> unit call" where
  "reg_wireResistanceSet ohm = Waits (write_request 0x010C (le32 ohm)) (\<lambda>res _. Returns res ())"

text \<open>\<open>t\<close> is the value of \<open>time(NULL)\<close>, of which the low half is written.\<close>

definition reg_setCalibrationTime :: "u32 \<Rightarrow> unit call" where
  "reg_setCalibrationTime t = Waits (write_request 0x0300 (le32 t)) (\<lambda>res _. Returns res ())"

definition reg_saveSettingsSet :: "regSave \<Rightarrow> unit call" where
  "reg_saveSettingsSet save =
     (let s = regSave_code save in Waits (write_request 0x010F [s]) (\<lambda>res _. Returns res ()))"

text \<open>\<open>s\<close> is what the uninitialised local variable holds; the caller's variable is given by its number.\<close>

definition reg_saveSettingsGet :: "u16 \<Rightarrow> u16 \<Rightarrow> u16 call" where
  "reg_saveSettingsGet s save =
     Waits (read_request 0x010F [s]) (\<lambda>res dst. if \<not> res then Returns False save else Returns True (hd dst))"

definition reg_crangeSet :: "regCrange \<Rightarrow> unit call" where
  "reg_crangeSet crange =
     (let c = regCrange_code crange in Waits (write_request 0x0110 [c]) (\<lambda>res _. Returns res ()))"

definition reg_crangeGet :: "u16 \<Rightarrow> u16 \<Rightarrow> u16 call" where
  "reg_crangeGet c crange =
     Waits (read_request 0x0110 [c]) (\<lambda>res dst. if \<not> res then Returns False crange else Returns True (hd dst))"

definition reg_vFilterSizeSet :: "u16 \<Rightarrow> unit call" where
  "reg_vFilterSizeSet n = (let c = n in Waits (write_request 0x0112 [c]) (\<lambda>res _. Returns res ()))"

definition reg_iFilterSizeSet :: "u16 \<Rightarrow> unit call" where
  "reg_iFilterSizeSet n = (let c = n in Waits (write_request 0x0113 [c]) (\<lambda>res _. Returns res ()))"

definition reg_vIntegrationSizeSet :: "u16 \<Rightarrow> unit call" where
  "reg_vIntegrationSizeSet n = (let c = n in Waits (write_request 0x0114 [c]) (\<lambda>res _. Returns res ()))"

definition reg_iIntegrationSizeSet :: "u16 \<Rightarrow> unit call" where
  "reg_iIntegrationSizeSet n = (let c = n in Waits (write_request 0x0115 [c]) (\<lambda>res _. Returns res ()))"

text \<open>The calibration points, each followed by the time of the calibration.\<close>

definition reg_setVoltagePoint :: "u32 \<Rightarrow> u8 \<Rightarrow> u32 \<Rightarrow> unit call" where
  "reg_setVoltagePoint uV number t =
     Waits (write_request (0x0310 + 2 * uint number) (le32 uV))
       (\<lambda>res _. if \<not> res then Returns False () else reg_setCalibrationTime t)"

definition reg_setMicroCurrentPoint :: "u32 \<Rightarrow> u8 \<Rightarrow> u32 \<Rightarrow> unit call" where
  "reg_setMicroCurrentPoint uA number t =
     Waits (write_request (0x0330 + 2 * uint number) (le32 uA))
       (\<lambda>res _. if \<not> res then Returns False () else reg_setCalibrationTime t)"

definition reg_setCurrentPoint :: "u32 \<Rightarrow> u8 \<Rightarrow> u32 \<Rightarrow> unit call" where
  "reg_setCurrentPoint uA number t =
     Waits (write_request (0x0320 + 2 * uint number) (le32 uA))
       (\<lambda>res _. if \<not> res then Returns False () else reg_setCalibrationTime t)"

text \<open>Calls that only touch shared variables, under the mutex.\<close>

definition reg_voltageSet :: "u32 \<Rightarrow> reg \<Rightarrow> bool \<times> reg" where
  "reg_voltageSet uV r = (connected r, r\<lparr>reg_target := (reg_target r)\<lparr>voltage_set := uV\<rparr>\<rparr>)"

definition reg_currentSet :: "u32 \<Rightarrow> reg \<Rightarrow> bool \<times> reg" where
  "reg_currentSet uA r = (connected r, r\<lparr>reg_target := (reg_target r)\<lparr>current_set := uA\<rparr>\<rparr>)"

definition reg_dacVoltageSet :: "u32 \<Rightarrow> reg \<Rightarrow> bool \<times> reg" where
  "reg_dacVoltageSet lsb r = (connected r, r\<lparr>reg_target := (reg_target r)\<lparr>vdac := lsb\<rparr>\<rparr>)"

definition reg_dacCurrentSet :: "u32 \<Rightarrow> reg \<Rightarrow> bool \<times> reg" where
  "reg_dacCurrentSet lsb r = (connected r, r\<lparr>reg_target := (reg_target r)\<lparr>idac := lsb\<rparr>\<rparr>)"

definition reg_modeSet :: "regMode \<Rightarrow> reg \<Rightarrow> bool \<times> reg" where
  "reg_modeSet m r = (connected r, r\<lparr>reg_target := (reg_target r)\<lparr>target_mode := regMode_code m\<rparr>\<rparr>)"

definition reg_timeSet :: "u32 \<Rightarrow> reg \<Rightarrow> bool \<times> reg" where
  "reg_timeSet ms r = (connected r, r\<lparr>reg_target := (reg_target r)\<lparr>time_set := ms\<rparr>\<rparr>)"

definition reg_enableGet :: "reg \<Rightarrow> bool \<times> bool" where
  "reg_enableGet r = (enabled r \<noteq> 0, connected r)"

definition reg_getState :: "reg \<Rightarrow> regState \<times> bool" where
  "reg_getState r = (regMeas r, connected r)"

definition reg_setremote :: "bool \<Rightarrow> reg \<Rightarrow> reg" where
  "reg_setremote rem r = r\<lparr>gremote := rem\<rparr>"

definition reg_getremote :: "reg \<Rightarrow> bool" where
  "reg_getremote r = gremote r"

text \<open>\<open>reg_modbusRequest\<close> up to the wait for \<open>tcpSem\<close>, and its end: the wait lasts at most 1000 ticks
  and leaves the request standing when it runs out.\<close>

definition reg_modbusRequest_start :: "u8 list \<Rightarrow> int \<Rightarrow> reg \<Rightarrow> reg" where
  "reg_modbusRequest_start req req_length r = r\<lparr>mobusRequst := Some (req, req_length)\<rparr>"

definition reg_modbusRequest_end :: "reg \<Rightarrow> bool \<times> reg" where
  "reg_modbusRequest_end r =
     (if tcpSem r then (mobusRequstResult r, r\<lparr>tcpSem := False\<rparr>) else (False, r))"

section \<open>Modbus exchanges with retries\<close>

text \<open>\<open>while(try--)\<close>, for the number of tries left.\<close>

fun writeReg_try :: "nat \<Rightarrow> mb \<Rightarrow> int \<Rightarrow> u16 \<Rightarrow> (bool \<times> mb) option" where
  "writeReg_try 0 st addr v = Some (False, st)"
| "writeReg_try (Suc n) st addr v = do {
     (mbstatus, st) \<leftarrow> modbus_write_register modbus_rtu_backend Ctx st addr v;
     if mbstatus = 1 then Some (True, st) else writeReg_try n st addr v
   }"

definition writeReg :: "mb \<Rightarrow> int \<Rightarrow> u16 \<Rightarrow> (bool \<times> mb) option" where
  "writeReg st addr v = writeReg_try 3 st addr v"

fun writeRegs_try :: "nat \<Rightarrow> mb \<Rightarrow> int \<Rightarrow> u16 list \<Rightarrow> int \<Rightarrow> (bool \<times> mb) option" where
  "writeRegs_try 0 st addr src len = Some (False, st)"
| "writeRegs_try (Suc n) st addr src len = do {
     (mbstatus, st) \<leftarrow> modbus_write_registers modbus_rtu_backend Ctx st addr len src;
     if mbstatus = len then Some (True, st) else writeRegs_try n st addr src len
   }"

definition writeRegs :: "mb \<Rightarrow> int \<Rightarrow> u16 list \<Rightarrow> int \<Rightarrow> (bool \<times> mb) option" where
  "writeRegs st addr src len = writeRegs_try 3 st addr src len"

fun readRegs :: "nat \<Rightarrow> mb \<Rightarrow> int \<Rightarrow> u16 list \<Rightarrow> int \<Rightarrow> (bool \<times> u16 list \<times> mb) option" where
  "readRegs 0 st addr dst len = Some (False, dst, st)"
| "readRegs (Suc n) st addr dst len = do {
     (mbstatus, dst, st) \<leftarrow> modbus_read_registers modbus_rtu_backend Ctx st addr len dst;
     if mbstatus = len then Some (True, dst, st) else readRegs n st addr dst len
   }"

text \<open>\<open>rawModbusMessage\<close> works in the caller's buffer.  Every branch of the loop body returns, so the
  loop runs at most once.\<close>

definition rawModbusMessage :: "mb \<Rightarrow> u8 list \<Rightarrow> int \<Rightarrow> (bool \<times> u8 list \<times> int \<times> mb) option" where
  "rawModbusMessage st req req_length = do {
     req \<leftarrow> wr req 0 (word_of_int defaultslave);
     (msg_length, req) \<leftarrow> send_msg_pre modbus_rtu_backend req req_length;
     (rc, st) \<leftarrow> be_send modbus_rtu_backend st req msg_length;
     (rc, req, st) \<leftarrow> modbus_receive_confirmation modbus_rtu_backend Ctx st req;
     if rc < 3 then Some (False, req, req_length, st) else Some (True, req, rc - 2, st)
   }"

section \<open>The regulator task\<close>

definition count_error :: "bool \<Rightarrow> nat \<Rightarrow> nat" where
  "count_error ok e = (if ok then 0 else if e < errorThreshold then e + 1 else e)"

text \<open>Before the loop: the context is opened and the version of the regulator is read.\<close>

definition regulator_init :: "reg \<Rightarrow> mb \<Rightarrow> (reg \<times> mb) option" where
  "regulator_init r st = do {
     (p, st) \<leftarrow> modbus_new_rtu st (Some ''USART1'') 921600 (CHR ''N'') 8 1;
     let (rc, st) = modbus_set_slave modbus_rtu_backend p st defaultslave;
         (rc, st) = modbus_set_debug p st 0;
         (rc, st) = modbus_connect modbus_rtu_backend p st;
         v = reg_version r in do {
     (ok, dst, st) \<leftarrow> readRegs 16 st 0x0000 [v_major v, v_minor v, v_patch v] 3;
     Some (r\<lparr>reg_version := \<lparr>v_major = dst ! 0, v_minor = dst ! 1, v_patch = dst ! 2\<rparr>, errorCount := 0\<rparr>, st) }
   }"

text \<open>The parts of one turn of the loop, in order: the target is written, a command is taken from the
  queue, it is executed, its result is delivered, the enable state is read, the measurements are read,
  the connection state is updated, a raw request is served.\<close>

definition task_target :: "reg \<Rightarrow> mb \<Rightarrow> (reg \<times> mb) option" where
  "task_target r st =
     (if gremote r then Some (r, st)
      else do {
        (ok, st) \<leftarrow> writeRegs st 0x0100 (target_regs (reg_target r)) (int TARGET_WORDS);
        Some (r\<lparr>errorCount := count_error ok (errorCount r)\<rparr>, st)
      })"

text \<open>\<open>xQueueReceive\<close> and the test of the expiry time; an expired command is dropped.\<close>

definition task_receive :: "nat \<Rightarrow> reg \<Rightarrow> command option \<times> reg" where
  "task_receive now r =
     (case commandQueue r of
        [] \<Rightarrow> (None, r)
      | cmd # rest \<Rightarrow>
          (if expireTime cmd > of_nat now then (Some cmd, r\<lparr>commandQueue := rest\<rparr>)
           else (None, r\<lparr>commandQueue := rest\<rparr>)))"

definition task_execute :: "command \<Rightarrow> reg \<Rightarrow> mb \<Rightarrow> (bool \<times> reg \<times> mb) option" where
  "task_execute cmd r st = do {
     (result, st) \<leftarrow>
       (if writeNum cmd \<noteq> 0 then do {
          fr \<leftarrow> frames r (owner cmd);
          if writeNum cmd = 1 then do {
            v \<leftarrow> rd (f_src fr) 0;
            writeReg st (writeAddr cmd) v
          } else writeRegs st (writeAddr cmd) (f_src fr) (writeNum cmd)
        } else Some (False, st));
     if readNum cmd \<noteq> 0 then do {
       fr \<leftarrow> frames r (owner cmd);
       (result, dst, st) \<leftarrow> readRegs 3 st (readAddr cmd) (f_dst fr) (readNum cmd);
       Some (result, r\<lparr>frames := (frames r)(owner cmd := Some (fr\<lparr>f_dst := dst\<rparr>))\<rparr>, st)
     } else Some (result, r, st)
   }"

definition task_deliver :: "command \<Rightarrow> bool \<Rightarrow> reg \<Rightarrow> reg option" where
  "task_deliver cmd result r = do {
     fr \<leftarrow> frames r (owner cmd);
     Some (r\<lparr>frames := (frames r)(owner cmd := Some (fr\<lparr>f_result := Some result, f_given := True\<rparr>))\<rparr>)
   }"

definition task_enabled :: "reg \<Rightarrow> mb \<Rightarrow> (reg \<times> mb) option" where
  "task_enabled r st = do {
     (ok, dst, st) \<leftarrow> readRegs 3 st 0x010B [enabled r] 1;
     Some (r\<lparr>enabled := dst ! 0, errorCount := count_error ok (errorCount r)\<rparr>, st)
   }"

text \<open>\<open>localRegMeas\<close> is uninitialised; it is copied only when it was read.\<close>

definition task_measure :: "reg \<Rightarrow> mb \<Rightarrow> (reg \<times> mb) option" where
  "task_measure r st = do {
     (ok, dst, st) \<leftarrow> readRegs 3 st 0x0200 (replicate STATE_WORDS 0) (int STATE_WORDS);
     Some (r\<lparr>regMeas := (if ok then regs_state dst else regMeas r),
             errorCount := count_error ok (errorCount r)\<rparr>, st)
   }"

definition task_connected :: "reg \<Rightarrow> reg" where
  "task_connected r = r\<lparr>connected := errorCount r < errorThreshold\<rparr>"

text \<open>\<open>rawModbusMessage\<close> stores into the buffer and the length of the requester; the requester's copy
  of the buffer is returned.\<close>

definition task_raw :: "reg \<Rightarrow> mb \<Rightarrow> ((u8 list \<times> int) option \<times> reg \<times> mb) option" where
  "task_raw r st =
     (case mobusRequst r of
        None \<Rightarrow> Some (None, r, st)
      | Some (req, req_length) \<Rightarrow> do {
          (ok, req, req_length, st) \<leftarrow> rawModbusMessage st req req_length;
          Some (Some (req, req_length), r\<lparr>mobusRequstResult := ok, mobusRequst := None, tcpSem := True\<rparr>, st)
        })"

text \<open>One turn of the loop, when no other task runs in between; \<open>now\<close> is the tick count that the test
  of the expiry time reads.\<close>

definition regulator_turn :: "nat \<Rightarrow> reg \<Rightarrow> mb \<Rightarrow> ((u8 list \<times> int) option \<times> reg \<times> mb) option" where
  "regulator_turn now r st = do {
     (r, st) \<leftarrow> task_target r st;
     let (cmd, r) = task_receive now r in do {
     (r, st) \<leftarrow> (case cmd of
         None \<Rightarrow> Some (r, st)
       | Some cmd \<Rightarrow> do {
           (result, r, st) \<leftarrow> task_execute cmd r st;
           r \<leftarrow> task_deliver cmd result r;
           Some (r, st)
         });
     (r, st) \<leftarrow> task_enabled r st;
     (r, st) \<leftarrow> task_measure r st;
     task_raw (task_connected r) st }
   }"

section \<open>The bridge from Modbus TCP: regulatorTcpRequest.c\<close>

text \<open>\<open>tcpModbusPacket\<close>: the 7 bytes of the MBAP header, of which the last is the unit identifier, and
  255 bytes of PDU.  The request handed to the task starts at the unit identifier.\<close>

abbreviation (input) "TCP_PACKET \<equiv> (262 :: nat)"

definition reg_tcpModbusRequest_begin ::
    "u8 list \<Rightarrow> u8 list \<Rightarrow> int \<Rightarrow> reg \<Rightarrow> (u8 list \<times> reg) option" where
  "reg_tcpModbusRequest_begin packet readdata buflen r = do {
     bs \<leftarrow> rds readdata 0 (if buflen \<le> int TCP_PACKET then buflen else 0);
     packet \<leftarrow> wrs packet 0 bs;
     h \<leftarrow> rd packet 4;
     l \<leftarrow> rd packet 5;
     Some (packet, reg_modbusRequest_start (drop 6 packet) (be16 h l) (reg_setremote True r))
   }"

text \<open>The response: the data and length passed back to the server, which it sends to the client.\<close>

definition reg_tcpModbusRequest_end ::
    "u8 list \<Rightarrow> int \<Rightarrow> bool \<Rightarrow> u8 list \<Rightarrow> int \<Rightarrow> (u8 list \<times> u8 list \<times> int) option" where
  "reg_tcpModbusRequest_end packet len ok readdata buflen =
     (if ok then do {
        packet \<leftarrow> wrs packet 4 [hi8 len, lo8 len];
        Some (packet, packet, (6 + len) mod 65536)
      } else Some (packet, readdata, buflen))"

text \<open>The whole request when the regulator task serves it within the 1000 ticks that
  \<open>reg_modbusRequest\<close> waits.\<close>

definition reg_tcpModbusRequest ::
    "u8 list \<Rightarrow> u8 list \<Rightarrow> int \<Rightarrow> reg \<Rightarrow> mb \<Rightarrow> (u8 list \<times> u8 list \<times> int \<times> reg \<times> mb) option" where
  "reg_tcpModbusRequest packet readdata buflen r st = do {
     (packet, r) \<leftarrow> reg_tcpModbusRequest_begin packet readdata buflen r;
     (served, r, st) \<leftarrow> task_raw r st;
     (req, len) \<leftarrow> served;
     let (ok, r) = reg_modbusRequest_end r in do {
     (packet, readdata, buflen) \<leftarrow> reg_tcpModbusRequest_end (take 6 packet @ req) len ok readdata buflen;
     Some (packet, readdata, buflen, r, st) }
   }"

definition reg_tcpModbusClosedConnection :: "reg \<Rightarrow> bool \<times> reg" where
  "reg_tcpModbusClosedConnection r = (True, reg_setremote False r)"

end
