(* ===== verification/RegulatorSpec.thy ===== *)
theory RegulatorSpec
  imports Regulator
begin

unbundle bit_operations_syntax

text \<open>
  What the regulator task guarantees: its retries, its record of the connection, the safety of the
  command queue, and the bridge from TCP.
\<close>

section \<open>Memory images\<close>

lemma length_le32 [simp]: "length (le32 w) = 2"
  by (simp add: le32_def)

lemma join32_le32: "join32 (ucast w) (ucast (drop_bit 16 w)) = w"
  by (rule bit_word_eqI) (auto simp: join32_def bit_simps)

lemma length_target_regs [simp]: "length (target_regs t) = TARGET_WORDS"
  by (simp add: target_regs_def)

lemma length_state_regs [simp]: "length (state_regs s) = STATE_WORDS"
  by (simp add: state_regs_def)

lemma regs_target_of_target: "regs_target (target_regs t) = Some t"
  by (simp add: target_regs_def le32_def join32_le32)

lemma regs_state_of_state: "regs_state (state_regs s) = s"
  by (simp add: regs_state_def state_regs_def le32_def join32_le32)

section \<open>Retries\<close>

text \<open>The number of failed tries before the first good one, among \<open>n\<close> tries on the receptions \<open>rs\<close>.\<close>

fun first_good :: "(reception list \<Rightarrow> bool) \<Rightarrow> nat \<Rightarrow> reception list \<Rightarrow> nat option" where
  "first_good good 0 rs = None"
| "first_good good (Suc n) rs = (if good rs then Some 0 else map_option Suc (first_good good n (tl rs)))"

definition tries :: "nat \<Rightarrow> nat option \<Rightarrow> nat" where
  "tries n j = (case j of Some j \<Rightarrow> Suc j | None \<Rightarrow> n)"

text \<open>A loop that repeats an exchange: each turn sends the request and consumes a reception, which
  decides whether the loop ends.  \<open>val\<close> is what a good reception makes of the result so far.\<close>

locale retrying =
  fixes loop :: "nat \<Rightarrow> 's \<Rightarrow> (bool \<times> 's) option"
    and inv :: "'s \<Rightarrow> bool"
    and sent_of :: "'s \<Rightarrow> u8 list list"
    and line_of :: "'s \<Rightarrow> reception list"
    and res :: "'s \<Rightarrow> 'r"
    and rq :: "u8 list"
    and good :: "reception list \<Rightarrow> bool"
    and val :: "reception list \<Rightarrow> 'r \<Rightarrow> 'r"
  assumes loop_0: "loop 0 s = Some (False, s)"
    and loop_Suc:
      "inv s \<Longrightarrow> \<exists>s'. inv s' \<and> line_of s' = tl (line_of s) \<and> sent_of s' = sent_of s @ [rq] \<and>
         (if good (line_of s) then loop (Suc n) s = Some (True, s') \<and> res s' = val (line_of s) (res s)
          else loop (Suc n) s = loop n s' \<and> res s' = res s)"
begin

lemma retry:
  assumes "inv s"
  shows "\<exists>s'. loop n s = Some (first_good good n (line_of s) \<noteq> None, s') \<and> inv s' \<and>
    line_of s' = drop (tries n (first_good good n (line_of s))) (line_of s) \<and>
    sent_of s' = sent_of s @ replicate (tries n (first_good good n (line_of s))) rq \<and>
    res s' = (case first_good good n (line_of s) of
        Some j \<Rightarrow> val (drop j (line_of s)) (res s) | None \<Rightarrow> res s)"
  using assms
proof (induction n arbitrary: s)
  case 0
  then show ?case by (simp add: loop_0 tries_def)
next
  case (Suc n)
  obtain s1 where s1: "inv s1" "line_of s1 = tl (line_of s)" "sent_of s1 = sent_of s @ [rq]"
    and step: "if good (line_of s) then loop (Suc n) s = Some (True, s1) \<and> res s1 = val (line_of s) (res s)
      else loop (Suc n) s = loop n s1 \<and> res s1 = res s"
    using loop_Suc [OF Suc.prems, of n] by blast
  show ?case
  proof (cases "good (line_of s)")
    case True
    with s1 step show ?thesis by (simp add: tries_def drop_Suc)
  next
    case False
    with Suc.IH [OF s1(1)] s1 step show ?thesis
      by (auto simp: tries_def drop_Suc split: option.split)
  qed
qed

lemma retry_bounded: "tries n (first_good good n rs) \<le> n"
proof (induction n arbitrary: rs)
  case (Suc n)
  from Suc [of "tl rs"] show ?case by (auto simp: tries_def split: option.splits)
qed (simp add: tries_def)

end

text \<open>What a reception says to a request.\<close>

definition rx_bytes :: "reception list \<Rightarrow> u8 list" where
  "rx_bytes rs = (case rs of Rx bs # _ \<Rightarrow> take 256 bs | _ \<Rightarrow> [])"

lemma line_read_rx_bytes: "line_read 256 st = rx_bytes (incoming (port st))"
  by (simp add: line_read_def rx_bytes_def)

definition confirms_write :: "int \<Rightarrow> reception list \<Rightarrow> bool" where
  "confirms_write nb rs \<longleftrightarrow>
     (let bs = rx_bytes rs in bs = rtu_frame [1, 0x10, bs ! 2, bs ! 3, hi8 nb, lo8 nb])"

definition confirms_single :: "reception list \<Rightarrow> bool" where
  "confirms_single rs \<longleftrightarrow> (let bs = rx_bytes rs in length bs = 8 \<and> bs = rtu_frame (1 # 6 # take 4 (drop 2 bs)))"

definition regs_in :: "nat \<Rightarrow> reception list \<Rightarrow> u16 list" where
  "regs_in nb rs = bytes_regs (take (2 * nb) (drop 3 (rx_bytes rs)))"

definition carries_regs :: "nat \<Rightarrow> reception list \<Rightarrow> bool" where
  "carries_regs nb rs \<longleftrightarrow> length (regs_in nb rs) = nb \<and>
     rx_bytes rs = rtu_frame (1 # 3 # word_of_int (2 * int nb) # regs_bytes (regs_in nb rs))"

lemma carries_regs_iff:
  "carries_regs nb rs \<longleftrightarrow> (\<exists>regs. length regs = nb \<and>
     rx_bytes rs = rtu_frame (1 # 3 # word_of_int (2 * int nb) # regs_bytes regs))"
    (is "_ \<longleftrightarrow> (\<exists>regs. ?P regs)")
  and carried_regs: "length regs = nb \<Longrightarrow>
     rx_bytes rs = rtu_frame (1 # 3 # word_of_int (2 * int nb) # regs_bytes regs) \<Longrightarrow> regs_in nb rs = regs"
proof -
  show eq: "regs_in nb rs = regs" if "length regs = nb"
    "rx_bytes rs = rtu_frame (1 # 3 # word_of_int (2 * int nb) # regs_bytes regs)" for regs
    using that by (simp add: regs_in_def rtu_frame_def)
  show "carries_regs nb rs \<longleftrightarrow> (\<exists>regs. ?P regs)"
  proof
    assume "\<exists>regs. ?P regs"
    then obtain regs where "length regs = nb"
      "rx_bytes rs = rtu_frame (1 # 3 # word_of_int (2 * int nb) # regs_bytes regs)" by blast
    with eq [OF this] show "carries_regs nb rs" by (simp add: carries_regs_def)
  qed (auto simp: carries_regs_def)
qed

lemma confirms_write_iff:
  "confirms_write nb rs \<longleftrightarrow> (\<exists>a b. rx_bytes rs = rtu_frame [1, 0x10, a, b, hi8 nb, lo8 nb])"
  by (auto simp: confirms_write_def Let_def rtu_frame_def)

lemma confirms_single_iff:
  "confirms_single rs \<longleftrightarrow> (\<exists>echo. length echo = 4 \<and> rx_bytes rs = rtu_frame (1 # 6 # echo))"
proof
  assume "\<exists>echo. length echo = 4 \<and> rx_bytes rs = rtu_frame (1 # 6 # echo)"
  then obtain echo where "length echo = 4" "rx_bytes rs = rtu_frame (1 # 6 # echo)" by blast
  then show "confirms_single rs" by (simp add: confirms_single_def rtu_frame_def Let_def)
qed (auto simp: confirms_single_def Let_def intro!: exI [of _ "take 4 (drop 2 (rx_bytes rs))"])

section \<open>The three retry loops\<close>

text \<open>The context of the regulator task: slave 1.\<close>

definition link_ok :: "mb \<Rightarrow> bool" where
  "link_ok st \<longleftrightarrow> mb_ok st \<and> slave (ctx st) = defaultslave"

abbreviation (input) "line \<equiv> \<lambda>st. incoming (port st)"
abbreviation (input) "out \<equiv> \<lambda>st. sent (port st)"

definition write_message :: "int \<Rightarrow> u16 list \<Rightarrow> u8 list" where
  "write_message addr regs = rtu_frame (1 # request_pdu 0x10 addr (int (length regs))
     @ word_of_int (2 * int (length regs)) # regs_bytes regs)"

definition single_message :: "int \<Rightarrow> u16 \<Rightarrow> u8 list" where
  "single_message addr v = rtu_frame (1 # request_pdu 6 addr (uint v))"

definition read_message :: "int \<Rightarrow> nat \<Rightarrow> u8 list" where
  "read_message addr nb = rtu_frame (1 # request_pdu 3 addr (int nb))"

lemma rtu_adu_1: "link_ok st \<Longrightarrow> rtu_adu st pdu = rtu_frame (1 # pdu)"
  by (simp add: rtu_adu_def link_ok_def)

lemma link_after:
  assumes "link_ok st" "rtu.after st pdu st'"
  shows "link_ok st'" "line st' = tl (line st)" "out st' = out st @ [rtu_frame (1 # pdu)]"
  using rtu_after [OF assms(2)] assms(1) rtu_adu_1 [OF assms(1)]
  by (auto simp: exchanged_once_def link_ok_def)

lemma arrives_link:
  "link_ok st \<Longrightarrow> line_read (nat (max_adu_length modbus_rtu_backend)) st = rtu_frame (rtu_hdr st @ m)
    \<longleftrightarrow> rx_bytes (line st) = rtu_frame (1 # m)"
  by (simp add: line_read_rx_bytes rtu_adu_1)

lemma write_once:
  assumes "link_ok st" "length regs \<le> 123"
  obtains st' where "modbus_write_registers modbus_rtu_backend Ctx st addr (int (length regs)) regs
      = Some (if confirms_write (int (length regs)) (line st) then int (length regs) else -1, st')"
    and "link_ok st'" "line st' = tl (line st)" "out st' = out st @ [write_message addr regs]"
proof -
  have ok: "mb_ok st" using assms(1) by (simp add: link_ok_def)
  have nb: "0 \<le> int (length regs)" "int (length regs) \<le> 123" "int (length regs) \<le> int (length regs)"
    using assms(2) by simp_all
  obtain st' where run: "modbus_write_registers modbus_rtu_backend Ctx st addr (int (length regs)) regs
      = Some (if \<exists>a b. line_read (nat (max_adu_length modbus_rtu_backend)) st
            = rtu_frame (rtu_hdr st @ [0x10, a, b, hi8 (int (length regs)), lo8 (int (length regs))])
          then int (length regs) else -1, st')"
    and after: "rtu.after st (request_pdu 0x10 addr (int (length regs)) @ word_of_int (int (length regs) * 2)
        # regs_bytes (take (nat (int (length regs))) regs)) st'"
    using rtu.write_registers_spec [OF ok nb, of addr] by blast
  note run' = run [unfolded arrives_link [OF assms(1)] confirms_write_iff [symmetric]]
  show thesis
    by (rule that [of st']) (use run' link_after [OF assms(1) after] in \<open>simp_all add: write_message_def mult.commute\<close>)
qed

interpretation wrs: retrying "\<lambda>n st. writeRegs_try n st addr regs (int (length regs))"
  "\<lambda>st. link_ok st \<and> length regs \<le> 123" "\<lambda>st. out st" "\<lambda>st. line st" "\<lambda>_. ()"
  "write_message addr regs" "confirms_write (int (length regs))" "\<lambda>_ _. ()"
  for addr and regs :: "u16 list"
proof
  fix st n assume st: "link_ok st \<and> length regs \<le> 123"
  then obtain st' where "modbus_write_registers modbus_rtu_backend Ctx st addr (int (length regs)) regs
      = Some (if confirms_write (int (length regs)) (line st) then int (length regs) else -1, st')"
    "link_ok st'" "line st' = tl (line st)" "out st' = out st @ [write_message addr regs]"
    using write_once by metis
  with st show "\<exists>s'. (link_ok s' \<and> length regs \<le> 123) \<and> line s' = tl (line st) \<and> out s' = out st @ [write_message addr regs] \<and>
      (if confirms_write (int (length regs)) (line st)
       then writeRegs_try (Suc n) st addr regs (int (length regs)) = Some (True, s') \<and> () = ()
       else writeRegs_try (Suc n) st addr regs (int (length regs)) = writeRegs_try n s' addr regs (int (length regs)) \<and> () = ())"
    by (intro exI [of _ st']) simp
qed simp

lemma single_once:
  assumes "link_ok st"
  obtains st' where "modbus_write_register modbus_rtu_backend Ctx st addr v
      = Some (if confirms_single (line st) then 1 else -1, st')"
    and "link_ok st'" "line st' = tl (line st)" "out st' = out st @ [single_message addr v]"
proof -
  have ok: "mb_ok st" "(6 :: int) \<in> {5, 6}" using assms by (simp_all add: link_ok_def)
  obtain st' where run: "write_single modbus_rtu_backend Ctx st 6 addr v
      = Some (if \<exists>echo. length echo = 4 \<and> line_read (nat (max_adu_length modbus_rtu_backend)) st
            = rtu_frame (rtu_hdr st @ word_of_int 6 # echo) then 1 else -1, st')"
    and after: "rtu.after st (request_pdu 6 addr (uint v)) st'"
    using rtu.write_single_spec [OF ok, of addr v] by blast
  have one: "(\<exists>echo. length echo = 4 \<and> rx_bytes (line st) = rtu_frame (1 # word_of_int 6 # echo)) = confirms_single (line st)"
    by (simp add: confirms_single_iff)
  note run' = run [unfolded arrives_link [OF assms] one]
  show thesis
    by (rule that [of st'])
      (use run' link_after [OF assms after] in \<open>simp_all add: modbus_write_register_def single_message_def\<close>)
qed

interpretation wr1: retrying "\<lambda>n st. writeReg_try n st addr v" link_ok "\<lambda>st. out st" "\<lambda>st. line st" "\<lambda>_. ()"
  "single_message addr v" confirms_single "\<lambda>_ _. ()" for addr v
proof
  fix st n assume "link_ok st"
  then obtain st' where "modbus_write_register modbus_rtu_backend Ctx st addr v
      = Some (if confirms_single (line st) then 1 else -1, st')"
    "link_ok st'" "line st' = tl (line st)" "out st' = out st @ [single_message addr v]"
    using single_once by metis
  then show "\<exists>s'. link_ok s' \<and> line s' = tl (line st) \<and> out s' = out st @ [single_message addr v] \<and>
      (if confirms_single (line st) then writeReg_try (Suc n) st addr v = Some (True, s') \<and> () = ()
       else writeReg_try (Suc n) st addr v = writeReg_try n s' addr v \<and> () = ())"
    by (intro exI [of _ st']) simp
qed simp

lemma read_once:
  assumes "link_ok st" "nb \<le> 125" "nb \<le> length dst"
  obtains st' where "modbus_read_registers modbus_rtu_backend Ctx st addr (int nb) dst
      = (if carries_regs nb (line st) then Some (int nb, regs_in nb (line st) @ drop nb dst, st')
         else Some (-1, dst, st'))"
    and "link_ok st'" "line st' = tl (line st)" "out st' = out st @ [read_message addr nb]"
proof -
  have ok: "mb_ok st" "(3 :: int) \<in> {3, 4}" using assms(1) by (simp_all add: link_ok_def)
  have nb: "0 \<le> int nb" "int nb \<le> 125" "int nb \<le> int (length dst)" using assms(2,3) by simp_all
  have three: "word_of_int 3 = (3 :: u8)" by simp
  obtain st' where after: "rtu.after st (request_pdu 3 addr (int nb)) st'"
    and run: "read_registers modbus_rtu_backend st 3 addr (int nb) dst
      = (if carries_regs nb (line st) then Some (int nb, regs_in nb (line st) @ drop nb dst, st')
         else Some (-1, dst, st'))"
  proof (rule rtu.read_registers_spec [OF ok nb, of addr])
    fix st' assume after: "rtu.after st (request_pdu 3 addr (int nb)) st'"
      and good: "\<And>regs. int (length regs) = int nb \<Longrightarrow>
        line_read (nat (max_adu_length modbus_rtu_backend)) st
          = rtu_frame (rtu_hdr st @ word_of_int 3 # word_of_int (2 * int nb) # regs_bytes regs) \<Longrightarrow>
        read_registers modbus_rtu_backend st 3 addr (int nb) dst = Some (int nb, regs @ drop (length regs) dst, st')"
      and bad: "(\<nexists>regs. int (length regs) = int nb \<and>
        line_read (nat (max_adu_length modbus_rtu_backend)) st
          = rtu_frame (rtu_hdr st @ word_of_int 3 # word_of_int (2 * int nb) # regs_bytes regs)) \<Longrightarrow>
        read_registers modbus_rtu_backend st 3 addr (int nb) dst = Some (-1, dst, st')"
    note good' = good [unfolded arrives_link [OF assms(1)] three of_nat_eq_iff]
    note bad' = bad [unfolded arrives_link [OF assms(1)] three of_nat_eq_iff, folded carries_regs_iff]
    from that [OF after] good' [of "regs_in nb (line st)"] bad' show thesis
      by (simp add: carries_regs_def)
  qed
  show thesis
    by (rule that [of st'])
      (use run link_after [OF assms(1) after] assms(2) in \<open>simp_all add: modbus_read_registers_def read_message_def\<close>)
qed

interpretation rds: retrying
  "\<lambda>n (dst, st). map_option (\<lambda>(ok, dst, st). (ok, (dst, st))) (readRegs n st addr dst (int nb))"
  "\<lambda>(dst, st). link_ok st \<and> nb \<le> 125 \<and> nb \<le> length dst" "\<lambda>(dst, st). out st" "\<lambda>(dst, st). line st" fst
  "read_message addr nb" "carries_regs nb" "\<lambda>rs dst. regs_in nb rs @ drop nb dst" for addr nb
proof (unfold_locales, goal_cases)
  case (1 s)
  then show ?case by (cases s) simp
next
  case (2 s n)
  obtain dst st where s: "s = (dst, st)" by (cases s)
  with 2 have inv: "link_ok st" "nb \<le> 125" "nb \<le> length dst" by simp_all
  obtain st' where run: "modbus_read_registers modbus_rtu_backend Ctx st addr (int nb) dst
      = (if carries_regs nb (line st) then Some (int nb, regs_in nb (line st) @ drop nb dst, st')
         else Some (-1, dst, st'))"
    and st': "link_ok st'" "line st' = tl (line st)" "out st' = out st @ [read_message addr nb]"
    using read_once [OF inv] by metis
  have "length (regs_in nb (line st)) = nb" if "carries_regs nb (line st)"
    using that by (simp add: carries_regs_def)
  with run st' inv show ?case
    unfolding s by (cases "carries_regs nb (line st)") (simp_all, force+)
qed

text \<open>The loops as the task uses them.\<close>

lemma writeRegs_spec:
  assumes "link_ok st" "length regs \<le> 123"
  obtains st' j where "j = first_good (confirms_write (int (length regs))) 3 (line st)"
    and "writeRegs st addr regs (int (length regs)) = Some (j \<noteq> None, st')" "link_ok st'"
    and "line st' = drop (tries 3 j) (line st)" "out st' = out st @ replicate (tries 3 j) (write_message addr regs)"
  using wrs.retry [of st regs 3 addr] assms by (auto simp: writeRegs_def)

lemma writeReg_spec:
  assumes "link_ok st"
  obtains st' j where "j = first_good confirms_single 3 (line st)"
    and "writeReg st addr v = Some (j \<noteq> None, st')" "link_ok st'"
    and "line st' = drop (tries 3 j) (line st)" "out st' = out st @ replicate (tries 3 j) (single_message addr v)"
  using wr1.retry [of st 3 addr v] assms by (auto simp: writeReg_def)

lemma readRegs_spec:
  assumes "link_ok st" "nb \<le> 125" "nb \<le> length dst"
  obtains st' j where "j = first_good (carries_regs nb) n (line st)"
    and "readRegs n st addr dst (int nb) = Some (j \<noteq> None,
      (case j of Some j \<Rightarrow> regs_in nb (drop j (line st)) @ drop nb dst | None \<Rightarrow> dst), st')" "link_ok st'"
    and "line st' = drop (tries n j) (line st)" "out st' = out st @ replicate (tries n j) (read_message addr nb)"
proof -
  define j where "j = first_good (carries_regs nb) n (line st)"
  have "\<exists>st'. readRegs n st addr dst (int nb) = Some (j \<noteq> None,
      (case j of Some j \<Rightarrow> regs_in nb (drop j (line st)) @ drop nb dst | None \<Rightarrow> dst), st') \<and> link_ok st' \<and>
      line st' = drop (tries n j) (line st) \<and> out st' = out st @ replicate (tries n j) (read_message addr nb)"
    using rds.retry [of nb "(dst, st)" n addr] assms
    by (cases j) (auto simp: j_def split: prod.splits)
  with that [OF j_def] show thesis by blast
qed

lemma first_good_good:
  "first_good good n rs = Some j \<Longrightarrow> j < n \<and> good (drop j rs) \<and> (\<forall>i<j. \<not> good (drop i rs))"
proof (induction n arbitrary: rs j)
  case (Suc n)
  show ?case
  proof (cases "good rs")
    case True
    with Suc.prems show ?thesis by simp
  next
    case False
    with Suc.prems obtain k where k: "j = Suc k" "first_good good n (tl rs) = Some k" by auto
    with Suc.IH [OF k(2)] False show ?thesis
      by (auto simp: drop_Suc less_Suc_eq_0_disj)
  qed
qed simp

lemma first_good_None: "first_good good n rs = None \<longleftrightarrow> (\<forall>i<n. \<not> good (drop i rs))"
proof (induction n arbitrary: rs)
  case (Suc n)
  then show ?case by (auto simp: drop_Suc less_Suc_eq_0_disj)
qed simp

section \<open>A turn of the task\<close>

definition exchange_target :: "reception list \<Rightarrow> nat option" where
  "exchange_target rs = first_good (confirms_write (int TARGET_WORDS)) 3 rs"

definition exchange_read :: "nat \<Rightarrow> reception list \<Rightarrow> nat option" where
  "exchange_read nb rs = first_good (carries_regs nb) 3 rs"

definition target_message :: "reg \<Rightarrow> u8 list" where
  "target_message r = write_message 0x0100 (target_regs (reg_target r))"

abbreviation (input) "enable_message \<equiv> read_message 0x010B 1"
abbreviation (input) "state_message \<equiv> read_message 0x0200 STATE_WORDS"

lemma task_target_spec:
  assumes "link_ok st"
  obtains st' j where "j = exchange_target (line st)"
    and "task_target r st = Some (if gremote r then r else r\<lparr>errorCount := count_error (j \<noteq> None) (errorCount r)\<rparr>, st')"
    and "link_ok st'" "line st' = (if gremote r then line st else drop (tries 3 j) (line st))"
    and "out st' = out st @ (if gremote r then [] else replicate (tries 3 j) (target_message r))"
proof (cases "gremote r")
  case True
  with that [OF refl, of st] assms show thesis by (simp add: task_target_def)
next
  case False
  have "length (target_regs (reg_target r)) \<le> 123" by simp
  from writeRegs_spec [OF assms this, of "0x0100"] obtain st' where
    "writeRegs st 0x0100 (target_regs (reg_target r)) 11 = Some (exchange_target (line st) \<noteq> None, st')"
    "link_ok st'" "line st' = drop (tries 3 (exchange_target (line st))) (line st)"
    "out st' = out st @ replicate (tries 3 (exchange_target (line st))) (target_message r)"
    by (auto simp: exchange_target_def target_message_def)
  with that [OF refl, of st'] False show thesis by (simp add: task_target_def)
qed

lemma read_three:
  assumes "link_ok st" "nb \<le> 125" "nb \<le> length dst" "len = int nb" "j = exchange_read nb (line st)"
  shows "\<exists>st'. readRegs 3 st addr dst len = Some (j \<noteq> None,
      (case j of Some j \<Rightarrow> regs_in nb (drop j (line st)) @ drop nb dst | None \<Rightarrow> dst), st') \<and> link_ok st' \<and>
    line st' = drop (tries 3 j) (line st) \<and> out st' = out st @ replicate (tries 3 j) (read_message addr nb)"
proof (rule readRegs_spec [OF assms(1-3), of 3 addr])
  fix st' k
  assume k: "k = first_good (carries_regs nb) 3 (line st)"
    and st': "readRegs 3 st addr dst (int nb) = Some (k \<noteq> None,
      (case k of Some j \<Rightarrow> regs_in nb (drop j (line st)) @ drop nb dst | None \<Rightarrow> dst), st')" "link_ok st'"
    "line st' = drop (tries 3 k) (line st)" "out st' = out st @ replicate (tries 3 k) (read_message addr nb)"
  have "k = j" by (simp add: k assms(5) exchange_read_def)
  with st' show ?thesis unfolding assms(4) by blast
qed

lemma task_enabled_spec:
  assumes "link_ok st"
  obtains st' j where "j = exchange_read 1 (line st)"
    and "task_enabled r st = Some (r\<lparr>enabled := (case j of Some j \<Rightarrow> hd (regs_in 1 (drop j (line st))) | None \<Rightarrow> enabled r),
      errorCount := count_error (j \<noteq> None) (errorCount r)\<rparr>, st')"
    and "link_ok st'" "line st' = drop (tries 3 j) (line st)" "out st' = out st @ replicate (tries 3 j) enable_message"
proof -
  have size: "(1 :: nat) \<le> 125" "1 \<le> length [enabled r]" by simp_all
  define j where "j = exchange_read 1 (line st)"
  obtain st' where run: "readRegs 3 st 0x010B [enabled r] 1 = Some (j \<noteq> None,
      (case j of Some j \<Rightarrow> regs_in 1 (drop j (line st)) @ drop 1 [enabled r] | None \<Rightarrow> [enabled r]), st')"
    and st': "link_ok st'" "line st' = drop (tries 3 j) (line st)" "out st' = out st @ replicate (tries 3 j) enable_message"
    using read_three [OF assms size _ j_def, of 1 "0x010B"] by auto
  have "regs_in 1 (drop k (line st)) = [hd (regs_in 1 (drop k (line st)))]" if "j = Some k" for k
    using first_good_good [of "carries_regs 1" 3 "line st" k] that
    by (cases "regs_in 1 (drop k (line st))") (auto simp: j_def exchange_read_def carries_regs_def)
  with run have "task_enabled r st = Some (r\<lparr>enabled := (case j of Some j \<Rightarrow> hd (regs_in 1 (drop j (line st))) | None \<Rightarrow> enabled r),
      errorCount := count_error (j \<noteq> None) (errorCount r)\<rparr>, st')"
    by (cases j) (simp_all add: task_enabled_def hd_conv_nth [symmetric] hd_append, metis hd_conv_nth list.simps(3))
  with that [OF j_def] st' show thesis by blast
qed

lemma task_measure_spec:
  assumes "link_ok st"
  obtains st' j where "j = exchange_read STATE_WORDS (line st)"
    and "task_measure r st = Some (r\<lparr>regMeas := (case j of Some j \<Rightarrow> regs_state (regs_in STATE_WORDS (drop j (line st)))
        | None \<Rightarrow> regMeas r), errorCount := count_error (j \<noteq> None) (errorCount r)\<rparr>, st')"
    and "link_ok st'" "line st' = drop (tries 3 j) (line st)" "out st' = out st @ replicate (tries 3 j) state_message"
proof -
  have size: "(28 :: nat) \<le> 125" "28 \<le> length (replicate STATE_WORDS (0 :: u16))" by simp_all
  define j where "j = exchange_read STATE_WORDS (line st)"
  obtain st' where run: "readRegs 3 st 0x0200 (replicate STATE_WORDS 0) 28 = Some (j \<noteq> None,
      (case j of Some j \<Rightarrow> regs_in STATE_WORDS (drop j (line st)) @ drop 28 (replicate STATE_WORDS 0)
        | None \<Rightarrow> replicate STATE_WORDS 0), st')"
    and st': "link_ok st'" "line st' = drop (tries 3 j) (line st)" "out st' = out st @ replicate (tries 3 j) state_message"
    using read_three [OF assms size _ j_def, of 28 "0x0200"] by auto
  from run have "task_measure r st = Some (r\<lparr>regMeas := (case j of Some j \<Rightarrow> regs_state (regs_in STATE_WORDS (drop j (line st)))
        | None \<Rightarrow> regMeas r), errorCount := count_error (j \<noteq> None) (errorCount r)\<rparr>, st')"
    by (cases j) (simp_all add: task_measure_def)
  with that [OF j_def] st' show thesis by blast
qed

text \<open>A turn without a command and without a raw request: what each of the three exchanges finds on the
  line, and what the turn makes of it.\<close>

definition after_target :: "reg \<Rightarrow> reception list \<Rightarrow> reception list" where
  "after_target r rs = (if gremote r then rs else drop (tries 3 (exchange_target rs)) rs)"

definition after_enabled :: "reg \<Rightarrow> reception list \<Rightarrow> reception list" where
  "after_enabled r rs = (let rs = after_target r rs in drop (tries 3 (exchange_read 1 rs)) rs)"

definition turn_errors :: "reg \<Rightarrow> reception list \<Rightarrow> nat" where
  "turn_errors r rs =
     count_error (exchange_read STATE_WORDS (after_enabled r rs) \<noteq> None)
       (count_error (exchange_read 1 (after_target r rs) \<noteq> None)
         (if gremote r then errorCount r else count_error (exchange_target rs \<noteq> None) (errorCount r)))"

definition turn_result :: "reg \<Rightarrow> reception list \<Rightarrow> reg" where
  "turn_result r rs = r\<lparr>
     enabled := (case exchange_read 1 (after_target r rs) of
         Some j \<Rightarrow> hd (regs_in 1 (drop j (after_target r rs))) | None \<Rightarrow> enabled r),
     regMeas := (case exchange_read STATE_WORDS (after_enabled r rs) of
         Some j \<Rightarrow> regs_state (regs_in STATE_WORDS (drop j (after_enabled r rs))) | None \<Rightarrow> regMeas r),
     errorCount := turn_errors r rs, connected := turn_errors r rs < errorThreshold\<rparr>"

definition turn_messages :: "reg \<Rightarrow> reception list \<Rightarrow> u8 list list" where
  "turn_messages r rs =
     (if gremote r then [] else replicate (tries 3 (exchange_target rs)) (target_message r))
     @ replicate (tries 3 (exchange_read 1 (after_target r rs))) enable_message
     @ replicate (tries 3 (exchange_read STATE_WORDS (after_enabled r rs))) state_message"

lemma turn_spec:
  assumes "link_ok st" "commandQueue r = []" "mobusRequst r = None"
  shows "\<exists>st'. regulator_turn now r st = Some (None, turn_result r (line st), st') \<and> link_ok st' \<and>
    line st' = drop (tries 3 (exchange_read STATE_WORDS (after_enabled r (line st)))) (after_enabled r (line st)) \<and>
    out st' = out st @ turn_messages r (line st)"
proof -
  define r1 where "r1 = (if gremote r then r
    else r\<lparr>errorCount := count_error (exchange_target (line st) \<noteq> None) (errorCount r)\<rparr>)"
  obtain st1 where t: "task_target r st = Some (r1, st1)" "link_ok st1" "line st1 = after_target r (line st)"
    "out st1 = out st @ (if gremote r then [] else replicate (tries 3 (exchange_target (line st))) (target_message r))"
    by (rule task_target_spec [OF assms(1), of r]) (simp add: r1_def after_target_def)
  have q: "commandQueue r1 = []" using assms(2) by (simp add: r1_def)
  define r2 where "r2 = r1\<lparr>enabled := (case exchange_read 1 (line st1) of
      Some j \<Rightarrow> hd (regs_in 1 (drop j (line st1))) | None \<Rightarrow> enabled r1),
      errorCount := count_error (exchange_read 1 (line st1) \<noteq> None) (errorCount r1)\<rparr>"
  obtain st2 where e: "task_enabled r1 st1 = Some (r2, st2)" "link_ok st2" "line st2 = after_enabled r (line st)"
    "out st2 = out st1 @ replicate (tries 3 (exchange_read 1 (line st1))) enable_message"
    by (rule task_enabled_spec [OF t(2), of r1]) (simp add: r2_def t(3) after_enabled_def Let_def)
  define r3 where "r3 = r2\<lparr>regMeas := (case exchange_read STATE_WORDS (line st2) of
      Some j \<Rightarrow> regs_state (regs_in STATE_WORDS (drop j (line st2))) | None \<Rightarrow> regMeas r2),
      errorCount := count_error (exchange_read STATE_WORDS (line st2) \<noteq> None) (errorCount r2)\<rparr>"
  obtain st3 where m: "task_measure r2 st2 = Some (r3, st3)" "link_ok st3"
    "line st3 = drop (tries 3 (exchange_read STATE_WORDS (line st2))) (line st2)"
    "out st3 = out st2 @ replicate (tries 3 (exchange_read STATE_WORDS (line st2))) state_message"
    by (rule task_measure_spec [OF e(2), of r2]) (simp add: r3_def)
  have r3: "task_connected r3 = turn_result r (line st)"
    unfolding task_connected_def r3_def r2_def r1_def turn_result_def turn_errors_def t(3) e(3)
    by (simp cong: option.case_cong)
  have "mobusRequst (task_connected r3) = None" using assms(3) by (simp add: r3 turn_result_def)
  then have "regulator_turn now r st = Some (None, task_connected r3, st3)"
    by (simp add: regulator_turn_def t(1) task_receive_def q e(1) m(1) task_raw_def)
  then show ?thesis
    using m e t by (simp add: r3 turn_messages_def)
qed

section \<open>What the panel sees\<close>

lemma rx_bytes_frame: "length m \<le> 254 \<Longrightarrow> rx_bytes (Rx (rtu_frame m) # rs) = rtu_frame m"
  by (simp add: rx_bytes_def)

lemma confirms_write_reply: "confirms_write nb (Rx (rtu_frame [1, 0x10, a, b, hi8 nb, lo8 nb]) # rs)"
  by (simp only: confirms_write_iff rx_bytes_frame list.size) auto

text \<open>The reply that carries \<open>regs\<close>.\<close>

definition regs_reply :: "u16 list \<Rightarrow> u8 list" where
  "regs_reply regs = rtu_frame (1 # 3 # word_of_int (2 * int (length regs)) # regs_bytes regs)"

lemma reply_carries:
  assumes "length regs \<le> 125"
  shows "carries_regs (length regs) (Rx (regs_reply regs) # rs)" "regs_in (length regs) (Rx (regs_reply regs) # rs) = regs"
proof -
  have "rx_bytes (Rx (regs_reply regs) # rs) = regs_reply regs"
    unfolding regs_reply_def using assms by (intro rx_bytes_frame) simp
  then show "carries_regs (length regs) (Rx (regs_reply regs) # rs)" "regs_in (length regs) (Rx (regs_reply regs) # rs) = regs"
    unfolding regs_reply_def by (auto simp: carries_regs_iff intro: carried_regs)
qed

text \<open>A line on which nothing arrives any more.\<close>

definition silent :: "reception list \<Rightarrow> bool" where
  "silent rs \<longleftrightarrow> (\<forall>k. rx_bytes (drop k rs) = [])"

lemma silent_drop [simp]: "silent rs \<Longrightarrow> silent (drop k rs)"
  by (simp add: silent_def)

lemma silent_timeouts: "set rs \<subseteq> {RxTimeout} \<Longrightarrow> silent rs"
proof -
  assume a: "set rs \<subseteq> {RxTimeout}"
  have "rx_bytes (drop k rs) = []" for k
    using a set_drop_subset [of k rs]
    by (auto simp: rx_bytes_def split: list.split reception.split)
  then show "silent rs" by (simp add: silent_def)
qed

lemma silent_exchange:
  assumes "silent rs"
  shows "exchange_target rs = None" "exchange_read nb rs = None"
proof -
  have no: "rx_bytes (drop k rs) \<noteq> rtu_frame (a # m)" for k a m
    using assms by (simp add: silent_def rtu_frame_def)
  show "exchange_target rs = None"
    unfolding exchange_target_def first_good_None confirms_write_iff using no by blast
  show "exchange_read nb rs = None"
    unfolding exchange_read_def first_good_None carries_regs_iff using no by blast
qed

text \<open>\<open>n\<close> turns of the task.\<close>

fun regulator_turns :: "nat \<Rightarrow> reg \<Rightarrow> mb \<Rightarrow> (reg \<times> mb) option" where
  "regulator_turns 0 r st = Some (r, st)"
| "regulator_turns (Suc n) r st = do { (_, r, st) \<leftarrow> regulator_turn 0 r st; regulator_turns n r st }"

lemma silent_turn:
  assumes "link_ok st" "commandQueue r = []" "mobusRequst r = None" "silent (line st)" "errorCount r \<le> 5"
  shows "\<exists>st'. regulator_turn now r st = Some (None, turn_result r (line st), st') \<and> link_ok st' \<and> silent (line st') \<and>
    errorCount (turn_result r (line st)) = min 5 (errorCount r + (if gremote r then 2 else 3))"
proof -
  have s: "silent (after_target r (line st))" "silent (after_enabled r (line st))"
    using assms(4) by (simp_all add: after_target_def after_enabled_def Let_def)
  have "errorCount (turn_result r (line st)) = turn_errors r (line st)" by (simp add: turn_result_def)
  also have "\<dots> = min 5 (errorCount r + (if gremote r then 2 else 3))"
    using assms(5) silent_exchange [OF assms(4)] silent_exchange [OF s(1)] silent_exchange [OF s(2)]
    by (simp add: turn_errors_def count_error_def)
  finally show ?thesis using turn_spec [OF assms(1-3), of now] s(2) by auto
qed

lemma turn_result_keeps [simp]:
  "commandQueue (turn_result r rs) = commandQueue r" "mobusRequst (turn_result r rs) = mobusRequst r"
  "gremote (turn_result r rs) = gremote r" "reg_target (turn_result r rs) = reg_target r"
  "frames (turn_result r rs) = frames r"
  by (simp_all add: turn_result_def)

lemma silent_turns:
  "link_ok st \<Longrightarrow> commandQueue r = [] \<Longrightarrow> mobusRequst r = None \<Longrightarrow> silent (line st) \<Longrightarrow> errorCount r \<le> 5 \<Longrightarrow>
   \<exists>r' st'. regulator_turns n r st = Some (r', st') \<and>
     errorCount r' = min 5 (errorCount r + n * (if gremote r then 2 else 3)) \<and>
     (0 < n \<longrightarrow> connected r' = (errorCount r' < 5))"
proof (induction n arbitrary: r st)
  case (Suc n)
  let ?r = "turn_result r (line st)"
  obtain st1 where st1: "regulator_turn 0 r st = Some (None, ?r, st1)" "link_ok st1" "silent (line st1)"
    "errorCount ?r = min 5 (errorCount r + (if gremote r then 2 else 3))"
    using silent_turn [OF Suc.prems, of 0] by blast
  have "commandQueue ?r = []" "mobusRequst ?r = None" "errorCount ?r \<le> 5"
    using Suc.prems(2,3) st1(4) by simp_all
  from Suc.IH [OF st1(2) this(1,2) st1(3) this(3)] obtain r' st' where
    "regulator_turns n ?r st1 = Some (r', st')"
    "errorCount r' = min 5 (errorCount ?r + n * (if gremote r then 2 else 3))"
    "0 < n \<longrightarrow> connected r' = (errorCount r' < 5)" unfolding turn_result_keeps by blast
  moreover have "connected ?r = (errorCount ?r < 5)" by (simp add: turn_result_def)
  ultimately show ?case using st1(1,4) by (cases n) auto
qed simp

text \<open>C13: The retries.  \<open>writeRegs\<close> sends its message at most three times and \<open>readRegs\<close> at most \<open>n\<close>
  times, each stops at the first good reply, and succeeds if and only if there is one among the tries;
  the registers read are those of that reply, and without one the destination is unchanged.\<close>

theorem regulator_retries:
  assumes "link_ok st" "length regs \<le> 123" "nb \<le> 125" "nb \<le> length dst"
  shows "(\<exists>st' k. writeRegs st addr regs (int (length regs))
        = Some (\<exists>i<3. confirms_write (int (length regs)) (drop i (line st)), st') \<and> link_ok st' \<and>
      k \<le> 3 \<and> out st' = out st @ replicate k (write_message addr regs) \<and> line st' = drop k (line st) \<and>
      (\<forall>i. Suc i < k \<longrightarrow> \<not> confirms_write (int (length regs)) (drop i (line st)))) \<and>
    (\<exists>st' k dst'. readRegs n st addr dst (int nb) = Some (\<exists>i<n. carries_regs nb (drop i (line st)), dst', st') \<and>
      link_ok st' \<and> k \<le> n \<and> out st' = out st @ replicate k (read_message addr nb) \<and> line st' = drop k (line st) \<and>
      (\<forall>i. Suc i < k \<longrightarrow> \<not> carries_regs nb (drop i (line st))) \<and>
      dst' = (if \<exists>i<n. carries_regs nb (drop i (line st))
              then regs_in nb (drop (k - 1) (line st)) @ drop nb dst else dst))"
proof (rule conjI)
  let ?good = "confirms_write (int (length regs))"
  obtain st' j where j: "j = first_good ?good 3 (line st)"
    and st': "writeRegs st addr regs (int (length regs)) = Some (j \<noteq> None, st')" "link_ok st'"
    "line st' = drop (tries 3 j) (line st)" "out st' = out st @ replicate (tries 3 j) (write_message addr regs)"
    by (rule writeRegs_spec [OF assms(1,2), of addr])
  have ok: "(j \<noteq> None) = (\<exists>i<3. ?good (drop i (line st)))"
    unfolding j using first_good_None [of ?good 3 "line st"] by metis
  have "tries 3 j \<le> 3" unfolding j by (rule wrs.retry_bounded)
  moreover have "\<forall>i. Suc i < tries 3 j \<longrightarrow> \<not> ?good (drop i (line st))"
    using first_good_good [of ?good 3 "line st"] first_good_None [of ?good 3 "line st"] j
    by (cases j) (auto simp: tries_def)
  ultimately show "\<exists>st' k. writeRegs st addr regs (int (length regs))
        = Some (\<exists>i<3. ?good (drop i (line st)), st') \<and> link_ok st' \<and>
      k \<le> 3 \<and> out st' = out st @ replicate k (write_message addr regs) \<and> line st' = drop k (line st) \<and>
      (\<forall>i. Suc i < k \<longrightarrow> \<not> ?good (drop i (line st)))"
    using st' unfolding ok by blast
next
  let ?good = "carries_regs nb"
  obtain st' j where j: "j = first_good ?good n (line st)"
    and run: "readRegs n st addr dst (int nb) = Some (j \<noteq> None,
      (case j of Some j \<Rightarrow> regs_in nb (drop j (line st)) @ drop nb dst | None \<Rightarrow> dst), st')"
    and st': "link_ok st'" "line st' = drop (tries n j) (line st)" "out st' = out st @ replicate (tries n j) (read_message addr nb)"
    by (rule readRegs_spec [OF assms(1,3,4), of n addr])
  have ok: "(j \<noteq> None) = (\<exists>i<n. ?good (drop i (line st)))"
    unfolding j using first_good_None [of ?good n "line st"] by metis
  have "tries n j \<le> n" unfolding j by (rule rds.retry_bounded)
  moreover have "\<forall>i. Suc i < tries n j \<longrightarrow> \<not> ?good (drop i (line st))"
    using first_good_good [of ?good n "line st"] first_good_None [of ?good n "line st"] j
    by (cases j) (auto simp: tries_def)
  moreover have "(case j of Some j \<Rightarrow> regs_in nb (drop j (line st)) @ drop nb dst | None \<Rightarrow> dst)
      = (if j \<noteq> None then regs_in nb (drop (tries n j - 1) (line st)) @ drop nb dst else dst)"
    by (cases j) (simp_all add: tries_def)
  ultimately show "\<exists>st' k dst'. readRegs n st addr dst (int nb) = Some (\<exists>i<n. ?good (drop i (line st)), dst', st') \<and>
      link_ok st' \<and> k \<le> n \<and> out st' = out st @ replicate k (read_message addr nb) \<and> line st' = drop k (line st) \<and>
      (\<forall>i. Suc i < k \<longrightarrow> \<not> ?good (drop i (line st))) \<and>
      dst' = (if \<exists>i<n. ?good (drop i (line st)) then regs_in nb (drop (k - 1) (line st)) @ drop nb dst else dst)"
    using run st' unfolding ok by blast
qed

lemma link_ok_sample [simp]: "link_ok (mb_sample rs)"
  by (simp add: link_ok_def)

theorem regulator_retries_witness:
  "\<exists>st'. readRegs 3 (mb_sample [Rx (regs_reply [5]), RxTimeout]) 0x10B [0] 1 = Some (True, [5], st')"
proof -
  let ?rs = "[Rx (regs_reply [5]), RxTimeout]"
  have good: "carries_regs 1 (drop 0 ?rs)" "regs_in 1 (drop 0 ?rs) = [5]"
    using reply_carries [of "[5]" "[RxTimeout]"] by simp_all
  then have "\<exists>i<3. carries_regs 1 (drop i ?rs)" by (intro exI [of _ 0]) simp
  with regulator_retries [of "mb_sample ?rs" "[]" 1 "[0]" "0x10B" 3] obtain st' k where
    run: "readRegs 3 (mb_sample ?rs) 0x10B [0] 1 = Some (True, regs_in 1 (drop (k - 1) ?rs), st')"
    and k: "\<forall>i. Suc i < k \<longrightarrow> \<not> carries_regs 1 (drop i ?rs)"
    by auto
  have "k \<le> 1"
  proof (rule ccontr)
    assume "\<not> k \<le> 1"
    with k good(1) show False by (metis One_nat_def not_le)
  qed
  then have "k - 1 = 0" by simp
  with run good(2) show ?thesis by auto
qed

text \<open>C8: Supervision of the connection.  From a fresh error count, a line that has gone silent is
  reported as a lost connection after exactly two turns of the task, after three when the panel is
  controlled remotely and the target is not sent; the error count never exceeds its threshold.\<close>

theorem connection_supervision:
  assumes "link_ok st" "commandQueue r = []" "mobusRequst r = None" "silent (line st)" "errorCount r = 0" "0 < n"
  shows "\<exists>r' st'. regulator_turns n r st = Some (r', st') \<and> errorCount r' \<le> errorThreshold \<and>
    connected r' = (n < (if gremote r then 3 else 2))"
proof -
  have "errorCount r \<le> 5" using assms(5) by simp
  from silent_turns [OF assms(1-4) this, of n] assms(5,6) show ?thesis by auto
qed

theorem connection_supervision_witness:
  "(\<exists>r st. regulator_turns 1 initial_reg (mb_sample []) = Some (r, st) \<and> connected r) \<and>
   (\<exists>r st. regulator_turns 2 initial_reg (mb_sample []) = Some (r, st) \<and> \<not> connected r)"
  using connection_supervision [of "mb_sample []" initial_reg 1] connection_supervision [of "mb_sample []" initial_reg 2]
  by (auto simp: initial_reg_def silent_timeouts)

text \<open>C7: When the regulator answers, one turn sends exactly three messages, the target among them as the
  panel last set it, and the panel then reads the state and the enable flag that the regulator sent,
  and sees the connection up whatever the error count was before.\<close>

theorem measurements_reach_the_panel:
  assumes "link_ok st" "commandQueue r = []" "mobusRequst r = None" "\<not> gremote r"
    and "line st = Rx (rtu_frame [1, 0x10, 1, 0, 0, 11]) # Rx (regs_reply [e]) # Rx (regs_reply (state_regs s)) # rest"
  shows "\<exists>r' st'. regulator_turn now r st = Some (None, r', st') \<and>
    reg_getState r' = (s, True) \<and> reg_enableGet r' = (e \<noteq> 0, True) \<and> errorCount r' = 0 \<and> line st' = rest \<and>
    out st' = out st @ [write_message 0x0100 (target_regs (reg_target r)), enable_message, state_message]"
proof -
  have "hi8 11 = 0" "lo8 11 = 11" by (simp_all add: hi8_def lo8_def)
  then have "confirms_write 11 (line st)" using confirms_write_reply [of 11 1 0] by (simp add: assms(5))
  then have t: "exchange_target (line st) = Some 0" by (simp add: exchange_target_def numeral_3_eq_3)
  then have rs1: "after_target r (line st) = Rx (regs_reply [e]) # Rx (regs_reply (state_regs s)) # rest"
    using assms(4,5) by (simp add: after_target_def tries_def)
  have e: "exchange_read 1 (after_target r (line st)) = Some 0" "regs_in 1 (after_target r (line st)) = [e]"
    using reply_carries [of "[e]"] unfolding rs1 by (simp_all add: exchange_read_def numeral_3_eq_3)
  then have rs2: "after_enabled r (line st) = Rx (regs_reply (state_regs s)) # rest"
    by (simp add: after_enabled_def rs1 tries_def)
  have m: "exchange_read STATE_WORDS (after_enabled r (line st)) = Some 0"
    "regs_in STATE_WORDS (after_enabled r (line st)) = state_regs s"
    using reply_carries [of "state_regs s"] unfolding rs2 by (simp_all add: exchange_read_def numeral_3_eq_3)
  from turn_spec [OF assms(1-3), of now] obtain st' where
    "regulator_turn now r st = Some (None, turn_result r (line st), st')" "line st' = rest"
    "out st' = out st @ turn_messages r (line st)"
    unfolding m by (auto simp: tries_def rs2)
  moreover have "turn_messages r (line st) = [target_message r, enable_message, state_message]"
    using assms(4) unfolding turn_messages_def t e m tries_def by simp
  moreover have "turn_errors r (line st) = 0" by (simp add: turn_errors_def m count_error_def)
  moreover have "enabled (turn_result r (line st)) = e" "regMeas (turn_result r (line st)) = s"
    by (simp_all only: turn_result_def e m option.case drop_0 list.sel regs_state_of_state) simp_all
  ultimately show ?thesis
    by (simp add: target_message_def reg_getState_def reg_enableGet_def) (simp add: turn_result_def)
qed

theorem measurements_reach_the_panel_witness:
  "\<exists>r' st'. regulator_turn 0 initial_reg (mb_sample [Rx (rtu_frame [1, 0x10, 1, 0, 0, 11]), Rx (regs_reply [1]),
      Rx (regs_reply (state_regs zero_state))]) = Some (None, r', st') \<and> reg_getState r' = (zero_state, True)"
  using measurements_reach_the_panel [of "mb_sample [Rx (rtu_frame [1, 0x10, 1, 0, 0, 11]), Rx (regs_reply [1]),
      Rx (regs_reply (state_regs zero_state))]" initial_reg 1 zero_state "[]" 0]
  by (auto simp: initial_reg_def)

text \<open>The packed structs: the register images that go over the wire determine the target and the
  measurements, and have the sizes the register map gives them.\<close>

theorem regulator_images_roundtrip:
  "regs_target (target_regs t) = Some t \<and> regs_state (state_regs s) = s \<and>
   length (target_regs t) = TARGET_WORDS \<and> length (state_regs s) = STATE_WORDS"
  by (simp add: regs_target_of_target regs_state_of_state)

text \<open>Expiry of commands.  A command sent at tick \<open>t0\<close> and received at tick \<open>t\<close> is executed exactly
  when \<open>t < t0 + 150\<close>, and dropped otherwise, as long as the 32-bit tick count does not wrap; when the
  expiry time wraps, a command is dropped although it has not expired.\<close>

theorem command_expiry:
  assumes "commandQueue r = []" "t < 2 ^ 32" "t0 < 2 ^ 32"
  shows "(t0 + EXPIRE < 2 ^ 32 \<longrightarrow> (fst (task_receive t (reg_waitCommand_send c t0 q r)) \<noteq> None) = (t < t0 + EXPIRE)) \<and>
    (2 ^ 32 \<le> t0 + EXPIRE \<longrightarrow> t0 \<le> t \<longrightarrow> fst (task_receive t (reg_waitCommand_send c t0 q r)) = None)"
proof (rule conjI)
  let ?w = "of_nat t0 + of_nat EXPIRE :: u32"
  have rcv: "(fst (task_receive t (reg_waitCommand_send c t0 q r)) \<noteq> None) = (of_nat t < ?w)"
    using assms(1) by (simp add: task_receive_def reg_waitCommand_send_def Let_def)
  have lt: "(of_nat t < ?w) = (t < unat ?w)"
    using assms(2) by (simp add: word_less_nat_alt unat_of_nat32)
  show "t0 + EXPIRE < 2 ^ 32 \<longrightarrow> (fst (task_receive t (reg_waitCommand_send c t0 q r)) \<noteq> None) = (t < t0 + EXPIRE)"
    using unat_of_nat32 [of "t0 + EXPIRE"] unfolding rcv lt by simp
  show "2 ^ 32 \<le> t0 + EXPIRE \<longrightarrow> t0 \<le> t \<longrightarrow> fst (task_receive t (reg_waitCommand_send c t0 q r)) = None"
  proof (intro impI)
    assume wrap: "2 ^ 32 \<le> t0 + EXPIRE" and "t0 \<le> t"
    have "?w = of_nat (t0 + EXPIRE - 2 ^ 32)"
    proof -
      have "(of_nat (t0 + EXPIRE) :: u32) = of_nat (t0 + EXPIRE - 2 ^ 32) + of_nat (2 ^ 32)"
        using wrap by (simp only: of_nat_add [symmetric]) simp
      then show ?thesis by simp
    qed
    moreover have "t0 + EXPIRE - 2 ^ 32 < 2 ^ 32" using assms(3) by simp
    ultimately have "unat ?w = t0 + EXPIRE - 2 ^ 32" by (simp only: unat_of_nat32)
    then have "unat ?w < t0" using assms(3) wrap by simp
    with \<open>t0 \<le> t\<close> lt rcv show "fst (task_receive t (reg_waitCommand_send c t0 q r)) = None" by auto
  qed
qed

theorem command_expiry_witness:
  "fst (task_receive 149 (reg_waitCommand_send 7 0 (read_request 0x0110 [0]) initial_reg)) \<noteq> None \<and>
   fst (task_receive 4294967200 (reg_waitCommand_send 7 4294967200 (read_request 0x0110 [0]) initial_reg)) = None"
  using command_expiry [of initial_reg 149 0 7 "read_request 0x0110 [0]"]
    command_expiry [of initial_reg 4294967200 4294967200 7 "read_request 0x0110 [0]"]
  by (simp add: initial_reg_def)

end
