(* ===== verification/RegulatorBridge.thy ===== *)
theory RegulatorBridge
  imports RegulatorSpec
begin

unbundle bit_operations_syntax

text \<open>
  The bridge from Modbus TCP to the regulator: what a TCP request becomes on the line and in the
  response, and what an unchecked length field does.
\<close>

text \<open>A reply that the bridge forwards: an intact frame from slave 1 that announces its own length.\<close>

definition forwards :: "reception list \<Rightarrow> u8 list \<Rightarrow> bool" where
  "forwards rs rp \<longleftrightarrow> rx_bytes rs = rtu_frame (1 # rp) \<and> pdu_sized rp"

lemma rtu_lens [simp]:
  "nat (header_length modbus_rtu_backend) = 1" "nat (checksum_length modbus_rtu_backend) = 2"
  by simp_all

lemma well_sized_rtu: "well_sized modbus_rtu_backend (rtu_frame (1 # rp)) \<longleftrightarrow> pdu_sized rp"
  using rtu.well_sized_frame [of "mb_sample []" rp] by (simp add: rtu_adu_def)

lemma rtu_frame_body: "take (length (rtu_frame m) - 2) (rtu_frame m) = m"
  by (simp add: rtu_frame_def)

text \<open>What \<open>modbus_receive_confirmation\<close> yields in a buffer of 256 bytes.\<close>

lemma confirmation_forwards:
  assumes "link_ok st" "length buf = 256" "forwards (line st) rp"
  shows "modbus_receive_confirmation modbus_rtu_backend Ctx st buf
    = Some (int (length rp) + 3, rtu_frame (1 # rp) @ drop (length rp + 3) buf, line_next st)"
proof -
  have bs: "line_read (nat (max_adu_length modbus_rtu_backend)) st = rtu_frame (1 # rp)"
    using assms(3) by (simp add: forwards_def line_read_rx_bytes)
  have fits: "max_adu_length modbus_rtu_backend \<le> int (length buf)" using assms(2) by simp
  have "rtu_addressed st (take 1 (rtu_frame (1 # rp)))"
    using assms(1) by (simp add: rtu_addressed_def rtu_frame_def link_ok_def)
  moreover have "well_sized modbus_rtu_backend (rtu_frame (1 # rp))"
    using assms(3) by (simp add: well_sized_rtu forwards_def)
  moreover have "rtu_frame (1 # rp) \<noteq> []" by (simp add: rtu_frame_def)
  ultimately show ?thesis
    using rtu.receive_confirmation_spec [OF fits, of st]
    unfolding modbus_receive_confirmation_def bs rtu_lens rtu_frame_body Let_def
    by (simp add: add.commute eval_nat_numeral)
qed

lemma confirmation_fails:
  assumes "link_ok st" "length buf = 256" "\<nexists>rp. forwards (line st) rp"
    and "rx_bytes (line st) = [] \<or> hd (rx_bytes (line st)) \<noteq> 0"
  shows "\<exists>rc buf' st'. modbus_receive_confirmation modbus_rtu_backend Ctx st buf = Some (rc, buf', st')
    \<and> rc \<le> 0 \<and> length buf' = 256 \<and> link_ok st' \<and> line st' = tl (line st) \<and> out st' = out st"
proof -
  define bs where "bs = rx_bytes (line st)"
  have read: "line_read (nat (max_adu_length modbus_rtu_backend)) st = bs"
    by (simp add: bs_def line_read_rx_bytes)
  have fits: "max_adu_length modbus_rtu_backend \<le> int (length buf)" using assms(2) by simp
  have len: "length bs \<le> 256" by (auto simp: bs_def rx_bytes_def split: list.split reception.split)
  have slave: "slave (ctx st) = 1" using assms(1) by (simp add: link_ok_def)
  have bad: "bs = [] \<or> \<not> well_sized modbus_rtu_backend bs \<or> \<not> rtu_addressed st (take 1 bs)
      \<or> bs \<noteq> rtu_frame (take (length bs - 2) bs)"
  proof (rule ccontr)
    assume good: "\<not> ?thesis"
    then have "uint (hd bs) = 1" using assms(4) slave
      by (cases bs) (auto simp: rtu_addressed_def bs_def uint_0_iff)
    then have "hd bs = 1" by (metis uint_1 word_uint_eqI)
    then obtain rest where b: "bs = 1 # rest" using good by (cases bs) auto
    have "3 \<le> length bs" using rtu.well_sized_length [of bs] good by simp
    then have "take (length bs - 2) bs = 1 # take (length bs - 3) rest" by (simp add: b take_Cons' eval_nat_numeral)
    with good have f: "bs = rtu_frame (1 # take (length bs - 3) rest)" by metis
    with good have "pdu_sized (take (length bs - 3) rest)" using well_sized_rtu by metis
    with f assms(3) show False by (auto simp: forwards_def bs_def)
  qed
  show ?thesis
    using rtu.receive_confirmation_spec [OF fits, of st] bad assms(1,2) len
    unfolding modbus_receive_confirmation_def read rtu_lens Let_def
    by (auto simp: link_ok_def split: if_splits)
qed

section \<open>The raw message\<close>

lemma rawModbusMessage_sends:
  assumes "length (u # pdu @ rest) = 256" "length pdu \<le> 253"
  shows "rawModbusMessage st (u # pdu @ rest) (int (length pdu) + 1) = do {
      (rc, req, st) \<leftarrow> modbus_receive_confirmation modbus_rtu_backend Ctx (log_sent (rtu_frame (1 # pdu)) st)
          (rtu_frame (1 # pdu) @ drop 2 rest);
      if rc < 3 then Some (False, req, int (length pdu) + 1, st) else Some (True, req, rc - 2, st) }"
proof -
  have rest: "2 \<le> length rest" using assms by simp
  have "send_msg_pre modbus_rtu_backend ((1 # pdu) @ rest) (int (length (1 # pdu)))
      = Some (int (length (rtu_frame (1 # pdu))), rtu_frame (1 # pdu) @ drop 2 rest)"
    using rtu.send_pre [of rest "1 # pdu"] rest assms(2) by simp
  then have pre: "send_msg_pre modbus_rtu_backend (1 # pdu @ rest) (int (length pdu) + 1)
      = Some (int (length (rtu_frame (1 # pdu))), rtu_frame (1 # pdu) @ drop 2 rest)"
    by (simp add: add.commute)
  have send: "be_send modbus_rtu_backend st (rtu_frame (1 # pdu) @ drop 2 rest) (int (length (rtu_frame (1 # pdu))))
      = Some (int (length (rtu_frame (1 # pdu))), log_sent (rtu_frame (1 # pdu)) st)"
    by (subst rtu.send) simp_all
  have "wr (u # pdu @ rest) 0 (word_of_int 1) = Some (1 # pdu @ rest)" by (simp add: wr_def)
  then show ?thesis unfolding rawModbusMessage_def by (simp only: pre send Option.bind.simps prod.case)
qed

lemma log_sent_link [simp]: "link_ok (log_sent bs st) = link_ok st"
  by (simp add: link_ok_def)

lemma raw_forwards:
  assumes "link_ok st" "length (u # pdu @ rest) = 256" "length pdu \<le> 253" "forwards (line st) rp"
  shows "\<exists>req st'. rawModbusMessage st (u # pdu @ rest) (int (length pdu) + 1) = Some (True, req, int (length rp) + 1, st')
    \<and> length req = 256 \<and> take (length rp + 1) req = 1 # rp \<and> link_ok st' \<and> line st' = tl (line st)
    \<and> out st' = out st @ [rtu_frame (1 # pdu)]"
proof -
  let ?st = "log_sent (rtu_frame (1 # pdu)) st" and ?buf = "rtu_frame (1 # pdu) @ drop 2 rest"
  have buf: "length ?buf = 256" using assms(2,3) by simp
  have "rx_bytes (line st) = rtu_frame (1 # rp)" using assms(4) by (simp add: forwards_def)
  moreover have "length (rx_bytes (line st)) \<le> 256" by (auto simp: rx_bytes_def split: list.split reception.split)
  ultimately have rp: "length rp + 3 \<le> 256" by simp
  have "modbus_receive_confirmation modbus_rtu_backend Ctx ?st ?buf
      = Some (int (length rp) + 3, rtu_frame (1 # rp) @ drop (length rp + 3) ?buf, line_next ?st)"
    using assms(1,4) by (intro confirmation_forwards buf) simp_all
  then have run: "rawModbusMessage st (u # pdu @ rest) (int (length pdu) + 1)
      = Some (True, rtu_frame (1 # rp) @ drop (length rp + 3) ?buf, int (length rp) + 1, line_next ?st)"
    using rawModbusMessage_sends [OF assms(2,3), of st] by simp
  have "link_ok (line_next ?st)" using assms(1) by (simp add: link_ok_def)
  moreover have "length (rtu_frame (1 # rp) @ drop (length rp + 3) ?buf) = 256" using rp buf by simp
  moreover have "take (length rp + 1) (rtu_frame (1 # rp) @ drop (length rp + 3) ?buf) = 1 # rp"
    by (simp add: rtu_frame_def)
  ultimately show ?thesis using run by (intro exI conjI) (assumption | simp)+
qed

lemma raw_fails:
  assumes "link_ok st" "length (u # pdu @ rest) = 256" "length pdu \<le> 253" "\<nexists>rp. forwards (line st) rp"
    and "rx_bytes (line st) = [] \<or> hd (rx_bytes (line st)) \<noteq> 0"
  shows "\<exists>req st'. rawModbusMessage st (u # pdu @ rest) (int (length pdu) + 1) = Some (False, req, int (length pdu) + 1, st')
    \<and> length req = 256 \<and> link_ok st' \<and> line st' = tl (line st) \<and> out st' = out st @ [rtu_frame (1 # pdu)]"
proof -
  let ?st = "log_sent (rtu_frame (1 # pdu)) st" and ?buf = "rtu_frame (1 # pdu) @ drop 2 rest"
  have buf: "length ?buf = 256" using assms(2,3) by simp
  obtain rc buf' st' where c: "modbus_receive_confirmation modbus_rtu_backend Ctx ?st ?buf = Some (rc, buf', st')"
    "rc \<le> 0" "length buf' = 256" "link_ok st'" "line st' = tl (line ?st)" "out st' = out ?st"
    using confirmation_fails [of ?st ?buf] assms(1,4,5) buf by auto
  then have "rawModbusMessage st (u # pdu @ rest) (int (length pdu) + 1) = Some (False, buf', int (length pdu) + 1, st')"
    using rawModbusMessage_sends [OF assms(2,3), of st] by simp
  with c show ?thesis by (intro exI conjI) (assumption | simp)+
qed

section \<open>A TCP request\<close>

text \<open>A Modbus TCP packet: transaction and protocol identifiers, length, unit identifier, PDU.\<close>

definition tcp_packet :: "u8 list \<Rightarrow> int \<Rightarrow> u8 \<Rightarrow> u8 list \<Rightarrow> u8 list" where
  "tcp_packet ids len u pdu = ids @ [hi8 len, lo8 len, u] @ pdu"

lemma bridge_begin:
  assumes "length packet = TCP_PACKET" "length ids = 4" "length pdu \<le> 253" "0 \<le> len" "len < 65536"
  shows "\<exists>rest. reg_tcpModbusRequest_begin packet (tcp_packet ids len u pdu) (int (length pdu) + 7) r
      = Some (tcp_packet ids len u pdu @ rest,
          reg_modbusRequest_start (u # pdu @ rest) len (reg_setremote True r))
    \<and> length (u # pdu @ rest) = 256"
proof -
  let ?data = "tcp_packet ids len u pdu"
  have data: "length ?data = length pdu + 7" using assms(2) by (simp add: tcp_packet_def)
  then have "rds ?data 0 (int (length pdu) + 7) = Some ?data" by (simp add: rds_def nat_add_distrib)
  moreover have "wrs packet 0 ?data = Some (?data @ drop (length ?data) packet)"
    using assms(1,3) data by (intro wrs_0) simp
  moreover have "rd (?data @ drop (length ?data) packet) 4 = Some (hi8 len)"
    "rd (?data @ drop (length ?data) packet) 5 = Some (lo8 len)"
    "drop 6 (?data @ drop (length ?data) packet) = u # pdu @ drop (length ?data) packet"
    using assms(2) by (simp_all add: rd_def tcp_packet_def nth_append)
  moreover have "length (u # pdu @ drop (length ?data) packet) = 256" using assms(1,3) data by simp
  ultimately show ?thesis
    using assms(3-5)
    by (intro exI [of _ "drop (length ?data) packet"]) (simp add: reg_tcpModbusRequest_begin_def be16_hi8_lo8_id)
qed



text \<open>The length field of a TCP request is used without a check: whatever the packet holds, a length
  of 255 or more makes the CRC be stored behind the packet buffer.\<close>

theorem tcp_length_overflow:
  assumes "length packet = TCP_PACKET" "length ids = 4" "length pdu \<le> 253" "255 \<le> len" "len < 65536"
  shows "reg_tcpModbusRequest packet (tcp_packet ids len u pdu) (int (length pdu) + 7) r st = None"
proof -
  obtain rest where b: "reg_tcpModbusRequest_begin packet (tcp_packet ids len u pdu) (int (length pdu) + 7) r
      = Some (tcp_packet ids len u pdu @ rest, reg_modbusRequest_start (u # pdu @ rest) len (reg_setremote True r))"
    and size: "length (u # pdu @ rest) = 256"
    using bridge_begin [OF assms(1-3), of len u r] assms(4,5) by auto
  have "wrs (1 # pdu @ rest) len bs = None" if "length bs = 2" for bs
    using size that assms(4) by (simp add: wrs_def)
  then have "modbus_rtu_send_msg_pre (1 # pdu @ rest) len = None"
    by (cases "crc16_rtu (1 # pdu @ rest) (word_of_int len)") (simp_all add: modbus_rtu_send_msg_pre_def)
  then have "rawModbusMessage st (u # pdu @ rest) len = None"
    by (simp add: rawModbusMessage_def wr_def modbus_rtu_backend_def)
  then show ?thesis
    by (simp add: reg_tcpModbusRequest_def b task_raw_def reg_modbusRequest_start_def)
qed

theorem tcp_length_overflow_witness:
  "reg_tcpModbusRequest (replicate TCP_PACKET 0) (tcp_packet [0, 0, 0, 0] 255 1 [3]) 8 initial_reg (mb_sample []) = None"
  using tcp_length_overflow [of "replicate TCP_PACKET 0" "[0, 0, 0, 0]" "[3]" 255 1 initial_reg "mb_sample []"] by simp

end
