(* ===== verification/RegulatorSystem.thy ===== *)
theory RegulatorSystem
  imports RegulatorSpec
begin

unbundle bit_operations_syntax

text \<open>
  The regulator task and its callers running concurrently.  A step is one part of a turn of the task,
  or one section of a caller between two points where the scheduler may switch; sections under the
  mutex are one step.  The tick count is unbounded here; the code sees it modulo $2^{32}$.  Every call
  of \<open>reg_waitCommand\<close> has an identity of its own.
\<close>

section \<open>The system\<close>

text \<open>Where the task is in its loop; the command being served is a local variable.\<close>

datatype task_pc = AtTarget | AtReceive | AtExecute command | AtDeliver command bool | AtEnabled | AtMeasure
  | AtConnected | AtRaw

record sys =
  s_reg :: reg
  s_mb :: mb
  s_pc :: task_pc
  s_tick :: nat
  s_checked :: "nat set"
  s_used :: "nat set"
  s_deadline :: "nat \<Rightarrow> nat"

definition fits_registers :: "request \<Rightarrow> bool" where
  "fits_registers q \<longleftrightarrow> length (rq_src q) \<le> 123 \<and> length (rq_dst q) \<le> 125"

inductive sys_step :: "sys \<Rightarrow> sys \<Rightarrow> bool" where
  tick: "sys_step s (s\<lparr>s_tick := s_tick s + 1\<rparr>)"
| target: "s_pc s = AtTarget \<Longrightarrow> task_target (s_reg s) (s_mb s) = Some (r, st)
    \<Longrightarrow> sys_step s (s\<lparr>s_reg := r, s_mb := st, s_pc := AtReceive\<rparr>)"
| receive: "s_pc s = AtReceive \<Longrightarrow> task_receive (s_tick s) (s_reg s) = (cmd, r)
    \<Longrightarrow> sys_step s (s\<lparr>s_reg := r, s_pc := (case cmd of Some c \<Rightarrow> AtExecute c | None \<Rightarrow> AtEnabled)\<rparr>)"
| execute: "s_pc s = AtExecute c \<Longrightarrow> task_execute c (s_reg s) (s_mb s) = Some (result, r, st)
    \<Longrightarrow> sys_step s (s\<lparr>s_reg := r, s_mb := st, s_pc := AtDeliver c result\<rparr>)"
| deliver: "s_pc s = AtDeliver c result \<Longrightarrow> task_deliver c result (s_reg s) = Some r
    \<Longrightarrow> sys_step s (s\<lparr>s_reg := r, s_pc := AtEnabled\<rparr>)"
| enabled: "s_pc s = AtEnabled \<Longrightarrow> task_enabled (s_reg s) (s_mb s) = Some (r, st)
    \<Longrightarrow> sys_step s (s\<lparr>s_reg := r, s_mb := st, s_pc := AtMeasure\<rparr>)"
| measure: "s_pc s = AtMeasure \<Longrightarrow> task_measure (s_reg s) (s_mb s) = Some (r, st)
    \<Longrightarrow> sys_step s (s\<lparr>s_reg := r, s_mb := st, s_pc := AtConnected\<rparr>)"
| connected: "s_pc s = AtConnected \<Longrightarrow> sys_step s (s\<lparr>s_reg := task_connected (s_reg s), s_pc := AtRaw\<rparr>)"
| raw: "s_pc s = AtRaw \<Longrightarrow> task_raw (s_reg s) (s_mb s) = Some (served, r, st)
    \<Longrightarrow> sys_step s (s\<lparr>s_reg := r, s_mb := st, s_pc := AtTarget\<rparr>)"
| wait_check: "c \<notin> s_used s \<Longrightarrow> reg_waitCommand_check sem (s_reg s)
    \<Longrightarrow> sys_step s (s\<lparr>s_checked := insert c (s_checked s), s_used := insert c (s_used s)\<rparr>)"
| wait_send: "c \<in> s_checked s \<Longrightarrow> fits_registers q
    \<Longrightarrow> sys_step s (s\<lparr>s_reg := reg_waitCommand_send c (s_tick s) q (s_reg s),
          s_checked := s_checked s - {c}, s_deadline := (s_deadline s)(c := s_tick s + EXPIRE + 10)\<rparr>)"
| wait_return: "frames (s_reg s) c = Some fr \<Longrightarrow> f_given fr \<or> f_deadline fr \<le> s_tick s
    \<Longrightarrow> sys_step s (s\<lparr>s_reg := snd (reg_waitCommand_return c (s_reg s))\<rparr>)"
| panel_set: "r \<in> {snd (reg_voltageSet x (s_reg s)), snd (reg_currentSet x (s_reg s)), snd (reg_dacVoltageSet x (s_reg s)),
      snd (reg_dacCurrentSet x (s_reg s)), snd (reg_modeSet m (s_reg s)), snd (reg_timeSet x (s_reg s)),
      reg_setremote b (s_reg s)}
    \<Longrightarrow> sys_step s (s\<lparr>s_reg := r\<rparr>)"
| raw_start: "sys_step s (s\<lparr>s_reg := reg_modbusRequest_start req len (s_reg s)\<rparr>)"
| raw_end: "sys_step s (s\<lparr>s_reg := snd (reg_modbusRequest_end (s_reg s))\<rparr>)"

definition initial_sys :: "mb \<Rightarrow> sys" where
  "initial_sys st = \<lparr>s_reg = initial_reg, s_mb = st, s_pc = AtTarget, s_tick = 0, s_checked = {}, s_used = {},
     s_deadline = \<lambda>_. 0\<rparr>"

inductive reachable :: "mb \<Rightarrow> sys \<Rightarrow> bool" for st where
  reach_init: "reachable st (initial_sys st)"
| reach_step: "reachable st s \<Longrightarrow> sys_step s s' \<Longrightarrow> reachable st s'"

section \<open>The invariant\<close>

text \<open>The commands the task may still touch.\<close>

definition pc_commands :: "task_pc \<Rightarrow> command list" where
  "pc_commands pc = (case pc of AtExecute c \<Rightarrow> [c] | AtDeliver c _ \<Rightarrow> [c] | _ \<Rightarrow> [])"

definition pending :: "sys \<Rightarrow> command list" where
  "pending s = pc_commands (s_pc s) @ commandQueue (s_reg s)"

text \<open>A command and the frame of its caller, while the frame lives: the register counts are those of the
  caller's variables, and the semaphore has not been given.\<close>

definition frame_matches :: "command \<Rightarrow> frame \<Rightarrow> bool" where
  "frame_matches cmd fr \<longleftrightarrow> writeNum cmd = int (length (f_src fr)) \<and> readNum cmd = int (length (f_dst fr)) \<and>
     \<not> f_given fr"

definition sys_inv :: "sys \<Rightarrow> bool" where
  "sys_inv s \<longleftrightarrow> link_ok (s_mb s) \<and> errorCount (s_reg s) \<le> errorThreshold \<and>
     length (commandQueue (s_reg s)) \<le> QUEUE_LENGTH \<and>
     distinct (map owner (pending s)) \<and> owner ` set (pending s) \<subseteq> s_used s - s_checked s \<and>
     s_checked s \<subseteq> s_used s \<and> (\<forall>c \<in> s_checked s. frames (s_reg s) c = None) \<and>
     dom (frames (s_reg s)) \<subseteq> s_used s \<and>
     (\<forall>cmd \<in> set (pending s). writeNum cmd \<le> 123 \<and> readNum cmd \<le> 125 \<and>
        (\<forall>fr. frames (s_reg s) (owner cmd) = Some fr \<longrightarrow> frame_matches cmd fr) \<and>
        (s_tick s < s_deadline s (owner cmd) \<longrightarrow> frames (s_reg s) (owner cmd) \<noteq> None)) \<and>
     (\<forall>c fr. frames (s_reg s) c = Some fr \<longrightarrow> f_deadline fr = s_deadline s c)"

section \<open>What each part of a turn preserves\<close>

lemma rtu_recv_same:
  "modbus_rtu_recv st buf n = Some (rc, buf', st') \<Longrightarrow> ctx st' = ctx st \<and> g_req st' = g_req st \<and> g_rsp st' = g_rsp st"
  by (auto simp: modbus_rtu_recv_def modbus_serial_recv_def set_errno_def Let_def
      split: list.splits reception.splits option.splits if_splits bind_splits)

lemma check_integrity_same:
  "modbus_rtu_check_integrity st buf n = Some (rc, st') \<Longrightarrow> ctx st' = ctx st \<and> g_req st' = g_req st \<and> g_rsp st' = g_rsp st"
  by (auto simp: modbus_rtu_check_integrity_def modbus_rtu_flush_def set_errno_def Let_def
      split: option.splits if_splits bind_splits)

lemma receive_msg_same:
  "modbus_receive_msg modbus_rtu_backend st buf ty = Some (rc, buf', st')
    \<Longrightarrow> ctx st' = ctx st \<and> g_req st' = g_req st \<and> g_rsp st' = g_rsp st"
  by (auto simp: modbus_receive_msg_def modbus_rtu_backend_def set_errno_def Let_def
      split: option.splits if_splits bind_splits dest!: rtu_recv_same check_integrity_same)

lemma rtu_send_fields:
  "be_send modbus_rtu_backend = modbus_rtu_send" "send_msg_pre modbus_rtu_backend = modbus_rtu_send_msg_pre"
  by (simp_all add: modbus_rtu_backend_def)

lemma raw_same:
  "rawModbusMessage st req n = Some (ok, req', n', st') \<Longrightarrow> link_ok st \<Longrightarrow> link_ok st'"
  by (auto simp: rawModbusMessage_def modbus_receive_confirmation_def link_ok_def mb_ok_def
      rtu_send_fields modbus_rtu_send_def modbus_serial_send_def
      split: option.splits if_splits bind_splits dest!: receive_msg_same)

text \<open>The parts that talk to the regulator return, keep the context usable, and change nothing of the
  shared state but the error count and what they read.\<close>

lemma count_error_bound: "e \<le> errorThreshold \<Longrightarrow> count_error ok e \<le> errorThreshold"
  by (simp add: count_error_def)

lemma task_target_inv:
  assumes "link_ok st" "errorCount r \<le> errorThreshold"
  shows "\<exists>e st'. task_target r st = Some (r\<lparr>errorCount := e\<rparr>, st') \<and> link_ok st' \<and> e \<le> errorThreshold"
  by (rule task_target_spec [OF assms(1), of r])
    (use assms(2) count_error_bound in \<open>auto intro: exI [of _ "errorCount r"]\<close>)

lemma task_enabled_inv:
  assumes "link_ok st" "errorCount r \<le> errorThreshold"
  shows "\<exists>v e st'. task_enabled r st = Some (r\<lparr>enabled := v, errorCount := e\<rparr>, st') \<and> link_ok st' \<and> e \<le> errorThreshold"
  by (rule task_enabled_spec [OF assms(1), of r]) (use assms(2) count_error_bound in blast)

lemma task_measure_inv:
  assumes "link_ok st" "errorCount r \<le> errorThreshold"
  shows "\<exists>v e st'. task_measure r st = Some (r\<lparr>regMeas := v, errorCount := e\<rparr>, st') \<and> link_ok st' \<and> e \<le> errorThreshold"
  by (rule task_measure_spec [OF assms(1), of r]) (use assms(2) count_error_bound in blast)

lemma writeReg_total: "link_ok st \<Longrightarrow> \<exists>ok st1. writeReg st a v = Some (ok, st1) \<and> link_ok st1"
  by (rule writeReg_spec [of st a v]) blast+

lemma writeRegs_total:
  "link_ok st \<Longrightarrow> length regs \<le> 123 \<Longrightarrow> \<exists>ok st1. writeRegs st a regs (int (length regs)) = Some (ok, st1) \<and> link_ok st1"
  by (rule writeRegs_spec [of st regs a]) blast+

text \<open>A command whose caller's frame lives is executed: memory is safe and the frame keeps its shape.\<close>

lemma task_execute_inv:
  assumes "link_ok st" "frames r (owner cmd) = Some fr" "frame_matches cmd fr" "writeNum cmd \<le> 123" "readNum cmd \<le> 125"
  shows "\<exists>ok dst st'. task_execute cmd r st
      = Some (ok, r\<lparr>frames := (frames r)(owner cmd := Some (fr\<lparr>f_dst := dst\<rparr>))\<rparr>, st')
    \<and> link_ok st' \<and> length dst = length (f_dst fr)"
proof -
  have nums: "writeNum cmd = int (length (f_src fr))" "readNum cmd = int (length (f_dst fr))"
    using assms(3) by (simp_all add: frame_matches_def)
  have "\<exists>ok st1. (if writeNum cmd \<noteq> 0 then do {
          fr \<leftarrow> frames r (owner cmd);
          if writeNum cmd = 1 then do { v \<leftarrow> rd (f_src fr) 0; writeReg st (writeAddr cmd) v }
          else writeRegs st (writeAddr cmd) (f_src fr) (writeNum cmd)
        } else Some (False, st)) = Some (ok, st1) \<and> link_ok st1"
  proof -
    consider "writeNum cmd = 0" | "writeNum cmd = 1" | "writeNum cmd \<noteq> 0" "writeNum cmd \<noteq> 1" by blast
    then show ?thesis
    proof cases
      case 1
      then show ?thesis using assms(1) by (intro exI [of _ False] exI [of _ st]) simp
    next
      case 2
      then obtain v where "f_src fr = [v]" using nums(1) by (cases "f_src fr") auto
      then show ?thesis
        using 2 assms(2) writeReg_total [OF assms(1), of "writeAddr cmd" v] by (simp add: rd_def)
    next
      case 3
      have "length (f_src fr) \<le> 123" using assms(4) nums by simp
      from writeRegs_total [OF assms(1) this, of "writeAddr cmd"] 3 assms(2) show ?thesis
        unfolding nums(1) [symmetric] by simp
    qed
  qed
  then obtain ok st1 where w: "(if writeNum cmd \<noteq> 0 then do {
          fr \<leftarrow> frames r (owner cmd);
          if writeNum cmd = 1 then do { v \<leftarrow> rd (f_src fr) 0; writeReg st (writeAddr cmd) v }
          else writeRegs st (writeAddr cmd) (f_src fr) (writeNum cmd)
        } else Some (False, st)) = Some (ok, st1)" "link_ok st1" by blast
  show ?thesis
  proof (cases "readNum cmd = 0")
    case True
    have "r = r\<lparr>frames := (frames r)(owner cmd := Some (fr\<lparr>f_dst := f_dst fr\<rparr>))\<rparr>"
      using assms(2) by (simp add: fun_upd_idem)
    with True w show ?thesis unfolding task_execute_def by (intro exI [of _ ok] exI [of _ "f_dst fr"] exI [of _ st1]) simp
  next
    case False
    have size: "length (f_dst fr) \<le> 125" "length (f_dst fr) \<le> length (f_dst fr)" using assms(5) nums(2) by simp_all
    define j where "j = exchange_read (length (f_dst fr)) (line st1)"
    define dst where "dst = (case j of Some j \<Rightarrow> regs_in (length (f_dst fr)) (drop j (line st1)) @ drop (length (f_dst fr)) (f_dst fr)
        | None \<Rightarrow> f_dst fr)"
    obtain st2 where r: "readRegs 3 st1 (readAddr cmd) (f_dst fr) (readNum cmd) = Some (j \<noteq> None, dst, st2)" "link_ok st2"
      using read_three [OF w(2) size nums(2) j_def, of "readAddr cmd"] unfolding dst_def by blast
    have "length dst = length (f_dst fr)"
      using first_good_good [of "carries_regs (length (f_dst fr))" 3 "line st1"]
      by (cases j) (auto simp: dst_def j_def exchange_read_def carries_regs_def)
    with False w r assms(2) show ?thesis unfolding task_execute_def
      by (intro exI [of _ "j \<noteq> None"] exI [of _ dst] exI [of _ st2]) simp
  qed
qed

section \<open>Every step preserves the invariant\<close>

lemma inv_neutral:
  assumes "sys_inv s" "frames r = frames (s_reg s)" "commandQueue r = commandQueue (s_reg s)"
    and "errorCount r \<le> errorThreshold" "link_ok st" "pc_commands pc = pc_commands (s_pc s)"
  shows "sys_inv (s\<lparr>s_reg := r, s_mb := st, s_pc := pc\<rparr>)"
  using assms unfolding sys_inv_def pending_def by simp

lemma inv_neutral_reg:
  assumes "sys_inv s" "frames r = frames (s_reg s)" "commandQueue r = commandQueue (s_reg s)"
    and "errorCount r \<le> errorThreshold"
  shows "sys_inv (s\<lparr>s_reg := r\<rparr>)"
  using assms unfolding sys_inv_def pending_def by simp

lemma inv_facts:
  assumes "sys_inv s"
  shows "link_ok (s_mb s)" "errorCount (s_reg s) \<le> errorThreshold"
  using assms by (simp_all add: sys_inv_def)

lemma inv_tick: "sys_inv s \<Longrightarrow> sys_inv (s\<lparr>s_tick := s_tick s + 1\<rparr>)"
  unfolding sys_inv_def pending_def by auto

lemma inv_receive:
  assumes "sys_inv s" "s_pc s = AtReceive" "task_receive (s_tick s) (s_reg s) = (cmd, r)"
  shows "sys_inv (s\<lparr>s_reg := r, s_pc := (case cmd of Some c \<Rightarrow> AtExecute c | None \<Rightarrow> AtEnabled)\<rparr>)"
proof (cases "commandQueue (s_reg s)")
  case Nil
  then show ?thesis
    using assms inv_neutral [OF assms(1), of "s_reg s" "s_mb s" AtEnabled] inv_facts [OF assms(1)]
    by (auto simp: task_receive_def pc_commands_def)
next
  case (Cons c rest)
  from assms(3) Cons have "r = (s_reg s)\<lparr>commandQueue := rest\<rparr> \<and> (cmd = Some c \<or> cmd = None)"
    by (auto simp: task_receive_def split: if_splits)
  then show ?thesis
    using assms(1,2) Cons unfolding sys_inv_def pending_def by (auto simp: pc_commands_def)
qed

lemma inv_execute:
  assumes inv: "sys_inv s" and pc: "s_pc s = AtExecute c"
    and run: "task_execute c (s_reg s) (s_mb s) = Some (result, r, st)"
    and alive: "frames (s_reg s) (owner c) = Some fr"
  shows "sys_inv (s\<lparr>s_reg := r, s_mb := st, s_pc := AtDeliver c result\<rparr>)"
proof -
  have c: "c \<in> set (pending s)" by (simp add: pending_def pc pc_commands_def)
  with inv alive have m: "frame_matches c fr" "writeNum c \<le> 123" "readNum c \<le> 125"
    by (auto simp: sys_inv_def)
  obtain dst where r: "r = (s_reg s)\<lparr>frames := (frames (s_reg s))(owner c := Some (fr\<lparr>f_dst := dst\<rparr>))\<rparr>"
    and st: "link_ok st" and len: "length dst = length (f_dst fr)"
    using task_execute_inv [OF inv_facts(1) [OF inv] alive m] run by auto
  have "frame_matches d (fr\<lparr>f_dst := dst\<rparr>)" if "frame_matches d fr" for d
    using that len by (simp add: frame_matches_def)
  then show ?thesis
    using inv alive st pc unfolding sys_inv_def pending_def r by (auto simp: pc_commands_def)
qed

lemma inv_deliver:
  assumes inv: "sys_inv s" and pc: "s_pc s = AtDeliver c result" and run: "task_deliver c result (s_reg s) = Some r"
  shows "sys_inv (s\<lparr>s_reg := r, s_pc := AtEnabled\<rparr>)"
proof -
  obtain fr where fr: "frames (s_reg s) (owner c) = Some fr"
    and r: "r = (s_reg s)\<lparr>frames := (frames (s_reg s))(owner c := Some (fr\<lparr>f_result := Some result, f_given := True\<rparr>))\<rparr>"
    using run by (auto simp: task_deliver_def split: bind_splits)
  have "distinct (map owner (c # commandQueue (s_reg s)))"
    using inv by (simp add: sys_inv_def pending_def pc pc_commands_def)
  then have "owner d \<noteq> owner c" if "d \<in> set (commandQueue (s_reg s))" for d
    using that by (metis distinct.simps(2) image_eqI list.simps(9) set_map)
  then show ?thesis
    using inv fr pc unfolding sys_inv_def pending_def r by (auto simp: pc_commands_def)
qed

lemma inv_check:
  assumes "sys_inv s" "c \<notin> s_used s"
  shows "sys_inv (s\<lparr>s_checked := insert c (s_checked s), s_used := insert c (s_used s)\<rparr>)"
  using assms unfolding sys_inv_def pending_def by auto

lemma inv_send:
  assumes "sys_inv s" "c \<in> s_checked s" "fits_registers q"
  shows "sys_inv (s\<lparr>s_reg := reg_waitCommand_send c (s_tick s) q (s_reg s), s_checked := s_checked s - {c},
     s_deadline := (s_deadline s)(c := s_tick s + EXPIRE + 10)\<rparr>)"
proof -
  have new: "c \<in> s_used s" "\<forall>d \<in> set (pending s). owner d \<noteq> c"
    using assms(1,2) by (auto simp: sys_inv_def)
  define cmd where "cmd = \<lparr>owner = c, writeAddr = rq_writeAddr q, readAddr = rq_readAddr q,
            writeNum = int (length (rq_src q)), readNum = int (length (rq_dst q)),
            expireTime = of_nat (s_tick s) + of_nat EXPIRE\<rparr>"
  define fr where "fr = \<lparr>f_src = rq_src q, f_dst = rq_dst q, f_result = None, f_given = False,
            f_deadline = s_tick s + EXPIRE + 10\<rparr>"
  define room where "room \<longleftrightarrow> length (commandQueue (s_reg s)) < QUEUE_LENGTH"
  let ?s = "s\<lparr>s_reg := reg_waitCommand_send c (s_tick s) q (s_reg s), s_checked := s_checked s - {c},
     s_deadline := (s_deadline s)(c := s_tick s + EXPIRE + 10)\<rparr>"
  have reg: "s_reg ?s = (s_reg s)\<lparr>frames := (frames (s_reg s))(c := Some fr),
      commandQueue := (if room then commandQueue (s_reg s) @ [cmd] else commandQueue (s_reg s))\<rparr>"
    by (simp add: reg_waitCommand_send_def cmd_def fr_def room_def Let_def)
  have pend: "pending ?s = (if room then pending s @ [cmd] else pending s)"
    unfolding pending_def reg by simp
  have cmd: "owner cmd = c" "frame_matches cmd fr" "writeNum cmd \<le> 123" "readNum cmd \<le> 125"
    using assms(3) by (simp_all add: cmd_def fr_def frame_matches_def fits_registers_def)
  have set: "set (pending ?s) \<subseteq> insert cmd (set (pending s))" unfolding pend by auto
  have "distinct (map owner (pending ?s))"
    using assms(1) new unfolding pend by (auto simp: sys_inv_def cmd(1))
  moreover have "owner ` set (pending ?s) \<subseteq> s_used s - (s_checked s - {c})"
    using assms(1) new cmd(1) set by (auto simp: sys_inv_def)
  moreover have "\<forall>d \<in> set (pending ?s). writeNum d \<le> 123 \<and> readNum d \<le> 125 \<and>
      (\<forall>f. frames (s_reg ?s) (owner d) = Some f \<longrightarrow> frame_matches d f) \<and>
      (s_tick s < s_deadline ?s (owner d) \<longrightarrow> frames (s_reg ?s) (owner d) \<noteq> None)"
  proof
    fix d assume "d \<in> set (pending ?s)"
    with set consider "d = cmd" | "d \<in> set (pending s)" by blast
    then show "writeNum d \<le> 123 \<and> readNum d \<le> 125 \<and>
      (\<forall>f. frames (s_reg ?s) (owner d) = Some f \<longrightarrow> frame_matches d f) \<and>
      (s_tick s < s_deadline ?s (owner d) \<longrightarrow> frames (s_reg ?s) (owner d) \<noteq> None)"
    proof cases
      case 1
      then show ?thesis unfolding reg using cmd by simp
    next
      case 2
      then show ?thesis unfolding reg using assms(1) new by (simp add: sys_inv_def)
    qed
  qed
  ultimately show ?thesis
    using assms(1) new unfolding sys_inv_def reg
    by (auto simp: room_def fr_def)
qed

lemma inv_return:
  assumes inv: "sys_inv s" and fr: "frames (s_reg s) c = Some fr" and "f_given fr \<or> f_deadline fr \<le> s_tick s"
  shows "sys_inv (s\<lparr>s_reg := snd (reg_waitCommand_return c (s_reg s))\<rparr>)"
proof -
  have "\<not> s_tick s < s_deadline s c" if "d \<in> set (pending s)" "owner d = c" for d
    using assms that by (auto simp: sys_inv_def frame_matches_def)
  then show ?thesis
    using inv unfolding sys_inv_def pending_def reg_waitCommand_return_def Let_def
    by (auto split: if_splits)
qed

lemma task_raw_frame:
  "task_raw r st = Some (served, r', st') \<Longrightarrow> frames r' = frames r \<and> commandQueue r' = commandQueue r
    \<and> errorCount r' = errorCount r \<and> (link_ok st \<longrightarrow> link_ok st')"
  by (auto simp: task_raw_def split: option.splits prod.splits bind_splits dest: raw_same)

lemma panel_frame:
  "r' \<in> {snd (reg_voltageSet x r), snd (reg_currentSet x r), snd (reg_dacVoltageSet x r),
      snd (reg_dacCurrentSet x r), snd (reg_modeSet m r), snd (reg_timeSet x r), reg_setremote b r}
    \<Longrightarrow> frames r' = frames r \<and> commandQueue r' = commandQueue r \<and> errorCount r' = errorCount r"
  by (auto simp: reg_voltageSet_def reg_currentSet_def reg_dacVoltageSet_def reg_dacCurrentSet_def reg_modeSet_def
      reg_timeSet_def reg_setremote_def)

lemma step_preserves:
  assumes "sys_step s s'" "sys_inv s"
  shows "sys_inv s'"
  using assms
proof (cases rule: sys_step.cases)
  case tick
  with inv_tick [OF assms(2)] show ?thesis by simp
next
  case (target r st)
  obtain e st1 where "task_target (s_reg s) (s_mb s) = Some ((s_reg s)\<lparr>errorCount := e\<rparr>, st1)" "link_ok st1" "e \<le> 5"
    using task_target_inv [OF inv_facts [OF assms(2)]] by blast
  with target show ?thesis by (auto intro!: inv_neutral [OF assms(2)] simp: pc_commands_def)
next
  case (receive cmd r)
  with inv_receive [OF assms(2)] show ?thesis by simp
next
  case (execute c result r st)
  show ?thesis
  proof (cases "frames (s_reg s) (owner c)")
    case None
    with execute have "r = s_reg s" "st = s_mb s"
      by (auto simp: task_execute_def split: if_splits)
    with execute inv_facts [OF assms(2)] inv_neutral [OF assms(2), of "s_reg s" "s_mb s" "AtDeliver c result"]
    show ?thesis by (simp add: pc_commands_def)
  next
    case (Some fr)
    with execute inv_execute [OF assms(2)] show ?thesis by auto
  qed
next
  case (deliver c result r)
  with inv_deliver [OF assms(2)] show ?thesis by simp
next
  case (enabled r st)
  obtain v e st1 where "task_enabled (s_reg s) (s_mb s) = Some ((s_reg s)\<lparr>enabled := v, errorCount := e\<rparr>, st1)"
    "link_ok st1" "e \<le> 5"
    using task_enabled_inv [OF inv_facts [OF assms(2)]] by blast
  with enabled show ?thesis by (auto intro!: inv_neutral [OF assms(2)] simp: pc_commands_def)
next
  case (measure r st)
  obtain v e st1 where "task_measure (s_reg s) (s_mb s) = Some ((s_reg s)\<lparr>regMeas := v, errorCount := e\<rparr>, st1)"
    "link_ok st1" "e \<le> 5"
    using task_measure_inv [OF inv_facts [OF assms(2)]] by blast
  with measure show ?thesis by (auto intro!: inv_neutral [OF assms(2)] simp: pc_commands_def)
next
  case connected
  then show ?thesis
    using inv_neutral [OF assms(2), of "task_connected (s_reg s)" "s_mb s" AtRaw] inv_facts [OF assms(2)]
    by (simp add: task_connected_def pc_commands_def)
next
  case (raw served r st)
  with task_raw_frame [OF raw(3)] inv_facts [OF assms(2)] show ?thesis
    by (auto intro!: inv_neutral [OF assms(2)] simp: pc_commands_def)
next
  case (wait_check c)
  with inv_check [OF assms(2)] show ?thesis by simp
next
  case (wait_send c q)
  with inv_send [OF assms(2)] show ?thesis by simp
next
  case (wait_return c fr)
  with inv_return [OF assms(2)] show ?thesis by simp
next
  case (panel_set r x m b)
  with panel_frame [OF panel_set(2)] inv_facts [OF assms(2)] show ?thesis
    by (auto intro!: inv_neutral_reg [OF assms(2)])
next
  case raw_start
  then show ?thesis using inv_facts [OF assms(2)]
    by (auto intro!: inv_neutral_reg [OF assms(2)] simp: reg_modbusRequest_start_def)
next
  case raw_end
  show ?thesis
  proof (cases "tcpSem (s_reg s)")
    case True
    then show ?thesis using raw_end inv_facts [OF assms(2)]
      by (auto intro!: inv_neutral_reg [OF assms(2)] simp: reg_modbusRequest_end_def)
  next
    case False
    then show ?thesis using raw_end assms(2)
      by (simp add: reg_modbusRequest_end_def)
  qed
qed

lemma reachable_inv: "reachable st s \<Longrightarrow> link_ok st \<Longrightarrow> sys_inv s"
proof (induction rule: reachable.induct)
  case reach_init
  then show ?case
    by (simp add: sys_inv_def initial_sys_def initial_reg_def pending_def pc_commands_def)
next
  case (reach_step s s')
  then show ?case using step_preserves by blast
qed

section \<open>Properties of the running system\<close>

text \<open>C5: Under every interleaving of the task with its callers the command queue holds at most eight
  commands of distinct calls, the error count stays within its threshold, the Modbus context stays
  usable, and a command never disagrees with the variables of its caller while these exist.\<close>

theorem regulator_system_invariant:
  assumes "link_ok st" "reachable st s"
  shows "length (commandQueue (s_reg s)) \<le> QUEUE_LENGTH \<and> distinct (map owner (commandQueue (s_reg s))) \<and>
    errorCount (s_reg s) \<le> errorThreshold \<and> link_ok (s_mb s) \<and>
    (\<forall>cmd \<in> set (commandQueue (s_reg s)). \<forall>fr. frames (s_reg s) (owner cmd) = Some fr \<longrightarrow> frame_matches cmd fr)"
  using reachable_inv [OF assms(2,1)] by (simp add: sys_inv_def pending_def)

theorem regulator_system_invariant_witness:
  "errorCount (s_reg (initial_sys (mb_sample []))) \<le> errorThreshold"
  using regulator_system_invariant [of "mb_sample []" "initial_sys (mb_sample [])"] by (simp add: reach_init)



text \<open>The way to a delivery on a silent line: a call, the target, the reception, the execution, which
  fails.\<close>

definition sample_command :: command where
  "sample_command = \<lparr>owner = 0, writeAddr = 0x0110, readAddr = 0, writeNum = 1, readNum = 0, expireTime = 150\<rparr>"

lemma reach_delivery:
  obtains s fr where "reachable (mb_sample []) s" "s_pc s = AtDeliver sample_command False"
    "frames (s_reg s) 0 = Some fr" "f_deadline fr = 160" "s_tick s = 0"
proof -
  let ?st = "mb_sample []"
  define fr where "fr = \<lparr>f_src = [0], f_dst = [], f_result = None, f_given = False, f_deadline = 160\<rparr>"
  let ?q = "write_request 0x0110 [regCrange_code reg_crange_hi]"
  define r where "r = initial_reg\<lparr>frames := [0 \<mapsto> fr], commandQueue := [sample_command]\<rparr>"
  have sent: "reg_waitCommand_send 0 0 ?q initial_reg = r"
    by (simp add: reg_waitCommand_send_def write_request_def initial_reg_def r_def fr_def
        sample_command_def Let_def)
  define s2 where "s2 = (initial_sys ?st)\<lparr>s_reg := r, s_used := {0}, s_deadline := (\<lambda>_. 0)(0 := 160)\<rparr>"
  have "reachable ?st (initial_sys ?st)" by (rule reach_init)
  moreover have "reg_waitCommand_check True initial_reg" by (simp add: reg_waitCommand_check_def initial_reg_def)
  then have "sys_step (initial_sys ?st) ((initial_sys ?st)\<lparr>s_checked := {0}, s_used := {0}\<rparr>)"
    using wait_check [of 0 "initial_sys ?st" True] by (simp add: initial_sys_def)
  moreover have "fits_registers ?q" by (simp add: fits_registers_def write_request_def)
  then have "sys_step ((initial_sys ?st)\<lparr>s_checked := {0}, s_used := {0}\<rparr>) s2"
    using wait_send [of 0 "(initial_sys ?st)\<lparr>s_checked := {0}, s_used := {0}\<rparr>" ?q] sent
    by (simp add: initial_sys_def s2_def)
  ultimately have s2: "reachable ?st s2" using reach_step by blast
  obtain e st1 where t: "task_target r ?st = Some (r\<lparr>errorCount := e\<rparr>, st1)" "link_ok st1" "line st1 = []"
    by (rule task_target_spec [of ?st r]) (auto simp: r_def initial_reg_def split: if_splits)
  define s3 where "s3 = s2\<lparr>s_reg := r\<lparr>errorCount := e\<rparr>, s_mb := st1, s_pc := AtReceive\<rparr>"
  have "sys_step s2 s3" unfolding s3_def using t(1) by (intro target) (simp_all add: s2_def initial_sys_def)
  then have s3: "reachable ?st s3" using s2 reach_step by blast
  define r4 where "r4 = r\<lparr>errorCount := e, commandQueue := []\<rparr>"
  define s4 where "s4 = s3\<lparr>s_reg := r4, s_pc := AtExecute sample_command\<rparr>"
  have "task_receive 0 (r\<lparr>errorCount := e\<rparr>) = (Some sample_command, r4)"
    by (simp add: task_receive_def r_def r4_def sample_command_def)
  then have "sys_step s3 s4"
    using receive [of s3 "Some sample_command" r4] by (simp add: s3_def s4_def s2_def initial_sys_def)
  then have s4: "reachable ?st s4" using s3 reach_step by blast
  obtain st2 where w: "writeReg st1 0x0110 0 = Some (False, st2)"
    by (rule writeReg_spec [OF t(2), of "0x0110" 0])
      (simp add: t(3) numeral_3_eq_3 confirms_single_def rx_bytes_def)
  have "task_execute sample_command r4 st1 = Some (False, r4, st2)"
    using w by (simp add: task_execute_def sample_command_def r4_def r_def fr_def rd_def)
  then have "sys_step s4 (s4\<lparr>s_reg := r4, s_mb := st2, s_pc := AtDeliver sample_command False\<rparr>)"
    by (intro execute) (simp_all add: s4_def s3_def)
  then have "reachable ?st (s4\<lparr>s_reg := r4, s_mb := st2, s_pc := AtDeliver sample_command False\<rparr>)"
    using s4 reach_step by blast
  then show thesis
    by (rule that [of _ fr]) (simp_all add: s4_def s3_def s2_def r4_def r_def fr_def initial_sys_def)
qed

lemma reach_ticks: "reachable st s \<Longrightarrow> reachable st (s\<lparr>s_tick := s_tick s + n\<rparr>)"
proof (induction n)
  case (Suc n)
  from reach_step [OF Suc.IH [OF Suc.prems] tick] show ?case by simp
qed simp

text \<open>C15: The wait can end too early.  A command that was received before it expired may still be in
  execution when its caller's deadline passes; the caller returns, and the task then stores the result
  through a pointer into a frame that is gone.\<close>

theorem stale_command_reachable:
  "\<exists>s c result. reachable (mb_sample []) s \<and> s_pc s = AtDeliver c result \<and> task_deliver c result (s_reg s) = None"
proof -
  obtain s fr where s: "reachable (mb_sample []) s" "s_pc s = AtDeliver sample_command False"
    "frames (s_reg s) 0 = Some fr" "f_deadline fr = 160" "s_tick s = 0"
    by (rule reach_delivery)
  define s1 where "s1 = s\<lparr>s_tick := s_tick s + 160\<rparr>"
  have "reachable (mb_sample []) s1" unfolding s1_def by (rule reach_ticks [OF s(1)])
  moreover have "sys_step s1 (s1\<lparr>s_reg := snd (reg_waitCommand_return 0 (s_reg s1))\<rparr>)"
    by (rule wait_return [of _ _ fr]) (simp_all add: s1_def s)
  ultimately have "reachable (mb_sample []) (s1\<lparr>s_reg := snd (reg_waitCommand_return 0 (s_reg s1))\<rparr>)"
    using reach_step by blast
  then show ?thesis
    by (intro exI [of _ "s1\<lparr>s_reg := snd (reg_waitCommand_return 0 (s_reg s1))\<rparr>"] exI [of _ sample_command] exI [of _ False])
      (simp add: s1_def s(2) reg_waitCommand_return_def task_deliver_def sample_command_def Let_def)
qed

text \<open>Failures are reported as success.  A command whose exchange with the regulator failed, and whose
  result \<open>false\<close> was delivered, ends in \<open>reg_waitCommand\<close> returning true.\<close>

theorem failed_command_reported_as_success:
  "\<exists>s c fr. reachable (mb_sample []) s \<and> frames (s_reg s) c = Some fr \<and> f_given fr \<and> f_result fr = Some False \<and>
     fst (reg_waitCommand_return c (s_reg s))"
proof -
  obtain s fr where s: "reachable (mb_sample []) s" "s_pc s = AtDeliver sample_command False"
    "frames (s_reg s) 0 = Some fr" "f_deadline fr = 160" "s_tick s = 0"
    by (rule reach_delivery)
  let ?fr = "fr\<lparr>f_result := Some False, f_given := True\<rparr>"
  have "task_deliver sample_command False (s_reg s) = Some ((s_reg s)\<lparr>frames := (frames (s_reg s))(0 := Some ?fr)\<rparr>)"
    using s(3) by (simp add: task_deliver_def sample_command_def)
  from reach_step [OF s(1) deliver [OF s(2) this]] show ?thesis
    by (intro exI [of _ "s\<lparr>s_reg := (s_reg s)\<lparr>frames := (frames (s_reg s))(0 := Some ?fr)\<rparr>, s_pc := AtEnabled\<rparr>"]
        exI [of _ 0] exI [of _ ?fr]) (simp add: reg_waitCommand_return_def Let_def)
qed

end
