(* ===== verification/Calendar.thy ===== *)
theory Calendar
  imports Prelude "HOL-Library.Signed_Division"
begin

unbundle bit_operations_syntax

text \<open>
  Calendar time: \<open>utils/src/timegm.c\<close>, and the real-time clock driver \<open>hal/src/rtc.c\<close>, which holds
  the time in the BCD registers of the RTC peripheral.  \<open>int\<close> and \<open>time_t\<close> are \<^typ>\<open>int\<close>; the
  unsigned variables of the driver are words.  The peripheral is its register file, and what it does
  on its own is a script: the values that the polling loops read, one after the other.
\<close>

section \<open>utils: timegm.c\<close>

record tm =
  tm_sec :: int
  tm_min :: int
  tm_hour :: int
  tm_mday :: int
  tm_mon :: int
  tm_year :: int
  tm_wday :: int

definition is_leap :: "int \<Rightarrow> int" where
  "is_leap year =
     (if year smod 400 = 0 then 1 else if year smod 100 = 0 then 0 else if year smod 4 = 0 then 1 else 0)"

definition days_from_0 :: "int \<Rightarrow> int" where
  "days_from_0 year =
     (let year = year - 1 in 365 * year + (year sdiv 400) - (year sdiv 100) + (year sdiv 4))"

definition days_from_1970 :: "int \<Rightarrow> int" where
  "days_from_1970 year = (let days_from_0_to_1970 = days_from_0 1970 in days_from_0 year - days_from_0_to_1970)"

definition days_table :: "int list list" where
  "days_table = [[0, 31, 59, 90, 120, 151, 181, 212, 243, 273, 304, 334],
                 [0, 31, 60, 91, 121, 152, 182, 213, 244, 274, 305, 335]]"

definition days_from_1jan :: "int \<Rightarrow> int \<Rightarrow> int \<Rightarrow> int option" where
  "days_from_1jan year month day = do {
     row \<leftarrow> rd days_table (is_leap year);
     d \<leftarrow> rd row (month - 1);
     Some (d + day - 1)
   }"

definition timegm :: "tm \<Rightarrow> int option" where
  "timegm t =
     (let year = tm_year t + 1900;
          month = tm_mon t;
          (year, month) =
            (if month > 11 then (year + month sdiv 12, month smod 12)
             else if month < 0 then
               (let years_diff = (- month + 11) sdiv 12 in (year - years_diff, month + 12 * years_diff))
             else (year, month));
          month = month + 1;
          day = tm_mday t
      in do {
        day_of_year \<leftarrow> days_from_1jan year month day;
        let days_since_epoch = days_from_1970 year + day_of_year;
            seconds_in_day = 3600 * 24
        in Some (seconds_in_day * days_since_epoch + 3600 * tm_hour t + 60 * tm_min t + tm_sec t) })"

section \<open>hal: rtc.c\<close>

definition TM_RTC_Months :: "u32 list list" where
  "TM_RTC_Months = [[31, 28, 31, 30, 31, 30, 31, 31, 30, 31, 30, 31],
                    [31, 29, 31, 30, 31, 30, 31, 31, 30, 31, 30, 31]]"

definition binToBcd :: "u32 \<Rightarrow> u32" where
  "binToBcd x = push_bit 4 (x div 10) OR (x mod 10)"

definition yearIsLeap :: "int \<Rightarrow> int" where
  "yearIsLeap year = (if year mod 4 = 0 \<and> year mod 100 \<noteq> 0 \<or> year mod 400 = 0 then 1 else 0)"

definition getDaysInYear :: "int \<Rightarrow> u32" where
  "getDaysInYear year = (if yearIsLeap year \<noteq> 0 then 366 else 365)"

text \<open>The loop over the back years, and the loop over the months of the year, which indexes the table.\<close>

function back_years :: "int \<Rightarrow> int \<Rightarrow> u32 \<Rightarrow> u32" where
  "back_years i year days = (if i < year then back_years (i + 1) year (days + getDaysInYear i) else days)"
  by auto
termination by (relation "measure (\<lambda>(i, year, _). nat (year - i))") auto

function back_months :: "int \<Rightarrow> int \<Rightarrow> int \<Rightarrow> u32 \<Rightarrow> u32 option" where
  "back_months i mon year days =
     (if i < mon then do {
        row \<leftarrow> rd TM_RTC_Months (if yearIsLeap year \<noteq> 0 then 1 else 0);
        d \<leftarrow> rd row i;
        back_months (i + 1) mon year (days + d)
      } else Some days)"
  by pat_completeness auto
termination by (relation "measure (\<lambda>(i, mon, _). nat (mon - i))") auto

declare back_years.simps [simp del] back_months.simps [simp del]

definition tmToUnixTime :: "tm \<Rightarrow> int option" where
  "tmToUnixTime t =
     (let year = (tm_year t + 1900) mod 65536 in
      if year < 1970 then Some 0
      else do {
        days \<leftarrow> back_months 0 (tm_mon t) year (back_years 1970 year 0);
        let days = days + word_of_int (tm_mday t - 1);
            seconds = uint (days * 86400) + tm_hour t * 3600 + tm_min t * 60 + tm_sec t
        in Some seconds })"

text \<open>The registers that the driver touches.\<close>

record rtc_hw =
  BDCR :: u32
  APB1ENR :: u32
  PWR_CR :: u32
  RTC_CR :: u32
  ISR :: u32
  WPR :: u32
  TR :: u32
  DR :: u32

abbreviation (input) "RCC_BDCR_RTCEN \<equiv> (0x8000 :: u32)"
abbreviation (input) "RCC_BDCR_RTCSEL_0 \<equiv> (0x100 :: u32)"
abbreviation (input) "RCC_BDCR_LSEON \<equiv> (0x1 :: u32)"
abbreviation (input) "RCC_BDCR_LSERDY \<equiv> (0x2 :: u32)"
abbreviation (input) "RCC_BDCR_BDRST \<equiv> (0x10000 :: u32)"
abbreviation (input) "RCC_APB1ENR_PWREN \<equiv> (0x10000000 :: u32)"
abbreviation (input) "PWR_CR_DBP \<equiv> (0x100 :: u32)"
abbreviation (input) "RTC_CR_FMT \<equiv> (0x40 :: u32)"
abbreviation (input) "RTC_ISR_RSF \<equiv> (0x20 :: u32)"
abbreviation (input) "RTC_ISR_INITF \<equiv> (0x40 :: u32)"
abbreviation (input) "RTC_ISR_INIT \<equiv> (0x80 :: u32)"
abbreviation (input) "RTC_LSE_TIMEOUT \<equiv> (100000000 :: nat)"

text \<open>\<open>while((RTC->ISR & flag) == 0);\<close> on the script of readings; a flag that never comes is
  \<^term>\<open>None\<close>: the loop does not end.\<close>

fun wait_flag :: "u32 \<Rightarrow> u32 list \<Rightarrow> u32 list option" where
  "wait_flag flag [] = None"
| "wait_flag flag (r # rs) = (if r AND flag = 0 then wait_flag flag rs else Some rs)"

text \<open>The wait for the oscillator, on the readings of \<open>BDCR\<close>; when these end, the oscillator does not
  start and the count runs down to zero.\<close>

fun wait_lse :: "nat \<Rightarrow> u32 list \<Rightarrow> nat" where
  "wait_lse timeout [] = 0"
| "wait_lse timeout (r # rs) =
     (if r AND RCC_BDCR_LSERDY = 0 \<and> timeout \<noteq> 0 then wait_lse (timeout - 1) rs else timeout)"

definition rtc_start_lse :: "rtc_hw \<Rightarrow> rtc_hw" where
  "rtc_start_lse h =
     (let h = h\<lparr>APB1ENR := APB1ENR h OR RCC_APB1ENR_PWREN\<rparr>;
          h = h\<lparr>PWR_CR := PWR_CR h OR PWR_CR_DBP\<rparr>;
          h = h\<lparr>BDCR := BDCR h OR RCC_BDCR_BDRST\<rparr>;
          h = h\<lparr>BDCR := BDCR h AND NOT RCC_BDCR_BDRST\<rparr>;
          h = h\<lparr>BDCR := BDCR h AND NOT RCC_BDCR_RTCEN\<rparr>;
          h = h\<lparr>BDCR := BDCR h OR RCC_BDCR_RTCEN\<rparr>;
          h = h\<lparr>BDCR := BDCR h OR RCC_BDCR_RTCSEL_0\<rparr>
      in h\<lparr>BDCR := BDCR h OR RCC_BDCR_LSEON\<rparr>)"

text \<open>The register writes around a change of the calendar: the write protection is lifted and the
  initialization mode entered.\<close>

definition rtc_enter_init :: "rtc_hw \<Rightarrow> rtc_hw" where
  "rtc_enter_init h =
     (let h = h\<lparr>WPR := 0xCA\<rparr>; h = h\<lparr>WPR := 0x53\<rparr>; h = h\<lparr>ISR := 0xffffff\<rparr>
      in h\<lparr>ISR := ISR h OR RTC_ISR_INIT\<rparr>)"

definition rtc_leave_init :: "rtc_hw \<Rightarrow> rtc_hw" where
  "rtc_leave_init h =
     (let h = h\<lparr>ISR := ISR h AND NOT RTC_ISR_INIT\<rparr>; h = h\<lparr>WPR := 0xFF\<rparr>
      in h\<lparr>PWR_CR := PWR_CR h AND NOT PWR_CR_DBP\<rparr>)"

definition rtc_init :: "u32 list \<Rightarrow> u32 list \<Rightarrow> rtc_hw \<Rightarrow> (bool \<times> rtc_hw) option" where
  "rtc_init lse isr h =
     (if BDCR h AND RCC_BDCR_RTCEN = 0 then
        (let h = rtc_start_lse h;
             timeout = wait_lse RTC_LSE_TIMEOUT lse
         in if timeout = 0 then Some (False, h\<lparr>BDCR := BDCR h AND NOT RCC_BDCR_RTCEN\<rparr>)
            else do {
              isr \<leftarrow> wait_flag RTC_ISR_RSF isr;
              let h = rtc_enter_init h in do {
              isr \<leftarrow> wait_flag RTC_ISR_INITF isr;
              let h = h\<lparr>TR := 0x000000\<rparr>; h = h\<lparr>DR := 0x260101\<rparr>; h = h\<lparr>RTC_CR := RTC_CR h AND NOT RTC_CR_FMT\<rparr>
              in Some (True, rtc_leave_init h) } })
      else Some (True, h))"

text \<open>\<open>time\<close>: a field of a BCD register, and the calendar read from the registers.\<close>

definition reg_field :: "u32 \<Rightarrow> u32 \<Rightarrow> nat \<Rightarrow> int" where
  "reg_field r msk pos = uint (drop_bit pos (r AND msk))"

definition rtc_read :: "rtc_hw \<Rightarrow> tm" where
  "rtc_read h =
     (let rtctr = TR h; rtcdr = DR h in
      \<lparr>tm_sec = reg_field rtctr 0x0000000F 0 + reg_field rtctr 0x00000070 4 * 10,
       tm_min = reg_field rtctr 0x00000F00 8 + reg_field rtctr 0x00007000 12 * 10,
       tm_hour = reg_field rtctr 0x000F0000 16 + reg_field rtctr 0x00300000 20 * 10,
       tm_mday = reg_field rtcdr 0x0000000F 0 + reg_field rtcdr 0x00000030 4 * 10,
       tm_mon = reg_field rtcdr 0x00000F00 8 + reg_field rtcdr 0x00001000 12 * 10 - 1,
       tm_year = reg_field rtcdr 0x000F0000 16 + reg_field rtcdr 0x00F00000 20 * 10 + 100,
       tm_wday = reg_field rtcdr 0x0000E000 13\<rparr>)"

definition rtc_time :: "rtc_hw \<Rightarrow> int option" where
  "rtc_time h = tmToUnixTime (rtc_read h)"

definition rtc_setTime :: "u32 list \<Rightarrow> tm \<Rightarrow> rtc_hw \<Rightarrow> (bool \<times> rtc_hw) option" where
  "rtc_setTime isr t h =
     (if BDCR h AND RCC_BDCR_RTCEN = 0 \<or> BDCR h AND RCC_BDCR_LSERDY = 0 then Some (False, h)
      else if tm_sec t > 59 \<or> tm_min t > 59 \<or> tm_hour t > 23 \<or> tm_mday t > 31 \<or> tm_mon t > 12
        \<or> tm_year t < 100 \<or> tm_year t > 200 then Some (False, h)
      else
        (let rtctr = 0; rtcdr = 0;
             rtctr = rtctr OR push_bit 0 (binToBcd (word_of_int (tm_sec t)));
             rtctr = rtctr OR push_bit 8 (binToBcd (word_of_int (tm_min t)));
             rtctr = rtctr OR push_bit 16 (binToBcd (word_of_int (tm_hour t)));
             rtcdr = rtcdr OR push_bit 0 (binToBcd (word_of_int (tm_mday t)));
             rtcdr = rtcdr OR push_bit 8 (binToBcd (word_of_int (tm_mon t + 1)));
             rtcdr = rtcdr OR push_bit 16 (binToBcd (word_of_int (tm_year t - 100)));
             h = h\<lparr>PWR_CR := PWR_CR h OR PWR_CR_DBP\<rparr>
         in do {
           isr \<leftarrow> wait_flag RTC_ISR_RSF isr;
           let h = rtc_enter_init h in do {
           isr \<leftarrow> wait_flag RTC_ISR_INITF isr;
           let h = h\<lparr>TR := rtctr\<rparr>; h = h\<lparr>DR := rtcdr\<rparr> in Some (True, rtc_leave_init h) } }))"

section \<open>The Gregorian calendar\<close>

text \<open>The calendar itself: the length of a month and the day after (and before) a date.  It gives the
  standard library's \<open>gmtime_r\<close> its meaning, and is the reference for \<open>timegm\<close>.\<close>

type_synonym date = "int \<times> int \<times> int"

definition month_days :: "int \<Rightarrow> int \<Rightarrow> int" where
  "month_days year mon =
     (if mon = 1 then 28 + is_leap year else if mon \<in> {3, 5, 8, 10} then 30 else 31)"

fun next_day :: "date \<Rightarrow> date" where
  "next_day (y, m, d) =
     (if d < month_days y m then (y, m, d + 1) else if m < 11 then (y, m + 1, 1) else (y + 1, 0, 1))"

fun prev_day :: "date \<Rightarrow> date" where
  "prev_day (y, m, d) =
     (if 1 < d then (y, m, d - 1) else if 0 < m then (y, m - 1, month_days y (m - 1)) else (y - 1, 11, 31))"

definition date_of :: "int \<Rightarrow> date" where
  "date_of n = (if 0 \<le> n then (next_day ^^ nat n) (1970, 0, 1) else (prev_day ^^ nat (- n)) (1970, 0, 1))"

definition gmtime_r :: "int \<Rightarrow> tm" where
  "gmtime_r t =
     (let days = t div 86400; s = t mod 86400; (y, m, d) = date_of days in
      \<lparr>tm_sec = s mod 60, tm_min = s div 60 mod 60, tm_hour = s div 3600, tm_mday = d, tm_mon = m,
       tm_year = y - 1900, tm_wday = (4 + days) mod 7\<rparr>)"

definition rtc_setTimeUnix :: "u32 list \<Rightarrow> int \<Rightarrow> rtc_hw \<Rightarrow> (bool \<times> rtc_hw) option" where
  "rtc_setTimeUnix isr timeUnix h = rtc_setTime isr (gmtime_r timeUnix) h"

section \<open>Counting days\<close>

fun valid_date :: "date \<Rightarrow> bool" where
  "valid_date (y, m, d) \<longleftrightarrow> 1970 \<le> y \<and> 0 \<le> m \<and> m < 12 \<and> 1 \<le> d \<and> d \<le> month_days y m"

fun day_count :: "date \<Rightarrow> int" where
  "day_count (y, m, d) = days_from_1970 y + days_table ! nat (is_leap y) ! nat m + d - 1"

lemma sdiv_nonneg: "0 \<le> (x :: int) \<Longrightarrow> 0 < k \<Longrightarrow> x sdiv k = x div k"
  by (simp add: signed_divide_int_def sgn_if)

lemma smod_nonneg: "0 \<le> (x :: int) \<Longrightarrow> 0 < k \<Longrightarrow> x smod k = x mod k"
  by (cases "x = 0") (simp_all add: signed_modulo_int_def)

lemma is_leap_nonneg:
  "0 \<le> y \<Longrightarrow> is_leap y = (if y mod 400 = 0 then 1 else if y mod 100 = 0 then 0 else if y mod 4 = 0 then 1 else 0)"
  by (simp add: is_leap_def smod_nonneg)

lemma is_leap_cases: "is_leap y = 0 \<or> is_leap y = 1"
  by (simp add: is_leap_def)

lemma days_from_0_pos: "1 \<le> y \<Longrightarrow> days_from_0 y = 365 * (y - 1) + (y - 1) div 400 - (y - 1) div 100 + (y - 1) div 4"
  by (simp add: days_from_0_def Let_def sdiv_nonneg)

lemma div_step: "0 < k \<Longrightarrow> (y :: int) div k = (y - 1) div k + (if y mod k = 0 then 1 else 0)"
proof -
  assume k: "0 < k"
  have y: "y = k * (y div k) + y mod k" by simp
  show ?thesis
  proof (cases "y mod k = 0")
    case True
    then have "y - 1 = k * (y div k - 1) + (k - 1)" using y by (simp add: algebra_simps)
    moreover have "(k * (y div k - 1) + (k - 1)) div k = y div k - 1" using k by simp
    ultimately have "(y - 1) div k = y div k - 1" by (simp only:)
    then show ?thesis using True by simp
  next
    case False
    then have b: "0 \<le> y mod k - 1" "y mod k - 1 < k"
      using pos_mod_sign [OF k, of y] pos_mod_bound [OF k, of y] by linarith+
    have "y - 1 = k * (y div k) + (y mod k - 1)" using y by simp
    moreover have "(k * (y div k) + (y mod k - 1)) div k = y div k" using k b by simp
    ultimately have "(y - 1) div k = y div k" by (simp only:)
    then show ?thesis using False by (simp only: if_False)
  qed
qed

lemma leap_sum:
  fixes a b c :: int
  assumes "a = a' + (if p then 1 else 0)" "b = b' + (if q then 1 else 0)" "c = c' + (if r then 1 else 0)"
    "p \<Longrightarrow> q" "q \<Longrightarrow> r"
  shows "365 * y + a - b + c = 365 * (y - 1) + a' - b' + c' + 365 + (if p then 1 else if q then 0 else if r then 1 else 0)"
  using assms by auto

lemma days_from_0_step: "1 \<le> y \<Longrightarrow> days_from_0 (y + 1) = days_from_0 y + 365 + is_leap y"
proof -
  assume y: "1 \<le> y"
  have p: "y mod 400 = 0 \<Longrightarrow> y mod 100 = 0" and q: "y mod 100 = 0 \<Longrightarrow> y mod 4 = 0"
    using mod_mod_cancel [of 100 400 y] mod_mod_cancel [of 4 100 y] by simp_all
  have "days_from_0 (y + 1) = 365 * y + y div 400 - y div 100 + y div 4"
    using y by (simp add: days_from_0_pos)
  also have "\<dots> = days_from_0 y + 365 + is_leap y"
    unfolding days_from_0_pos [OF y] is_leap_nonneg [OF order_trans [OF zero_le_one y]]
    by (rule leap_sum [OF div_step div_step div_step p q]) simp_all
  finally show "days_from_0 (y + 1) = days_from_0 y + 365 + is_leap y" .
qed

lemma days_table_step:
  assumes "0 \<le> m" "m < 11"
  shows "days_table ! nat (is_leap y) ! nat (m + 1) = days_table ! nat (is_leap y) ! nat m + month_days y m"
proof -
  have "m = 0 \<or> m = 1 \<or> m = 2 \<or> m = 3 \<or> m = 4 \<or> m = 5 \<or> m = 6 \<or> m = 7 \<or> m = 8 \<or> m = 9 \<or> m = 10"
    using assms by arith
  then show ?thesis
    using is_leap_cases [of y] by (auto simp: days_table_def month_days_def)
qed

lemma days_table_ends [simp]:
  "days_table ! nat (is_leap y) ! 0 = 0" "days_table ! nat (is_leap y) ! 11 = 334 + is_leap y"
  using is_leap_cases [of y] by (auto simp: days_table_def)

lemma day_count_next: "valid_date d \<Longrightarrow> valid_date (next_day d) \<and> day_count (next_day d) = day_count d + 1"
proof (cases d)
  case (fields y m k)
  assume v: "valid_date d"
  show ?thesis
  proof (cases "k < month_days y m")
    case True
    then show ?thesis using v by (simp add: fields)
  next
    case last: False
    then have k: "k = month_days y m" using v by (simp add: fields)
    show ?thesis
    proof (cases "m < 11")
      case True
      moreover have "1 \<le> month_days y (m + 1)" using is_leap_cases [of y] by (auto simp: month_days_def)
      ultimately show ?thesis using v k days_table_step [of m y] by (simp add: fields)
    next
      case False
      then have "m = 11" using v by (simp add: fields)
      then show ?thesis using v k days_from_0_step [of y]
        by (simp add: fields days_from_1970_def month_days_def Let_def)
    qed
  qed
qed

lemma day_count_date_of: "0 \<le> n \<Longrightarrow> valid_date (date_of n) \<and> day_count (date_of n) = n"
proof -
  have "valid_date ((next_day ^^ k) (1970, 0, 1)) \<and> day_count ((next_day ^^ k) (1970, 0, 1)) = int k" for k
  proof (induction k)
    case 0
    then show ?case by (simp add: month_days_def days_from_1970_def Let_def)
  next
    case (Suc k)
    then show ?case using day_count_next [of "(next_day ^^ k) (1970, 0, 1)"] by (simp del: next_day.simps)
  qed
  from this [of "nat n"] show "0 \<le> n \<Longrightarrow> ?thesis" by (simp add: date_of_def)
qed

lemma days_from_0_mono: "1 \<le> y \<Longrightarrow> y \<le> z \<Longrightarrow> days_from_0 y \<le> days_from_0 z"
proof (rotate_tac, induction z rule: int_ge_induct)
  case (step z)
  then show ?case using days_from_0_step [of z] is_leap_cases [of z] by auto
qed simp

section \<open>What the functions compute\<close>

lemma days_table_rows:
  "rd days_table (is_leap y) = Some (days_table ! nat (is_leap y))" "length (days_table ! nat (is_leap y)) = 12"
  using is_leap_cases [of y] by (auto simp: rd_def days_table_def)

lemma timegm_eq:
  assumes "0 \<le> tm_mon t" "tm_mon t < 12"
  shows "timegm t = Some (86400 * day_count (tm_year t + 1900, tm_mon t, tm_mday t)
    + 3600 * tm_hour t + 60 * tm_min t + tm_sec t)"
  using assms by (simp add: timegm_def days_from_1jan_def days_table_rows rd_in Let_def)

lemma year_bounds:
  assumes "valid_date (y, m, d)"
  shows "days_from_1970 y \<le> day_count (y, m, d)" "day_count (y, m, d) < days_from_1970 (y + 1)"
proof -
  have m: "m = 0 \<or> m = 1 \<or> m = 2 \<or> m = 3 \<or> m = 4 \<or> m = 5 \<or> m = 6 \<or> m = 7 \<or> m = 8 \<or> m = 9 \<or> m = 10 \<or> m = 11"
    using assms by simp arith
  then have "0 \<le> days_table ! nat (is_leap y) ! nat m"
    "days_table ! nat (is_leap y) ! nat m + month_days y m \<le> 365 + is_leap y"
    using is_leap_cases [of y] by (auto simp: days_table_def month_days_def)
  then show "days_from_1970 y \<le> day_count (y, m, d)" "day_count (y, m, d) < days_from_1970 (y + 1)"
    using assms days_from_0_step [of y] by (simp_all add: days_from_1970_def Let_def)
qed

lemma days_from_0_values [simp]:
  "days_from_0 1970 = 719162" "days_from_0 2000 = 730119" "days_from_0 2100 = 766644" "days_from_0 2105 = 768470"
  by (simp_all add: days_from_0_pos)

lemma gmtime_r_simps:
  assumes "date_of (t div 86400) = (y, m, d)"
  shows "tm_mon (gmtime_r t) = m" "tm_mday (gmtime_r t) = d" "tm_year (gmtime_r t) = y - 1900"
    "tm_sec (gmtime_r t) = t mod 86400 mod 60" "tm_min (gmtime_r t) = t mod 86400 div 60 mod 60"
    "tm_hour (gmtime_r t) = t mod 86400 div 3600"
  by (simp_all only: gmtime_r_def assms Let_def prod.case tm.simps)

lemma time_of_day:
  assumes "0 \<le> (s :: int)" "s < 86400"
  shows "s div 3600 < 24" "3600 * (s div 3600) + 60 * (s div 60 mod 60) + s mod 60 = s"
proof -
  have q: "s div 3600 = s div 60 div 60" using zdiv_zmult2_eq [of 60 s 60] by simp
  have "60 * (s div 60 div 60) + s div 60 mod 60 = s div 60" "60 * (s div 60) + s mod 60 = s" by simp_all
  then show "3600 * (s div 3600) + 60 * (s div 60 mod 60) + s mod 60 = s" unfolding q by linarith
  show "s div 3600 < 24" using assms by simp
qed

lemma gmtime_r_years:
  assumes "946684800 \<le> t" "t < 4102444800"
  shows "100 \<le> tm_year (gmtime_r t)" "tm_year (gmtime_r t) < 200"
proof -
  obtain y m d where date: "date_of (t div 86400) = (y, m, d)" by (cases "date_of (t div 86400)")
  have days: "10957 \<le> t div 86400" "t div 86400 < 47482" using assms by simp_all
  then have v: "valid_date (y, m, d)" "day_count (y, m, d) = t div 86400"
    using day_count_date_of [of "t div 86400"] unfolding date by simp_all
  have y: "tm_year (gmtime_r t) = y - 1900" by (rule gmtime_r_simps [OF date])
  have "1970 \<le> y" using v(1) by simp
  moreover have "\<not> y + 1 \<le> 2000"
    using days_from_0_mono [of "y + 1" 2000] year_bounds(2) [OF v(1)] days(1) v(2) \<open>1970 \<le> y\<close>
    by (auto simp: days_from_1970_def Let_def)
  moreover have "\<not> 2100 \<le> y"
    using days_from_0_mono [of 2100 y] year_bounds(1) [OF v(1)] days(2) v(2)
    by (auto simp: days_from_1970_def Let_def)
  ultimately show "100 \<le> tm_year (gmtime_r t)" "tm_year (gmtime_r t) < 200" unfolding y by linarith+
qed

lemma gmtime_r_fields:
  assumes "0 \<le> t"
  shows "0 \<le> tm_mon (gmtime_r t)" "tm_mon (gmtime_r t) < 12" "1 \<le> tm_mday (gmtime_r t)" "tm_mday (gmtime_r t) \<le> 31"
    "0 \<le> tm_sec (gmtime_r t)" "tm_sec (gmtime_r t) < 60" "0 \<le> tm_min (gmtime_r t)" "tm_min (gmtime_r t) < 60"
    "0 \<le> tm_hour (gmtime_r t)" "tm_hour (gmtime_r t) < 24"
proof -
  obtain y m d where date: "date_of (t div 86400) = (y, m, d)" by (cases "date_of (t div 86400)")
  have "valid_date (y, m, d)" using assms day_count_date_of [of "t div 86400"] unfolding date by simp
  moreover have "month_days y m \<le> 31" using is_leap_cases [of y] by (auto simp: month_days_def)
  moreover have "t mod 86400 div 3600 < 24" by (rule time_of_day) simp_all
  ultimately show "0 \<le> tm_mon (gmtime_r t)" "tm_mon (gmtime_r t) < 12" "1 \<le> tm_mday (gmtime_r t)" "tm_mday (gmtime_r t) \<le> 31"
    "0 \<le> tm_sec (gmtime_r t)" "tm_sec (gmtime_r t) < 60" "0 \<le> tm_min (gmtime_r t)" "tm_min (gmtime_r t) < 60"
    "0 \<le> tm_hour (gmtime_r t)" "tm_hour (gmtime_r t) < 24"
    unfolding gmtime_r_simps [OF date] by simp_all
qed

lemma timegm_of_gmtime:
  assumes "0 \<le> t"
  shows "timegm (gmtime_r t) = Some t"
proof -
  obtain y m d where date: "date_of (t div 86400) = (y, m, d)" by (cases "date_of (t div 86400)")
  have "day_count (y, m, d) = t div 86400"
    using assms day_count_date_of [of "t div 86400"] unfolding date by simp
  moreover have "3600 * (t mod 86400 div 3600) + 60 * (t mod 86400 div 60 mod 60) + t mod 86400 mod 60 = t mod 86400"
    by (rule time_of_day) simp_all
  moreover have "86400 * (t div 86400) + t mod 86400 = t" by simp
  ultimately show ?thesis
    using timegm_eq [OF gmtime_r_fields(1,2) [OF assms]] unfolding gmtime_r_simps [OF date]
    by (simp only: diff_add_cancel add.assoc)
qed

lemma yearIsLeap_eq: "0 \<le> y \<Longrightarrow> yearIsLeap y = is_leap y"
proof -
  assume "0 \<le> y"
  moreover have "y mod 400 = 0 \<Longrightarrow> y mod 100 = 0" "y mod 100 = 0 \<Longrightarrow> y mod 4 = 0"
    using mod_mod_cancel [of 100 400 y] mod_mod_cancel [of 4 100 y] by simp_all
  ultimately show ?thesis by (auto simp: yearIsLeap_def is_leap_nonneg)
qed

lemma back_years_eq:
  "1970 \<le> i \<Longrightarrow> i \<le> y \<Longrightarrow> back_years i y days = days + word_of_int (days_from_0 y - days_from_0 i)"
proof (induction i y days rule: back_years.induct)
  case (1 i y days)
  show ?case
  proof (cases "i < y")
    case True
    have step: "getDaysInYear i = word_of_int (365 + is_leap i)"
      using 1(2) is_leap_cases [of i] by (auto simp: getDaysInYear_def yearIsLeap_eq)
    have sum: "(365 + is_leap i) + (days_from_0 y - days_from_0 (i + 1)) = days_from_0 y - days_from_0 i"
      using days_from_0_step [of i] 1(2) by simp
    have "back_years i y days = back_years (i + 1) y (days + getDaysInYear i)"
      using True by (simp add: back_years.simps [of i])
    also have "\<dots> = days + word_of_int (365 + is_leap i) + word_of_int (days_from_0 y - days_from_0 (i + 1))"
      using 1 True unfolding step by simp
    also have "\<dots> = days + word_of_int (days_from_0 y - days_from_0 i)"
      unfolding sum [symmetric] by (simp only: wi_hom_add [symmetric] add.assoc)
    finally show ?thesis .
  next
    case False
    then show ?thesis using 1 by (subst back_years.simps) simp
  qed
qed

lemma back_months_eq:
  assumes "0 \<le> m" "m < 12" "0 \<le> y"
  shows "back_months 0 m y days = Some (days + word_of_int (days_table ! nat (is_leap y) ! nat m))"
proof -
  have m: "m = 0 \<or> m = 1 \<or> m = 2 \<or> m = 3 \<or> m = 4 \<or> m = 5 \<or> m = 6 \<or> m = 7 \<or> m = 8 \<or> m = 9 \<or> m = 10 \<or> m = 11"
    using assms by arith
  have row: "rd TM_RTC_Months (if yearIsLeap y \<noteq> 0 then 1 else 0) = Some (TM_RTC_Months ! nat (is_leap y))"
    using is_leap_cases [of y] assms(3) by (auto simp: rd_def TM_RTC_Months_def yearIsLeap_eq)
  show ?thesis
    using m is_leap_cases [of y]
    by (elim disjE) (simp_all add: back_months.simps row, simp_all add: rd_def TM_RTC_Months_def days_table_def)
qed

lemma tmToUnixTime_run:
  "(tm_year t + 1900) mod 65536 = y \<Longrightarrow> 1970 \<le> y \<Longrightarrow> back_months 0 (tm_mon t) y (back_years 1970 y 0) = Some W \<Longrightarrow>
   tmToUnixTime t = Some (uint ((W + word_of_int (tm_mday t - 1)) * 86400) + tm_hour t * 3600 + tm_min t * 60 + tm_sec t)"
  by (simp add: tmToUnixTime_def Let_def)

lemma tmToUnixTime_eq:
  assumes "70 \<le> tm_year t" "tm_year t < 205" "0 \<le> tm_mon t" "tm_mon t < 12" "1 \<le> tm_mday t" "tm_mday t \<le> 31"
  shows "tmToUnixTime t = timegm t"
proof -
  define y m d where "y = tm_year t + 1900" and "m = tm_mon t" and "d = tm_mday t"
  have y: "1970 \<le> y" "y < 2105" "(tm_year t + 1900) mod 65536 = y" using assms(1,2) by (simp_all add: y_def)
  have m: "m = 0 \<or> m = 1 \<or> m = 2 \<or> m = 3 \<or> m = 4 \<or> m = 5 \<or> m = 6 \<or> m = 7 \<or> m = 8 \<or> m = 9 \<or> m = 10 \<or> m = 11"
    using assms(3,4) unfolding m_def by arith
  let ?c = "days_table ! nat (is_leap y) ! nat m"
  have c: "0 \<le> ?c" "?c \<le> 335" using m is_leap_cases [of y] by (auto simp: days_table_def)
  have run: "back_months 0 m y (back_years 1970 y 0) = Some (word_of_int (days_from_1970 y + ?c))"
    using back_months_eq [of m y] back_years_eq [of 1970 y 0] y assms(3,4)
    by (simp add: m_def days_from_1970_def Let_def)
  have W: "word_of_int (days_from_1970 y + ?c) + word_of_int (d - 1) = (word_of_int (day_count (y, m, d)) :: u32)"
    by (simp only: wi_hom_add) (simp add: add.assoc)
  have "0 \<le> day_count (y, m, d)" "day_count (y, m, d) < 49710"
    using c assms(5,6) days_from_0_mono [of 1970 y] days_from_0_mono [of y 2105] y(1,2)
    by (simp_all add: d_def days_from_1970_def Let_def)
  then have U: "uint (word_of_int (day_count (y, m, d)) * 86400 :: u32) = 86400 * day_count (y, m, d)"
    by (simp add: uint_word_ariths uint_word_of_int take_bit_eq_mod del: day_count.simps)
  show ?thesis
    unfolding timegm_eq [OF assms(3,4)] tmToUnixTime_run [OF y(3,1) run [unfolded m_def]]
      W [unfolded m_def d_def] U [unfolded m_def d_def]
    by (simp add: y_def del: day_count.simps)
qed

section \<open>The BCD registers\<close>

lemma bcd_digits:
  "\<forall>x \<in> set [0..<100]. binToBcd (of_nat x) < 256 \<and>
     uint (binToBcd (of_nat x) AND 0xF) = int (x mod 10) \<and>
     uint (drop_bit 4 (binToBcd (of_nat x) AND 0xF0)) = int (x div 10) \<and>
     (x < 80 \<longrightarrow> uint (drop_bit 4 (binToBcd (of_nat x) AND 0x70)) = int (x div 10)) \<and>
     (x < 40 \<longrightarrow> uint (drop_bit 4 (binToBcd (of_nat x) AND 0x30)) = int (x div 10)) \<and>
     (x < 20 \<longrightarrow> uint (drop_bit 4 (binToBcd (of_nat x) AND 0x10)) = int (x div 10))"
  by code_simp

lemma bcd:
  assumes "0 \<le> x" "x < 100"
  shows "binToBcd (word_of_int x) < 256" "uint (binToBcd (word_of_int x) AND 0xF) = x mod 10"
    "uint (drop_bit 4 (binToBcd (word_of_int x) AND 0xF0)) = x div 10"
    "x < 80 \<Longrightarrow> uint (drop_bit 4 (binToBcd (word_of_int x) AND 0x70)) = x div 10"
    "x < 40 \<Longrightarrow> uint (drop_bit 4 (binToBcd (word_of_int x) AND 0x30)) = x div 10"
    "x < 20 \<Longrightarrow> uint (drop_bit 4 (binToBcd (word_of_int x) AND 0x10)) = x div 10"
proof -
  have x: "x = int (nat x)" and "nat x \<in> set [0..<100]" using assms by auto
  note d = bcd_digits [rule_format, OF this(2)]
  have w: "word_of_int x = (of_nat (nat x) :: u32)" using assms(1) by simp
  have dm: "x mod 10 = int (nat x mod 10)" "x div 10 = int (nat x div 10)" using x by (simp_all add: zmod_int zdiv_int)
  show "binToBcd (word_of_int x) < 256" "uint (binToBcd (word_of_int x) AND 0xF) = x mod 10"
    "uint (drop_bit 4 (binToBcd (word_of_int x) AND 0xF0)) = x div 10"
    "x < 80 \<Longrightarrow> uint (drop_bit 4 (binToBcd (word_of_int x) AND 0x70)) = x div 10"
    "x < 40 \<Longrightarrow> uint (drop_bit 4 (binToBcd (word_of_int x) AND 0x30)) = x div 10"
    "x < 20 \<Longrightarrow> uint (drop_bit 4 (binToBcd (word_of_int x) AND 0x10)) = x div 10"
    unfolding w dm using d assms by linarith+
qed

text \<open>Three packed bytes keep their digits.\<close>

lemma byte_bit: "(a :: u32) < 256 \<Longrightarrow> bit a n \<Longrightarrow> n < 8"
proof (rule ccontr)
  assume a: "a < 256" "bit a n" "\<not> n < 8"
  then have "bit (uint a) n" using bit_imp_le_length [OF a(2)] by (simp add: bit_uint_iff)
  then have "odd (uint a div 2 ^ n)" by (simp add: bit_iff_odd)
  moreover have "uint a < 2 ^ 8" using a(1) by (simp add: word_less_def)
  moreover have "(2 :: int) ^ 8 \<le> 2 ^ n" using a(3) by (intro power_increasing) simp_all
  ultimately show False using uint_ge_0 [of a] div_pos_pos_trivial [of "uint a" "2 ^ n"] by (simp del: uint_ge_0)
qed

definition pack3 :: "u32 \<Rightarrow> u32 \<Rightarrow> u32 \<Rightarrow> u32" where
  "pack3 a b c = ((0 OR push_bit 0 a) OR push_bit 8 b) OR push_bit 16 c"

lemma packed_fields:
  assumes "a < 256" "b < 256" "c < 256"
  shows "drop_bit 0 (pack3 a b c AND 0xF) = a AND 0xF" "drop_bit 4 (pack3 a b c AND 0x70) = drop_bit 4 (a AND 0x70)"
    "drop_bit 4 (pack3 a b c AND 0x30) = drop_bit 4 (a AND 0x30)" "drop_bit 8 (pack3 a b c AND 0xF00) = b AND 0xF"
    "drop_bit 12 (pack3 a b c AND 0x7000) = drop_bit 4 (b AND 0x70)"
    "drop_bit 12 (pack3 a b c AND 0x1000) = drop_bit 4 (b AND 0x10)" "drop_bit 16 (pack3 a b c AND 0xF0000) = c AND 0xF"
    "drop_bit 20 (pack3 a b c AND 0x300000) = drop_bit 4 (c AND 0x30)"
    "drop_bit 20 (pack3 a b c AND 0xF00000) = drop_bit 4 (c AND 0xF0)"
proof -
  have m: "(15 :: u32) = mask 4" "(7 :: u32) = mask 3" "(3 :: u32) = mask 2" by (simp_all add: mask_eq_exp_minus_1)
  have hi: "bit a n \<Longrightarrow> n < 8" "bit b n \<Longrightarrow> n < 8" "bit c n \<Longrightarrow> n < 8" for n
    using byte_bit assms by blast+
  show "drop_bit 0 (pack3 a b c AND 0xF) = a AND 0xF" "drop_bit 4 (pack3 a b c AND 0x70) = drop_bit 4 (a AND 0x70)"
    "drop_bit 4 (pack3 a b c AND 0x30) = drop_bit 4 (a AND 0x30)" "drop_bit 8 (pack3 a b c AND 0xF00) = b AND 0xF"
    "drop_bit 12 (pack3 a b c AND 0x7000) = drop_bit 4 (b AND 0x70)"
    "drop_bit 12 (pack3 a b c AND 0x1000) = drop_bit 4 (b AND 0x10)" "drop_bit 16 (pack3 a b c AND 0xF0000) = c AND 0xF"
    "drop_bit 20 (pack3 a b c AND 0x300000) = drop_bit 4 (c AND 0x30)"
    "drop_bit 20 (pack3 a b c AND 0xF00000) = drop_bit 4 (c AND 0xF0)"
    unfolding pack3_def
    by (simp_all, unfold m) (rule bit_eqI; auto simp: bit_simps dest: hi)+
qed

lemma reg_field_pack3:
  assumes "0 \<le> x" "x < 100" "0 \<le> y" "y < 100" "0 \<le> z" "z < 100"
  defines "r \<equiv> pack3 (binToBcd (word_of_int x)) (binToBcd (word_of_int y)) (binToBcd (word_of_int z))"
  shows "reg_field r 0x0000000F 0 = x mod 10" "x < 80 \<Longrightarrow> reg_field r 0x00000070 4 = x div 10"
    "x < 40 \<Longrightarrow> reg_field r 0x00000030 4 = x div 10" "reg_field r 0x00000F00 8 = y mod 10"
    "y < 80 \<Longrightarrow> reg_field r 0x00007000 12 = y div 10" "y < 20 \<Longrightarrow> reg_field r 0x00001000 12 = y div 10"
    "reg_field r 0x000F0000 16 = z mod 10" "z < 40 \<Longrightarrow> reg_field r 0x00300000 20 = z div 10"
    "reg_field r 0x00F00000 20 = z div 10"
  unfolding r_def reg_field_def packed_fields [OF bcd(1) [OF assms(1,2)] bcd(1) [OF assms(3,4)] bcd(1) [OF assms(5,6)]]
  using bcd [OF assms(1,2)] bcd [OF assms(3,4)] bcd [OF assms(5,6)] by blast+

section \<open>Setting and reading the clock\<close>

lemma rtc_setTime_run:
  assumes "BDCR h AND RCC_BDCR_RTCEN \<noteq> 0" "BDCR h AND RCC_BDCR_LSERDY \<noteq> 0"
    and "tm_sec t \<le> 59" "tm_min t \<le> 59" "tm_hour t \<le> 23" "tm_mday t \<le> 31" "tm_mon t \<le> 12" "100 \<le> tm_year t" "tm_year t \<le> 200"
    and "wait_flag RTC_ISR_RSF isr = Some isr1" "wait_flag RTC_ISR_INITF isr1 = Some isr2"
  shows "\<exists>h'. rtc_setTime isr t h = Some (True, h') \<and> BDCR h' = BDCR h \<and>
    TR h' = pack3 (binToBcd (word_of_int (tm_sec t))) (binToBcd (word_of_int (tm_min t))) (binToBcd (word_of_int (tm_hour t))) \<and>
    DR h' = pack3 (binToBcd (word_of_int (tm_mday t))) (binToBcd (word_of_int (tm_mon t + 1)))
      (binToBcd (word_of_int (tm_year t - 100)))"
  using assms
  by (simp add: rtc_setTime_def rtc_enter_init_def rtc_leave_init_def pack3_def Let_def del: push_bit_0_id)

lemma rtc_read_back:
  assumes "0 \<le> tm_sec t" "tm_sec t \<le> 59" "0 \<le> tm_min t" "tm_min t \<le> 59" "0 \<le> tm_hour t" "tm_hour t \<le> 23"
    and "1 \<le> tm_mday t" "tm_mday t \<le> 31" "0 \<le> tm_mon t" "tm_mon t < 12" "100 \<le> tm_year t" "tm_year t < 200"
    and "TR h' = pack3 (binToBcd (word_of_int (tm_sec t))) (binToBcd (word_of_int (tm_min t))) (binToBcd (word_of_int (tm_hour t)))"
    and "DR h' = pack3 (binToBcd (word_of_int (tm_mday t))) (binToBcd (word_of_int (tm_mon t + 1)))
      (binToBcd (word_of_int (tm_year t - 100)))"
  shows "rtc_read h' = t\<lparr>tm_wday := tm_wday (rtc_read h')\<rparr>"
proof -
  have n: "x mod 10 + x div 10 * 10 = x" for x :: int by simp
  define mo yr where "mo = tm_mon t + 1" and "yr = tm_year t - 100"
  note f = reg_field_pack3 [of "tm_sec t" "tm_min t" "tm_hour t"] reg_field_pack3 [of "tm_mday t" mo yr]
  have "1 \<le> mo" "mo \<le> 12" "0 \<le> yr" "yr < 100" using assms(9-12) by (simp_all add: mo_def yr_def)
  moreover have "tm_mon t = mo - 1" "tm_year t = yr + 100" by (simp_all add: mo_def yr_def)
  ultimately show ?thesis
    using assms(1-8) unfolding rtc_read_def assms(13,14) mo_def [symmetric] yr_def [symmetric] Let_def
    by (intro tm.equality) (simp_all add: f n)
qed

section \<open>Properties of the clock\<close>



text \<open>C31: The two conversions of the firmware agree: the loops of the clock driver and the closed form of
  \<open>timegm\<close> give the same time for every date from 1970 to 2104, and the 32-bit count does not overflow.\<close>

theorem rtc_conversion_is_timegm:
  assumes "70 \<le> tm_year t" "tm_year t < 205" "0 \<le> tm_mon t" "tm_mon t < 12" "1 \<le> tm_mday t" "tm_mday t \<le> 31"
  shows "tmToUnixTime t = timegm t"
  using assms by (rule tmToUnixTime_eq)

definition sample_tm :: tm where
  "sample_tm = \<lparr>tm_sec = 59, tm_min = 59, tm_hour = 23, tm_mday = 29, tm_mon = 1, tm_year = 124, tm_wday = 0\<rparr>"

theorem rtc_conversion_is_timegm_witness: "tmToUnixTime sample_tm = timegm sample_tm"
  using rtc_conversion_is_timegm [of sample_tm] by (simp add: sample_tm_def)

lemma rtc_set_read:
  assumes "BDCR h AND RCC_BDCR_RTCEN \<noteq> 0" "BDCR h AND RCC_BDCR_LSERDY \<noteq> 0"
    and "wait_flag RTC_ISR_RSF isr = Some isr1" "wait_flag RTC_ISR_INITF isr1 = Some isr2"
    and "946684800 \<le> t" "t < 4102444800"
  shows "\<exists>h'. rtc_setTimeUnix isr t h = Some (True, h') \<and> rtc_time h' = Some t"
proof -
  let ?t = "gmtime_r t"
  have t: "0 \<le> t" using assms(5) by simp
  note fields = gmtime_r_fields [OF t] gmtime_r_years [OF assms(5,6)]
  obtain h' where h': "rtc_setTimeUnix isr t h = Some (True, h')"
    "TR h' = pack3 (binToBcd (word_of_int (tm_sec ?t))) (binToBcd (word_of_int (tm_min ?t))) (binToBcd (word_of_int (tm_hour ?t)))"
    "DR h' = pack3 (binToBcd (word_of_int (tm_mday ?t))) (binToBcd (word_of_int (tm_mon ?t + 1)))
      (binToBcd (word_of_int (tm_year ?t - 100)))"
    using rtc_setTime_run [OF assms(1,2) _ _ _ _ _ _ _ assms(3,4), of ?t] fields
    unfolding rtc_setTimeUnix_def by auto
  have read: "rtc_read h' = ?t\<lparr>tm_wday := tm_wday (rtc_read h')\<rparr>"
    using fields by (intro rtc_read_back [OF _ _ _ _ _ _ _ _ _ _ _ _ h'(2,3)]) simp_all
  have "rtc_time h' = timegm (rtc_read h')"
    unfolding rtc_time_def by (subst (1 2) read, rule tmToUnixTime_eq) (use fields in simp_all)
  also have "\<dots> = timegm ?t" by (subst read) (simp add: timegm_def)
  also have "\<dots> = Some t" by (rule timegm_of_gmtime [OF t])
  finally show ?thesis using h'(1) by blast
qed

definition rtc_running :: rtc_hw where
  "rtc_running = \<lparr>BDCR = 0x8103, APB1ENR = 0, PWR_CR = 0, RTC_CR = 0, ISR = 0, WPR = 0, TR = 0, DR = 0\<rparr>"

text \<open>C29: The clock keeps the time it is set to.  With the oscillator running and the peripheral
  answering, every time of the years 2000 to 2099 is accepted, and read back as the same time.\<close>

theorem rtc_set_then_read:
  assumes "BDCR h AND RCC_BDCR_RTCEN \<noteq> 0" "BDCR h AND RCC_BDCR_LSERDY \<noteq> 0"
    and "wait_flag RTC_ISR_RSF isr = Some isr1" "wait_flag RTC_ISR_INITF isr1 = Some isr2"
    and "946684800 \<le> t" "t < 4102444800"
  shows "\<exists>h'. rtc_setTimeUnix isr t h = Some (True, h') \<and> rtc_time h' = Some t"
  using assms by (rule rtc_set_read)

theorem rtc_set_then_read_witness:
  "\<exists>h'. rtc_setTimeUnix [0x20, 0, 0x40] 1700000000 rtc_running = Some (True, h') \<and> rtc_time h' = Some 1700000000"
  using rtc_set_then_read [of rtc_running "[0x20, 0, 0x40]" "[0, 0x40]" "[]" 1700000000] by (simp add: rtc_running_def)

text \<open>C0: The guard of \<open>rtc_setTime\<close>.  With the peripheral answering, it accepts a time exactly when the
  clock runs and the fields are below their limits, and a time it rejects changes no register.  The
  limits let the month number 12, which does not exist, and the day 0 through: month 13 is stored.\<close>

definition rtc_accepts :: "rtc_hw \<Rightarrow> tm \<Rightarrow> bool" where
  "rtc_accepts h t \<longleftrightarrow> BDCR h AND RCC_BDCR_RTCEN \<noteq> 0 \<and> BDCR h AND RCC_BDCR_LSERDY \<noteq> 0 \<and>
     tm_sec t \<le> 59 \<and> tm_min t \<le> 59 \<and> tm_hour t \<le> 23 \<and> tm_mday t \<le> 31 \<and> tm_mon t \<le> 12 \<and> tm_year t \<in> {100..200}"

theorem rtc_setTime_guard:
  assumes "wait_flag RTC_ISR_RSF isr = Some isr1" "wait_flag RTC_ISR_INITF isr1 = Some isr2"
  shows "\<exists>h'. rtc_setTime isr t h = Some (rtc_accepts h t, h') \<and>
    (if rtc_accepts h t
     then DR h' = pack3 (binToBcd (word_of_int (tm_mday t))) (binToBcd (word_of_int (tm_mon t + 1)))
       (binToBcd (word_of_int (tm_year t - 100)))
     else h' = h)"
proof (cases "rtc_accepts h t")
  case True
  then show ?thesis using rtc_setTime_run [OF _ _ _ _ _ _ _ _ _ assms, of h t] by (auto simp: rtc_accepts_def)
next
  case False
  then show ?thesis by (auto simp: rtc_setTime_def rtc_accepts_def)
qed

theorem rtc_setTime_guard_witness:
  "\<exists>h'. rtc_setTime [0x20, 0x40] (sample_tm\<lparr>tm_mon := 12, tm_mday := 0\<rparr>) rtc_running = Some (True, h') \<and>
      DR h' AND 0x1F3F = 0x1300"
  using rtc_setTime_guard [of "[0x20, 0x40]" "[0x40]" "[]" "sample_tm\<lparr>tm_mon := 12, tm_mday := 0\<rparr>" rtc_running]
  by (auto simp: rtc_accepts_def rtc_running_def sample_tm_def pack3_def binToBcd_def)

text \<open>After \<open>rtc_init\<close> on a reset backup domain whose oscillator starts, the clock reads midnight of
  2026-01-01; a clock that already runs is left alone, and an oscillator that does not start is an
  error with the clock disabled.\<close>

theorem rtc_init_outcome:
  assumes "BDCR h AND RCC_BDCR_RTCEN = 0" "wait_flag RTC_ISR_RSF isr = Some isr1" "wait_flag RTC_ISR_INITF isr1 = Some isr2"
  shows "(wait_lse RTC_LSE_TIMEOUT lse \<noteq> 0 \<longrightarrow> (\<exists>h'. rtc_init lse isr h = Some (True, h') \<and>
      rtc_time h' = timegm \<lparr>tm_sec = 0, tm_min = 0, tm_hour = 0, tm_mday = 1, tm_mon = 0, tm_year = 126, tm_wday = 0\<rparr> \<and>
      rtc_init lse' isr' h' = Some (True, h'))) \<and>
    (wait_lse RTC_LSE_TIMEOUT lse = 0 \<longrightarrow> (\<exists>h'. rtc_init lse isr h = Some (False, h') \<and> BDCR h' AND RCC_BDCR_RTCEN = 0))"
proof (intro conjI impI)
  have rtcen: "w AND RCC_BDCR_RTCEN = 0 \<longleftrightarrow> \<not> bit w 15" for w :: u32
    using and_exp_eq_0_iff_not_bit [of w 15] by simp
  let ?start = "\<lparr>tm_sec = 0, tm_min = 0, tm_hour = 0, tm_mday = 1, tm_mon = 0, tm_year = 126, tm_wday = 0\<rparr>"
  assume "wait_lse RTC_LSE_TIMEOUT lse \<noteq> 0"
  then obtain h' where h': "rtc_init lse isr h = Some (True, h')" "TR h' = 0" "DR h' = 0x260101"
    "BDCR h' = BDCR (rtc_start_lse h)"
    using assms by (simp add: rtc_init_def rtc_enter_init_def rtc_leave_init_def Let_def)
  have "rtc_read h' = ?start" by (simp add: rtc_read_def h' reg_field_def Let_def)
  then have "rtc_time h' = timegm ?start"
    unfolding rtc_time_def by (subst tmToUnixTime_eq) simp_all
  moreover have "bit (BDCR h') 15" by (simp add: h'(4) rtc_start_lse_def Let_def bit_simps)
  then have "rtc_init lse' isr' h' = Some (True, h')" by (simp add: rtc_init_def rtcen)
  ultimately show "\<exists>h'. rtc_init lse isr h = Some (True, h') \<and> rtc_time h' = timegm ?start \<and>
      rtc_init lse' isr' h' = Some (True, h')" using h'(1) by blast
next
  assume "wait_lse RTC_LSE_TIMEOUT lse = 0"
  then show "\<exists>h'. rtc_init lse isr h = Some (False, h') \<and> BDCR h' AND RCC_BDCR_RTCEN = 0"
    using assms(1) by (simp add: rtc_init_def Let_def)
      (simp add: bit_eq_iff bit_simps)
qed

theorem rtc_init_outcome_witness:
  "(\<exists>h'. rtc_init [0, 2] [0x20, 0x40] (rtc_running\<lparr>BDCR := 0\<rparr>) = Some (True, h') \<and> rtc_time h' =
      timegm \<lparr>tm_sec = 0, tm_min = 0, tm_hour = 0, tm_mday = 1, tm_mon = 0, tm_year = 126, tm_wday = 0\<rparr>) \<and>
   (\<exists>h'. rtc_init [0, 0] [0x20, 0x40] (rtc_running\<lparr>BDCR := 0\<rparr>) = Some (False, h') \<and> BDCR h' AND RCC_BDCR_RTCEN = 0)"
  using rtc_init_outcome [of "rtc_running\<lparr>BDCR := 0\<rparr>" "[0x20, 0x40]" "[0x40]" "[]" "[0, 2]"]
    rtc_init_outcome [of "rtc_running\<lparr>BDCR := 0\<rparr>" "[0x20, 0x40]" "[0x40]" "[]" "[0, 0]"]
  by (simp add: rtc_running_def) blast

end
