(* ===== verification/Keys.thy ===== *)
theory Keys
  imports Prelude "HOL-Library.Signed_Division"
begin

unbundle bit_operations_syntax

text \<open>
  The keyboard and the encoder: \<open>hal/src/key.c\<close> and \<open>hal/src/enco.c\<close>.  The pins and the counter of
  the timer are inputs.  The keyboard handles all keys in one pass over bit sets and arrays; the
  lemmas show that each key behaves like a small machine of its own.
\<close>

section \<open>hal: key.c\<close>

abbreviation (input) "KEY_NUM \<equiv> (7 :: nat)"
abbreviation (input) "KEY_SAMPLES \<equiv> (2 :: u8)"

datatype kKey = kMode | kFunc | kOnOff | kNext | kZero | kUp | kDown

fun kKey_mask :: "kKey \<Rightarrow> u32" where
  "kKey_mask kMode = push_bit 0 1"
| "kKey_mask kFunc = push_bit 1 1"
| "kKey_mask kOnOff = push_bit 2 1"
| "kKey_mask kNext = push_bit 3 1"
| "kKey_mask kZero = push_bit 4 1"
| "kKey_mask kUp = push_bit 5 1"
| "kKey_mask kDown = push_bit 6 1"

datatype pin = GP_bMode | GP_bView | GP_bOnOff | GP_bNext | GP_bZero | GP_bUp | GP_bDown

record key_type =
  dInState :: u32
  dInPrevState :: u32
  keyState :: u32
  reiterationSelect :: u32
  toFirstReiteration :: u8
  toReiteration :: u8
  dInFilterCnt :: "u8 list"
  toFirstReiterationCnt :: "u8 list"
  toReiterationCnt :: "u8 list"

definition initial_key :: key_type where
  "initial_key = \<lparr>dInState = 0, dInPrevState = 0, keyState = 0, reiterationSelect = 0, toFirstReiteration = 0,
     toReiteration = 0, dInFilterCnt = replicate KEY_NUM 0, toFirstReiterationCnt = replicate KEY_NUM 0,
     toReiterationCnt = replicate KEY_NUM 0\<rparr>"

definition dInUpdate :: "key_type \<Rightarrow> nat \<Rightarrow> bool \<Rightarrow> key_type option" where
  "dInUpdate k num val = do {
     c \<leftarrow> rd (dInFilterCnt k) (int num);
     if val then
       (if c < KEY_SAMPLES then do {
          cs \<leftarrow> wr (dInFilterCnt k) (int num) (c + 1);
          Some (k\<lparr>dInFilterCnt := cs\<rparr>)
        } else Some (k\<lparr>dInState := dInState k OR push_bit num 1\<rparr>))
     else
       (if c > 0 then do {
          cs \<leftarrow> wr (dInFilterCnt k) (int num) (c - 1);
          Some (k\<lparr>dInFilterCnt := cs\<rparr>)
        } else Some (k\<lparr>dInState := dInState k AND NOT (push_bit num 1)\<rparr>))
   }"

text \<open>The front detection and the reiteration of the loop body, for the key \<open>iterator\<close>, whose mask
  is \<open>1 << iterator\<close>.\<close>

definition key_front :: "u32 \<Rightarrow> key_type \<Rightarrow> key_type" where
  "key_front msk k =
     (if dInPrevState k AND msk = 0 \<and> dInState k AND msk \<noteq> 0 then k\<lparr>keyState := keyState k OR msk\<rparr>
      else k\<lparr>keyState := keyState k AND NOT msk\<rparr>)"

definition key_reiterate :: "nat \<Rightarrow> u32 \<Rightarrow> key_type \<Rightarrow> key_type option" where
  "key_reiterate iterator msk k =
     (if reiterationSelect k AND msk \<noteq> 0 then
        (if dInState k AND msk \<noteq> 0 then do {
           c \<leftarrow> rd (toFirstReiterationCnt k) (int iterator);
           if c < toFirstReiteration k then do {
             cs \<leftarrow> wr (toFirstReiterationCnt k) (int iterator) (c + 1);
             Some (k\<lparr>toFirstReiterationCnt := cs\<rparr>)
           } else do {
             c \<leftarrow> rd (toReiterationCnt k) (int iterator);
             if c < toReiteration k then do {
               cs \<leftarrow> wr (toReiterationCnt k) (int iterator) (c + 1);
               Some (k\<lparr>toReiterationCnt := cs\<rparr>)
             } else do {
               cs \<leftarrow> wr (toReiterationCnt k) (int iterator) 0;
               Some (k\<lparr>keyState := keyState k OR msk, toReiterationCnt := cs\<rparr>)
             }
           }
         } else do {
           cs \<leftarrow> wr (toFirstReiterationCnt k) (int iterator) 0;
           cs' \<leftarrow> wr (toReiterationCnt k) (int iterator) 0;
           Some (k\<lparr>toFirstReiterationCnt := cs, toReiterationCnt := cs'\<rparr>)
         })
      else Some k)"

definition key_loop :: "nat \<Rightarrow> key_type \<Rightarrow> key_type option" where
  "key_loop iterator k = (let msk = push_bit iterator 1 in key_reiterate iterator msk (key_front msk k))"

definition keyProc :: "(pin \<Rightarrow> bool) \<Rightarrow> key_type \<Rightarrow> (u32 \<times> key_type) option" where
  "keyProc gppin_get k = do {
     k \<leftarrow> dInUpdate k 0 (\<not> gppin_get GP_bMode);
     k \<leftarrow> dInUpdate k 1 (\<not> gppin_get GP_bView);
     k \<leftarrow> dInUpdate k 2 (\<not> gppin_get GP_bOnOff);
     k \<leftarrow> dInUpdate k 3 (\<not> gppin_get GP_bNext);
     k \<leftarrow> dInUpdate k 4 (\<not> gppin_get GP_bZero);
     k \<leftarrow> dInUpdate k 5 (\<not> gppin_get GP_bUp);
     k \<leftarrow> dInUpdate k 6 (\<not> gppin_get GP_bDown);
     k \<leftarrow> for_up 0 KEY_NUM key_loop k;
     let k = k\<lparr>dInPrevState := dInState k\<rparr> in Some (keyState k, k)
   }"

definition keyState_get :: "u32 \<Rightarrow> key_type \<Rightarrow> u32" where
  "keyState_get keyMask k = (if keyState k AND keyMask \<noteq> 0 then 1 else 0)"

definition keyDin :: "u32 \<Rightarrow> key_type \<Rightarrow> u32" where
  "keyDin keyMask k = (if dInState k AND keyMask \<noteq> 0 then 1 else 0)"

text \<open>The counters have 8 bits, the arguments 16.\<close>

definition ksSet :: "u16 \<Rightarrow> u16 \<Rightarrow> u16 \<Rightarrow> key_type \<Rightarrow> key_type" where
  "ksSet toFirst toReit keyMask k =
     k\<lparr>toFirstReiteration := ucast toFirst, toReiteration := ucast toReit, reiterationSelect := ucast keyMask\<rparr>"

section \<open>hal: enco.c\<close>

record enco =
  CNT :: u32
  enco_tic :: u16
  ntic :: u16

text \<open>\<open>0xFFFF / 4\<close>, the middle of the counter.\<close>

abbreviation (input) "ENCO_ZERO \<equiv> (16383 :: u32)"

definition enco_read :: "enco \<Rightarrow> int \<times> enco" where
  "enco_read e =
     (let step = sint (ucast (CNT e - ENCO_ZERO) :: u16);
          e = e\<lparr>CNT := ENCO_ZERO\<rparr>;
          step = (if step > 0 then (step + 2) sdiv 4 else if step < 0 then (step - 2) sdiv 4 else step)
      in (step, e))"

definition enco_update :: "enco \<Rightarrow> int \<times> enco" where
  "enco_update e =
     (if ntic e \<ge> enco_tic e then
        (let (step, e) = enco_read e;
             step = (if step > 2 \<or> step < - 2 then step * 7 else step)
         in (step, e\<lparr>ntic := 0\<rparr>))
      else (0, e\<lparr>ntic := ntic e + 1\<rparr>))"

definition enco_settic :: "u16 \<Rightarrow> enco \<Rightarrow> enco" where
  "enco_settic n e = e\<lparr>CNT := ENCO_ZERO, enco_tic := n\<rparr>"

section \<open>One key\<close>

text \<open>What the arrays and bit sets hold of one key, and the three phases of a scan on it.\<close>

record key1 =
  cnt :: u8
  st :: bool
  prev :: bool
  out :: bool
  sel :: bool
  first :: u8
  rep :: u8

definition key_at :: "nat \<Rightarrow> key_type \<Rightarrow> key1" where
  "key_at i k = \<lparr>cnt = dInFilterCnt k ! i, st = bit (dInState k) i, prev = bit (dInPrevState k) i,
     out = bit (keyState k) i, sel = bit (reiterationSelect k) i, first = toFirstReiterationCnt k ! i,
     rep = toReiterationCnt k ! i\<rparr>"

definition debounce :: "bool \<Rightarrow> key1 \<Rightarrow> key1" where
  "debounce val k =
     (if val then if cnt k < KEY_SAMPLES then k\<lparr>cnt := cnt k + 1\<rparr> else k\<lparr>st := True\<rparr>
      else if cnt k > 0 then k\<lparr>cnt := cnt k - 1\<rparr> else k\<lparr>st := False\<rparr>)"

definition scan :: "u8 \<Rightarrow> u8 \<Rightarrow> key1 \<Rightarrow> key1" where
  "scan F R k =
     (let k = k\<lparr>out := \<not> prev k \<and> st k\<rparr> in
      if \<not> sel k then k
      else if \<not> st k then k\<lparr>first := 0, rep := 0\<rparr>
      else if first k < F then k\<lparr>first := first k + 1\<rparr>
      else if rep k < R then k\<lparr>rep := rep k + 1\<rparr>
      else k\<lparr>out := True, rep := 0\<rparr>)"

definition key1_step :: "u8 \<Rightarrow> u8 \<Rightarrow> bool \<Rightarrow> key1 \<Rightarrow> key1" where
  "key1_step F R val k = (let k = scan F R (debounce val k) in k\<lparr>prev := st k\<rparr>)"

definition key_pin :: "nat \<Rightarrow> pin" where
  "key_pin i = [GP_bMode, GP_bView, GP_bOnOff, GP_bNext, GP_bZero, GP_bUp, GP_bDown] ! i"

definition wf_key :: "key_type \<Rightarrow> bool" where
  "wf_key k \<longleftrightarrow> length (dInFilterCnt k) = KEY_NUM \<and> length (toFirstReiterationCnt k) = KEY_NUM \<and>
     length (toReiterationCnt k) = KEY_NUM"

lemma and_bit_mask: "(x :: u32) AND push_bit i 1 = 0 \<longleftrightarrow> \<not> bit x i"
  by (simp add: push_bit_of_1 and_exp_eq_0_iff_not_bit)

lemma bit_set_clear:
  assumes "i < 32"
  shows "bit (x OR push_bit i 1 :: u32) j \<longleftrightarrow> j = i \<or> bit x j" "bit (x AND NOT (push_bit i 1) :: u32) j \<longleftrightarrow> j \<noteq> i \<and> bit x j"
  using assms bit_imp_le_length [of x j] by (auto simp: bit_simps)

text \<open>Each phase acts on one key and leaves the others alone.\<close>

definition acts_on :: "nat \<Rightarrow> (key1 \<Rightarrow> key1) \<Rightarrow> key_type \<Rightarrow> key_type option \<Rightarrow> bool" where
  "acts_on i f k r \<longleftrightarrow> (\<exists>k'. r = Some k' \<and> wf_key k' \<and> key_at i k' = f (key_at i k) \<and>
     (\<forall>j. j \<noteq> i \<longrightarrow> key_at j k' = key_at j k) \<and>
     toFirstReiteration k' = toFirstReiteration k \<and> toReiteration k' = toReiteration k)"

lemma dInUpdate_acts:
  assumes "wf_key k" "i < KEY_NUM"
  shows "acts_on i (debounce val) k (dInUpdate k i val)"
  using assms bit_set_clear [of i]
  by (auto simp: acts_on_def dInUpdate_def wf_key_def key_at_def debounce_def rd_int wr_def)

lemma key_loop_acts:
  assumes "wf_key k" "i < KEY_NUM"
  shows "acts_on i (scan (toFirstReiteration k) (toReiteration k)) k (key_loop i k)"
  using assms bit_set_clear [of i]
  by (auto simp: acts_on_def key_loop_def key_front_def key_reiterate_def and_bit_mask and_exp_eq_0_iff_not_bit
      wf_key_def key_at_def scan_def rd_int wr_def Let_def)

text \<open>The first \<open>n\<close> keys of \<open>k\<close> have gone through \<open>f\<close>, the others have not.\<close>

definition prefix_done :: "(nat \<Rightarrow> key1 \<Rightarrow> key1) \<Rightarrow> key_type \<Rightarrow> nat \<Rightarrow> key_type \<Rightarrow> bool" where
  "prefix_done f k n k' \<longleftrightarrow> wf_key k' \<and> (\<forall>j. key_at j k' = (if j < n then f j (key_at j k) else key_at j k)) \<and>
     toFirstReiteration k' = toFirstReiteration k \<and> toReiteration k' = toReiteration k"

lemma prefix_done_0: "wf_key k \<Longrightarrow> prefix_done f k 0 k"
  by (simp add: prefix_done_def)

lemma prefix_done_Suc:
  assumes "prefix_done f k n k'" "acts_on n (f n) k' r"
  obtains k'' where "r = Some k''" "prefix_done f k (Suc n) k''"
  using assms by (auto simp: acts_on_def prefix_done_def less_Suc_eq)

lemma keyProc_keys:
  assumes "wf_key k"
  obtains k' where "keyProc pins k = Some (keyState k', k')" "wf_key k'"
    "toFirstReiteration k' = toFirstReiteration k" "toReiteration k' = toReiteration k"
    "\<And>i. i < KEY_NUM \<Longrightarrow> key_at i k'
       = key1_step (toFirstReiteration k) (toReiteration k) (\<not> pins (key_pin i)) (key_at i k)"
proof -
  let ?d = "\<lambda>i. debounce (\<not> pins (key_pin i))"
  let ?s = "\<lambda>i. scan (toFirstReiteration k) (toReiteration k)"
  have upd: "\<exists>k''. dInUpdate k' n (\<not> pins (key_pin n)) = Some k'' \<and> prefix_done ?d k (Suc n) k''"
    if "prefix_done ?d k n k'" "n < KEY_NUM" for n k'
  proof -
    have "wf_key k'" using that(1) by (simp add: prefix_done_def)
    from prefix_done_Suc [OF that(1) dInUpdate_acts [OF this that(2)]] show ?thesis by metis
  qed
  obtain k1 where k1: "dInUpdate k 0 (\<not> pins GP_bMode) = Some k1" "prefix_done ?d k 1 k1"
    using upd [OF prefix_done_0 [OF assms]] by (auto simp: key_pin_def)
  obtain k2 where k2: "dInUpdate k1 1 (\<not> pins GP_bView) = Some k2" "prefix_done ?d k 2 k2"
    using upd [OF k1(2)] by (auto simp: key_pin_def eval_nat_numeral)
  obtain k3 where k3: "dInUpdate k2 2 (\<not> pins GP_bOnOff) = Some k3" "prefix_done ?d k 3 k3"
    using upd [OF k2(2)] by (auto simp: key_pin_def eval_nat_numeral)
  obtain k4 where k4: "dInUpdate k3 3 (\<not> pins GP_bNext) = Some k4" "prefix_done ?d k 4 k4"
    using upd [OF k3(2)] by (auto simp: key_pin_def eval_nat_numeral)
  obtain k5 where k5: "dInUpdate k4 4 (\<not> pins GP_bZero) = Some k5" "prefix_done ?d k 5 k5"
    using upd [OF k4(2)] by (auto simp: key_pin_def eval_nat_numeral)
  obtain k6 where k6: "dInUpdate k5 5 (\<not> pins GP_bUp) = Some k6" "prefix_done ?d k 6 k6"
    using upd [OF k5(2)] by (auto simp: key_pin_def eval_nat_numeral)
  obtain k7 where k7: "dInUpdate k6 6 (\<not> pins GP_bDown) = Some k7" "prefix_done ?d k 7 k7"
    using upd [OF k6(2)] by (auto simp: key_pin_def eval_nat_numeral)
  have wf: "wf_key k7" and F: "toFirstReiteration k7 = toFirstReiteration k" "toReiteration k7 = toReiteration k"
    and at7: "\<And>i. i < KEY_NUM \<Longrightarrow> key_at i k7 = ?d i (key_at i k)"
    using k7(2) by (simp_all add: prefix_done_def)
  have "\<exists>k8. for_up 0 KEY_NUM key_loop k7 = Some k8 \<and> prefix_done ?s k7 (0 + KEY_NUM) k8"
  proof (rule for_up_invariant)
    show "prefix_done ?s k7 0 k7" using wf by (rule prefix_done_0)
  next
    fix n k' assume n: "n < 0 + KEY_NUM" and p: "prefix_done ?s k7 n k'"
    then have "wf_key k'" "toFirstReiteration k' = toFirstReiteration k" "toReiteration k' = toReiteration k"
      by (simp_all add: prefix_done_def F)
    then have "acts_on n (?s n) k' (key_loop n k')" using key_loop_acts [of k' n] n by simp
    from prefix_done_Suc [OF p this] show "\<exists>s'. key_loop n k' = Some s' \<and> prefix_done ?s k7 (Suc n) s'" by metis
  qed
  then obtain k8 where k8: "for_up 0 KEY_NUM key_loop k7 = Some k8" "prefix_done ?s k7 KEY_NUM k8" by auto
  let ?k = "k8\<lparr>dInPrevState := dInState k8\<rparr>"
  have "keyProc pins k = Some (keyState ?k, ?k)"
    unfolding keyProc_def k1(1) k2(1) k3(1) k4(1) k5(1) k6(1) k7(1) k8(1) Option.bind.bind_lunit Let_def by simp
  moreover have "key_at i ?k = key1_step (toFirstReiteration k) (toReiteration k) (\<not> pins (key_pin i)) (key_at i k)"
    if "i < KEY_NUM" for i
  proof -
    have "key_at i ?k = (key_at i k8)\<lparr>prev := st (key_at i k8)\<rparr>" by (simp add: key_at_def)
    moreover have "key_at i k8 = ?s i (?d i (key_at i k))"
      using k8(2) that by (simp add: prefix_done_def at7)
    ultimately show ?thesis by (simp add: key1_step_def Let_def)
  qed
  ultimately show thesis
    using k8(2) F by (intro that [of ?k]) (simp_all add: prefix_done_def wf_key_def)
qed

section \<open>A key over time\<close>

text \<open>The scans of one key whose inputs are \<open>vs\<close>.\<close>

definition key1_run :: "u8 \<Rightarrow> u8 \<Rightarrow> bool list \<Rightarrow> key1 \<Rightarrow> key1" where
  "key1_run F R vs k = fold (key1_step F R) vs k"

definition idle :: "bool \<Rightarrow> key1" where
  "idle s = \<lparr>cnt = 0, st = False, prev = False, out = False, sel = s, first = 0, rep = 0\<rparr>"

text \<open>A key that has been held for \<open>n\<close> scans.\<close>

definition reiterates :: "nat \<Rightarrow> nat \<Rightarrow> nat \<Rightarrow> bool" where
  "reiterates F R n \<longleftrightarrow> F + 2 < n \<and> (n - (F + 2)) mod (R + 1) = 0"

definition held :: "nat \<Rightarrow> nat \<Rightarrow> bool \<Rightarrow> nat \<Rightarrow> key1" where
  "held F R s n =
     \<lparr>cnt = of_nat (min n 2), st = (3 \<le> n), prev = (3 \<le> n), out = (n = 3 \<or> s \<and> reiterates F R n), sel = s,
      first = (if s then of_nat (min (n - 2) F) else 0),
      rep = (if s then of_nat ((n - (F + 2)) mod (R + 1)) else 0)\<rparr>"

lemma of_nat_less_u8: "m < 256 \<Longrightarrow> (of_nat m :: u8) < F \<longleftrightarrow> m < unat F"
  by (simp add: word_less_nat_alt unat_of_nat)

lemma held_step: "key1_step F R True (held (unat F) (unat R) s n) = held (unat F) (unat R) s (Suc n)"
proof (cases "n < 2")
  case True
  then have "n = 0 \<or> n = 1" by auto
  then show ?thesis
    by (auto simp: held_def key1_step_def debounce_def scan_def reiterates_def Let_def)
next
  case False
  then obtain m where n: "n = m + 2" using le_Suc_ex [of 2 n] by (auto simp: add.commute)
  have F: "unat F < 256" and R: "unat R < 256" using unsigned_less [of F] unsigned_less [of R] by simp_all
  have e: "(of_nat (unat F) :: u8) = F" "(of_nat (unat R) :: u8) = R" by simp_all
  show ?thesis
  proof (cases "m < unat F")
    case True
    then show ?thesis using F n
      by (auto simp: held_def key1_step_def debounce_def scan_def reiterates_def Let_def of_nat_less_u8)
  next
    case False
    define q where "q = m - unat F"
    have m: "m = unat F + q" using False by (simp add: q_def)
    have q: "q mod Suc (unat R) < 256" using R mod_less_divisor [of "Suc (unat R)" q] by linarith
    have lt: "(of_nat (q mod Suc (unat R)) :: u8) < R \<longleftrightarrow> q mod Suc (unat R) < unat R"
      by (rule of_nat_less_u8 [OF q])
    show ?thesis
    proof (cases "q mod Suc (unat R) < unat R")
      case True
      then have "Suc q mod Suc (unat R) = Suc (q mod Suc (unat R))" by (simp add: mod_Suc)
      then show ?thesis using True lt n m
        by (auto simp: held_def key1_step_def debounce_def scan_def reiterates_def Let_def e)
    next
      case False
      then have "q mod Suc (unat R) = unat R" using mod_less_divisor [of "Suc (unat R)" q] by linarith
      moreover then have "Suc q mod Suc (unat R) = 0" by (simp add: mod_Suc)
      ultimately show ?thesis using False lt n m
        by (auto simp: held_def key1_step_def debounce_def scan_def reiterates_def Let_def e)
    qed
  qed
qed

lemma held_run: "key1_run F R (replicate n True) (idle s) = held (unat F) (unat R) s n"
proof (induction n)
  case 0
  then show ?case by (simp add: key1_run_def idle_def held_def reiterates_def)
next
  case (Suc n)
  then show ?case
    by (simp add: key1_run_def held_step replicate_append_same [symmetric] del: replicate.simps(2))
qed

text \<open>A key that has been down in at most two scans.\<close>

lemma glitch_run:
  "length (filter (\<lambda>v. v) vs) \<le> 2 \<Longrightarrow>
   \<not> st (key1_run F R vs (idle s)) \<and> \<not> prev (key1_run F R vs (idle s)) \<and> \<not> out (key1_run F R vs (idle s)) \<and>
   unat (cnt (key1_run F R vs (idle s))) \<le> length (filter (\<lambda>v. v) vs)"
proof (induction vs rule: rev_induct)
  case Nil
  then show ?case by (simp add: key1_run_def idle_def)
next
  case (snoc v vs)
  let ?k = "key1_run F R vs (idle s)"
  have IH: "\<not> st ?k" "\<not> prev ?k" "\<not> out ?k" "unat (cnt ?k) \<le> length (filter (\<lambda>v. v) vs)"
    using snoc by (simp_all split: if_splits)
  have run: "key1_run F R (vs @ [v]) (idle s) = key1_step F R v ?k" by (simp add: key1_run_def)
  show ?case
  proof (cases v)
    case True
    then have "unat (cnt ?k) < 2" using snoc.prems IH(4) by simp
    then have "cnt ?k < 2" "unat (cnt ?k + 1) = unat (cnt ?k) + 1"
      by (simp_all add: word_less_nat_alt unat_word_ariths)
    then show ?thesis using IH True unfolding run
      by (simp add: key1_step_def debounce_def scan_def Let_def)
  next
    case False
    have "0 < cnt ?k \<Longrightarrow> unat (cnt ?k - 1) \<le> unat (cnt ?k)"
      by (simp add: unat_minus_one word_gt_0)
    then show ?thesis using IH False unfolding run
      by (auto simp: key1_step_def debounce_def scan_def Let_def)
  qed
qed

section \<open>The keyboard over time\<close>

fun keyProc_run :: "(pin \<Rightarrow> bool) list \<Rightarrow> key_type \<Rightarrow> key_type option" where
  "keyProc_run [] k = Some k"
| "keyProc_run (pins # ps) k = do { (_, k) \<leftarrow> keyProc pins k; keyProc_run ps k }"

lemma keyProc_run_keys:
  "wf_key k \<Longrightarrow> \<exists>k'. keyProc_run ps k = Some k' \<and> wf_key k' \<and>
     (\<forall>i < KEY_NUM. key_at i k' = key1_run (toFirstReiteration k) (toReiteration k)
        (map (\<lambda>pins. \<not> pins (key_pin i)) ps) (key_at i k))"
proof (induction ps arbitrary: k)
  case Nil
  then show ?case by (simp add: key1_run_def)
next
  case (Cons pins ps)
  obtain k1 where k1: "keyProc pins k = Some (keyState k1, k1)" "wf_key k1"
    "toFirstReiteration k1 = toFirstReiteration k" "toReiteration k1 = toReiteration k"
    "\<And>i. i < KEY_NUM \<Longrightarrow> key_at i k1
       = key1_step (toFirstReiteration k) (toReiteration k) (\<not> pins (key_pin i)) (key_at i k)"
    by (rule keyProc_keys [OF Cons.prems, of pins]) (rule that)
  from Cons.IH [OF k1(2)] show ?case by (simp add: k1 key1_run_def)
qed

text \<open>C27: The keyboard refines seven independent keys.  One pass of \<open>keyProc\<close> over the bit sets and
  arrays stays in bounds and does to each key exactly what the machine of a single key does with its own
  pin, and the value it returns has a bit for each key reported.\<close>

theorem keyProc_refines_keys:
  assumes "wf_key k"
  shows "\<exists>k' s. keyProc pins k = Some (s, k') \<and> wf_key k' \<and>
    (\<forall>i < KEY_NUM. key_at i k' = key1_step (toFirstReiteration k) (toReiteration k) (\<not> pins (key_pin i)) (key_at i k) \<and>
       bit s i = out (key_at i k') \<and> (keyState_get (push_bit i 1) k' = 1) = bit s i)"
proof -
  obtain k' where k': "keyProc pins k = Some (keyState k', k')" "wf_key k'"
    "\<And>i. i < KEY_NUM \<Longrightarrow> key_at i k'
       = key1_step (toFirstReiteration k) (toReiteration k) (\<not> pins (key_pin i)) (key_at i k)"
    by (rule keyProc_keys [OF assms, of pins]) blast
  moreover have "bit (keyState k') i = out (key_at i k')" for i by (simp add: key_at_def)
  moreover have "(keyState_get (push_bit i 1) k' = 1) = bit (keyState k') i" for i
    unfolding keyState_get_def and_bit_mask by simp
  ultimately show ?thesis by blast
qed

theorem keyProc_refines_keys_witness:
  "\<exists>k' s. keyProc (\<lambda>p. p \<noteq> GP_bUp) initial_key = Some (s, k') \<and> key_at 5 k' = key1_step 0 0 True (key_at 5 initial_key)"
  using keyProc_refines_keys [of initial_key "\<lambda>p. p \<noteq> GP_bUp"]
  by (auto simp: wf_key_def initial_key_def key_pin_def)

text \<open>What a key press reports.  From rest, a key held down is reported at its third scan, and, if it
  reiterates, again each \<open>toReiteration + 1\<close> scans from \<open>toFirstReiteration + 2\<close> scans on, and at no
  other scan; a key that was down in at most two scans, however spread, is never reported.\<close>

theorem key_press_pulses:
  assumes "wf_key k" "i < KEY_NUM" "key_at i k = idle s" "ps \<noteq> []"
  shows "\<exists>k'. keyProc_run ps k = Some k' \<and>
    ((\<forall>pins \<in> set ps. \<not> pins (key_pin i)) \<longrightarrow> (keyState_get (push_bit i 1) k' = 1) =
       (length ps = 3 \<or> s \<and> reiterates (unat (toFirstReiteration k)) (unat (toReiteration k)) (length ps))) \<and>
    (length (filter (\<lambda>pins. \<not> pins (key_pin i)) ps) \<le> 2 \<longrightarrow> keyState_get (push_bit i 1) k' = 0)"
proof -
  let ?vs = "map (\<lambda>pins. \<not> pins (key_pin i)) ps"
  let ?run = "key1_run (toFirstReiteration k) (toReiteration k) ?vs (idle s)"
  obtain k' where k': "keyProc_run ps k = Some k'" "key_at i k' = ?run"
    using keyProc_run_keys [OF assms(1), of ps] assms(2,3) by auto
  have bit: "(keyState_get (push_bit i 1) k' = 1) = out ?run" "(keyState_get (push_bit i 1) k' = 0) = (\<not> out ?run)"
    unfolding keyState_get_def and_bit_mask k'(2) [symmetric] by (simp_all add: key_at_def)
  have "?vs = replicate (length ps) True" if "\<forall>pins \<in> set ps. \<not> pins (key_pin i)"
    using that by (auto simp: list_eq_iff_nth_eq)
  then have "out ?run = (length ps = 3 \<or> s \<and> reiterates (unat (toFirstReiteration k)) (unat (toReiteration k)) (length ps))"
    if "\<forall>pins \<in> set ps. \<not> pins (key_pin i)"
    using that by (simp add: held_run) (simp add: held_def)
  moreover have "length (filter (\<lambda>v. v) ?vs) = length (filter (\<lambda>pins. \<not> pins (key_pin i)) ps)"
    by (simp add: filter_map comp_def)
  ultimately show ?thesis
    using k'(1) bit glitch_run [of ?vs "toFirstReiteration k" "toReiteration k" s] by auto
qed

theorem key_press_pulses_witness:
  "\<exists>k'. keyProc_run (replicate 3 (\<lambda>_. False)) (ksSet 30 3 0x60 initial_key) = Some k' \<and> keyState_get (push_bit 5 1) k' = 1"
  using key_press_pulses [of "ksSet 30 3 0x60 initial_key" 5 True "replicate 3 (\<lambda>_. False)"]
  by (auto simp: wf_key_def initial_key_def ksSet_def key_at_def idle_def bit_numeral_word_iff)

text \<open>The encoder.  A reading is the count of quarter steps rounded to full steps, at most half a step
  off and never of the wrong sign; readings happen at every \<open>enco_tic + 1\<close>-th call, the other calls
  return 0 and keep the count, and a reading of more than two steps is multiplied by seven.\<close>

theorem encoder_rounds:
  "(let raw = sint (ucast (CNT e - ENCO_ZERO) :: u16); step = fst (enco_read e) in
      \<bar>4 * step - raw\<bar> \<le> 2 \<and> 0 \<le> step * raw \<and> CNT (snd (enco_read e)) = ENCO_ZERO \<and>
      enco_update e = (if ntic e < enco_tic e then (0, e\<lparr>ntic := ntic e + 1\<rparr>)
        else (if \<bar>step\<bar> \<le> 2 then step else 7 * step, e\<lparr>CNT := ENCO_ZERO, ntic := 0\<rparr>)))"
proof -
  define raw where "raw = sint (ucast (CNT e - ENCO_ZERO) :: u16)"
  define step where "step = fst (enco_read e)"
  have step: "step = (if raw > 0 then (raw + 2) div 4 else if raw < 0 then - ((2 - raw) div 4) else 0)"
    by (simp add: step_def enco_read_def raw_def Let_def signed_divide_int_def sgn_if abs_if)
  have round: "\<bar>4 * ((x + 2) div 4) - x\<bar> \<le> 2" for x :: int
    using mult_div_mod_eq [of 4 "x + 2"] pos_mod_bound [of 4 "x + 2"] pos_mod_sign [of 4 "x + 2"] by linarith
  have "\<bar>4 * step - raw\<bar> \<le> 2"
    using round [of raw] round [of "- raw"] unfolding step by (auto simp: add.commute)
  moreover have "0 \<le> step * raw" unfolding step
    by (simp add: mult_nonneg_nonneg mult_nonpos_nonpos pos_imp_zdiv_nonneg_iff)
  moreover have "enco_update e = (if ntic e < enco_tic e then (0, e\<lparr>ntic := ntic e + 1\<rparr>)
        else (if \<bar>step\<bar> \<le> 2 then step else 7 * step, e\<lparr>CNT := ENCO_ZERO, ntic := 0\<rparr>))"
    unfolding step_def by (simp add: enco_update_def enco_read_def Let_def split: prod.split) auto
  moreover have "CNT (snd (enco_read e)) = ENCO_ZERO" by (simp add: enco_read_def Let_def)
  ultimately show ?thesis unfolding raw_def [symmetric] step_def [symmetric] Let_def by blast
qed

end
