(* ===== verification/SerialLog.thy ===== *)
theory SerialLog
  imports Prelude
begin

unbundle bit_operations_syntax

text \<open>
  The debug output: the transfer part of the UART driver \<open>hal/src/uart.c\<close> and the ring buffer of
  \<open>systems/src/write.c\<close> that feeds it.  A UART transfer is a DMA job, an address and a length; the
  addresses here are indices into the ring buffer.  The loop of \<open>_write\<close> need not end, so it is a
  partial function, and \<^term>\<open>None\<close> is a call that does not return.
\<close>

section \<open>hal: uart.c\<close>

datatype uartTxState = uartTxFree | uartTxRun | uartTxSuccess | uartTxErr

datatype uartRxState = uartRxFree | uartRxRun | uartRxSuccess | uartRxStop | uartRxErr

text \<open>A DMA stream: its enable bit, memory address and count.\<close>

record dma =
  EN :: bool
  M0AR :: nat
  NDTR :: u16

text \<open>\<open>baudRate\<close> is a bit field of four bits.\<close>

record uart =
  SR :: u32
  BRR :: u32
  pDmaStreamTx :: dma
  pDmaStreamRx :: dma
  frequency :: u32
  txState :: uartTxState
  rxState :: uartRxState
  baudRate :: "4 word"
  txCnt :: u16
  rxCnt :: u16

abbreviation (input) "USART_SR_TC \<equiv> (0x40 :: u32)"
abbreviation (input) "USART_SR_IDLE \<equiv> (0x10 :: u32)"

text \<open>A division by zero is undefined.\<close>

definition uart_setBaud :: "uart \<Rightarrow> u32 \<Rightarrow> uart option" where
  "uart_setBaud u baud =
     (if ucast (baudRate u) \<noteq> baud then
        (if baud = 0 then None else Some (u\<lparr>BRR := frequency u div baud, baudRate := ucast baud\<rparr>))
      else Some u)"

definition uart_write :: "uart \<Rightarrow> nat \<Rightarrow> u16 \<Rightarrow> uart" where
  "uart_write u src len =
     (let u = u\<lparr>pDmaStreamTx := (pDmaStreamTx u)\<lparr>EN := False\<rparr>\<rparr>;
          u = u\<lparr>SR := 0\<rparr>;
          u = u\<lparr>pDmaStreamTx := (pDmaStreamTx u)\<lparr>M0AR := src\<rparr>\<rparr>;
          u = u\<lparr>pDmaStreamTx := (pDmaStreamTx u)\<lparr>NDTR := len\<rparr>\<rparr>;
          u = u\<lparr>pDmaStreamTx := (pDmaStreamTx u)\<lparr>EN := True\<rparr>\<rparr>
      in u\<lparr>txState := uartTxRun\<rparr>)"

definition uart_read :: "uart \<Rightarrow> nat \<Rightarrow> u16 \<Rightarrow> uart" where
  "uart_read u dst len =
     (let u = u\<lparr>pDmaStreamRx := (pDmaStreamRx u)\<lparr>EN := False\<rparr>\<rparr>;
          u = u\<lparr>SR := 0\<rparr>;
          u = u\<lparr>pDmaStreamRx := (pDmaStreamRx u)\<lparr>M0AR := dst\<rparr>\<rparr>;
          u = u\<lparr>pDmaStreamRx := (pDmaStreamRx u)\<lparr>NDTR := len\<rparr>\<rparr>;
          u = u\<lparr>pDmaStreamRx := (pDmaStreamRx u)\<lparr>EN := True\<rparr>\<rparr>
      in u\<lparr>rxState := uartRxRun\<rparr>)"

definition uart_stopRead :: "uart \<Rightarrow> uart" where
  "uart_stopRead u =
     (let u = u\<lparr>pDmaStreamRx := (pDmaStreamRx u)\<lparr>EN := False\<rparr>\<rparr> in u\<lparr>rxState := uartRxStop\<rparr>)"

text \<open>The interrupt handlers.  The callbacks work on a state \<open>'s\<close> that holds the UART, which \<open>get\<close> and
  \<open>put\<close> reach; a null callback is \<^term>\<open>None\<close>.  The flag clear registers of the DMA are write-only and
  have no state.\<close>

definition call_hook :: "('s \<Rightarrow> 's) option \<Rightarrow> 's \<Rightarrow> 's" where
  "call_hook hook s = (case hook of None \<Rightarrow> s | Some f \<Rightarrow> f s)"

definition USART_IRQHandler ::
    "('s \<Rightarrow> uart) \<Rightarrow> (uart \<Rightarrow> 's \<Rightarrow> 's) \<Rightarrow> ('s \<Rightarrow> 's) option \<Rightarrow> ('s \<Rightarrow> 's) option \<Rightarrow> 's \<Rightarrow> 's" where
  "USART_IRQHandler get put txHoock rxHoock s =
     (let u = get s; uartsr = SR u in
      if uartsr AND USART_SR_TC \<noteq> 0 then
        (let u = u\<lparr>pDmaStreamTx := (pDmaStreamTx u)\<lparr>EN := False\<rparr>\<rparr>;
             u = u\<lparr>txCnt := txCnt u + 1\<rparr>;
             u = u\<lparr>txState := uartTxSuccess\<rparr>;
             u = u\<lparr>SR := SR u AND NOT USART_SR_TC\<rparr>
         in call_hook txHoock (put u s))
      else if uartsr AND USART_SR_IDLE \<noteq> 0 then
        (let u = u\<lparr>pDmaStreamRx := (pDmaStreamRx u)\<lparr>EN := False\<rparr>\<rparr>;
             u = u\<lparr>rxCnt := rxCnt u + 1\<rparr>;
             u = u\<lparr>rxState := uartRxSuccess\<rparr>;
             s = call_hook rxHoock (put u s);
             u = get s
         in put (u\<lparr>SR := SR u AND NOT USART_SR_IDLE\<rparr>) s)
      else s)"

definition DmaStreamRxIRQHandler :: "('s \<Rightarrow> uart) \<Rightarrow> (uart \<Rightarrow> 's \<Rightarrow> 's) \<Rightarrow> ('s \<Rightarrow> 's) option \<Rightarrow> 's \<Rightarrow> 's" where
  "DmaStreamRxIRQHandler get put rxHoock s =
     (let u = get s;
          u = u\<lparr>pDmaStreamRx := (pDmaStreamRx u)\<lparr>EN := False\<rparr>\<rparr>;
          u = u\<lparr>rxCnt := rxCnt u + 1\<rparr>;
          u = u\<lparr>rxState := uartRxSuccess\<rparr>
      in call_hook rxHoock (put u s))"

section \<open>systems: write.c\<close>

abbreviation (input) "BUFFER_LEN \<equiv> (4096 :: nat)"

text \<open>\<open>bffEnd\<close> points at the last byte of the buffer, which is never used: the pointers wrap there.\<close>

abbreviation (input) "bffEnd \<equiv> (4095 :: nat)"

text \<open>The pointers are indices; \<open>wire\<close> records the bytes handed to the UART, as they are in the buffer
  when the transfer starts.\<close>

record log =
  buffer :: "u8 list"
  bffWr :: nat
  bffRd :: nat
  debugUart :: uart
  wire :: "u8 list"

definition send_log :: "nat \<Rightarrow> nat \<Rightarrow> log \<Rightarrow> log" where
  "send_log src len l =
     l\<lparr>debugUart := uart_write (debugUart l) src (of_nat len), wire := wire l @ take len (drop src (buffer l))\<rparr>"

text \<open>The two branches that start a transfer, in \<open>txHandler\<close> and at the end of \<open>_write\<close>.\<close>

definition txHandler :: "log \<Rightarrow> log" where
  "txHandler l =
     (if txState (debugUart l) \<noteq> uartTxRun then
        (let l = (if bffRd l < bffWr l then (send_log (bffRd l) (bffWr l - bffRd l) l)\<lparr>bffRd := bffWr l\<rparr> else l)
         in if bffRd l > bffWr l then (send_log (bffRd l) (bffEnd - bffRd l) l)\<lparr>bffRd := 0\<rparr> else l)
      else l)"

definition log_irq :: "log \<Rightarrow> log" where
  "log_irq = USART_IRQHandler debugUart (\<lambda>u l. l\<lparr>debugUart := u\<rparr>) (Some txHandler) None"

text \<open>\<open>while (numBytesToWrite--) *bffWr++ = *pData++;\<close>\<close>

fun write_bytes :: "u8 list \<Rightarrow> log \<Rightarrow> log option" where
  "write_bytes [] l = Some l"
| "write_bytes (b # bs) l = do {
     bf \<leftarrow> wr (buffer l) (int (bffWr l)) b;
     write_bytes bs (l\<lparr>buffer := bf, bffWr := bffWr l + 1\<rparr>)
   }"

text \<open>The number of bytes of one turn: the free space, up to the end of the buffer, up to the message.\<close>

definition chunk :: "log \<Rightarrow> nat \<Rightarrow> int" where
  "chunk l numBytes =
     (let n = (if bffRd l > bffWr l then int (bffRd l) - int (bffWr l) - 1
               else int BUFFER_LEN - (int (bffWr l) - int (bffRd l) + 1));
          n = min n (int bffEnd - int (bffWr l))
      in min n (int numBytes))"

definition write_turn :: "u8 list \<Rightarrow> log \<Rightarrow> (u8 list \<times> log) option" where
  "write_turn pData l =
     (let n = nat (chunk l (length pData)) in do {
        l \<leftarrow> write_bytes (take n pData) l;
        Some (drop n pData, if bffWr l = bffEnd then l\<lparr>bffWr := 0\<rparr> else l) })"

partial_function (option) write_loop :: "u8 list \<Rightarrow> log \<Rightarrow> log option" where
  "write_loop pData l = do {
     (pData, l) \<leftarrow> write_turn pData l;
     if pData = [] then Some l else write_loop pData l
   }"

definition log_write :: "u8 list \<Rightarrow> log \<Rightarrow> (nat \<times> log) option" where
  "log_write ptr l = do {
     l \<leftarrow> write_loop ptr l;
     Some (length ptr, txHandler l)
   }"

section \<open>The ring buffer as a queue\<close>

definition wf_log :: "log \<Rightarrow> bool" where
  "wf_log l \<longleftrightarrow> length (buffer l) = BUFFER_LEN \<and> bffWr l < bffEnd \<and> bffRd l < bffEnd"

definition slice :: "nat \<Rightarrow> nat \<Rightarrow> 'a list \<Rightarrow> 'a list" where
  "slice i j xs = take (j - i) (drop i xs)"

text \<open>The bytes written and not yet handed to the UART, oldest first.\<close>

definition pending :: "log \<Rightarrow> u8 list" where
  "pending l =
     (if bffRd l \<le> bffWr l then slice (bffRd l) (bffWr l) (buffer l)
      else slice (bffRd l) bffEnd (buffer l) @ slice 0 (bffWr l) (buffer l))"

definition room :: "log \<Rightarrow> nat" where
  "room l = bffEnd - 1 - length (pending l)"

lemma pending_length:
  "wf_log l \<Longrightarrow> length (pending l) = (if bffRd l \<le> bffWr l then bffWr l - bffRd l else bffEnd - bffRd l + bffWr l)"
  by (auto simp: wf_log_def pending_def slice_def)

lemma slice_write:
  assumes "w + length bs \<le> length b"
  shows "i \<le> w \<Longrightarrow> slice i (w + length bs) (take w b @ bs @ drop (w + length bs) b) = slice i w b @ bs"
    "w + length bs \<le> i \<Longrightarrow> slice i j (take w b @ bs @ drop (w + length bs) b) = slice i j b"
proof -
  assume "i \<le> w"
  then show "slice i (w + length bs) (take w b @ bs @ drop (w + length bs) b) = slice i w b @ bs"
    using assms by (simp add: slice_def drop_take)
next
  assume "w + length bs \<le> i"
  then have "drop i (take w b @ bs @ drop (w + length bs) b) = drop i b" using assms by (simp add: min_absorb2)
  then show "slice i j (take w b @ bs @ drop (w + length bs) b) = slice i j b" by (simp add: slice_def)
qed

lemma write_bytes_run:
  "bffWr l + length bs \<le> length (buffer l) \<Longrightarrow>
   write_bytes bs l = Some (l\<lparr>buffer := take (bffWr l) (buffer l) @ bs @ drop (bffWr l + length bs) (buffer l),
     bffWr := bffWr l + length bs\<rparr>)"
proof (induction bs arbitrary: l)
  case (Cons b bs)
  let ?l = "l\<lparr>buffer := (buffer l)[bffWr l := b], bffWr := bffWr l + 1\<rparr>"
  have "write_bytes (b # bs) l = write_bytes bs ?l" using Cons.prems by (simp add: wr_def)
  also have "\<dots> = Some (?l\<lparr>buffer := take (bffWr ?l) (buffer ?l) @ bs @ drop (bffWr ?l + length bs) (buffer ?l),
      bffWr := bffWr ?l + length bs\<rparr>)" using Cons.prems by (intro Cons.IH) simp
  finally show ?case using Cons.prems by (simp add: take_Suc_conv_app_nth upd_conv_take_nth_drop min_absorb2)
qed simp

lemma chunk_bounds:
  assumes "wf_log l"
  shows "0 \<le> chunk l k" "nat (chunk l k) \<le> k" "bffWr l + nat (chunk l k) \<le> bffEnd"
    "bffRd l > bffWr l \<Longrightarrow> bffWr l + nat (chunk l k) < bffRd l"
    "bffRd l \<noteq> 0 \<or> k \<le> room l \<Longrightarrow> nat (chunk l k) \<le> room l"
    "0 < k \<Longrightarrow> 0 < room l \<Longrightarrow> 0 < nat (chunk l k)"
  using assms pending_length [OF assms] by (auto simp: wf_log_def chunk_def room_def Let_def)

lemma write_turn_run:
  assumes "wf_log l" "nat (chunk l (length m)) \<le> room l"
  defines "n \<equiv> nat (chunk l (length m))"
  shows "\<exists>l'. write_turn m l = Some (drop n m, l') \<and> wf_log l' \<and> bffRd l' = bffRd l \<and>
    pending l' = pending l @ take n m \<and> debugUart l' = debugUart l \<and> wire l' = wire l"
proof -
  have n: "n \<le> length m" "bffWr l + n \<le> bffEnd" "n \<le> room l" "bffRd l > bffWr l \<Longrightarrow> bffWr l + n < bffRd l"
    using chunk_bounds [OF assms(1), of "length m"] assms(2) unfolding n_def by simp_all
  have len: "length (take n m) = n" using n(1) by simp
  have b: "length (buffer l) = BUFFER_LEN" "bffWr l < bffEnd" "bffRd l < bffEnd"
    using assms(1) by (simp_all add: wf_log_def)
  have w: "bffWr l + length (take n m) \<le> length (buffer l)" using n(2) b(1) len by simp
  let ?b = "take (bffWr l) (buffer l) @ take n m @ drop (bffWr l + n) (buffer l)"
  let ?l = "l\<lparr>buffer := ?b, bffWr := bffWr l + n\<rparr>"
  have run: "write_bytes (take n m) l = Some ?l" using write_bytes_run [OF w] len by simp
  note sl = slice_write [OF w, unfolded len]
  have lb: "length ?b = BUFFER_LEN" using w len b(1) by simp
  show ?thesis
  proof (cases "bffWr l + n = bffEnd")
    case wrap: True
    then have rd: "bffRd l \<le> bffWr l" using n(4) b(3) by linarith
    then have "0 < bffRd l"
      using n(3) wrap pending_length [OF assms(1)] b(2) by (auto simp: room_def)
    moreover have "slice (bffRd l) bffEnd ?b = slice (bffRd l) (bffWr l) (buffer l) @ take n m"
      using sl(1) [OF rd] wrap by simp
    ultimately have "pending (?l\<lparr>bffWr := 0\<rparr>) = pending l @ take n m"
      using rd by (simp add: pending_def) (simp add: slice_def)
    then show ?thesis
      using run wrap b lb by (simp add: write_turn_def n_def [symmetric] wf_log_def)
  next
    case False
    have "pending ?l = pending l @ take n m"
    proof (cases "bffRd l \<le> bffWr l")
      case True
      then show ?thesis using sl(1) [OF True] by (simp add: pending_def)
    next
      case less: False
      then have "slice (bffRd l) bffEnd ?b = slice (bffRd l) bffEnd (buffer l)" using n(4) by (intro sl(2)) simp
      moreover have "slice 0 (bffWr l + n) ?b = slice 0 (bffWr l) (buffer l) @ take n m" by (rule sl(1)) simp
      ultimately show ?thesis using less n(4) by (simp add: pending_def)
    qed
    then show ?thesis
      using run False b lb n(2) by (simp add: write_turn_def n_def [symmetric] wf_log_def)
  qed
qed

lemma write_loop_fits:
  "wf_log l \<Longrightarrow> length m \<le> room l \<Longrightarrow>
   \<exists>l'. write_loop m l = Some l' \<and> wf_log l' \<and> bffRd l' = bffRd l \<and> pending l' = pending l @ m \<and>
     debugUart l' = debugUart l \<and> wire l' = wire l"
proof (induction "length m" arbitrary: m l rule: less_induct)
  case less
  let ?n = "nat (chunk l (length m))"
  have n: "?n \<le> room l" "?n \<le> length m" "0 < length m \<Longrightarrow> 0 < ?n"
    using chunk_bounds [OF less.prems(1), of "length m"] less.prems(2) by (simp, simp, linarith)
  obtain l1 where l1: "write_turn m l = Some (drop ?n m, l1)" "wf_log l1" "bffRd l1 = bffRd l"
    "pending l1 = pending l @ take ?n m" "debugUart l1 = debugUart l" "wire l1 = wire l"
    using write_turn_run [OF less.prems(1) n(1)] by blast
  show ?case
  proof (cases "drop ?n m = []")
    case True
    then show ?thesis using l1 by (subst write_loop.simps) simp
  next
    case False
    then have "length (drop ?n m) < length m" using n(3) by (cases m) auto
    moreover have "length (drop ?n m) \<le> room l1" using less.prems(2) l1(4) n(2) by (simp add: room_def)
    ultimately obtain l' where "write_loop (drop ?n m) l1 = Some l'" "wf_log l'" "bffRd l' = bffRd l"
      "pending l' = pending l @ m" "debugUart l' = debugUart l" "wire l' = wire l"
      using less.hyps [of "drop ?n m" l1] l1 by auto
    then show ?thesis using l1(1) False by (subst write_loop.simps) simp
  qed
qed

text \<open>A message that does not fit keeps the loop running for ever.\<close>

lemma write_loop_returns_only_if:
  assumes "write_loop m l = Some l'"
  shows "wf_log l \<longrightarrow> bffRd l \<noteq> 0 \<longrightarrow> length m \<le> room l"
proof (rule write_loop.raw_induct [where P = "\<lambda>m l _. wf_log l \<longrightarrow> bffRd l \<noteq> 0 \<longrightarrow> length m \<le> room l", OF _ assms])
  fix loop m l l'
  assume IH: "\<And>m l l'. loop m l = Some l' \<Longrightarrow> wf_log l \<longrightarrow> bffRd l \<noteq> 0 \<longrightarrow> length m \<le> room l"
    and body: "write_turn m l \<bind> (\<lambda>(m, l). if m = [] then Some l else loop m l) = Some l'"
  show "wf_log l \<longrightarrow> bffRd l \<noteq> 0 \<longrightarrow> length m \<le> room l"
  proof (intro impI)
    assume wf: "wf_log l" and rd: "bffRd l \<noteq> 0"
    let ?n = "nat (chunk l (length m))"
    have n: "?n \<le> room l" "?n \<le> length m" using chunk_bounds [OF wf, of "length m"] rd by auto
    obtain l1 where l1: "write_turn m l = Some (drop ?n m, l1)" "wf_log l1" "bffRd l1 = bffRd l"
      "pending l1 = pending l @ take ?n m"
      using write_turn_run [OF wf n(1)] by blast
    show "length m \<le> room l"
    proof (cases "drop ?n m = []")
      case True
      then show ?thesis using n by simp
    next
      case False
      then have "loop (drop ?n m) l1 = Some l'" using body l1(1) by simp
      then have "length (drop ?n m) \<le> room l1" using IH l1(2,3) rd by fastforce
      then show ?thesis using l1(4) n by (simp add: room_def)
    qed
  qed
qed

section \<open>Transfers\<close>

text \<open>The hardware completes the current transfer: the flag is set and the interrupt taken.\<close>

definition tx_complete :: "log \<Rightarrow> log" where
  "tx_complete l = log_irq (l\<lparr>debugUart := (debugUart l)\<lparr>SR := USART_SR_TC\<rparr>\<rparr>)"

lemma txHandler_cases:
  "txState (debugUart l) = uartTxRun \<or> bffRd l = bffWr l \<Longrightarrow> txHandler l = l"
  "txState (debugUart l) \<noteq> uartTxRun \<Longrightarrow> bffRd l < bffWr l \<Longrightarrow>
     txHandler l = (send_log (bffRd l) (bffWr l - bffRd l) l)\<lparr>bffRd := bffWr l\<rparr>"
  "txState (debugUart l) \<noteq> uartTxRun \<Longrightarrow> bffWr l < bffRd l \<Longrightarrow>
     txHandler l = (send_log (bffRd l) (bffEnd - bffRd l) l)\<lparr>bffRd := 0\<rparr>"
  by (auto simp: txHandler_def send_log_def Let_def)

lemma txHandler_keeps:
  assumes "wf_log l"
  shows "wf_log (txHandler l)" "wire (txHandler l) @ pending (txHandler l) = wire l @ pending l"
    "txState (debugUart l) \<noteq> uartTxRun \<Longrightarrow> bffRd (txHandler l) \<le> bffWr (txHandler l)"
    "txState (debugUart l) \<noteq> uartTxRun \<Longrightarrow> bffRd l \<le> bffWr l \<Longrightarrow> pending (txHandler l) = []"
proof -
  consider "txState (debugUart l) = uartTxRun \<or> bffRd l = bffWr l"
    | "txState (debugUart l) \<noteq> uartTxRun" "bffRd l < bffWr l"
    | "txState (debugUart l) \<noteq> uartTxRun" "bffWr l < bffRd l" by fastforce
  then have "wf_log (txHandler l) \<and> wire (txHandler l) @ pending (txHandler l) = wire l @ pending l \<and>
    (txState (debugUart l) \<noteq> uartTxRun \<longrightarrow> bffRd (txHandler l) \<le> bffWr (txHandler l) \<and>
       (bffRd l \<le> bffWr l \<longrightarrow> pending (txHandler l) = []))"
  proof cases
    case 1
    then show ?thesis using assms unfolding txHandler_cases(1) [OF 1] by (auto simp: pending_def slice_def)
  next
    case 2
    then show ?thesis using assms unfolding txHandler_cases(2) [OF 2]
      by (simp add: send_log_def wf_log_def pending_def slice_def)
  next
    case 3
    then show ?thesis using assms unfolding txHandler_cases(3) [OF 3]
      by (simp add: send_log_def wf_log_def pending_def slice_def)
  qed
  then show "wf_log (txHandler l)" "wire (txHandler l) @ pending (txHandler l) = wire l @ pending l"
    "txState (debugUart l) \<noteq> uartTxRun \<Longrightarrow> bffRd (txHandler l) \<le> bffWr (txHandler l)"
    "txState (debugUart l) \<noteq> uartTxRun \<Longrightarrow> bffRd l \<le> bffWr l \<Longrightarrow> pending (txHandler l) = []"
    by blast+
qed

lemma tx_complete_txHandler:
  "\<exists>u. tx_complete l = txHandler (l\<lparr>debugUart := u\<rparr>) \<and> txState u \<noteq> uartTxRun"
  by (simp add: tx_complete_def log_irq_def USART_IRQHandler_def call_hook_def Let_def) force

lemma tx_complete_keeps:
  assumes "wf_log l"
  shows "wf_log (tx_complete l)" "wire (tx_complete l) @ pending (tx_complete l) = wire l @ pending l"
    "bffRd (tx_complete l) \<le> bffWr (tx_complete l)" "bffRd l \<le> bffWr l \<Longrightarrow> pending (tx_complete l) = []"
proof -
  obtain u where u: "tx_complete l = txHandler (l\<lparr>debugUart := u\<rparr>)" "txState u \<noteq> uartTxRun"
    using tx_complete_txHandler by blast
  have "wf_log (l\<lparr>debugUart := u\<rparr>)" "pending (l\<lparr>debugUart := u\<rparr>) = pending l"
    using assms by (simp_all add: wf_log_def pending_def)
  with txHandler_keeps [of "l\<lparr>debugUart := u\<rparr>"] u
  show "wf_log (tx_complete l)" "wire (tx_complete l) @ pending (tx_complete l) = wire l @ pending l"
    "bffRd (tx_complete l) \<le> bffWr (tx_complete l)" "bffRd l \<le> bffWr l \<Longrightarrow> pending (tx_complete l) = []"
    by simp_all
qed

section \<open>Properties of the debug output\<close>


definition empty_log :: "nat \<Rightarrow> log" where
  "empty_log i = \<lparr>buffer = replicate BUFFER_LEN 0, bffWr = i, bffRd = i, debugUart =
     \<lparr>SR = 0, BRR = 0, pDmaStreamTx = \<lparr>EN = False, M0AR = 0, NDTR = 0\<rparr>, pDmaStreamRx = \<lparr>EN = False, M0AR = 0, NDTR = 0\<rparr>,
      frequency = 42000000, txState = uartTxFree, rxState = uartRxFree, baudRate = 0, txCnt = 0, rxCnt = 0\<rparr>, wire = []\<rparr>"

lemma empty_log [simp]:
  "i < bffEnd \<Longrightarrow> wf_log (empty_log i)" "room (empty_log i) = bffEnd - 1" "bffRd (empty_log i) = i"
  "bffWr (empty_log i) = i" "pending (empty_log i) = []" "wire (empty_log i) = []"
  by (simp_all add: empty_log_def wf_log_def room_def pending_def slice_def)


text \<open>A message that does not fit.  Unless the read pointer is at the start of the buffer, \<open>_write\<close> then
  never returns: it spins with interrupts disabled, so that no transfer completes and no space appears.
  With the read pointer at the start, a message that fills the buffer to its end is accepted and lost,
  with all that waited before it: the full buffer looks empty.\<close>

theorem log_overflow:
  assumes "wf_log l"
  shows "(bffRd l \<noteq> 0 \<and> room l < length m \<longrightarrow> log_write m l = None) \<and>
    (bffRd l = 0 \<and> length m = bffEnd - bffWr l \<longrightarrow>
       (\<exists>l'. log_write m l = Some (length m, l') \<and> pending l' = [] \<and> wire l' = wire l))"
proof (intro conjI impI)
  assume "bffRd l \<noteq> 0 \<and> room l < length m"
  then have "write_loop m l = None"
    using write_loop_returns_only_if [of m l] assms by (cases "write_loop m l") auto
  then show "log_write m l = None" by (simp add: log_write_def)
next
  assume m: "bffRd l = 0 \<and> length m = bffEnd - bffWr l"
  have b: "length (buffer l) = BUFFER_LEN" "bffWr l < bffEnd" using assms by (simp_all add: wf_log_def)
  have "chunk l (length m) = int (length m)" using m b by (simp add: chunk_def Let_def)
  then have "write_turn m l = Some ([], l\<lparr>buffer := take (bffWr l) (buffer l) @ m @ drop (bffWr l + length m) (buffer l), bffWr := 0\<rparr>)"
    using m b write_bytes_run [of l m] by (simp add: write_turn_def)
  then obtain l1 where "write_loop m l = Some l1" "bffWr l1 = 0" "bffRd l1 = 0" "wire l1 = wire l"
    using m by (subst (asm) write_loop.simps) simp
  moreover from this(2,3) have "txHandler l1 = l1" "pending l1 = []"
    by (simp_all add: txHandler_cases(1) pending_def slice_def)
  ultimately show "\<exists>l'. log_write m l = Some (length m, l') \<and> pending l' = [] \<and> wire l' = wire l"
    by (simp add: log_write_def)
qed

theorem log_overflow_witness:
  "log_write (replicate 4095 0) (empty_log 1) = None \<and>
   (\<exists>l'. log_write (replicate 4095 7) (empty_log 0) = Some (4095, l') \<and> wire l' = [])"
  using log_overflow [of "empty_log 1" "replicate 4095 0"] log_overflow [of "empty_log 0" "replicate 4095 7"]
  by auto

end
