(* ===== verification/Http.thy ===== *)
theory Http
  imports RegulatorSpec "HOL-Library.Sublist"
begin

unbundle bit_operations_syntax

text \<open>
  The web server: \<open>net/src/httpServerTSK.c\<close> and the pages of \<open>net/src/htmlPage.c\<close>.  The connection is
  a parameter: what \<open>netconn_recv\<close> returns, and the list of the buffers written to it.  The embedded
  files, which the build turns into symbols, and the version numbers of the panel, which it generates,
  are parameters too.  A page that asks the regulator task waits, as a \<^typ>\<open>'a call\<close> does; an access
  outside the received buffer is \<^term>\<open>None\<close>.
\<close>

section \<open>Pages\<close>

datatype urlType = urlDataType_html | urlDataType_css | urlDataType_bin | urlDataType_js | urlDataType_ico

record urlData =
  ud_payload :: "u8 list"
  ud_size :: nat
  ud_type :: urlType

datatype url_handler = null_handler | version_handler | statemeastask_handler

record httpResource =
  url :: string
  data :: urlData
  handler :: url_handler

text \<open>The packed structs of the two binary pages.\<close>

record bin_version =
  panel :: regVersion
  regulator :: regVersion

record bin_statemeastask =
  b_connect :: u8
  b_enable :: u8
  b_voltage :: u32
  b_current :: u32
  b_power :: u32
  b_resistance :: u32
  b_time :: u32
  b_capacity :: u32
  b_input_voltage :: u32
  b_temperature :: u16
  b_status :: u16
  b_error :: u16
  b_disablecause :: u16
  b_voltage_set :: u32
  b_current_set :: u32

text \<open>Little-endian memory images.\<close>

definition le2 :: "u16 \<Rightarrow> u8 list" where
  "le2 w = [ucast w, ucast (drop_bit 8 w)]"

definition le4 :: "u32 \<Rightarrow> u8 list" where
  "le4 w = [ucast w, ucast (drop_bit 8 w), ucast (drop_bit 16 w), ucast (drop_bit 24 w)]"

definition version_bytes :: "bin_version \<Rightarrow> u8 list" where
  "version_bytes b =
     le2 (v_major (panel b)) @ le2 (v_minor (panel b)) @ le2 (v_patch (panel b))
     @ le2 (v_major (regulator b)) @ le2 (v_minor (regulator b)) @ le2 (v_patch (regulator b))"

definition statemeastask_bytes :: "bin_statemeastask \<Rightarrow> u8 list" where
  "statemeastask_bytes b =
     [b_connect b, b_enable b] @ le4 (b_voltage b) @ le4 (b_current b) @ le4 (b_power b) @ le4 (b_resistance b)
     @ le4 (b_time b) @ le4 (b_capacity b) @ le4 (b_input_voltage b) @ le2 (b_temperature b) @ le2 (b_status b)
     @ le2 (b_error b) @ le2 (b_disablecause b) @ le4 (b_voltage_set b) @ le4 (b_current_set b)"

record embedded =
  index_html :: "u8 list"
  overall_js :: "u8 list"
  styles_css :: "u8 list"
  favicon_png :: "u8 list"
  page404_html :: "u8 list"

definition resource_add :: "u8 list \<Rightarrow> urlType \<Rightarrow> urlData" where
  "resource_add file t = \<lparr>ud_payload = file, ud_size = length file, ud_type = t\<rparr>"

definition httpResource :: "embedded \<Rightarrow> httpResource list" where
  "httpResource e =
     [\<lparr>url = ''/ '', data = resource_add (index_html e) urlDataType_html, handler = null_handler\<rparr>,
      \<lparr>url = ''/overall.js'', data = resource_add (overall_js e) urlDataType_js, handler = null_handler\<rparr>,
      \<lparr>url = ''/styles.css'', data = resource_add (styles_css e) urlDataType_css, handler = null_handler\<rparr>,
      \<lparr>url = ''/version.bin'', data = \<lparr>ud_payload = [], ud_size = 12, ud_type = urlDataType_bin\<rparr>,
        handler = version_handler\<rparr>,
      \<lparr>url = ''/statemeastask.bin'', data = \<lparr>ud_payload = [], ud_size = 46, ud_type = urlDataType_bin\<rparr>,
        handler = statemeastask_handler\<rparr>,
      \<lparr>url = ''/favicon.png'', data = resource_add (favicon_png e) urlDataType_ico, handler = null_handler\<rparr>,
      \<lparr>url = ''/404'', data = resource_add (page404_html e) urlDataType_html, handler = null_handler\<rparr>]"

text \<open>The static memory of the two files.\<close>

record http =
  h_version :: bin_version
  h_state :: bin_statemeastask
  pageData :: string
  numberRequest :: u32

definition handle_version :: "regVersion \<Rightarrow> reg \<Rightarrow> http \<Rightarrow> urlData \<times> http" where
  "handle_version getVersion r h =
     (let b = (h_version h)\<lparr>panel := getVersion\<rparr>;
          (regMeas, connect) = reg_getState r;
          b = (if connect then (let (v, ok) = reg_versionGet r in b\<lparr>regulator := v\<rparr>) else b)
      in (\<lparr>ud_payload = version_bytes b, ud_size = 12, ud_type = urlDataType_bin\<rparr>, h\<lparr>h_version := b\<rparr>))"

text \<open>A call followed by more code.\<close>

primrec call_bind :: "'a call \<Rightarrow> (bool \<Rightarrow> 'a \<Rightarrow> 'b call) \<Rightarrow> 'b call" where
  "call_bind (Returns ok x) f = f ok x"
| "call_bind (Waits q k) f = Waits q (\<lambda>res dst. call_bind (k res dst) f)"

definition handle_statemeastask :: "reg \<Rightarrow> http \<Rightarrow> (urlData \<times> http) call" where
  "handle_statemeastask r h =
     (let (meas, connect) = reg_getState r;
          b = (h_state h)\<lparr>b_connect := (if connect then 1 else 0)\<rparr>;
          finish = (\<lambda>b. Returns True (\<lparr>ud_payload = statemeastask_bytes b, ud_size = 46, ud_type = urlDataType_bin\<rparr>,
            h\<lparr>h_state := b\<rparr>))
      in if b_connect b \<noteq> 0 then
           (let b = b\<lparr>b_voltage := rs_voltage meas\<rparr>;
                b = b\<lparr>b_current := rs_current meas\<rparr>;
                b = b\<lparr>b_power := rs_power meas\<rparr>;
                b = b\<lparr>b_resistance := rs_resistance meas\<rparr>;
                b = b\<lparr>b_time := rs_time meas\<rparr>;
                b = b\<lparr>b_capacity := rs_capacity meas\<rparr>;
                b = b\<lparr>b_input_voltage := scast (rs_iFan meas)\<rparr>;
                b = b\<lparr>b_temperature := rs_temp_heatsink meas\<rparr>;
                b = b\<lparr>b_status := rs_status meas\<rparr>;
                b = b\<lparr>b_error := rs_error meas\<rparr>;
                b = b\<lparr>b_disablecause := rs_disablecause meas\<rparr>;
                (regenable, ok) = reg_enableGet r;
                b = b\<lparr>b_enable := (if regenable then 1 else 0)\<rparr>
            in call_bind (reg_getTarget (replicate TARGET_WORDS 0)) (\<lambda>res target.
                 let b = b\<lparr>b_voltage_set := join32 (target ! 0) (target ! 1)\<rparr>;
                     b = b\<lparr>b_current_set := join32 (target ! 2) (target ! 3)\<rparr>
                 in finish b))
         else finish b)"

section \<open>The server\<close>

abbreviation (input) "LEN \<equiv> (1024 :: nat)"

definition CRLF :: string where "CRLF = [CHR 0x0D, CHR 0x0A]"

definition http_200 :: string where "http_200 = ''HTTP/1.1 200 OK'' @ CRLF"
definition http_404 :: string where "http_404 = ''HTTP/1.1 404 Not Found'' @ CRLF"
definition http_server :: string where "http_server = ''Server:STM32 based'' @ CRLF"
definition http_connectionClose :: string where "http_connectionClose = ''Connection: close'' @ CRLF"
definition http_headerEnd :: string where "http_headerEnd = CRLF"

fun http_contentType :: "urlType \<Rightarrow> string" where
  "http_contentType urlDataType_html = ''Content-type: text/html'' @ CRLF"
| "http_contentType urlDataType_css = ''Content-type: text/css'' @ CRLF"
| "http_contentType urlDataType_bin = ''Content-type: text/plain'' @ CRLF"
| "http_contentType urlDataType_js = ''Content-type: application/x-javascript'' @ CRLF"
| "http_contentType urlDataType_ico = ''Content-type: image/vnd.microsoft.icon'' @ CRLF"

definition bytes_of :: "string \<Rightarrow> u8 list" where
  "bytes_of = map of_char"

text \<open>\<open>strncmp\<close> up to the length of the second string; \<open>buf\<close> is the received data, without a
  terminating zero.\<close>

fun httpStrcmp :: "u8 list \<Rightarrow> int \<Rightarrow> string \<Rightarrow> bool option" where
  "httpStrcmp buf i [] = Some True"
| "httpStrcmp buf i (c # cs) = do {
     b \<leftarrow> rd buf i;
     if b \<noteq> of_char c then Some False else if b = 0 then Some True else httpStrcmp buf (i + 1) cs
   }"

text \<open>\<open>strcat\<close> into \<open>pageData\<close>, after \<open>strcpy\<close> of the first string.\<close>

fun http_strcat :: "string \<Rightarrow> string list \<Rightarrow> string option" where
  "http_strcat s [] = Some s"
| "http_strcat s (t # ts) = (if length (s @ t) + 1 \<le> LEN then http_strcat (s @ t) ts else None)"

definition write_header :: "string \<Rightarrow> urlType \<Rightarrow> string option" where
  "write_header status t =
     http_strcat [] [status, http_server, http_connectionClose, http_contentType t, http_headerEnd]"

fun c_strlen :: "u8 list \<Rightarrow> nat option" where
  "c_strlen [] = None"
| "c_strlen (b # bs) = (if b = 0 then Some 0 else map_option Suc (c_strlen bs))"

text \<open>\<open>netconn_write\<close> of the payload.\<close>

definition write_payload :: "urlData \<Rightarrow> u8 list option" where
  "write_payload d = do {
     n \<leftarrow> (if ud_size d \<noteq> 0 then Some (ud_size d) else c_strlen (ud_payload d));
     rds (ud_payload d) 0 (int n)
   }"

text \<open>The loop over the resources, which keeps the last one that matches.\<close>

fun find_url :: "u8 list \<Rightarrow> httpResource list \<Rightarrow> httpResource option \<Rightarrow> httpResource option option" where
  "find_url buf [] urlres = Some urlres"
| "find_url buf (r # rs) urlres = do {
     m \<leftarrow> httpStrcmp buf (int (length ''GET '')) (url r);
     find_url buf rs (if m then Some r else urlres)
   }"

definition call_handler :: "regVersion \<Rightarrow> reg \<Rightarrow> httpResource \<Rightarrow> http \<Rightarrow> (urlData \<times> http) call" where
  "call_handler getVersion r urlres h =
     (case handler urlres of
        null_handler \<Rightarrow> Returns True (data urlres, h)
      | version_handler \<Rightarrow> Returns True (handle_version getVersion r h)
      | statemeastask_handler \<Rightarrow> handle_statemeastask r h)"

text \<open>The response of a page: header and payload, in two writes.\<close>

definition respond :: "string \<Rightarrow> urlData \<Rightarrow> http \<Rightarrow> (u8 list list \<times> http) option" where
  "respond status d h = do {
     header \<leftarrow> write_header status (ud_type d);
     payload \<leftarrow> write_payload d;
     Some ([bytes_of header, payload], h\<lparr>pageData := header\<rparr>)
   }"

text \<open>\<open>inbuf\<close> is what \<open>netconn_recv\<close> returned; without it, the uninitialised pointer is deleted.\<close>

definition http_server_serve ::
    "embedded \<Rightarrow> regVersion \<Rightarrow> reg \<Rightarrow> u8 list option \<Rightarrow> http \<Rightarrow> (u8 list list \<times> http) option call" where
  "http_server_serve e getVersion r inbuf h =
     (case inbuf of
        None \<Rightarrow> Returns True None
      | Some buf \<Rightarrow>
          (case httpStrcmp buf 0 ''GET /'' of
             None \<Rightarrow> Returns True None
           | Some True \<Rightarrow>
               (case find_url buf (httpResource e) None of
                  None \<Rightarrow> Returns True None
                | Some (Some urlres) \<Rightarrow>
                    call_bind (call_handler getVersion r urlres h) (\<lambda>_ (d, h). Returns True (respond http_200 d h))
                | Some None \<Rightarrow>
                    Returns True (respond http_404 (data (httpResource e ! (length (httpResource e) - 1))) h))
           | Some False \<Rightarrow>
               (case httpStrcmp buf 0 (''POST /'' @ CRLF) of
                  None \<Rightarrow> Returns True None
                | Some _ \<Rightarrow> Returns True (Some ([], h)))))"

text \<open>One turn of the loop of the task, on a connection that was accepted.\<close>

definition httpServer_turn ::
    "embedded \<Rightarrow> regVersion \<Rightarrow> reg \<Rightarrow> u8 list option \<Rightarrow> http \<Rightarrow> (u8 list list \<times> http) option call" where
  "httpServer_turn e getVersion r inbuf h =
     http_server_serve e getVersion r inbuf (h\<lparr>numberRequest := numberRequest h + 1\<rparr>)"

section \<open>Comparing the request\<close>

definition no_nul :: "string \<Rightarrow> bool" where
  "no_nul s \<longleftrightarrow> 0 \<notin> set (bytes_of s)"

lemma httpStrcmp_eq:
  "no_nul s \<Longrightarrow> i + length s \<le> length buf \<Longrightarrow> httpStrcmp buf (int i) s = Some (prefix (bytes_of s) (drop i buf))"
proof (induction s arbitrary: i)
  case (Cons c s)
  have d: "drop i buf = buf ! i # drop (Suc i) buf" using Cons.prems(2) by (simp add: Cons_nth_drop_Suc)
  have "httpStrcmp buf (int (Suc i)) s = Some (prefix (bytes_of s) (drop (Suc i) buf))"
    using Cons.prems by (intro Cons.IH) (simp_all add: no_nul_def bytes_of_def)
  then show ?case using Cons.prems unfolding d
    by (auto simp: rd_int no_nul_def bytes_of_def add.commute)
qed (simp add: bytes_of_def)

lemma httpStrcmp_short:
  "no_nul s \<Longrightarrow> i \<le> length buf \<Longrightarrow> strict_prefix (drop i buf) (bytes_of s) \<Longrightarrow> httpStrcmp buf (int i) s = None"
proof (induction s arbitrary: i)
  case Nil
  then show ?case by (simp add: bytes_of_def)
next
  case (Cons c s)
  show ?case
  proof (cases "i < length buf")
    case True
    then have d: "drop i buf = buf ! i # drop (Suc i) buf" by (simp add: Cons_nth_drop_Suc)
    have "buf ! i = of_char c" "strict_prefix (drop (Suc i) buf) (bytes_of s)"
      using Cons.prems(3) unfolding d by (auto simp: bytes_of_def)
    moreover have "no_nul s" "(of_char c :: u8) \<noteq> 0" using Cons.prems(1) by (auto simp: no_nul_def bytes_of_def)
    ultimately show ?thesis using Cons.IH [of "Suc i"] True by (simp add: rd_int add.commute)
  next
    case False
    then show ?thesis by (simp add: rd_def)
  qed
qed

text \<open>The page of a path, by the last resource whose name begins it.\<close>

definition lookup_page :: "embedded \<Rightarrow> u8 list \<Rightarrow> httpResource option" where
  "lookup_page e path = find (\<lambda>r. prefix (bytes_of (url r)) path) (rev (httpResource e))"

lemma find_append: "find P (xs @ ys) = (case find P xs of Some x \<Rightarrow> Some x | None \<Rightarrow> find P ys)"
  by (induction xs) simp_all

lemma find_url_eq:
  "\<forall>r \<in> set rs. no_nul (url r) \<and> 4 + length (url r) \<le> length buf \<Longrightarrow>
   find_url buf rs u = Some (case find (\<lambda>r. prefix (bytes_of (url r)) (drop 4 buf)) (rev rs) of Some r \<Rightarrow> Some r | None \<Rightarrow> u)"
proof (induction rs arbitrary: u)
  case (Cons r rs)
  then have "httpStrcmp buf 4 (url r) = Some (prefix (bytes_of (url r)) (drop 4 buf))"
    using httpStrcmp_eq [of "url r" 4 buf] by simp
  with Cons show ?case by (simp add: find_append split: option.split)
qed simp

lemma find_url_None: "r \<in> set rs \<Longrightarrow> httpStrcmp buf 4 (url r) = None \<Longrightarrow> find_url buf rs u = None"
proof (induction rs arbitrary: u)
  case (Cons a rs)
  then show ?case by (cases "httpStrcmp buf 4 (url a)") auto
qed simp

lemma urls: "\<forall>r \<in> set (httpResource e). no_nul (url r) \<and> length (url r) \<le> 18"
  by (simp add: httpResource_def no_nul_def bytes_of_def)

lemma no_nul_requests: "no_nul ''GET /''" "no_nul ''/statemeastask.bin''"
  by (simp_all add: no_nul_def bytes_of_def)

section \<open>The response\<close>

definition page_header :: "string \<Rightarrow> urlType \<Rightarrow> string" where
  "page_header status t = status @ http_server @ http_connectionClose @ http_contentType t @ http_headerEnd"

lemma write_header_eq:
  "status \<in> {http_200, http_404} \<Longrightarrow> write_header status t = Some (page_header status t)"
  by (cases t) (auto simp: write_header_def page_header_def http_200_def http_404_def http_server_def
      http_connectionClose_def http_headerEnd_def CRLF_def)

lemma respond_eq:
  assumes "status \<in> {http_200, http_404}" "ud_size d = length (ud_payload d)" "ud_payload d \<noteq> []"
  shows "respond status d h = Some ([bytes_of (page_header status (ud_type d)), ud_payload d],
    h\<lparr>pageData := page_header status (ud_type d)\<rparr>)"
  using assms by (simp add: respond_def write_header_eq write_payload_def rds_def)

definition files_ok :: "embedded \<Rightarrow> bool" where
  "files_ok e \<longleftrightarrow> [] \<notin> {index_html e, overall_js e, styles_css e, favicon_png e, page404_html e}"

lemma serve_get:
  assumes "prefix (bytes_of ''GET /'') buf" "22 \<le> length buf"
  shows "http_server_serve e v r (Some buf) h =
    (case lookup_page e (drop 4 buf) of
       None \<Rightarrow> Returns True (respond http_404 (data (httpResource e ! 6)) h)
     | Some p \<Rightarrow> call_bind (call_handler v r p h) (\<lambda>_ (d, h). Returns True (respond http_200 d h)))"
proof -
  have "httpStrcmp buf 0 ''GET /'' = Some True"
    using httpStrcmp_eq [OF no_nul_requests(1), of 0 buf] assms by simp
  moreover have "find_url buf (httpResource e) None = Some (lookup_page e (drop 4 buf))"
    using find_url_eq [of "httpResource e" buf None] urls [of e] assms(2)
    unfolding lookup_page_def by (force split: option.split)
  ultimately show ?thesis
    by (simp add: http_server_serve_def split: option.split) (simp add: httpResource_def)
qed

lemma static_pages:
  assumes "files_ok e" "p \<in> set (httpResource e)" "handler p = null_handler"
  shows "respond http_200 (data p) h = Some ([bytes_of (page_header http_200 (ud_type (data p))), ud_payload (data p)],
    h\<lparr>pageData := page_header http_200 (ud_type (data p))\<rparr>)"
  using assms by (intro respond_eq) (auto simp: httpResource_def resource_add_def files_ok_def)

lemma find_in: "find P xs = Some x \<Longrightarrow> x \<in> set xs"
  by (induction xs) (auto split: if_splits)

lemma lookup_in: "lookup_page e path = Some p \<Longrightarrow> p \<in> set (httpResource e)"
  unfolding lookup_page_def by (drule find_in) simp

lemma length_images [simp]: "length (le2 w) = 2" "length (le4 d) = 4" "length (version_bytes b) = 12"
  "length (statemeastask_bytes s) = 46"
  by (simp_all add: le2_def le4_def version_bytes_def statemeastask_bytes_def)

text \<open>Numbers as the page reads them, little-endian.\<close>

definition u16_at :: "u8 list \<Rightarrow> nat \<Rightarrow> u16" where
  "u16_at bs i = ucast (bs ! i) OR push_bit 8 (ucast (bs ! (i + 1)))"

definition u32_at :: "u8 list \<Rightarrow> nat \<Rightarrow> u32" where
  "u32_at bs i = ucast (bs ! i) OR push_bit 8 (ucast (bs ! (i + 1))) OR push_bit 16 (ucast (bs ! (i + 2)))
     OR push_bit 24 (ucast (bs ! (i + 3)))"

lemma le2_parts: "(ucast (ucast w :: u8) :: u16) OR push_bit 8 (ucast (ucast (drop_bit 8 w) :: u8)) = w"
  by (rule bit_eqI) (auto simp: bit_simps)

lemma le4_parts:
  "(ucast (ucast w :: u8) :: u32) OR push_bit 8 (ucast (ucast (drop_bit 8 w) :: u8))
     OR push_bit 16 (ucast (ucast (drop_bit 16 w) :: u8)) OR push_bit 24 (ucast (ucast (drop_bit 24 w) :: u8)) = w"
proof (rule bit_word_eqI)
  fix n assume "n < LENGTH(32)"
  then show "bit ((ucast (ucast w :: u8) :: u32) OR push_bit 8 (ucast (ucast (drop_bit 8 w) :: u8))
     OR push_bit 16 (ucast (ucast (drop_bit 16 w) :: u8)) OR push_bit 24 (ucast (ucast (drop_bit 24 w) :: u8))) n
     \<longleftrightarrow> bit w n"
    by (cases "24 \<le> n"; cases "16 \<le> n"; cases "8 \<le> n") (auto simp: bit_simps)
qed

lemma version_fields:
  "u16_at (version_bytes b) 0 = v_major (panel b)" "u16_at (version_bytes b) 2 = v_minor (panel b)"
  "u16_at (version_bytes b) 4 = v_patch (panel b)" "u16_at (version_bytes b) 6 = v_major (regulator b)"
  "u16_at (version_bytes b) 8 = v_minor (regulator b)" "u16_at (version_bytes b) 10 = v_patch (regulator b)"
  by (simp_all add: u16_at_def version_bytes_def le2_def le2_parts)

lemma state_fields:
  "statemeastask_bytes b ! 0 = b_connect b" "statemeastask_bytes b ! 1 = b_enable b"
  "u32_at (statemeastask_bytes b) 2 = b_voltage b" "u32_at (statemeastask_bytes b) 6 = b_current b"
  "u32_at (statemeastask_bytes b) 10 = b_power b" "u32_at (statemeastask_bytes b) 14 = b_resistance b"
  "u32_at (statemeastask_bytes b) 18 = b_time b" "u32_at (statemeastask_bytes b) 22 = b_capacity b"
  "u32_at (statemeastask_bytes b) 26 = b_input_voltage b" "u16_at (statemeastask_bytes b) 30 = b_temperature b"
  "u16_at (statemeastask_bytes b) 32 = b_status b" "u16_at (statemeastask_bytes b) 34 = b_error b"
  "u16_at (statemeastask_bytes b) 36 = b_disablecause b" "u32_at (statemeastask_bytes b) 38 = b_voltage_set b"
  "u32_at (statemeastask_bytes b) 42 = b_current_set b"
  by (simp_all add: u16_at_def u32_at_def statemeastask_bytes_def le2_def le4_def le2_parts le4_parts)

section \<open>Properties of the server\<close>


definition sample_files :: embedded where
  "sample_files = \<lparr>index_html = [1], overall_js = [2], styles_css = [3], favicon_png = [4], page404_html = [5]\<rparr>"

definition sample_version :: regVersion where
  "sample_version = \<lparr>v_major = 1, v_minor = 2, v_patch = 3\<rparr>"

definition sample_http :: http where
  "sample_http = \<lparr>h_version = \<lparr>panel = sample_version, regulator = sample_version\<rparr>,
     h_state = \<lparr>b_connect = 0, b_enable = 0, b_voltage = 0, b_current = 0, b_power = 0, b_resistance = 0, b_time = 0,
       b_capacity = 0, b_input_voltage = 0, b_temperature = 0, b_status = 0, b_error = 0, b_disablecause = 0,
       b_voltage_set = 0, b_current_set = 0\<rparr>, pageData = [], numberRequest = 0\<rparr>"


text \<open>The state page.  With the regulator connected, the server asks the regulator for its target and
  then answers with an image from which the page decodes the measurements, the enable flag, and the
  target that came back.  (The member \<open>input_voltage\<close> gets the current of the fan.)\<close>

theorem http_state_page:
  assumes "prefix (bytes_of ''GET /'') buf" "22 \<le> length buf" "lookup_page e (drop 4 buf) = Some p"
    and "handler p = statemeastask_handler" "connected r"
  shows "\<exists>k. http_server_serve e v r (Some buf) h = Waits (read_request 0x0100 (replicate TARGET_WORDS 0)) k \<and>
    (\<forall>res t. \<exists>body h'. k res (target_regs t)
        = Returns True (Some ([bytes_of (page_header http_200 urlDataType_bin), body], h')) \<and>
      body ! 0 = 1 \<and> body ! 1 = (if enabled r \<noteq> 0 then 1 else 0) \<and>
      u32_at body 2 = rs_voltage (regMeas r) \<and> u32_at body 6 = rs_current (regMeas r) \<and>
      u32_at body 10 = rs_power (regMeas r) \<and> u32_at body 14 = rs_resistance (regMeas r) \<and>
      u32_at body 18 = rs_time (regMeas r) \<and> u32_at body 22 = rs_capacity (regMeas r) \<and>
      u32_at body 26 = scast (rs_iFan (regMeas r)) \<and> u16_at body 30 = rs_temp_heatsink (regMeas r) \<and>
      u16_at body 32 = rs_status (regMeas r) \<and> u16_at body 34 = rs_error (regMeas r) \<and>
      u16_at body 36 = rs_disablecause (regMeas r) \<and>
      u32_at body 38 = voltage_set t \<and> u32_at body 42 = current_set t)"
proof -
  note serve = serve_get [OF assms(1,2), of e v r h, unfolded assms(3) option.case]
  have ne: "statemeastask_bytes b \<noteq> []" for b by (simp add: statemeastask_bytes_def)
  have t: "join32 (target_regs t ! 0) (target_regs t ! 1) = voltage_set t"
    "join32 (target_regs t ! 2) (target_regs t ! 3) = current_set t" for t
    by (simp_all add: target_regs_def le32_def join32_le32)
  show ?thesis
    using assms(4,5)
    by (simp add: serve call_handler_def handle_statemeastask_def reg_getState_def reg_enableGet_def reg_getTarget_def
        read_request_def Let_def respond_eq ne state_fields state_fields(2) [simplified] t [simplified])
qed

theorem http_state_page_witness:
  "\<exists>k. http_server_serve sample_files sample_version initial_reg (Some (bytes_of ''GET /statemeastask.bin HTTP/1.1'')) sample_http
     = Waits (read_request 0x0100 (replicate TARGET_WORDS 0)) k"
  using http_state_page [of "bytes_of ''GET /statemeastask.bin HTTP/1.1''" sample_files
      "\<lparr>url = ''/statemeastask.bin'', data = \<lparr>ud_payload = [], ud_size = 46, ud_type = urlDataType_bin\<rparr>,
        handler = statemeastask_handler\<rparr>" initial_reg sample_version sample_http]
  by (auto simp: sample_files_def bytes_of_def lookup_page_def httpResource_def resource_add_def initial_reg_def)

text \<open>A truncated request.  When the received data end within the name of a page, the comparison reads
  behind the buffer, which has no terminating zero.\<close>

theorem http_short_request:
  assumes "strict_prefix buf (bytes_of ''GET /statemeastask.bin'')"
  shows "http_server_serve e v r (Some buf) h = Returns True None"
proof (cases "length buf < 5")
  case True
  have "strict_prefix buf (bytes_of ''GET /'')"
  proof -
    have "prefix buf (take 5 (bytes_of ''GET /statemeastask.bin''))"
      using assms True by (auto simp: strict_prefix_def prefix_def)
    moreover have "take 5 (bytes_of ''GET /statemeastask.bin'') = bytes_of ''GET /''" by (simp add: bytes_of_def)
    moreover have "length (bytes_of ''GET /'') = 5" by (simp add: bytes_of_def)
    ultimately show ?thesis using True by (metis nat_neq_iff strict_prefix_def)
  qed
  then have "httpStrcmp buf 0 ''GET /'' = None"
    using httpStrcmp_short [OF no_nul_requests(1), of 0 buf] by simp
  then show ?thesis by (simp add: http_server_serve_def)
next
  case False
  obtain rest where rest: "bytes_of ''GET /statemeastask.bin'' = buf @ rest" "rest \<noteq> []"
    using assms by (auto simp: strict_prefix_def prefix_def)
  have "take 5 buf = take 5 (buf @ rest)" using False by simp
  then have "prefix (bytes_of ''GET /'') buf"
    using take_is_prefix [of 5 buf] unfolding rest(1) [symmetric] by (simp add: bytes_of_def)
  then have get: "httpStrcmp buf 0 ''GET /'' = Some True"
    using httpStrcmp_eq [OF no_nul_requests(1), of 0 buf] False by simp
  have "drop 4 buf @ rest = bytes_of ''/statemeastask.bin''"
    using arg_cong [OF rest(1), of "drop 4"] False by (simp add: bytes_of_def)
  then have "strict_prefix (drop 4 buf) (bytes_of ''/statemeastask.bin'')"
    using rest(2) by (metis append_self_conv prefixI strict_prefix_def)
  then have short: "httpStrcmp buf 4 ''/statemeastask.bin'' = None"
    using httpStrcmp_short [OF no_nul_requests(2), of 4 buf] False by simp
  have "find_url buf (httpResource e) None = None"
    by (rule find_url_None [of "httpResource e ! 4"]) (simp_all add: httpResource_def short del: httpStrcmp.simps)
  then show ?thesis by (simp add: http_server_serve_def get del: httpStrcmp.simps)
qed

theorem http_short_request_witness:
  "http_server_serve sample_files sample_version initial_reg (Some (bytes_of ''GET /st'')) sample_http = Returns True None"
  using http_short_request [of "bytes_of ''GET /st''" sample_files sample_version initial_reg sample_http] by (simp add: bytes_of_def)

end
