(* ===== verification/Sntp.thy ===== *)
theory Sntp
  imports Calendar
begin

unbundle bit_operations_syntax

text \<open>
  The SNTP client \<open>net/src/sntp.c\<close>, which sets the clock.  The network stack calls it: a timer expires,
  a name is resolved, a datagram arrives.  The state holds what the stack keeps for the client: the
  timers, in any order of expiry, the unanswered name queries, whether the UDP control block exists,
  the argument registered with the receive callback, and the allocated packet buffers.  What the stack
  answers (\<open>dns_gethostbyname\<close>, \<open>pbuf_alloc\<close>) and what the clock peripheral shows are parameters of an
  event.  Using a control block that was removed, or freeing a buffer twice, is \<^term>\<open>None\<close>.
\<close>

section \<open>State\<close>

type_synonym pbuf = nat
type_synonym ip_addr = u32

datatype timer = sntp_request_timer | sntp_try_next_server_timer | sntp_send_request_timer pbuf

datatype dns_result = Dns_ok ip_addr | Dns_inprogress | Dns_error

record sntp =
  timers :: "(nat \<times> timer) list"
  dns_queries :: nat
  sntp_pcb :: bool
  sntp_recv_arg :: "pbuf option"
  pbufs :: "pbuf list"
  sent :: "(ip_addr \<times> u8 list) list"
  sntp_current_server :: u8
  clock :: rtc_hw

abbreviation (input) "SNTP_SINGLESYNC \<equiv> (1 :: int)"
abbreviation (input) "SNTP_PORT \<equiv> (123 :: u16)"
abbreviation (input) "SNTP_RECV_TIMEOUT \<equiv> (4500 :: nat)"
abbreviation (input) "SNTP_RETRY_TIMEOUT \<equiv> (5000 :: nat)"
abbreviation (input) "SNTP_UPDATE_DELAY \<equiv> (30000 :: nat)"
abbreviation (input) "SNTP_MSG_LEN \<equiv> (48 :: nat)"
abbreviation (input) "SNTP_OFFSET_LI_VN_MODE \<equiv> (0 :: nat)"
abbreviation (input) "SNTP_MODE_MASK \<equiv> (0x07 :: u8)"
abbreviation (input) "SNTP_MODE_SERVER \<equiv> (4 :: u8)"
abbreviation (input) "SNTP_MODE_BROADCAST \<equiv> (5 :: u8)"
abbreviation (input) "SNTP_OFFSET_STRATUM \<equiv> (1 :: nat)"
abbreviation (input) "SNTP_STRATUM_KOD \<equiv> (0 :: u8)"
abbreviation (input) "SNTP_OFFSET_RECEIVE_TIME \<equiv> (32 :: nat)"
abbreviation (input) "DIFF_SEC_1900_1970 \<equiv> (2208988800 :: u32)"

definition sntp_server_addresses :: "string list" where
  "sntp_server_addresses = [''1.pool.ntp.org'', ''2.pool.ntp.org'', ''3.pool.ntp.org'', ''second.time.server'']"

definition sntp_num_servers :: u8 where
  "sntp_num_servers = of_nat (length sntp_server_addresses)"

definition sys_timeout :: "nat \<Rightarrow> timer \<Rightarrow> sntp \<Rightarrow> sntp" where
  "sys_timeout msecs h s = s\<lparr>timers := timers s @ [(msecs, h)]\<rparr>"

text \<open>\<open>sys_untimeout\<close> removes the first timer with the handler and argument.\<close>

fun remove_timer :: "timer \<Rightarrow> (nat \<times> timer) list \<Rightarrow> (nat \<times> timer) list" where
  "remove_timer h [] = []"
| "remove_timer h ((ms, h') # ts) = (if h' = h then ts else (ms, h') # remove_timer h ts)"

definition sys_untimeout :: "timer \<Rightarrow> sntp \<Rightarrow> sntp" where
  "sys_untimeout h s = s\<lparr>timers := remove_timer h (timers s)\<rparr>"

definition pbuf_free :: "pbuf \<Rightarrow> sntp \<Rightarrow> sntp option" where
  "pbuf_free p s = (if p \<in> set (pbufs s) then Some (s\<lparr>pbufs := remove1 p (pbufs s)\<rparr>) else None)"

section \<open>Requests\<close>

definition ntohl :: "u8 list \<Rightarrow> u32" where
  "ntohl b = push_bit 24 (ucast (b ! 0)) OR push_bit 16 (ucast (b ! 1)) OR push_bit 8 (ucast (b ! 2)) OR ucast (b ! 3)"

definition sntp_process :: "u32 list \<Rightarrow> u8 list \<Rightarrow> sntp \<Rightarrow> sntp option" where
  "sntp_process isr receive_timestamp s =
     (let t = uint (ntohl receive_timestamp - DIFF_SEC_1900_1970)
      in do { (_, h) \<leftarrow> rtc_setTimeUnix isr t (clock s); Some (s\<lparr>clock := h\<rparr>) })"

definition sntp_initialize_request :: "u8 list" where
  "sntp_initialize_request = (replicate SNTP_MSG_LEN 0)[0 := 0x00 OR push_bit 3 4 OR 0x03]"

definition sntp_send_request :: "pbuf option \<Rightarrow> ip_addr \<Rightarrow> sntp \<Rightarrow> sntp option" where
  "sntp_send_request alloc server_addr s =
     (case alloc of
        Some p \<Rightarrow>
          (let s = s\<lparr>pbufs := p # pbufs s\<rparr>; sntpmsg = sntp_initialize_request
           in if \<not> sntp_pcb s then None
              else let s = s\<lparr>sent := sent s @ [(server_addr, sntpmsg)]\<rparr>;
                       s = sys_timeout SNTP_RECV_TIMEOUT (sntp_send_request_timer p) s
                   in Some (s\<lparr>sntp_recv_arg := Some p\<rparr>))
      | None \<Rightarrow> Some (sys_timeout SNTP_RETRY_TIMEOUT sntp_request_timer s))"

definition sntp_dns_found :: "pbuf option \<Rightarrow> ip_addr option \<Rightarrow> sntp \<Rightarrow> sntp option" where
  "sntp_dns_found alloc ipaddr s =
     (case ipaddr of
        Some ip \<Rightarrow> sntp_send_request alloc ip s
      | None \<Rightarrow> Some (sys_timeout SNTP_RETRY_TIMEOUT sntp_try_next_server_timer s))"

definition sntp_request :: "dns_result \<Rightarrow> pbuf option \<Rightarrow> sntp \<Rightarrow> sntp option" where
  "sntp_request dns alloc s = do {
     _ \<leftarrow> rd sntp_server_addresses (uint (sntp_current_server s));
     (case dns of
        Dns_inprogress \<Rightarrow> Some (s\<lparr>dns_queries := dns_queries s + 1\<rparr>)
      | Dns_ok ip \<Rightarrow> sntp_send_request alloc ip s
      | Dns_error \<Rightarrow> Some (sys_timeout SNTP_RETRY_TIMEOUT sntp_try_next_server_timer s))
   }"

definition sntp_try_next_server :: "dns_result \<Rightarrow> pbuf option \<Rightarrow> sntp \<Rightarrow> sntp option" where
  "sntp_try_next_server dns alloc s =
     (if sntp_num_servers > 1 then
        (let s = s\<lparr>sntp_current_server := sntp_current_server s + 1\<rparr>;
             s = (if sntp_current_server s \<ge> sntp_num_servers then s\<lparr>sntp_current_server := 0\<rparr> else s)
         in sntp_request dns alloc s)
      else Some (sys_timeout SNTP_RETRY_TIMEOUT sntp_request_timer s))"

definition sntp_send_request_timeout :: "dns_result \<Rightarrow> pbuf option \<Rightarrow> pbuf \<Rightarrow> sntp \<Rightarrow> sntp option" where
  "sntp_send_request_timeout dns alloc arg s = do {
     s \<leftarrow> pbuf_free arg s;
     sntp_try_next_server dns alloc s
   }"

datatype recv_err = ERR_OK | ERR_ARG | SNTP_ERR_KOD

text \<open>What \<open>sntp_recv\<close> makes of a datagram.\<close>

definition sntp_check :: "u8 list \<Rightarrow> u16 \<Rightarrow> recv_err" where
  "sntp_check p port =
     (if port = SNTP_PORT then
        (if length p = SNTP_MSG_LEN then
           (let mode = p ! SNTP_OFFSET_LI_VN_MODE AND SNTP_MODE_MASK in
            if mode = SNTP_MODE_SERVER \<or> mode = SNTP_MODE_BROADCAST then
              (if p ! SNTP_OFFSET_STRATUM = SNTP_STRATUM_KOD then SNTP_ERR_KOD else ERR_OK)
            else ERR_ARG)
         else ERR_ARG)
      else ERR_ARG)"

definition sntp_recv ::
    "dns_result \<Rightarrow> pbuf option \<Rightarrow> u32 list \<Rightarrow> pbuf \<Rightarrow> u8 list \<Rightarrow> u16 \<Rightarrow> sntp \<Rightarrow> sntp option" where
  "sntp_recv dns alloc isr arg p port s =
     (let s = sys_untimeout (sntp_send_request_timer arg) s;
          s = sys_untimeout sntp_try_next_server_timer s;
          s = sys_untimeout sntp_request_timer s
      in case sntp_check p port of
           ERR_OK \<Rightarrow> do {
             s \<leftarrow> sntp_process isr (take 4 (drop SNTP_OFFSET_RECEIVE_TIME p)) s;
             if SNTP_SINGLESYNC > 0 then Some (s\<lparr>sntp_pcb := False\<rparr>)
             else Some (sys_timeout SNTP_UPDATE_DELAY sntp_request_timer s)
           }
         | SNTP_ERR_KOD \<Rightarrow> sntp_try_next_server dns alloc s
         | ERR_ARG \<Rightarrow> Some (sys_timeout SNTP_RETRY_TIMEOUT sntp_request_timer s))"

text \<open>\<open>sntp_init\<close>, with the answer of \<open>udp_new\<close>.\<close>

definition initial_sntp :: "rtc_hw \<Rightarrow> sntp" where
  "initial_sntp h = \<lparr>timers = [], dns_queries = 0, sntp_pcb = False, sntp_recv_arg = None, pbufs = [], sent = [],
     sntp_current_server = 0, clock = h\<rparr>"

definition sntp_init :: "bool \<Rightarrow> dns_result \<Rightarrow> pbuf option \<Rightarrow> sntp \<Rightarrow> sntp option" where
  "sntp_init udp_new dns alloc s =
     (let s = s\<lparr>sntp_pcb := udp_new\<rparr> in if sntp_pcb s then sntp_request dns alloc s else Some s)"

section \<open>Events\<close>

datatype sntp_event = Timer "nat \<times> timer" | Dns "ip_addr option" | Datagram "u8 list" u16

fun sntp_enabled :: "sntp \<Rightarrow> sntp_event \<Rightarrow> bool" where
  "sntp_enabled s (Timer t) \<longleftrightarrow> t \<in> set (timers s)"
| "sntp_enabled s (Dns ip) \<longleftrightarrow> 0 < dns_queries s"
| "sntp_enabled s (Datagram p port) \<longleftrightarrow> sntp_pcb s \<and> sntp_recv_arg s \<noteq> None"

fun sntp_expire :: "dns_result \<Rightarrow> pbuf option \<Rightarrow> timer \<Rightarrow> sntp \<Rightarrow> sntp option" where
  "sntp_expire dns alloc sntp_request_timer s = sntp_request dns alloc s"
| "sntp_expire dns alloc sntp_try_next_server_timer s = sntp_try_next_server dns alloc s"
| "sntp_expire dns alloc (sntp_send_request_timer p) s = sntp_send_request_timeout dns alloc p s"

fun sntp_handle :: "dns_result \<Rightarrow> pbuf option \<Rightarrow> u32 list \<Rightarrow> sntp_event \<Rightarrow> sntp \<Rightarrow> sntp option" where
  "sntp_handle dns alloc isr (Timer t) s = sntp_expire dns alloc (snd t) (s\<lparr>timers := remove1 t (timers s)\<rparr>)"
| "sntp_handle dns alloc isr (Dns ip) s = sntp_dns_found alloc ip (s\<lparr>dns_queries := dns_queries s - 1\<rparr>)"
| "sntp_handle dns alloc isr (Datagram p port) s =
     (case sntp_recv_arg s of Some arg \<Rightarrow> sntp_recv dns alloc isr arg p port s | None \<Rightarrow> None)"

text \<open>\<open>pbuf_alloc\<close> returns a buffer that is not in use.\<close>

definition fresh :: "pbuf option \<Rightarrow> pbuf list \<Rightarrow> bool" where
  "fresh alloc ps \<longleftrightarrow> (\<forall>p. alloc = Some p \<longrightarrow> p \<notin> set ps)"

inductive sntp_reachable :: "sntp \<Rightarrow> bool" where
  start: "sntp_init True dns alloc (initial_sntp h) = Some s \<Longrightarrow> sntp_reachable s"
| event: "sntp_reachable s \<Longrightarrow> sntp_enabled s ev \<Longrightarrow> fresh alloc (pbufs s) \<Longrightarrow> sntp_handle dns alloc isr ev s = Some s'
    \<Longrightarrow> sntp_reachable s'"

section \<open>The invariant\<close>

text \<open>The buffers that a pending timer will free.\<close>

fun sending :: "(nat \<times> timer) list \<Rightarrow> pbuf list" where
  "sending [] = []"
| "sending ((ms, h) # ts) = (case h of sntp_send_request_timer p \<Rightarrow> p # sending ts | _ \<Rightarrow> sending ts)"

definition sntp_core :: "sntp \<Rightarrow> bool" where
  "sntp_core s \<longleftrightarrow> sntp_current_server s < 4 \<and> distinct (pbufs s) \<and> distinct (sending (timers s)) \<and>
     set (sending (timers s)) \<subseteq> set (pbufs s)"

definition sntp_waiting :: "sntp \<Rightarrow> bool" where
  "sntp_waiting s \<longleftrightarrow> timers s \<noteq> [] \<or> 0 < dns_queries s"

lemma sending_append [simp]: "sending (xs @ ys) = sending xs @ sending ys"
  by (induction xs rule: sending.induct) (auto split: timer.split)

lemma sending_remove: "set (sending (remove_timer h ts)) \<subseteq> set (sending ts)"
  "distinct (sending ts) \<Longrightarrow> distinct (sending (remove_timer h ts))"
  by (induction h ts rule: remove_timer.induct) (auto split: timer.split timer.split_asm)

lemma sending_remove1: "set (sending (remove1 t ts)) \<subseteq> set (sending ts)"
  "distinct (sending ts) \<Longrightarrow> distinct (sending (remove1 t ts))"
  "distinct (sending ts) \<Longrightarrow> (ms, sntp_send_request_timer p) \<in> set ts \<Longrightarrow>
     p \<notin> set (sending (remove1 (ms, sntp_send_request_timer p) ts)) \<and> p \<in> set (sending ts)"
  by (induction ts rule: sending.induct) (auto split: timer.split timer.split_asm)

lemma num_servers [simp]: "sntp_num_servers = 4"
  by (simp add: sntp_num_servers_def sntp_server_addresses_def)

text \<open>A handler that ran well: the client goes on, and the clock is as it was.\<close>

definition goes_on :: "sntp \<Rightarrow> sntp option \<Rightarrow> bool" where
  "goes_on s r \<longleftrightarrow> (\<exists>s'. r = Some s' \<and> sntp_core s' \<and> sntp_pcb s' \<and> sntp_waiting s' \<and> clock s' = clock s)"

lemma send_request_on:
  "sntp_core s \<Longrightarrow> sntp_pcb s \<Longrightarrow> fresh alloc (pbufs s) \<Longrightarrow> goes_on s (sntp_send_request alloc ip s)"
  by (auto simp: goes_on_def sntp_send_request_def sntp_core_def sntp_waiting_def fresh_def sys_timeout_def Let_def
      split: option.split)

lemma rd_servers: "sntp_current_server s < 4 \<Longrightarrow> \<exists>x. rd sntp_server_addresses (uint (sntp_current_server s)) = Some x"
  by (simp add: rd_def sntp_server_addresses_def word_less_def)

lemma request_on:
  assumes "sntp_core s" "sntp_pcb s" "fresh alloc (pbufs s)"
  shows "goes_on s (sntp_request dns alloc s)"
proof -
  obtain x where "rd sntp_server_addresses (uint (sntp_current_server s)) = Some x"
    using rd_servers [of s] assms(1) by (auto simp: sntp_core_def)
  then show ?thesis using assms send_request_on [OF assms]
    by (cases dns) (auto simp: sntp_request_def goes_on_def sntp_core_def sntp_waiting_def sys_timeout_def)
qed

lemma try_next_server_on:
  assumes "sntp_core s" "sntp_pcb s" "fresh alloc (pbufs s)"
  shows "goes_on s (sntp_try_next_server dns alloc s)"
proof -
  let ?s = "s\<lparr>sntp_current_server := sntp_current_server s + 1\<rparr>"
  let ?s' = "if sntp_current_server ?s \<ge> 4 then ?s\<lparr>sntp_current_server := 0\<rparr> else ?s"
  have "goes_on ?s' (sntp_request dns alloc ?s')"
    using assms by (intro request_on) (auto simp: sntp_core_def fresh_def)
  then show ?thesis by (cases "sntp_current_server ?s \<ge> 4") (simp_all add: sntp_try_next_server_def Let_def goes_on_def)
qed

lemma timeout_on:
  assumes "sntp_core s" "sntp_pcb s" "fresh alloc (pbufs s)" "p \<in> set (pbufs s)" "p \<notin> set (sending (timers s))"
  shows "goes_on s (sntp_send_request_timeout dns alloc p s)"
proof -
  let ?s = "s\<lparr>pbufs := remove1 p (pbufs s)\<rparr>"
  have "sntp_core ?s" using assms by (auto simp: sntp_core_def)
  moreover have "fresh alloc (pbufs ?s)" using assms(3) by (auto simp: fresh_def dest: notin_set_remove1)
  ultimately have "goes_on ?s (sntp_try_next_server dns alloc ?s)" using assms(2) by (intro try_next_server_on) auto
  then show ?thesis using assms(4) by (simp add: sntp_send_request_timeout_def pbuf_free_def goes_on_def)
qed

lemma timer_on:
  assumes "sntp_core s" "sntp_pcb s" "fresh alloc (pbufs s)" "t \<in> set (timers s)"
  shows "goes_on s (sntp_handle dns alloc isr (Timer t) s)"
proof -
  let ?s = "s\<lparr>timers := remove1 t (timers s)\<rparr>"
  obtain ms h where t: "t = (ms, h)" by (cases t)
  have core: "sntp_core ?s" using assms(1) sending_remove1(1) [of t "timers s"] sending_remove1(2) [of "timers s" t] by (auto simp: sntp_core_def)
  have "goes_on ?s (sntp_expire dns alloc h ?s)"
  proof (cases h)
    case sntp_request_timer
    then show ?thesis using request_on [OF core, of alloc dns] assms by (simp add: fresh_def)
  next
    case sntp_try_next_server_timer
    then show ?thesis using try_next_server_on [OF core, of alloc dns] assms by (simp add: fresh_def)
  next
    case (sntp_send_request_timer p)
    then have "p \<notin> set (sending (timers ?s))" "p \<in> set (pbufs s)"
      using assms(1,4) sending_remove1(3) [of "timers s" ms p] t by (auto simp: sntp_core_def)
    then show ?thesis using timeout_on [OF core, of alloc p dns] assms sntp_send_request_timer by (simp add: fresh_def)
  qed
  then show ?thesis by (simp add: t goes_on_def)
qed

lemma dns_on:
  assumes "sntp_core s" "sntp_pcb s" "fresh alloc (pbufs s)"
  shows "goes_on s (sntp_handle dns alloc isr (Dns ip) s)"
proof -
  let ?s = "s\<lparr>dns_queries := dns_queries s - 1\<rparr>"
  have core: "sntp_core ?s" "fresh alloc (pbufs ?s)" using assms by (simp_all add: sntp_core_def fresh_def)
  show ?thesis using send_request_on [OF core(1) _ core(2)] assms(2) core(1)
    by (cases ip) (auto simp: sntp_dns_found_def goes_on_def sys_timeout_def sntp_core_def sntp_waiting_def)
qed

definition flags_come :: "u32 list \<Rightarrow> bool" where
  "flags_come isr \<longleftrightarrow> (\<exists>isr1 isr2. wait_flag RTC_ISR_RSF isr = Some isr1 \<and> wait_flag RTC_ISR_INITF isr1 = Some isr2)"

lemma setTime_returns: "flags_come isr \<Longrightarrow> \<exists>ok h'. rtc_setTimeUnix isr t h = Some (ok, h')"
  by (auto simp: flags_come_def rtc_setTimeUnix_def rtc_setTime_def Let_def)

lemma core_untimeout: "sntp_core s \<Longrightarrow> sntp_core (sys_untimeout h s)"
  using sending_remove(1) [of h "timers s"] sending_remove(2) [of "timers s" h] by (auto simp: sntp_core_def sys_untimeout_def)

lemma untimeout_simps [simp]: "sntp_pcb (sys_untimeout h s) = sntp_pcb s" "clock (sys_untimeout h s) = clock s"
  "pbufs (sys_untimeout h s) = pbufs s" "dns_queries (sys_untimeout h s) = dns_queries s"
  by (simp_all add: sys_untimeout_def)

definition untimed :: "pbuf \<Rightarrow> sntp \<Rightarrow> sntp" where
  "untimed arg s = sys_untimeout sntp_request_timer (sys_untimeout sntp_try_next_server_timer
     (sys_untimeout (sntp_send_request_timer arg) s))"

lemma untimed_simps [simp]: "sntp_pcb (untimed arg s) = sntp_pcb s" "clock (untimed arg s) = clock s"
  "pbufs (untimed arg s) = pbufs s" "sntp_core s \<Longrightarrow> sntp_core (untimed arg s)"
  "dns_queries (untimed arg s) = dns_queries s"
  by (simp_all add: untimed_def core_untimeout)

lemma recv_bad_on:
  assumes "sntp_core s" "sntp_pcb s" "fresh alloc (pbufs s)" "sntp_check p port \<noteq> ERR_OK"
  shows "goes_on s (sntp_recv dns alloc isr arg p port s)"
proof -
  have u: "sntp_core (untimed arg s)" "sntp_pcb (untimed arg s)" "fresh alloc (pbufs (untimed arg s))"
    using assms by simp_all
  show ?thesis
  proof (cases "sntp_check p port")
    case SNTP_ERR_KOD
    then show ?thesis using try_next_server_on [OF u, of dns]
      by (simp add: sntp_recv_def Let_def goes_on_def flip: untimed_def)
  next
    case ERR_ARG
    then show ?thesis using u
      by (simp add: sntp_recv_def Let_def goes_on_def sys_timeout_def sntp_core_def sntp_waiting_def flip: untimed_def)
  qed (use assms in simp)
qed

lemma recv_good:
  assumes "sntp_check p port = ERR_OK" "flags_come isr"
  shows "\<exists>ok h'. rtc_setTimeUnix isr (uint (ntohl (take 4 (drop 32 p)) - DIFF_SEC_1900_1970)) (clock s) = Some (ok, h') \<and>
    sntp_recv dns alloc isr arg p port s = Some ((untimed arg s)\<lparr>clock := h', sntp_pcb := False\<rparr>)"
  using setTime_returns [OF assms(2)] assms(1)
  by (force simp: sntp_recv_def sntp_process_def Let_def simp flip: untimed_def)

lemma pcb_stays_removed:
  assumes "\<not> sntp_pcb s" "sntp_enabled s ev" "sntp_handle dns alloc isr ev s = Some s'"
  shows "\<not> sntp_pcb s'"
proof -
  have send: "sntp_send_request alloc ip s = Some s' \<Longrightarrow> \<not> sntp_pcb s \<Longrightarrow> \<not> sntp_pcb s'" for ip s s' alloc
    by (cases alloc) (auto simp: sntp_send_request_def sys_timeout_def Let_def)
  have req: "sntp_request dns alloc s = Some s' \<Longrightarrow> \<not> sntp_pcb s \<Longrightarrow> \<not> sntp_pcb s'" for dns s s' alloc
    by (cases dns) (auto simp: sntp_request_def sys_timeout_def dest: send split: bind_splits)
  have nxt: "sntp_try_next_server dns alloc s = Some s' \<Longrightarrow> \<not> sntp_pcb s \<Longrightarrow> \<not> sntp_pcb s'" for dns s s' alloc
    by (auto simp: sntp_try_next_server_def Let_def split: if_splits dest!: req)
  show ?thesis
  proof (cases ev)
    case (Timer t)
    then show ?thesis using assms
      by (cases "snd t") (auto simp: sntp_send_request_timeout_def pbuf_free_def dest!: req nxt split: bind_splits if_splits)
  next
    case (Dns ip)
    then show ?thesis using assms by (cases ip) (auto simp: sntp_dns_found_def sys_timeout_def dest!: send)
  next
    case (Datagram p port)
    then show ?thesis using assms by simp
  qed
qed

definition sntp_ok :: "sntp \<Rightarrow> bool" where
  "sntp_ok s \<longleftrightarrow> (sntp_pcb s \<longrightarrow> sntp_core s \<and> sntp_waiting s)"

lemma handle_ok:
  assumes "sntp_core s" "sntp_pcb s" "sntp_enabled s ev" "fresh alloc (pbufs s)"
    and "\<And>p port. ev = Datagram p port \<Longrightarrow> sntp_check p port = ERR_OK \<Longrightarrow> flags_come isr"
  shows "goes_on s (sntp_handle dns alloc isr ev s) \<or>
    (\<exists>p port s'. ev = Datagram p port \<and> sntp_check p port = ERR_OK \<and>
       sntp_handle dns alloc isr ev s = Some s' \<and> \<not> sntp_pcb s' \<and>
       (\<exists>ok. rtc_setTimeUnix isr (uint (ntohl (take 4 (drop 32 p)) - DIFF_SEC_1900_1970)) (clock s) = Some (ok, clock s')))"
proof (cases ev)
  case (Timer t)
  then show ?thesis using timer_on [OF assms(1,2,4), of t] assms(3) by simp
next
  case (Dns ip)
  then show ?thesis using dns_on [OF assms(1,2,4)] by blast
next
  case (Datagram p port)
  then obtain arg where arg: "sntp_recv_arg s = Some arg" using assms(3) by auto
  show ?thesis
  proof (cases "sntp_check p port = ERR_OK")
    case True
    with recv_good [OF True assms(5) [OF Datagram True], of s dns alloc arg] show ?thesis
      by (force simp: Datagram arg)
  next
    case False
    then show ?thesis using recv_bad_on [OF assms(1,2,4)] by (simp add: Datagram arg)
  qed
qed

lemma reachable_ok: "sntp_reachable s \<Longrightarrow> sntp_ok s"
proof (induction rule: sntp_reachable.induct)
  case (start dns alloc h s)
  let ?s = "(initial_sntp h)\<lparr>sntp_pcb := True\<rparr>"
  have "goes_on ?s (sntp_request dns alloc ?s)"
    by (rule request_on) (simp_all add: initial_sntp_def sntp_core_def fresh_def)
  then show ?case using start by (auto simp: sntp_init_def goes_on_def sntp_ok_def)
next
  case (event s ev alloc dns isr s')
  show ?case
  proof (cases "sntp_pcb s \<and> sntp_pcb s'")
    case True
    have core: "sntp_core s" using event.IH True by (simp add: sntp_ok_def)
    have good: "flags_come isr" if "ev = Datagram p port" "sntp_check p port = ERR_OK" for p port
    proof (rule ccontr)
      assume "\<not> flags_come isr"
      from event.hyps(2,4) that True show False
        by (auto simp: sntp_recv_def Let_def split: bind_splits)
    qed
    then show ?thesis
      using handle_ok [OF core _ event.hyps(2,3), of isr dns] True event.hyps(4) by (auto simp: goes_on_def sntp_ok_def)
  next
    case False
    then show ?thesis using pcb_stays_removed [OF _ event.hyps(2,4)] by (auto simp: sntp_ok_def)
  qed
qed

section \<open>Properties of the client\<close>


text \<open>A reply of a server, with the time stamp of the receipt of the request.\<close>

definition htonl :: "u32 \<Rightarrow> u8 list" where
  "htonl w = [ucast (drop_bit 24 w), ucast (drop_bit 16 w), ucast (drop_bit 8 w), ucast w]"

definition server_reply :: "u8 \<Rightarrow> u32 \<Rightarrow> u8 list" where
  "server_reply stratum stamp = [0x24, stratum] @ replicate 30 0 @ htonl stamp @ replicate 12 0"

lemma ntohl_htonl [simp]: "ntohl (htonl w) = w"
proof (rule bit_word_eqI)
  fix n assume "n < LENGTH(32)"
  then show "bit (ntohl (htonl w)) n \<longleftrightarrow> bit w n"
    by (cases "24 \<le> n"; cases "16 \<le> n"; cases "8 \<le> n") (auto simp: ntohl_def htonl_def bit_simps)
qed

lemma check_reply: "sntp_check (server_reply stratum stamp) SNTP_PORT = (if stratum = 0 then SNTP_ERR_KOD else ERR_OK)"
  by (simp add: sntp_check_def server_reply_def htonl_def)

lemma stamp_of_reply: "take 4 (drop 32 (server_reply stratum stamp)) = htonl stamp"
  by (simp add: server_reply_def htonl_def)

lemma stamp_time:
  assumes "0 \<le> t" "t < 4294967296"
  shows "uint (word_of_int (t + 2208988800) - DIFF_SEC_1900_1970) = t"
proof -
  have "(word_of_int (t + 2208988800) :: u32) - DIFF_SEC_1900_1970 = word_of_int t"
    by simp
  then show ?thesis using assms by (simp add: uint_word_of_int take_bit_eq_mod)
qed

text \<open>C25: Setting the clock.  A reply with the time \<open>t\<close>, counted in 32 bits from 1900, sets a running clock
  so that it reads \<open>t\<close>, for every time of the years 2000 to 2099; the count may have wrapped around,
  as it does in 2036, contrary to the remark in the code.  The control block is removed; with only the
  timer of the request pending, nothing happens afterwards, but its buffer stays allocated.\<close>

theorem sntp_sets_clock:
  assumes "sntp_reachable s" "sntp_pcb s" "sntp_recv_arg s = Some arg" "stratum \<noteq> 0"
    and "BDCR (clock s) AND RCC_BDCR_RTCEN \<noteq> 0" "BDCR (clock s) AND RCC_BDCR_LSERDY \<noteq> 0" "flags_come isr"
    and "946684800 \<le> t" "t < 4102444800"
  shows "\<exists>s'. sntp_handle dns alloc isr (Datagram (server_reply stratum (word_of_int (t + 2208988800))) SNTP_PORT) s = Some s' \<and>
    rtc_time (clock s') = Some t \<and> \<not> sntp_pcb s' \<and> pbufs s' = pbufs s \<and>
    (dns_queries s = 0 \<and> timers s = [(ms, sntp_send_request_timer arg)] \<longrightarrow> (\<forall>ev. \<not> sntp_enabled s' ev))"
proof -
  obtain isr1 isr2 where isr: "wait_flag RTC_ISR_RSF isr = Some isr1" "wait_flag RTC_ISR_INITF isr1 = Some isr2"
    using assms(7) by (auto simp: flags_come_def)
  obtain h' where h': "rtc_setTimeUnix isr t (clock s) = Some (True, h')" "rtc_time h' = Some t"
    using rtc_set_read [OF assms(5,6) isr assms(8,9)] by blast
  let ?p = "server_reply stratum (word_of_int (t + 2208988800))"
  have good: "sntp_check ?p SNTP_PORT = ERR_OK" using assms(4) by (simp add: check_reply)
  have "uint (ntohl (take 4 (drop 32 ?p)) - DIFF_SEC_1900_1970) = t"
    using stamp_time [of t] assms(8,9) by (simp add: stamp_of_reply)
  moreover have "timers (untimed arg s) = []" if "timers s = [(ms, sntp_send_request_timer arg)]"
    using that by (simp add: untimed_def sys_untimeout_def)
  moreover have "\<not> sntp_enabled s' ev" if "\<not> sntp_pcb s'" "dns_queries s' = 0" "timers s' = []" for s' ev
    using that by (cases ev) auto
  ultimately show ?thesis using recv_good [OF good assms(7), of s dns alloc arg] h' by (auto simp: assms(3))
qed

definition next_server :: "u8 \<Rightarrow> u8" where
  "next_server c = (if c = 3 then 0 else c + 1)"

lemma next_server_wraps: "c < 4 \<Longrightarrow> (if c + 1 \<ge> (4 :: u8) then 0 else c + 1) = next_server c \<and> next_server c < 4"
proof -
  assume "c < 4"
  then have "unat c < 4" by (simp add: word_less_nat_alt)
  then obtain n where "c = of_nat n" "n < 4" using that [of "unat c"] by simp
  then have "c = 0 \<or> c = 1 \<or> c = 2 \<or> c = 3" by (auto simp: less_Suc_eq numeral_eq_Suc)
  then show ?thesis by (elim disjE) (simp_all add: next_server_def word_le_nat_alt)
qed

lemma try_next_server_eq:
  assumes "sntp_current_server s < 4"
  shows "sntp_try_next_server dns alloc s = sntp_request dns alloc (s\<lparr>sntp_current_server := next_server (sntp_current_server s)\<rparr>)"
  using next_server_wraps [OF assms]
  by (cases "4 \<le> sntp_current_server s + 1") (simp_all add: sntp_try_next_server_def Let_def)

lemma request_sent:
  assumes "sntp_current_server s < 4" "sntp_pcb s"
  shows "sntp_request (Dns_ok ip) (Some q) s = Some (s\<lparr>pbufs := q # pbufs s,
    sent := sent s @ [(ip, sntp_initialize_request)], timers := timers s @ [(SNTP_RECV_TIMEOUT, sntp_send_request_timer q)],
    sntp_recv_arg := Some q\<rparr>)"
  using rd_servers [OF assms(1)] assms(2) by (auto simp: sntp_request_def sntp_send_request_def sys_timeout_def Let_def)

lemma untimed_current [simp]: "sntp_current_server (untimed arg s) = sntp_current_server s" "sent (untimed arg s) = sent s"
  by (simp_all add: untimed_def sys_untimeout_def)

text \<open>Other replies.  A datagram of another port, length or mode leaves the clock alone, and the same
  server is asked again 5 seconds later; a kiss of death makes the client ask the next server at once.
  A timeout frees the buffer of its request and asks the next server.\<close>

theorem sntp_retries:
  assumes "sntp_reachable s" "sntp_pcb s" "sntp_recv_arg s = Some arg" "q \<notin> set (pbufs s)"
  shows "(sntp_check p port = ERR_ARG \<longrightarrow>
      (\<exists>s'. sntp_handle dns alloc isr (Datagram p port) s = Some s' \<and> clock s' = clock s \<and>
        sntp_current_server s' = sntp_current_server s \<and> (SNTP_RETRY_TIMEOUT, sntp_request_timer) \<in> set (timers s'))) \<and>
    (sntp_check p port = SNTP_ERR_KOD \<longrightarrow>
      (\<exists>s'. sntp_handle (Dns_ok ip) (Some q) isr (Datagram p port) s = Some s' \<and> clock s' = clock s \<and>
        sntp_current_server s' = next_server (sntp_current_server s) \<and> sent s' = sent s @ [(ip, sntp_initialize_request)] \<and>
        sntp_recv_arg s' = Some q)) \<and>
    ((ms, sntp_send_request_timer b) \<in> set (timers s) \<longrightarrow>
      (\<exists>s'. sntp_handle (Dns_ok ip) (Some q) isr (Timer (ms, sntp_send_request_timer b)) s = Some s' \<and>
        sntp_current_server s' = next_server (sntp_current_server s) \<and> set (pbufs s') = insert q (set (pbufs s) - {b}) \<and>
        sent s' = sent s @ [(ip, sntp_initialize_request)]))"
proof -
  have core: "sntp_core s" using reachable_ok [OF assms(1)] assms(2) by (auto simp: sntp_ok_def)
  then have cur: "sntp_current_server s < 4" "next_server (sntp_current_server s) < 4"
    using next_server_wraps by (auto simp: sntp_core_def)
  have "\<exists>s'. sntp_handle dns alloc isr (Datagram p port) s = Some s' \<and> clock s' = clock s \<and>
    sntp_current_server s' = sntp_current_server s \<and> (SNTP_RETRY_TIMEOUT, sntp_request_timer) \<in> set (timers s')"
    if "sntp_check p port = ERR_ARG"
    by (simp add: that assms(3) sntp_recv_def Let_def sys_timeout_def flip: untimed_def)
  moreover have "\<exists>s'. sntp_handle (Dns_ok ip) (Some q) isr (Datagram p port) s = Some s' \<and> clock s' = clock s \<and>
    sntp_current_server s' = next_server (sntp_current_server s) \<and> sent s' = sent s @ [(ip, sntp_initialize_request)] \<and>
    sntp_recv_arg s' = Some q" if "sntp_check p port = SNTP_ERR_KOD"
    using cur assms(2)
    by (simp add: that assms(3) sntp_recv_def Let_def try_next_server_eq request_sent flip: untimed_def)
  moreover have "\<exists>s'. sntp_handle (Dns_ok ip) (Some q) isr (Timer (ms, sntp_send_request_timer b)) s = Some s' \<and>
    sntp_current_server s' = next_server (sntp_current_server s) \<and> set (pbufs s') = insert q (set (pbufs s) - {b}) \<and>
    sent s' = sent s @ [(ip, sntp_initialize_request)]" if "(ms, sntp_send_request_timer b) \<in> set (timers s)"
  proof -
    have "b \<in> set (pbufs s)" "distinct (pbufs s)"
      using core sending_remove1(3) [of "timers s" ms b] that by (auto simp: sntp_core_def)
    then show ?thesis using cur assms(2)
      by (simp add: sntp_send_request_timeout_def pbuf_free_def try_next_server_eq request_sent)
  qed
  ultimately show ?thesis by blast
qed

definition sample_sntp :: sntp where
  "sample_sntp = \<lparr>timers = [(SNTP_RECV_TIMEOUT, sntp_send_request_timer 7)], dns_queries = 0, sntp_pcb = True,
     sntp_recv_arg = Some 7, pbufs = [7], sent = [(1, sntp_initialize_request)], sntp_current_server = 0,
     clock = rtc_running\<rparr>"

lemma sample_sntp_reachable: "sntp_reachable sample_sntp"
  by (rule sntp_reachable.start [of "Dns_ok 1" "Some 7" rtc_running])
    (simp add: sntp_init_def initial_sntp_def request_sent sample_sntp_def)

lemma sample_sntp_simps [simp]:
  "sntp_pcb sample_sntp" "sntp_recv_arg sample_sntp = Some 7" "pbufs sample_sntp = [7]" "dns_queries sample_sntp = 0"
  "timers sample_sntp = [(SNTP_RECV_TIMEOUT, sntp_send_request_timer 7)]" "clock sample_sntp = rtc_running"
  "sntp_current_server sample_sntp = 0" "sent sample_sntp = [(1, sntp_initialize_request)]"
  by (simp_all add: sample_sntp_def)

lemma sample_flags: "flags_come [0x20, 0, 0x40]"
  by (simp add: flags_come_def)


theorem sntp_sets_clock_witness:
  "\<exists>s'. sntp_handle Dns_inprogress None [0x20, 0, 0x40]
      (Datagram (server_reply 2 (word_of_int (2100000000 + 2208988800))) SNTP_PORT) sample_sntp = Some s' \<and>
    rtc_time (clock s') = Some 2100000000 \<and> (\<forall>ev. \<not> sntp_enabled s' ev)"
  using sntp_sets_clock [OF sample_sntp_reachable, of 7 2 "[0x20, 0, 0x40]" 2100000000 Dns_inprogress None SNTP_RECV_TIMEOUT] sample_flags
  by (auto simp: rtc_running_def)

theorem sntp_retries_witness:
  "\<exists>s'. sntp_handle (Dns_ok 5) (Some 9) [] (Datagram (server_reply 0 0) SNTP_PORT) sample_sntp = Some s' \<and>
    sntp_current_server s' = 1 \<and> sntp_recv_arg s' = Some 9"
  using sntp_retries [OF sample_sntp_reachable, of 7 9 "server_reply 0 0" SNTP_PORT Dns_inprogress None "[]" 5 0 0]
  by (auto simp: check_reply next_server_def)

text \<open>A late reply.  The client can reach a state in which the control block is removed while a query
  of the next server is unanswered: the first server replied after its timeout.  When the answer
  comes, \<open>sntp_send_request\<close> sends on the removed block.\<close>

theorem sntp_uses_removed_block:
  "\<exists>s. sntp_reachable s \<and> sntp_enabled s (Dns (Some ip)) \<and> sntp_handle dns (Some p) isr (Dns (Some ip)) s = None"
proof -
  let ?late = "sample_sntp\<lparr>timers := [], pbufs := [], dns_queries := 1, sntp_current_server := 1\<rparr>"
  let ?t = "(SNTP_RECV_TIMEOUT, sntp_send_request_timer 7)"
  have "sntp_handle Dns_inprogress None [0x20, 0x40] (Timer ?t) sample_sntp = Some ?late"
    by (simp add: sntp_send_request_timeout_def pbuf_free_def try_next_server_eq sntp_request_def next_server_def
        sntp_server_addresses_def rd_def sample_sntp_def)
  then have late: "sntp_reachable ?late"
    using sntp_reachable.event [OF sample_sntp_reachable, of "Timer ?t" None] by (simp add: fresh_def)
  have "sntp_check (server_reply 2 0) SNTP_PORT = ERR_OK" by (simp add: check_reply)
  from recv_good [OF this sample_flags, of ?late dns None 7] obtain h' where
    h': "sntp_handle dns None [0x20, 0, 0x40] (Datagram (server_reply 2 0) SNTP_PORT) ?late
      = Some ((untimed 7 ?late)\<lparr>clock := h', sntp_pcb := False\<rparr>)" by auto
  have "sntp_reachable ((untimed 7 ?late)\<lparr>clock := h', sntp_pcb := False\<rparr>)"
    by (rule sntp_reachable.event [OF late _ _ h']) (simp_all add: fresh_def)
  then show ?thesis
    by (intro exI [of _ "(untimed 7 ?late)\<lparr>clock := h', sntp_pcb := False\<rparr>"])
      (simp add: sntp_dns_found_def sntp_send_request_def)
qed

end
