(* ===== verification/I2c.thy ===== *)
theory I2c
  imports Prelude
begin

unbundle bit_operations_syntax

text \<open>
  The I2C driver \<open>hal/src/i2c.c\<close> and its users' side, \<open>driver/src/i2c.cpp\<close>.  The interrupts come as a
  script of events, in the order of their arrival: the status register that a handler reads, the bytes
  the receive DMA has stored, and \<open>Expire\<close> for the end of a wait of the task that uses the driver.  An
  event also carries the readings of the STOP bit that a handler polls; a bit that never clears is
  \<^term>\<open>None\<close>.  The ghost member \<open>transfers\<close> is what went over the bus: a completed transmission is the
  address, the bytes the DMA was given, and whether a stop condition followed.
\<close>

section \<open>State\<close>

datatype i2cState = i2cUnknownState | i2cFree | i2cTxRun | i2cRxRun | i2cDmaRefresh | i2cTxSuccess | i2cRxSuccess
  | i2cErrTx | i2cErrRx | i2cOk | i2cBusError | i2cAcknowledgeFailure | i2cPECError | i2cTimeout | i2cSoftTimeout

datatype i2c_stopMode = i2cNeedStop | i2cWithoutStop

datatype i2c_event = Ev u32 "bool list" | Er u32 | RxDma "u8 list" "bool list" | Expire

record i2c =
  lenOne :: bool
  slaveAdr :: u8
  stopMode :: i2c_stopMode
  i2c_state :: i2cState
  tcHook :: bool
  CR1 :: u32
  CR2 :: u32
  CCR :: u32
  SR1 :: u32
  DR_written :: "u8 list"
  tx_block :: "u8 list"
  tx_run :: bool
  rx_len :: nat
  rx_run :: bool
  rx_data :: "u8 list"
  m_sem :: bool
  m_mutex :: bool
  events :: "i2c_event list"
  transfers :: "(u8 \<times> u8 list \<times> bool) list"

abbreviation (input) "I2C_CR1_PE \<equiv> (0x1 :: u32)"
abbreviation (input) "I2C_CR1_NOSTRETCH \<equiv> (0x80 :: u32)"
abbreviation (input) "I2C_CR1_START \<equiv> (0x100 :: u32)"
abbreviation (input) "I2C_CR1_STOP \<equiv> (0x200 :: u32)"
abbreviation (input) "I2C_CR1_ACK \<equiv> (0x400 :: u32)"
abbreviation (input) "I2C_CR2_ITERREN \<equiv> (0x100 :: u32)"
abbreviation (input) "I2C_CR2_ITEVTEN \<equiv> (0x200 :: u32)"
abbreviation (input) "I2C_CR2_DMAEN \<equiv> (0x800 :: u32)"
abbreviation (input) "I2C_CR2_LAST \<equiv> (0x1000 :: u32)"
abbreviation (input) "I2C_CCR_DUTY \<equiv> (0x4000 :: u32)"
abbreviation (input) "I2C_CCR_FS \<equiv> (0x8000 :: u32)"
abbreviation (input) "I2C_SR1_SB \<equiv> (0x1 :: u32)"
abbreviation (input) "I2C_SR1_ADDR \<equiv> (0x2 :: u32)"
abbreviation (input) "I2C_SR1_BTF \<equiv> (0x4 :: u32)"
abbreviation (input) "I2C_SR1_BERR \<equiv> (0x100 :: u32)"
abbreviation (input) "I2C_SR1_AF \<equiv> (0x400 :: u32)"
abbreviation (input) "I2C_SR1_ARLO \<equiv> (0x200 :: u32)"
abbreviation (input) "I2C_SR1_TIMEOUT \<equiv> (0x4000 :: u32)"
abbreviation (input) "I2C_SR1_PECERR \<equiv> (0x1000 :: u32)"
abbreviation (input) "I2C_CLOCK \<equiv> (42000000 :: u32)"
abbreviation (input) "I2C1_ClockFreg \<equiv> (400000 :: u32)"

section \<open>Driver\<close>

text \<open>The registers of the I2C block that \<open>i2c_init\<close> sets; pins, clocks and DMA channels, constants all,
  are left out.\<close>

definition i2c_init :: "i2c \<Rightarrow> i2c" where
  "i2c_init b =
     (let b = b\<lparr>CR1 := CR1 b OR I2C_CR1_NOSTRETCH\<rparr>;
          b = b\<lparr>CR2 := CR2 b OR I2C_CR2_ITEVTEN\<rparr>;
          b = b\<lparr>CR2 := CR2 b OR I2C_CR2_ITERREN\<rparr>;
          b = b\<lparr>CR2 := CR2 b OR I2C_CR2_DMAEN\<rparr>;
          b = b\<lparr>CR2 := CR2 b OR I2C_CR2_LAST\<rparr>;
          b = b\<lparr>CR2 := CR2 b OR I2C_CLOCK div 1000000\<rparr>;
          b = b\<lparr>CCR := CCR b OR I2C_CCR_FS\<rparr>;
          b = b\<lparr>CCR := CCR b OR I2C_CCR_DUTY\<rparr>;
          b = b\<lparr>CCR := CCR b OR I2C_CLOCK div (I2C1_ClockFreg * 25)\<rparr>;
          b = b\<lparr>CR1 := CR1 b OR I2C_CR1_PE\<rparr>
      in b\<lparr>CR1 := CR1 b OR I2C_CR1_ACK\<rparr>)"

definition i2c_reInit :: "i2c \<Rightarrow> i2c" where
  "i2c_reInit b = i2c_init (b\<lparr>rx_run := False, tx_run := False\<rparr>)"

definition i2c_setCallback :: "i2c \<Rightarrow> i2c" where
  "i2c_setCallback b = b\<lparr>tcHook := True\<rparr>"

definition i2c_write :: "u8 list \<Rightarrow> u8 \<Rightarrow> i2c_stopMode \<Rightarrow> i2c \<Rightarrow> i2c" where
  "i2c_write src adr stop b =
     (let b = b\<lparr>tx_run := False\<rparr>;
          b = b\<lparr>tx_block := src\<rparr>;
          b = b\<lparr>slaveAdr := adr AND 0xFE\<rparr>;
          b = b\<lparr>stopMode := stop\<rparr>;
          b = b\<lparr>CR1 := CR1 b OR I2C_CR1_ACK\<rparr>;
          b = b\<lparr>tx_run := True\<rparr>;
          b = b\<lparr>CR1 := CR1 b OR I2C_CR1_START\<rparr>
      in b\<lparr>i2c_state := i2cTxRun\<rparr>)"

definition i2c_read :: "nat \<Rightarrow> u8 \<Rightarrow> i2c \<Rightarrow> i2c" where
  "i2c_read len adr b =
     (let b = b\<lparr>lenOne := (len = 1)\<rparr>;
          b = b\<lparr>rx_run := False\<rparr>;
          b = b\<lparr>rx_len := len\<rparr>;
          b = b\<lparr>slaveAdr := adr OR 0x01\<rparr>;
          b = b\<lparr>CR1 := CR1 b OR I2C_CR1_ACK\<rparr>;
          b = b\<lparr>rx_run := True\<rparr>;
          b = b\<lparr>CR1 := CR1 b OR I2C_CR1_START\<rparr>
      in b\<lparr>i2c_state := i2cRxRun\<rparr>)"

text \<open>\<open>while((CR1 & I2C_CR1_STOP) != 0);\<close> after the bit was set.\<close>

definition wait_stop :: "bool list \<Rightarrow> i2c \<Rightarrow> i2c option" where
  "wait_stop stops b = (if False \<in> set stops then Some (b\<lparr>CR1 := CR1 b AND NOT I2C_CR1_STOP\<rparr>) else None)"

text \<open>The hook of \<open>I2cManager::init\<close> gives the semaphore.\<close>

definition call_tcHook :: "i2c \<Rightarrow> i2c" where
  "call_tcHook b = (if tcHook b then b\<lparr>m_sem := True\<rparr> else b)"

definition i2cEventHendler :: "u32 \<Rightarrow> bool list \<Rightarrow> i2c \<Rightarrow> i2c option" where
  "i2cEventHendler I2Cx_SR1 stops b =
     (if I2Cx_SR1 AND I2C_SR1_SB \<noteq> 0 then Some (b\<lparr>DR_written := DR_written b @ [slaveAdr b]\<rparr>)
      else if I2Cx_SR1 AND I2C_SR1_ADDR \<noteq> 0 then
        Some (if lenOne b then b\<lparr>CR1 := CR1 b AND NOT I2C_CR1_ACK\<rparr> else b)
      else if I2Cx_SR1 AND I2C_SR1_BTF \<noteq> 0 \<and> i2c_state b = i2cTxRun then do {
        b \<leftarrow> (if stopMode b = i2cNeedStop then wait_stop stops (b\<lparr>CR1 := CR1 b OR I2C_CR1_STOP\<rparr>) else Some b);
        let b = b\<lparr>transfers := transfers b @ [(slaveAdr b, tx_block b, stopMode b = i2cNeedStop)]\<rparr>;
            b = b\<lparr>i2c_state := i2cTxSuccess\<rparr>
        in Some (call_tcHook b)
      }
      else Some b)"

definition i2cErrorHendler :: "u32 \<Rightarrow> i2c \<Rightarrow> i2c" where
  "i2cErrorHendler I2Cx_SR1 b =
     (let b = (if I2Cx_SR1 AND I2C_SR1_BERR \<noteq> 0 then b\<lparr>i2c_state := i2cBusError\<rparr>
          else if I2Cx_SR1 AND I2C_SR1_AF \<noteq> 0 then b\<lparr>i2c_state := i2cAcknowledgeFailure\<rparr>
          else if I2Cx_SR1 AND I2C_SR1_PECERR \<noteq> 0 then b\<lparr>i2c_state := i2cPECError\<rparr> else b)
      in b\<lparr>SR1 := NOT (I2C_SR1_TIMEOUT OR I2C_SR1_PECERR OR I2C_SR1_AF OR I2C_SR1_ARLO OR I2C_SR1_BERR)\<rparr>)"

definition i2cRxDmaHendler :: "u8 list \<Rightarrow> bool list \<Rightarrow> i2c \<Rightarrow> i2c option" where
  "i2cRxDmaHendler bytes stops b = do {
     b \<leftarrow> wait_stop stops (b\<lparr>CR1 := CR1 b OR I2C_CR1_STOP, rx_data := bytes\<rparr>);
     if i2c_state b = i2cRxRun then Some (call_tcHook (b\<lparr>i2c_state := i2cRxSuccess\<rparr>)) else Some b
   }"

definition i2c_interrupt :: "i2c_event \<Rightarrow> i2c \<Rightarrow> i2c option" where
  "i2c_interrupt e b =
     (case e of
        Ev sr1 stops \<Rightarrow> i2cEventHendler sr1 stops b
      | Er sr1 \<Rightarrow> Some (i2cErrorHendler sr1 b)
      | RxDma bytes stops \<Rightarrow> i2cRxDmaHendler bytes stops b
      | Expire \<Rightarrow> Some b)"

section \<open>Manager\<close>

definition I2cManager_init :: "i2c \<Rightarrow> i2c" where
  "I2cManager_init b =
     (let b = b\<lparr>m_sem := False\<rparr>; b = b\<lparr>m_mutex := True\<rparr>; b = i2c_init b in i2c_setCallback b)"

text \<open>Waiting for the semaphore, while the interrupts of the script come in.\<close>

fun take_sem :: "i2c_event list \<Rightarrow> i2c \<Rightarrow> (bool \<times> i2c) option" where
  "take_sem es b =
     (if m_sem b then Some (True, b\<lparr>m_sem := False, events := es\<rparr>)
      else case es of
        [] \<Rightarrow> Some (False, b\<lparr>events := []\<rparr>)
      | e # es \<Rightarrow> (if e = Expire then Some (False, b\<lparr>events := es\<rparr>) else i2c_interrupt e b \<bind> take_sem es))"

declare take_sem.simps [simp del]

fun task_delay :: "i2c_event list \<Rightarrow> i2c \<Rightarrow> i2c option" where
  "task_delay [] b = Some (b\<lparr>events := []\<rparr>)"
| "task_delay (e # es) b = (if e = Expire then Some (b\<lparr>events := es\<rparr>) else i2c_interrupt e b \<bind> task_delay es)"

definition vTaskDelay :: "i2c \<Rightarrow> i2c option" where
  "vTaskDelay b = task_delay (events b) b"

definition I2cManager_write :: "u8 \<Rightarrow> u8 list \<Rightarrow> bool \<Rightarrow> i2c \<Rightarrow> (bool \<times> i2c) option" where
  "I2cManager_write devAddr src needstop b =
     (if m_mutex b then
        (let b = b\<lparr>m_mutex := False\<rparr>;
             b = i2c_write src devAddr (if needstop then i2cNeedStop else i2cWithoutStop) b
         in do {
           (res, b) \<leftarrow> take_sem (events b) b;
           Some (res, b\<lparr>m_mutex := True\<rparr>)
         })
      else Some (False, b))"

definition I2cManager_read :: "u8 \<Rightarrow> nat \<Rightarrow> i2c \<Rightarrow> (bool \<times> i2c) option" where
  "I2cManager_read devAddr len b =
     (if m_mutex b then
        (let b = b\<lparr>m_mutex := False\<rparr>;
             b = i2c_read len devAddr b
         in do {
           (res, b) \<leftarrow> take_sem (events b) b;
           Some (res, b\<lparr>m_mutex := True\<rparr>)
         })
      else Some (False, b))"

section \<open>Transfers\<close>

text \<open>The driver as its users leave it between transfers.\<close>

definition i2c_idle :: "i2c \<Rightarrow> bool" where
  "i2c_idle b \<longleftrightarrow> m_mutex b \<and> \<not> m_sem b \<and> tcHook b"

lemma take_sem_given: "m_sem b \<Longrightarrow> take_sem es b = Some (True, b\<lparr>m_sem := False, events := es\<rparr>)"
  by (simp add: take_sem.simps)

lemma take_sem_nil: "\<not> m_sem b \<Longrightarrow> take_sem [] b = Some (False, b\<lparr>events := []\<rparr>)"
  by (simp add: take_sem.simps)

lemma take_sem_cons: "\<not> m_sem b \<Longrightarrow> take_sem (e # es) b =
    (if e = Expire then Some (False, b\<lparr>events := es\<rparr>) else i2c_interrupt e b \<bind> take_sem es)"
  by (simp add: take_sem.simps)

text \<open>A transmission in progress, and the same after its last byte.\<close>

definition sending_block :: "(u8 \<times> u8 list \<times> bool) list \<Rightarrow> u8 \<Rightarrow> u8 list \<Rightarrow> i2c_stopMode \<Rightarrow> i2c \<Rightarrow> bool" where
  "sending_block ts adr src stop b \<longleftrightarrow> \<not> m_sem b \<and> tcHook b \<and> transfers b = ts \<and> slaveAdr b = adr \<and> tx_block b = src
     \<and> stopMode b = stop \<and> i2c_state b \<noteq> i2cRxRun"

definition block_sent :: "(u8 \<times> u8 list \<times> bool) list \<Rightarrow> u8 \<Rightarrow> u8 list \<Rightarrow> i2c_stopMode \<Rightarrow> i2c \<Rightarrow> bool" where
  "block_sent ts adr src stop b \<longleftrightarrow> m_sem b \<and> tcHook b \<and> i2c_state b = i2cTxSuccess \<and>
     transfers b = ts @ [(adr, src, stop = i2cNeedStop)]"

lemma interrupt_sending:
  assumes "sending_block ts adr src stop b" "i2c_interrupt e b = Some b'"
  shows "sending_block ts adr src stop b' \<or> block_sent ts adr src stop b'"
proof (cases e)
  case (Ev sr1 stops)
  consider "sr1 AND I2C_SR1_SB \<noteq> 0" | "sr1 AND I2C_SR1_SB = 0" "sr1 AND I2C_SR1_ADDR \<noteq> 0"
    | "sr1 AND I2C_SR1_SB = 0" "sr1 AND I2C_SR1_ADDR = 0" "sr1 AND I2C_SR1_BTF \<noteq> 0 \<and> i2c_state b = i2cTxRun"
    | "sr1 AND I2C_SR1_SB = 0" "sr1 AND I2C_SR1_ADDR = 0" "\<not> (sr1 AND I2C_SR1_BTF \<noteq> 0 \<and> i2c_state b = i2cTxRun)"
    by blast
  then show ?thesis
  proof cases
    case 3
    then show ?thesis using assms
      by (cases "stop = i2cNeedStop"; cases "False \<in> set stops")
        (auto simp: Ev i2c_interrupt_def i2cEventHendler_def sending_block_def block_sent_def wait_stop_def call_tcHook_def Let_def)
  qed (use assms in \<open>auto simp: Ev i2c_interrupt_def i2cEventHendler_def sending_block_def split: if_splits\<close>)
next
  case (Er sr1)
  have "i2cErrorHendler sr1 b = b'" using assms(2) Er by (simp add: i2c_interrupt_def)
  then show ?thesis using assms(1) unfolding i2cErrorHendler_def Let_def sending_block_def by (auto split: if_splits)
next
  case (RxDma bytes stops)
  then show ?thesis using assms
    by (auto simp: i2c_interrupt_def i2cRxDmaHendler_def wait_stop_def sending_block_def split: if_splits)
next
  case Expire
  then show ?thesis using assms by (simp add: i2c_interrupt_def)
qed

lemma interrupt_keeps_mutex: "i2c_interrupt e b = Some b' \<Longrightarrow> m_mutex b' = m_mutex b"
  by (cases e) (auto simp: i2c_interrupt_def i2cEventHendler_def i2cErrorHendler_def i2cRxDmaHendler_def wait_stop_def
      call_tcHook_def Let_def split: if_splits bind_splits)

lemma take_sem_sending:
  "sending_block ts adr src stop b \<Longrightarrow> take_sem es b = Some (ok, b') \<Longrightarrow>
   (if ok then block_sent ts adr src stop (b'\<lparr>m_sem := True\<rparr>) \<and> \<not> m_sem b' else sending_block ts adr src stop b')"
proof (induction es arbitrary: b)
  case Nil
  then show ?case by (auto simp: take_sem_nil sending_block_def)
next
  case (Cons e es)
  have sem: "\<not> m_sem b" using Cons.prems(1) by (simp add: sending_block_def)
  show ?case
  proof (cases "e = Expire")
    case True
    then show ?thesis using Cons.prems sem by (auto simp: take_sem_cons sending_block_def)
  next
    case False
    with Cons.prems(2) sem obtain b1 where b1: "i2c_interrupt e b = Some b1" "take_sem es b1 = Some (ok, b')"
      by (auto simp: take_sem_cons split: bind_splits)
    from interrupt_sending [OF Cons.prems(1) b1(1)] show ?thesis
    proof
      assume "sending_block ts adr src stop b1"
      then show ?thesis using b1(2) by (rule Cons.IH)
    next
      assume "block_sent ts adr src stop b1"
      then show ?thesis using b1(2) by (auto simp: take_sem_given block_sent_def)
    qed
  qed
qed

text \<open>The script of an undisturbed transmission.\<close>

definition sent_events :: "bool list \<Rightarrow> i2c_event list" where
  "sent_events stops = [Ev I2C_SR1_SB [], Ev I2C_SR1_ADDR [], Ev I2C_SR1_BTF stops]"

definition ack_cleared :: "i2c \<Rightarrow> i2c" where
  "ack_cleared b = (if lenOne b then b\<lparr>CR1 := CR1 b AND NOT I2C_CR1_ACK\<rparr> else b)"

lemma take_sem_sent:
  assumes "\<not> m_sem b" "tcHook b" "i2c_state b = i2cTxRun" "stopMode b = i2cNeedStop \<Longrightarrow> False \<in> set stops"
  shows "\<exists>b'. take_sem (sent_events stops @ es) b = Some (True, b') \<and> \<not> m_sem b' \<and> tcHook b' \<and> m_mutex b' = m_mutex b \<and>
    events b' = es \<and> transfers b' = transfers b @ [(slaveAdr b, tx_block b, stopMode b = i2cNeedStop)]"
  using assms
  by (cases "stopMode b")
    (auto simp: sent_events_def take_sem_cons take_sem_given i2c_interrupt_def i2cEventHendler_def wait_stop_def
      call_tcHook_def Let_def)

lemma manager_write_sent:
  assumes "i2c_idle b" "events b = sent_events stops @ es" "needstop \<Longrightarrow> False \<in> set stops"
  shows "\<exists>b'. I2cManager_write adr src needstop b = Some (True, b') \<and> i2c_idle b' \<and> events b' = es \<and>
    transfers b' = transfers b @ [(adr AND 0xFE, src, needstop)]"
proof -
  let ?b = "i2c_write src adr (if needstop then i2cNeedStop else i2cWithoutStop) (b\<lparr>m_mutex := False\<rparr>)"
  have f: "\<not> m_sem ?b" "tcHook ?b" "i2c_state ?b = i2cTxRun" "stopMode ?b = (if needstop then i2cNeedStop else i2cWithoutStop)"
    "slaveAdr ?b = adr AND 0xFE" "tx_block ?b = src" "transfers ?b = transfers b" "events ?b = events b"
    using assms(1) by (simp_all add: i2c_write_def i2c_idle_def Let_def)
  have "stopMode ?b = i2cNeedStop \<Longrightarrow> False \<in> set stops" using assms(3) f(4) by (auto split: if_splits)
  from take_sem_sent [OF f(1-3) this, of es] obtain b' where
    b': "take_sem (sent_events stops @ es) ?b = Some (True, b')" "\<not> m_sem b'" "tcHook b'" "events b' = es"
      "transfers b' = transfers ?b @ [(slaveAdr ?b, tx_block ?b, stopMode ?b = i2cNeedStop)]" by blast
  then show ?thesis using assms(1,2) f
    by (auto simp: I2cManager_write_def i2c_idle_def Let_def)
qed

lemma write_truthful:
  assumes "i2c_idle b" "I2cManager_write adr src needstop b = Some (ok, b')"
  shows "m_mutex b' \<and> transfers b' = transfers b @ (if ok then [(adr AND 0xFE, src, needstop)] else []) \<and>
    (ok \<longrightarrow> i2c_state b' = i2cTxSuccess \<and> i2c_idle b')"
proof -
  let ?stop = "if needstop then i2cNeedStop else i2cWithoutStop"
  let ?b = "i2c_write src adr ?stop (b\<lparr>m_mutex := False\<rparr>)"
  have s: "sending_block (transfers b) (adr AND 0xFE) src ?stop ?b" "events ?b = events b"
    using assms(1) by (simp_all add: i2c_write_def i2c_idle_def sending_block_def Let_def)
  obtain b1 where b1: "take_sem (events b) ?b = Some (ok, b1)" "b' = b1\<lparr>m_mutex := True\<rparr>"
    using assms s(2) by (auto simp: I2cManager_write_def i2c_idle_def Let_def split: bind_splits)
  from take_sem_sending [OF s(1) b1(1)] show ?thesis
    by (auto simp: b1(2) block_sent_def sending_block_def i2c_idle_def split: if_splits)
qed

text \<open>Without a transfer in progress, the interrupts during a delay give no semaphore.\<close>

definition quiet :: "i2c \<Rightarrow> bool" where
  "quiet b \<longleftrightarrow> i2c_idle b \<and> i2c_state b \<noteq> i2cTxRun \<and> i2c_state b \<noteq> i2cRxRun"

lemma interrupt_quiet: "quiet b \<Longrightarrow> i2c_interrupt e b = Some b' \<Longrightarrow> quiet b' \<and> transfers b' = transfers b"
  by (cases e) (auto simp: quiet_def i2c_idle_def i2c_interrupt_def i2cEventHendler_def i2cErrorHendler_def
      i2cRxDmaHendler_def wait_stop_def Let_def split: if_splits bind_splits)

lemma delay_quiet: "quiet b \<Longrightarrow> task_delay es b = Some b' \<Longrightarrow> quiet b' \<and> transfers b' = transfers b"
proof (induction es b rule: task_delay.induct)
  case (2 e es b)
  show ?case
  proof (cases "e = Expire")
    case True
    then show ?thesis using 2 by (auto simp: quiet_def i2c_idle_def)
  next
    case False
    then obtain b1 where b1: "i2c_interrupt e b = Some b1" "task_delay es b1 = Some b'"
      using 2 by (auto split: bind_splits)
    then show ?thesis using 2 False interrupt_quiet [OF 2(2) b1(1)] by auto
  qed
qed (auto simp: quiet_def i2c_idle_def)

section \<open>Properties of the driver\<close>


definition sample_i2c :: "i2c_event list \<Rightarrow> i2c" where
  "sample_i2c es = I2cManager_init \<lparr>lenOne = False, slaveAdr = 0, stopMode = i2cNeedStop, i2c_state = i2cUnknownState,
     tcHook = False, CR1 = 0, CR2 = 0, CCR = 0, SR1 = 0, DR_written = [], tx_block = [], tx_run = False, rx_len = 0,
     rx_run = False, rx_data = [], m_sem = False, m_mutex = False, events = es, transfers = []\<rparr>"

lemma sample_i2c_simps [simp]: "i2c_idle (sample_i2c es)" "events (sample_i2c es) = es" "transfers (sample_i2c es) = []"
  by (simp_all add: sample_i2c_def I2cManager_init_def i2c_init_def i2c_setCallback_def i2c_idle_def Let_def)


text \<open>A late completion.  When a transfer ends after its time is up, the semaphore stays given, and the
  next write returns true at once, with nothing sent.\<close>

theorem i2c_late_completion:
  assumes "i2c_idle b" "events b = [Ev I2C_SR1_SB [], Ev I2C_SR1_ADDR [], Expire, Ev I2C_SR1_BTF [False], Expire] @ es"
  shows "\<exists>b1 b2 b3. I2cManager_write adr src True b = Some (False, b1) \<and> vTaskDelay b1 = Some b2 \<and>
    I2cManager_write adr' src' True b2 = Some (True, b3) \<and>
    transfers b3 = transfers b @ [(adr AND 0xFE, src, True)] \<and> events b3 = es"
proof -
  let ?b = "i2c_write src adr i2cNeedStop (b\<lparr>m_mutex := False\<rparr>)"
  have f: "\<not> m_sem ?b" "tcHook ?b" "i2c_state ?b = i2cTxRun" "stopMode ?b = i2cNeedStop" "events ?b = events b"
    "slaveAdr ?b = adr AND 0xFE" "tx_block ?b = src" "transfers ?b = transfers b"
    using assms(1) by (simp_all add: i2c_write_def i2c_idle_def Let_def)
  let ?c = "ack_cleared (?b\<lparr>DR_written := DR_written ?b @ [slaveAdr ?b]\<rparr>)"
  have c: "\<not> m_sem ?c" "tcHook ?c" "i2c_state ?c = i2cTxRun" "stopMode ?c = i2cNeedStop"
    "slaveAdr ?c = adr AND 0xFE" "tx_block ?c = src" "transfers ?c = transfers b"
    using f by (simp_all add: ack_cleared_def)
  let ?b1 = "?c\<lparr>events := [Ev I2C_SR1_BTF [False], Expire] @ es, m_mutex := True\<rparr>"
  have "I2cManager_write adr src True b = Some (False, ?b1)"
    using assms f by (simp add: I2cManager_write_def i2c_idle_def Let_def take_sem_cons i2c_interrupt_def
        i2cEventHendler_def ack_cleared_def)
  moreover obtain b2 where b2: "vTaskDelay ?b1 = Some b2" "m_sem b2" "m_mutex b2" "events b2 = es"
    "transfers b2 = transfers b @ [(adr AND 0xFE, src, True)]"
    using c by (simp add: vTaskDelay_def i2c_interrupt_def i2cEventHendler_def wait_stop_def call_tcHook_def Let_def)
  moreover have "\<exists>b3. I2cManager_write adr' src' True b2 = Some (True, b3) \<and> transfers b3 = transfers b2 \<and> events b3 = es"
    using b2 by (simp add: I2cManager_write_def i2c_write_def Let_def take_sem_given)
  ultimately show ?thesis by auto
qed

theorem i2c_late_completion_witness:
  "\<exists>b1 b2 b3. I2cManager_write 0xA0 [0, 7] True
      (sample_i2c [Ev I2C_SR1_SB [], Ev I2C_SR1_ADDR [], Expire, Ev I2C_SR1_BTF [False], Expire]) = Some (False, b1) \<and>
    vTaskDelay b1 = Some b2 \<and> I2cManager_write 0xA0 [16, 9] True b2 = Some (True, b3) \<and> transfers b3 = [(0xA0, [0, 7], True)]"
  using i2c_late_completion [of "sample_i2c [Ev I2C_SR1_SB [], Ev I2C_SR1_ADDR [], Expire, Ev I2C_SR1_BTF [False], Expire]"
      "[]" "0xA0" "[0, 7]" "0xA0" "[16, 9]"] by auto

end
