(* ===== verification/Parameters.thy ===== *)
theory Parameters
  imports Crc
begin

unbundle bit_operations_syntax

text \<open>
  The parameters system: \<open>prmsystem/include/prmSystem.h\<close> and \<open>prmSystem.cpp\<close>, and the list of the
  parameters of the panel, \<open>config/parametres.txt\<close>, from which the build generates the objects.  The
  template \<open>Val<T>\<close> is one type whose handler carries \<open>T\<close>; its arithmetic is that of C++, with the
  promotions of \<open>T\<close>.  An overflow of a signed number, or an access outside a buffer, is \<^term>\<open>None\<close>.
\<close>

section \<open>Integer types\<close>

datatype ctype = T_int8 | T_uint8 | T_int16 | T_uint16 | T_int32 | T_uint32 | T_uint64

fun csize :: "ctype \<Rightarrow> nat" where
  "csize T_int8 = 1" | "csize T_uint8 = 1" | "csize T_int16 = 2" | "csize T_uint16 = 2"
| "csize T_int32 = 4" | "csize T_uint32 = 4" | "csize T_uint64 = 8"

fun csigned :: "ctype \<Rightarrow> bool" where
  "csigned T_int8 = True" | "csigned T_int16 = True" | "csigned T_int32 = True" | "csigned _ = False"

definition cmin :: "ctype \<Rightarrow> int" where
  "cmin T = (if csigned T then - (256 ^ csize T div 2) else 0)"

definition cmax :: "ctype \<Rightarrow> int" where
  "cmax T = cmin T + 256 ^ csize T - 1"

text \<open>The conversion to a type, which wraps around, and the promotion of an operand.\<close>

definition conv :: "ctype \<Rightarrow> int \<Rightarrow> int" where
  "conv T x = (x - cmin T) mod 256 ^ csize T + cmin T"

fun promoted :: "ctype \<Rightarrow> ctype" where
  "promoted T_uint32 = T_uint32" | "promoted T_uint64 = T_uint64" | "promoted _ = T_int32"

text \<open>The value of an operation of two operands of the type (or of one and an \<open>int\<close>), whose exact
  result is \<open>x\<close>.\<close>

definition arith :: "ctype \<Rightarrow> int \<Rightarrow> int option" where
  "arith T x =
     (if csigned (promoted T)
      then if cmin (promoted T) \<le> x \<and> x \<le> cmax (promoted T) then Some x else None
      else Some (conv (promoted T) x))"

section \<open>A parameter\<close>

datatype Save = notsave | savesys | saveuse

datatype vcallback = getFwVer_callback

record ValHandler =
  vlabel :: string
  vtype :: ctype
  vdef :: int
  vmin :: int
  vmax :: int
  vstep :: int
  vbigstep :: int
  vaddr :: int
  varg :: nat
  vpower :: nat
  vsave :: Save
  vcallback :: "vcallback option"

record Val =
  val :: int
  vhandler :: ValHandler

definition new_Val :: "ValHandler \<Rightarrow> Val" where
  "new_Val h = \<lparr>val = vdef h, vhandler = h\<rparr>"

definition setdef :: "Val \<Rightarrow> Val" where
  "setdef v = v\<lparr>val := vdef (vhandler v)\<rparr>"

definition getsize :: "Val \<Rightarrow> nat" where
  "getsize v = csize (vtype (vhandler v))"

definition getsave :: "Val \<Rightarrow> Save" where
  "getsave v = vsave (vhandler v)"

definition getaddress :: "Val \<Rightarrow> int" where
  "getaddress v = vaddr (vhandler v)"

text \<open>\<open>abs(INT_MIN)\<close> overflows.\<close>

definition stepsize :: "int \<Rightarrow> int \<Rightarrow> Val \<Rightarrow> Val option" where
  "stepsize step sz v =
     (let T = vtype (vhandler v) in do {
        a \<leftarrow> (if step = cmin T_int32 then None else Some \<bar>step\<bar>);
        m \<leftarrow> arith T (sz * a);
        let result = conv T m in
        if step < 0 then do {
          room \<leftarrow> arith T (val v - vmin (vhandler v));
          n \<leftarrow> (if result > room then Some (vmin (vhandler v)) else arith T (val v - result));
          Some (v\<lparr>val := conv T n\<rparr>)
        } else do {
          room \<leftarrow> arith T (vmax (vhandler v) - val v);
          n \<leftarrow> (if result > room then Some (vmax (vhandler v)) else arith T (val v + result));
          Some (v\<lparr>val := conv T n\<rparr>)
        }
      })"

definition step_Val :: "int \<Rightarrow> Val \<Rightarrow> Val option" where
  "step_Val s v = stepsize s (vstep (vhandler v)) v"

definition bigstep_Val :: "int \<Rightarrow> Val \<Rightarrow> Val option" where
  "bigstep_Val s v = stepsize s (vbigstep (vhandler v)) v"

text \<open>The memory image of a value, little-endian.\<close>

fun le_bytes :: "nat \<Rightarrow> int \<Rightarrow> u8 list" where
  "le_bytes 0 x = []"
| "le_bytes (Suc n) x = word_of_int x # le_bytes n (x div 256)"

fun le_value :: "u8 list \<Rightarrow> int" where
  "le_value [] = 0"
| "le_value (b # bs) = uint b + 256 * le_value bs"

definition serialize_Val :: "Val \<Rightarrow> u8 list" where
  "serialize_Val v = le_bytes (getsize v) (val v)"

definition deserialize_Val :: "u8 list \<Rightarrow> Val \<Rightarrow> bool \<times> Val" where
  "deserialize_Val src v =
     (let x = conv (vtype (vhandler v)) (le_value src) in
      if x > vmax (vhandler v) \<or> x < vmin (vhandler v) then (False, v) else (True, v\<lparr>val := x\<rparr>))"

text \<open>The callback, with the version numbers of the firmware.\<close>

definition getFwVer :: "u16 \<times> u16 \<times> u16 \<times> u16 \<Rightarrow> Val \<Rightarrow> Val" where
  "getFwVer version v =
     (case version of (major, minor, patch, tweak) \<Rightarrow>
        if varg (vhandler v) = 0 then v\<lparr>val := uint major\<rparr>
        else if varg (vhandler v) = 1 then v\<lparr>val := uint minor\<rparr>
        else if varg (vhandler v) = 2 then v\<lparr>val := uint patch\<rparr>
        else if varg (vhandler v) = 3 then v\<lparr>val := uint tweak\<rparr> else v)"

definition call_Val :: "u16 \<times> u16 \<times> u16 \<times> u16 \<Rightarrow> Val \<Rightarrow> Val" where
  "call_Val version v = (case vcallback (vhandler v) of None \<Rightarrow> v | Some getFwVer_callback \<Rightarrow> getFwVer version v)"

definition assign_Val :: "u16 \<times> u16 \<times> u16 \<times> u16 \<Rightarrow> int \<Rightarrow> Val \<Rightarrow> Val" where
  "assign_Val version x v = call_Val version (v\<lparr>val := x\<rparr>)"

definition read_Val :: "u16 \<times> u16 \<times> u16 \<times> u16 \<Rightarrow> Val \<Rightarrow> int \<times> Val" where
  "read_Val version v = (let v = call_Val version v in (val v, v))"

section \<open>All parameters\<close>

abbreviation (input) "magic \<equiv> (0x2805 :: int)"

text \<open>\<open>getbyaddress\<close> and \<open>getNext\<close>, which leave the index of the parameter in \<open>currentIndex\<close>.\<close>

fun getbyaddress :: "int \<Rightarrow> Val list \<Rightarrow> nat \<Rightarrow> Val option \<times> nat" where
  "getbyaddress address [] currentIndex = (None, currentIndex)"
| "getbyaddress address (p # ps) currentIndex =
     (if address = getaddress p then (Some p, currentIndex) else getbyaddress address ps (currentIndex + 1))"

definition getNext :: "Val list \<Rightarrow> nat \<Rightarrow> Val option \<times> nat" where
  "getNext valuearray currentIndex =
     (let currentIndex = currentIndex + 1 in
      (if currentIndex \<ge> length valuearray then None else Some (valuearray ! currentIndex), currentIndex))"

definition getSerialSize :: "Save \<Rightarrow> Val list \<Rightarrow> nat" where
  "getSerialSize s valuearray = sum_list (map getsize (filter (\<lambda>p. s = getsave p) valuearray)) + 2 + 2"

fun serialize_all :: "Save \<Rightarrow> Val list \<Rightarrow> int \<Rightarrow> u8 list \<Rightarrow> (int \<times> u8 list) option" where
  "serialize_all s [] i dst = Some (i, dst)"
| "serialize_all s (p # ps) i dst =
     (if s = getsave p then do {
        dst \<leftarrow> wrs dst i (serialize_Val p);
        serialize_all s ps (i + int (getsize p)) dst
      } else serialize_all s ps i dst)"

definition serialize :: "Save \<Rightarrow> Val list \<Rightarrow> u8 list \<Rightarrow> (bool \<times> u8 list) option" where
  "serialize s valuearray dst = do {
     dst \<leftarrow> wrs dst 0 (le_bytes 2 magic);
     (i, dst) \<leftarrow> serialize_all s valuearray 2 dst;
     crc \<leftarrow> crc16Calc crcModBus dst (word_of_int i);
     dst \<leftarrow> wrs dst i (le_bytes 2 (uint crc));
     Some (True, dst)
   }"

fun deserialize_all :: "Save \<Rightarrow> u8 list \<Rightarrow> int \<Rightarrow> Val list \<Rightarrow> Val list option" where
  "deserialize_all s src i [] = Some []"
| "deserialize_all s src i (p # ps) =
     (if s = getsave p then do {
        bs \<leftarrow> rds src i (int (getsize p));
        ps \<leftarrow> deserialize_all s src (i + int (getsize p)) ps;
        Some (snd (deserialize_Val bs p) # ps)
      } else map_option (\<lambda>ps. p # ps) (deserialize_all s src i ps))"

definition deserialize :: "Save \<Rightarrow> u8 list \<Rightarrow> u32 \<Rightarrow> Val list \<Rightarrow> (bool \<times> Val list) option" where
  "deserialize s src len valuearray = do {
     readmagic \<leftarrow> rds src 0 2;
     if le_value readmagic \<noteq> magic then Some (False, valuearray) else do {
       crc \<leftarrow> crc16Calc crcModBus src len;
       if crc \<noteq> 0 then Some (False, valuearray) else do {
         valuearray \<leftarrow> deserialize_all s src 2 valuearray;
         Some (True, valuearray)
       }
     }
   }"

section \<open>The parameters of the panel\<close>

definition prm :: "string \<Rightarrow> ctype \<Rightarrow> vcallback option \<Rightarrow> nat \<Rightarrow> int \<Rightarrow> int \<Rightarrow> int \<Rightarrow> int \<Rightarrow> int \<Rightarrow> int \<Rightarrow> nat \<Rightarrow> Save \<Rightarrow> ValHandler" where
  "prm name T cb a ad d mn mx st bs pw sv =
     \<lparr>vlabel = name, vtype = T, vdef = d, vmin = mn, vmax = mx, vstep = st, vbigstep = bs, vaddr = ad, varg = a,
      vpower = pw, vsave = sv, vcallback = cb\<rparr>"

text \<open>Name, type, callback and its argument, address, then default, least and greatest value, step and
  big step, each already multiplied by the power of ten, the power, and the memory.\<close>

definition parametres :: "ValHandler list" where
  "parametres =
     [
      prm ''version_major'' T_uint16 (Some getFwVer_callback) 0 0x0000 0 0 65535 0 0 0 notsave,
      prm ''version_minor'' T_uint16 (Some getFwVer_callback) 1 0x0001 0 0 65535 0 0 0 notsave,
      prm ''version_patch'' T_uint16 (Some getFwVer_callback) 2 0x0002 0 0 65535 0 0 0 notsave,
      prm ''modbus_address'' T_uint16 None 0 0x0003 2 0 65535 0 0 0 savesys,
      prm ''serial_number'' T_uint32 None 0 0x0004 4294967295 0 4294967295 0 0 0 savesys,
      prm ''timezone'' T_int8 None 0 0x0000 (- 2) (- 12) 12 1 1 0 savesys,
      prm ''brightness'' T_uint8 None 0 0x0101 60 10 100 1 10 0 savesys,
      prm ''bpWelcomeOnOff'' T_uint8 None 0 0x0101 1 0 1 1 1 0 savesys,
      prm ''bpKeyOnOff'' T_uint8 None 0 0x0101 1 0 1 1 1 0 savesys,
      prm ''bpCcCvOnOff'' T_uint8 None 0 0x0101 1 0 1 1 1 0 savesys,
      prm ''bpChFinOnOff'' T_uint8 None 0 0x0101 1 0 1 1 1 0 savesys,
      prm ''bpErrOnOff'' T_uint8 None 0 0x0101 1 0 1 1 1 0 savesys,
      prm ''ipadr'' T_uint32 None 0 0x0000 3232235786 0 4294967295 1 1 0 savesys,
      prm ''netmask'' T_uint32 None 0 0x0000 4294967040 0 4294967295 1 1 0 savesys,
      prm ''gateway'' T_uint32 None 0 0x0000 3232235777 0 4294967295 1 1 0 savesys,
      prm ''dhcpOnOff'' T_uint8 None 0 0x0000 1 0 1 1 1 0 savesys,
      prm ''dnsServip'' T_uint32 None 0 0x0000 134744072 0 4294967295 1 1 0 savesys,
      prm ''dstOnOff'' T_uint8 None 0 0x0000 1 0 1 1 1 0 savesys,
      prm ''DSTSMon'' T_uint8 None 0 0x0000 3 1 12 1 0 0 savesys,
      prm ''DSTSWeek'' T_uint8 None 0 0x0000 5 1 5 1 0 0 savesys,
      prm ''DSTSDay'' T_uint8 None 0 0x0000 0 0 6 1 0 0 savesys,
      prm ''DSTSHour'' T_uint8 None 0 0x0000 2 0 23 1 0 0 savesys,
      prm ''DSTSMin'' T_uint8 None 0 0x0000 0 0 59 1 0 0 savesys,
      prm ''DSTSSec'' T_uint8 None 0 0x0000 0 0 59 1 0 0 savesys,
      prm ''DSTEMon'' T_uint8 None 0 0x0000 10 1 12 1 0 0 savesys,
      prm ''DSTEWeek'' T_uint8 None 0 0x0000 5 1 5 1 0 0 savesys,
      prm ''DSTEDay'' T_uint8 None 0 0x0000 0 0 6 1 0 0 savesys,
      prm ''DSTEHour'' T_uint8 None 0 0x0000 3 0 23 1 0 0 savesys,
      prm ''DSTEMin'' T_uint8 None 0 0x0000 0 0 59 1 0 0 savesys,
      prm ''DSTESec'' T_uint8 None 0 0x0000 0 0 59 1 0 0 savesys,
      prm ''wireResistance'' T_int32 None 0 0x0000 0 0 2500000 1 1000 4 savesys,
      prm ''wirecompensateOnOff'' T_uint8 None 0 0x0000 0 0 1 1 1 0 savesys,
      prm ''hsave_settings'' T_uint16 None 0 0x010F 0 0 4 0 0 0 notsave,
      prm ''reboot'' T_uint16 None 0 0x0111 2 0 2 0 0 0 notsave,
      prm ''crange_set'' T_uint16 None 0 0x0000 0 0 1 1 1 0 saveuse,
      prm ''vfilter'' T_uint16 None 0 0x0000 1000 1 1000 1 100 0 saveuse,
      prm ''ifilter'' T_uint16 None 0 0x0000 1000 1 1000 1 100 0 saveuse,
      prm ''vintegration'' T_uint16 None 0 0x0000 1 1 100 1 10 0 saveuse,
      prm ''iintegration'' T_uint16 None 0 0x0000 1 1 100 1 10 0 saveuse,
      prm ''currIpadr'' T_uint32 None 0 0x0000 0 0 4294967295 1 1 0 notsave,
      prm ''currNetmask'' T_uint32 None 0 0x0000 0 0 4294967295 1 1 0 notsave,
      prm ''currGateway'' T_uint32 None 0 0x0000 0 0 4294967295 1 1 0 notsave,
      prm ''utcTime'' T_uint32 None 0 0x0000 1483228800 1483228800 4294967295 86400 1728000 0 notsave,
      prm ''Ureal'' T_int32 None 0 0x0000 0 0 40000000 10 500000 6 notsave,
      prm ''Ireal'' T_int32 None 0 0x0000 0 0 4000000 10 100000 6 notsave,
      prm ''Umeas'' T_int32 None 0 0x0000 0 0 40000000 1000 100000 6 notsave,
      prm ''Imeas'' T_int32 None 0 0x0000 0 0 4000000 100 100000 6 notsave,
      prm ''Udac'' T_int32 None 0 0x0000 0 0 65535 1 1000 0 notsave,
      prm ''Idac'' T_int32 None 0 0x0000 0 0 65535 1 1000 0 notsave,
      prm ''Uadc'' T_uint32 None 0 0x0000 0 0 0 0 0 0 notsave,
      prm ''Iadc'' T_uint32 None 0 0x0000 0 0 0 0 0 0 notsave,
      prm ''point'' T_uint32 None 0 0x0000 0 0 0 0 0 0 notsave,
      prm ''resistance'' T_int32 None 0 0x0000 0 0 2147483647 10000 100000 4 notsave,
      prm ''input_v1'' T_int16 None 0 0x0000 0 0 32767 10 100 1 notsave,
      prm ''input_v2'' T_int16 None 0 0x0000 0 0 32767 10 100 1 notsave,
      prm ''input_v3'' T_int16 None 0 0x0000 0 0 32767 10 100 1 notsave,
      prm ''input_v4'' T_int16 None 0 0x0000 0 0 32767 10 100 1 notsave,
      prm ''input_vg'' T_int16 None 0 0x0000 0 0 32767 10 100 1 notsave,
      prm ''temp_heatsink'' T_int16 None 0 0x0000 0 (- 550) 1250 0 0 1 notsave,
      prm ''temp_shunt'' T_int16 None 0 0x0000 0 (- 550) 1250 0 0 1 notsave,
      prm ''temp_ref'' T_int16 None 0 0x0000 0 (- 550) 1250 0 0 1 notsave,
      prm ''reg_serial'' T_uint32 None 0 0x0000 0 0 4294967295 1 1 0 notsave,
      prm ''mac0'' T_uint64 None 0 0x0000 0 0 4294967295 1 1 0 notsave,
      prm ''save_settings'' T_uint16 None 0 0x0000 0 0 4 0 0 0 notsave,
      prm ''startcnt'' T_uint32 None 0 0x0000 0 0 4294967295 1 1 0 saveuse,
      prm ''baseu0'' T_uint16 None 0 0x0000 1000 0 37000 10 1000 3 saveuse,
      prm ''basei0'' T_uint16 None 0 0x0000 100 1 4100 1 500 3 saveuse,
      prm ''basemode0'' T_uint8 None 0 0x0000 1 0 1 1 1 0 saveuse,
      prm ''baseu1'' T_uint16 None 0 0x0000 1000 0 37000 10 1000 3 saveuse,
      prm ''basei1'' T_uint16 None 0 0x0000 100 1 4100 1 500 3 saveuse,
      prm ''basemode1'' T_uint8 None 0 0x0000 1 0 1 1 1 0 saveuse,
      prm ''baseu2'' T_uint16 None 0 0x0000 1000 0 37000 10 1000 3 saveuse,
      prm ''basei2'' T_uint16 None 0 0x0000 100 1 4100 1 500 3 saveuse,
      prm ''basemode2'' T_uint8 None 0 0x0000 1 0 1 1 1 0 saveuse,
      prm ''basepreset'' T_uint8 None 0 0x0000 0 0 2 1 1 0 saveuse,
      prm ''chargeru'' T_uint16 None 0 0x0000 1000 0 37000 10 1000 3 saveuse,
      prm ''chargeri'' T_uint16 None 0 0x0000 100 1 4100 1 500 3 saveuse,
      prm ''chargermode'' T_uint8 None 0 0x0000 0 0 1 1 1 0 saveuse,
      prm ''chargert'' T_uint32 None 0 0x0000 60000 1000 86400000 1000 300000 0 saveuse]"

definition valuearray :: "Val list" where
  "valuearray = map new_Val parametres"

section \<open>Conversions\<close>

lemma csize_pos [simp]: "0 < csize T"
  by (cases T) simp_all

lemma conv_id: "cmin T \<le> x \<Longrightarrow> x \<le> cmax T \<Longrightarrow> conv T x = x"
  by (simp add: conv_def cmax_def)

lemma conv_range: "cmin T \<le> conv T x" "conv T x \<le> cmax T"
proof -
  have "0 < (256 :: int) ^ csize T" by simp
  then have "0 \<le> (x - cmin T) mod 256 ^ csize T" "(x - cmin T) mod 256 ^ csize T < 256 ^ csize T"
    by (simp_all only: pos_mod_sign pos_mod_bound)
  then show "cmin T \<le> conv T x" "conv T x \<le> cmax T" by (simp_all add: conv_def cmax_def)
qed

lemma conv_mod: "conv T (x mod 256 ^ csize T) = conv T x"
  by (simp add: conv_def mod_simps)

lemma length_le_bytes [simp]: "length (le_bytes n x) = n"
  by (induction n arbitrary: x) simp_all

lemma le_value_bytes: "le_value (le_bytes n x) = x mod 256 ^ n"
proof (induction n arbitrary: x)
  case (Suc n)
  have "x mod (256 * 256 ^ n) = 256 * (x div 256 mod 256 ^ n) + x mod 256"
    by (rule zmod_zmult2_eq) simp
  then show ?case using Suc by (simp add: uint_word_of_int take_bit_eq_mod)
qed simp

lemma length_serialize_Val [simp]: "length (serialize_Val v) = getsize v"
  by (simp add: serialize_Val_def)

text \<open>A parameter is well-formed when its limits are values of its type, and its value lies between them.\<close>

definition handler_ok :: "ValHandler \<Rightarrow> bool" where
  "handler_ok h \<longleftrightarrow> cmin (vtype h) \<le> vmin h \<and> vmin h \<le> vdef h \<and> vdef h \<le> vmax h \<and> vmax h \<le> cmax (vtype h)"

definition val_ok :: "Val \<Rightarrow> bool" where
  "val_ok v \<longleftrightarrow> handler_ok (vhandler v) \<and> vmin (vhandler v) \<le> val v \<and> val v \<le> vmax (vhandler v)"

lemma val_ok_type: "val_ok v \<Longrightarrow> cmin (vtype (vhandler v)) \<le> val v \<and> val v \<le> cmax (vtype (vhandler v))"
  by (auto simp: val_ok_def handler_ok_def)

lemma deserialize_serialize_Val:
  assumes "val_ok v" "vhandler w = vhandler v"
  shows "deserialize_Val (serialize_Val v) w = (True, w\<lparr>val := val v\<rparr>)"
proof -
  have "conv (vtype (vhandler v)) (val v mod 256 ^ csize (vtype (vhandler v))) = val v"
    using val_ok_type [OF assms(1)] by (simp add: conv_mod conv_id)
  then show ?thesis using assms
    by (simp add: deserialize_Val_def serialize_Val_def le_value_bytes getsize_def val_ok_def)
qed

lemma deserialize_Val_ok: "val_ok v \<Longrightarrow> val_ok (snd (deserialize_Val bs v)) \<and> vhandler (snd (deserialize_Val bs v)) = vhandler v"
  by (simp add: deserialize_Val_def val_ok_def Let_def)

section \<open>Stepping\<close>

text \<open>The value \<open>n\<close> steps away, kept within the limits.\<close>

definition clamp :: "int \<Rightarrow> int \<Rightarrow> int \<Rightarrow> int" where
  "clamp lo hi x = max lo (min hi x)"

definition step_fits :: "ctype \<Rightarrow> int \<Rightarrow> int \<Rightarrow> bool" where
  "step_fits T n sz \<longleftrightarrow> cmin T_int32 < n \<and> n \<le> cmax T_int32 \<and> 0 \<le> sz * \<bar>n\<bar> \<and> sz * \<bar>n\<bar> \<le> cmax T"

lemma promoted_wider: "cmin (promoted T) \<le> cmin T" "cmax T \<le> cmax (promoted T)"
  by (cases T; simp add: cmin_def cmax_def)+

lemma arith_id: "cmin (promoted T) \<le> x \<Longrightarrow> x \<le> cmax (promoted T) \<Longrightarrow> arith T x = Some x"
  by (simp add: arith_def conv_id)

text \<open>The distance of two values of the type: it overflows only for 32-bit signed numbers.\<close>

lemma arith_room:
  assumes "0 \<le> x" "x \<le> 256 ^ csize T - 1" "T = T_int32 \<Longrightarrow> x \<le> cmax T_int32"
  shows "arith T x = Some x"
  using assms by (cases T) (simp_all add: arith_def cmin_def cmax_def conv_def)

lemma stepsize_clamps:
  assumes "val_ok v" "step_fits (vtype (vhandler v)) n sz"
    and "vtype (vhandler v) = T_int32 \<longrightarrow> vmax (vhandler v) - vmin (vhandler v) \<le> cmax T_int32"
  shows "stepsize n sz v = Some (v\<lparr>val := clamp (vmin (vhandler v)) (vmax (vhandler v)) (val v + n * sz)\<rparr>)"
proof -
  let ?T = "vtype (vhandler v)" and ?lo = "vmin (vhandler v)" and ?hi = "vmax (vhandler v)"
  let ?m = "sz * \<bar>n\<bar>"
  have lim: "cmin ?T \<le> ?lo" "?lo \<le> val v" "val v \<le> ?hi" "?hi \<le> cmax ?T"
    using assms(1) by (auto simp: val_ok_def handler_ok_def)
  have m: "0 \<le> ?m" "?m \<le> cmax ?T" "n \<noteq> cmin T_int32" using assms(2) by (auto simp: step_fits_def)
  have z: "cmin ?T \<le> 0" by (simp add: cmin_def)
  have am: "arith ?T ?m = Some ?m" "conv ?T ?m = ?m"
    using m z promoted_wider [of ?T] by (auto intro!: arith_id conv_id)
  have width: "?hi - ?lo \<le> 256 ^ csize ?T - 1" using lim by (simp add: cmax_def)
  have room: "arith ?T (val v - ?lo) = Some (val v - ?lo)" "arith ?T (?hi - val v) = Some (?hi - val v)"
    using lim width assms(3) by (auto intro!: arith_room)
  have inside: "arith ?T x = Some x" "conv ?T x = x" if "?lo \<le> x" "x \<le> ?hi" for x
    using that lim promoted_wider [of ?T] by (auto intro!: arith_id conv_id)
  show ?thesis
  proof (cases "n < 0")
    case True
    then have n: "n * sz = - ?m" by (simp add: algebra_simps)
    show ?thesis
    proof (cases "?m > val v - ?lo")
      case True
      have "clamp ?lo ?hi (val v + n * sz) = ?lo" using True lim by (simp add: clamp_def n)
      then show ?thesis using \<open>n < 0\<close> True m(3) am room inside(2) [of ?lo] lim by (simp add: stepsize_def Let_def)
    next
      case False
      have "clamp ?lo ?hi (val v + n * sz) = val v - ?m" using False lim m(1) by (simp add: clamp_def n)
      then show ?thesis using \<open>n < 0\<close> False m am room inside [of "val v - ?m"] lim by (simp add: stepsize_def Let_def)
    qed
  next
    case False
    then have n: "n * sz = ?m" by (simp add: algebra_simps)
    show ?thesis
    proof (cases "?m > ?hi - val v")
      case True
      have "clamp ?lo ?hi (val v + n * sz) = ?hi" using True lim by (simp add: clamp_def n)
      then show ?thesis using \<open>\<not> n < 0\<close> True m(3) am room inside(2) [of ?hi] lim by (simp add: stepsize_def Let_def)
    next
      case False
      have "clamp ?lo ?hi (val v + n * sz) = val v + ?m" using False lim m(1) by (simp add: clamp_def n)
      then show ?thesis using \<open>\<not> n < 0\<close> False m am room inside [of "val v + ?m"] lim by (simp add: stepsize_def Let_def)
    qed
  qed
qed

section \<open>Blocks\<close>

definition saved_bytes :: "Save \<Rightarrow> Val list \<Rightarrow> u8 list" where
  "saved_bytes s vs = concat (map serialize_Val (filter (\<lambda>v. s = getsave v) vs))"

lemma saved_bytes_simps [simp]: "saved_bytes s [] = []"
  "saved_bytes s (v # vs) = (if s = getsave v then serialize_Val v @ saved_bytes s vs else saved_bytes s vs)"
  by (simp_all add: saved_bytes_def)

lemma getSerialSize_eq: "getSerialSize s vs = length (saved_bytes s vs) + 4"
  by (simp add: getSerialSize_def saved_bytes_def length_concat comp_def)

lemma serialize_all_eq:
  "length (saved_bytes s vs) \<le> length zs \<Longrightarrow>
   serialize_all s vs (int (length pre)) (pre @ zs)
     = Some (int (length pre + length (saved_bytes s vs)), pre @ saved_bytes s vs @ drop (length (saved_bytes s vs)) zs)"
proof (induction vs arbitrary: pre zs)
  case (Cons v vs)
  show ?case
  proof (cases "s = getsave v")
    case True
    let ?b = "serialize_Val v"
    have len: "length ?b \<le> length zs" "length (saved_bytes s vs) \<le> length (drop (length ?b) zs)"
      using Cons.prems True by simp_all
    have "serialize_all s vs (int (length pre) + int (getsize v)) ((pre @ ?b) @ drop (length ?b) zs)
      = Some (int (length (pre @ ?b) + length (saved_bytes s vs)),
          (pre @ ?b) @ saved_bytes s vs @ drop (length (saved_bytes s vs)) (drop (length ?b) zs))"
      using Cons.IH [OF len(2), of "pre @ ?b"] by (simp add: algebra_simps)
    moreover have "wrs (pre @ zs) (int (length pre)) ?b = Some ((pre @ ?b) @ drop (length ?b) zs)"
      using wrs_after_prefix [OF len(1)] by simp
    ultimately show ?thesis using True by (simp add: algebra_simps)
  next
    case False
    then show ?thesis using Cons by simp
  qed
qed simp

lemma le_bytes_crc: "le_bytes 2 (uint c) = crc_bytes (c :: u16)"
proof -
  have "(word_of_int (uint c) :: u8) = ucast c" by (rule bit_word_eqI) (simp add: bit_simps bit_uint_iff)
  moreover have "(word_of_int (uint c div 256) :: u8) = ucast (drop_bit 8 c)"
    by (rule bit_word_eqI) (simp add: bit_simps bit_uint_iff flip: drop_bit_eq_div [of 8, simplified])
  ultimately show ?thesis by (simp add: numeral_2_eq_2 crc_bytes_def)
qed

text \<open>The bytes of a block: the magic number, the values, and the CRC of both.\<close>

definition payload :: "Save \<Rightarrow> Val list \<Rightarrow> u8 list" where
  "payload s vs = le_bytes 2 magic @ saved_bytes s vs"

definition block :: "Save \<Rightarrow> Val list \<Rightarrow> u8 list" where
  "block s vs = payload s vs @ crc_bytes (crc16_of crcModBus_table 0xFFFF (payload s vs))"

lemma length_crc16_bytes [simp]: "length (crc_bytes c) = 2"
  by (simp add: crc_bytes_def)

lemma length_payload: "length (payload s vs) = length (saved_bytes s vs) + 2"
  by (simp add: payload_def)

lemma length_block: "length (block s vs) = getSerialSize s vs"
  by (simp add: block_def payload_def getSerialSize_eq)

lemma crc_of_payload:
  assumes "getSerialSize s vs < 2 ^ 32"
  shows "crc16Calc crcModBus (payload s vs @ zs) (word_of_int (int (length (payload s vs))))
    = Some (crc16_of crcModBus_table 0xFFFF (payload s vs))"
proof -
  have n: "unat (of_nat (length (payload s vs)) :: u32) = length (payload s vs)"
    using assms by (intro unat_of_nat32) (simp add: length_payload getSerialSize_eq)
  moreover have "0 < length (payload s vs)" by (simp add: length_payload)
  ultimately show ?thesis by (simp add: crc16Calc_modbus)
qed

lemma serialize_eq:
  assumes "getSerialSize s vs \<le> length dst" "getSerialSize s vs < 2 ^ 32"
  shows "serialize s vs dst = Some (True, block s vs @ drop (getSerialSize s vs) dst)"
proof -
  let ?m = "le_bytes 2 magic" and ?n = "length (saved_bytes s vs)"
  have n: "getSerialSize s vs = ?n + 4" by (rule getSerialSize_eq)
  have "wrs dst 0 ?m = Some (?m @ drop 2 dst)" using assms(1) n by (simp add: wrs_0)
  moreover have "serialize_all s vs 2 (?m @ drop 2 dst)
    = Some (int (length (payload s vs)), payload s vs @ drop ?n (drop 2 dst))"
    using serialize_all_eq [of s vs "drop 2 dst" ?m] assms(1) n by (simp add: payload_def add.commute)
  moreover have "wrs (payload s vs @ drop ?n (drop 2 dst)) (int (length (payload s vs)))
      (crc_bytes (crc16_of crcModBus_table 0xFFFF (payload s vs)))
    = Some (block s vs @ drop (getSerialSize s vs) dst)"
  proof -
    let ?c = "crc_bytes (crc16_of crcModBus_table 0xFFFF (payload s vs))"
    have "length ?c \<le> length (drop ?n (drop 2 dst))" using assms(1) n by simp
    moreover have "drop (length ?c) (drop ?n (drop 2 dst)) = drop (getSerialSize s vs) dst"
      unfolding n by (simp only: drop_drop length_crc16_bytes) (simp add: numeral_eq_Suc)
    ultimately show ?thesis using wrs_after_prefix [of ?c "drop ?n (drop 2 dst)" "payload s vs"]
      by (simp only: block_def append_assoc)
  qed
  ultimately show ?thesis using crc_of_payload [OF assms(2)]
    by (simp add: serialize_def le_bytes_crc)
qed

section \<open>Reading a block\<close>

text \<open>What \<open>ws\<close> becomes when the saved values of \<open>vs\<close> are read into it.\<close>

fun restored :: "Save \<Rightarrow> Val list \<Rightarrow> Val list \<Rightarrow> Val list" where
  "restored s (v # vs) (w # ws) = (if s = getsave w then w\<lparr>val := val v\<rparr> else w) # restored s vs ws"
| "restored s _ _ = []"

lemma deserialize_all_eq:
  assumes "list_all val_ok vs" "map vhandler ws = map vhandler vs"
  shows "deserialize_all s (pre @ saved_bytes s vs @ post) (int (length pre)) ws = Some (restored s vs ws)"
  using assms
proof (induction vs arbitrary: ws pre)
  case (Cons v vs)
  then obtain w ws' where ws: "ws = w # ws'" "vhandler w = vhandler v" "map vhandler ws' = map vhandler vs" by auto
  have IH: "deserialize_all s (pre' @ saved_bytes s vs @ post) (int (length pre')) ws' = Some (restored s vs ws')" for pre'
    using Cons.IH [of ws'] Cons.prems ws by simp
  have same: "getsave w = getsave v" "getsize w = getsize v" using ws(2) by (simp_all add: getsave_def getsize_def)
  show ?case
  proof (cases "s = getsave v")
    case True
    have "rds (pre @ serialize_Val v @ saved_bytes s vs @ post) (int (length pre)) (int (getsize v)) = Some (serialize_Val v)"
      by (simp add: rds_def)
    moreover have "deserialize_all s (pre @ serialize_Val v @ saved_bytes s vs @ post) (int (length pre) + int (getsize v)) ws'
      = Some (restored s vs ws')"
      using IH [of "pre @ serialize_Val v"] by simp
    ultimately show ?thesis using True ws same Cons.prems deserialize_serialize_Val [of v w] by simp
  next
    case False
    then show ?thesis using ws same IH [of pre] by simp
  qed
qed simp

lemma block_accepted:
  assumes "getSerialSize s vs < 2 ^ 32"
  shows "crc16Calc crcModBus (block s vs) (of_nat (getSerialSize s vs)) = Some 0"
proof -
  let ?p = "payload s vs"
  have "crc16Calc crcModBus ?p (of_nat (length ?p)) = Some (crc16_of crcModBus_table 0xFFFF ?p)"
    using crc_of_payload [OF assms, of "[]"] by simp
  moreover have "?p \<noteq> []" "length ?p + 2 = getSerialSize s vs"
    by (simp_all add: payload_def numeral_2_eq_2 getSerialSize_eq)
  ultimately show ?thesis using crc16Calc_residue [of ?p] assms by (simp add: block_def del: of_nat_add)
qed

lemma magic_of_block: "rds (block s vs) 0 2 = Some (le_bytes 2 magic)"
  by (simp add: rds_def block_def payload_def)

lemma deserialize_block:
  assumes "getSerialSize s vs < 2 ^ 32" "list_all val_ok vs" "map vhandler ws = map vhandler vs"
  shows "deserialize s (block s vs) (of_nat (getSerialSize s vs)) ws = Some (True, restored s vs ws)"
proof -
  have "deserialize_all s (block s vs) 2 ws = Some (restored s vs ws)"
    using deserialize_all_eq [OF assms(2,3), of s "le_bytes 2 magic"] by (simp add: block_def payload_def)
  then show ?thesis using block_accepted [OF assms(1)]
    by (simp add: deserialize_def magic_of_block le_value_bytes)
qed

lemma restored_props:
  assumes "list_all val_ok vs" "map vhandler ws = map vhandler vs"
  shows "map vhandler (restored s vs ws) = map vhandler vs"
    "list_all val_ok ws \<Longrightarrow> list_all val_ok (restored s vs ws)"
    "i < length vs \<Longrightarrow> val (restored s vs ws ! i) = (if s = getsave (vs ! i) then val (vs ! i) else val (ws ! i))"
proof -
  have "map vhandler (restored s vs ws) = map vhandler vs \<and> (list_all val_ok ws \<longrightarrow> list_all val_ok (restored s vs ws)) \<and>
    (\<forall>i < length vs. val (restored s vs ws ! i) = (if s = getsave (vs ! i) then val (vs ! i) else val (ws ! i)))"
    using assms
  proof (induction vs arbitrary: ws)
    case (Cons v vs)
    then obtain w ws' where ws: "ws = w # ws'" "vhandler w = vhandler v" "map vhandler ws' = map vhandler vs" by auto
    with Cons.IH [of ws'] Cons.prems show ?case
      by (auto simp: getsave_def val_ok_def nth_Cons split: nat.split)
  qed simp
  then show "map vhandler (restored s vs ws) = map vhandler vs"
    "list_all val_ok ws \<Longrightarrow> list_all val_ok (restored s vs ws)"
    "i < length vs \<Longrightarrow> val (restored s vs ws ! i) = (if s = getsave (vs ! i) then val (vs ! i) else val (ws ! i))"
    by blast+
qed

lemma deserialize_all_ok:
  "list_all val_ok ws \<Longrightarrow> deserialize_all s src i ws = Some ws' \<Longrightarrow>
   list_all val_ok ws' \<and> map vhandler ws' = map vhandler ws \<and>
   (\<forall>j < length ws. getsave (ws ! j) \<noteq> s \<longrightarrow> ws' ! j = ws ! j)"
proof (induction ws arbitrary: i ws')
  case (Cons w ws)
  show ?case
  proof (cases "s = getsave w")
    case True
    with Cons.prems(2) obtain bs us where us: "deserialize_all s src (i + int (getsize w)) ws = Some us"
      "ws' = snd (deserialize_Val bs w) # us" by (auto split: bind_splits)
    with Cons.IH [OF _ us(1)] Cons.prems(1) deserialize_Val_ok [of w bs] True show ?thesis
      by (auto simp: nth_Cons split: nat.split)
  next
    case False
    with Cons.prems(2) obtain us where us: "deserialize_all s src i ws = Some us" "ws' = w # us" by auto
    with Cons.IH [OF _ us(1)] Cons.prems(1) show ?thesis by (auto simp: nth_Cons split: nat.split)
  qed
qed simp

lemma valuearray_ok: "list_all val_ok valuearray"
  by (simp add: valuearray_def parametres_def new_Val_def prm_def val_ok_def handler_ok_def cmin_def cmax_def)

lemma valuearray_sizes: "getSerialSize savesys valuearray = 52" "getSerialSize saveuse valuearray = 43"
  by (simp_all add: valuearray_def parametres_def getSerialSize_def getsave_def getsize_def new_Val_def prm_def)

lemma getSerialSize_cong: "map vhandler vs = map vhandler ws \<Longrightarrow> getSerialSize s vs = getSerialSize s ws"
proof -
  have "getSerialSize s vs = sum_list (map (csize \<circ> vtype) (filter (\<lambda>h. s = vsave h) (map vhandler vs))) + 4" for vs
    by (simp add: getSerialSize_def filter_map comp_def getsave_def getsize_def [abs_def])
  then show "map vhandler vs = map vhandler ws \<Longrightarrow> getSerialSize s vs = getSerialSize s ws" by metis
qed

section \<open>Properties of the parameters\<close>

text \<open>The steps that occur in \<open>parametres.txt\<close>: 127 of them, and one big step, fit the type.\<close>

lemma parametres_steps:
  assumes "h \<in> set parametres"
  shows "handler_ok h \<and> 0 \<le> vstep h \<and> 127 * vstep h \<le> cmax (vtype h) \<and> 0 \<le> vbigstep h \<and> vbigstep h \<le> cmax (vtype h) \<and>
    (vtype h = T_int32 \<longrightarrow> vmax h - vmin h \<le> cmax T_int32)"
proof -
  have "list_all (\<lambda>h. handler_ok h \<and> 0 \<le> vstep h \<and> 127 * vstep h \<le> cmax (vtype h) \<and> 0 \<le> vbigstep h \<and>
      vbigstep h \<le> cmax (vtype h) \<and> (vtype h = T_int32 \<longrightarrow> vmax h - vmin h \<le> cmax T_int32)) parametres"
    by (simp add: parametres_def prm_def handler_ok_def cmin_def cmax_def)
  with assms show ?thesis by (simp add: list_all_iff)
qed


definition timezone :: Val where
  "timezone = new_Val (prm ''timezone'' T_int8 None 0 0x0000 (- 2) (- 12) 12 1 1 0 savesys)"


text \<open>From 128 steps on, the product wraps around in the type of the time zone: stepping up goes down, and
  out of the limits.\<close>

lemma prm_step_wraps: "step_Val 128 timezone = Some (timezone\<lparr>val := 126\<rparr>) \<and> vmax (vhandler timezone) = 12"
  by (simp add: step_Val_def stepsize_def timezone_def new_Val_def prm_def arith_def conv_def cmin_def cmax_def)

text \<open>C37: Whatever block is read, accepted or not, every parameter keeps a value of its type within its
  limits, its handler, and, when it is not saved there, its value; a block that is not accepted changes
  nothing.\<close>

theorem prm_load_keeps_limits:
  assumes "list_all val_ok vs" "deserialize s src len vs = Some (ok, vs')"
  shows "list_all val_ok vs' \<and> (\<forall>v \<in> set vs'. conv (vtype (vhandler v)) (val v) = val v) \<and>
    map vhandler vs' = map vhandler vs \<and>
    (\<forall>i < length vs. getsave (vs ! i) \<noteq> s \<longrightarrow> vs' ! i = vs ! i) \<and> (\<not> ok \<longrightarrow> vs' = vs)"
proof -
  have "vs' = vs \<or> ok \<and> deserialize_all s src 2 vs = Some vs'"
    using assms(2) by (auto simp: deserialize_def split: bind_splits if_splits)
  then have keep: "list_all val_ok vs' \<and> map vhandler vs' = map vhandler vs \<and>
      (\<forall>i < length vs. getsave (vs ! i) \<noteq> s \<longrightarrow> vs' ! i = vs ! i) \<and> (\<not> ok \<longrightarrow> vs' = vs)"
    using deserialize_all_ok [OF assms(1)] assms(1) by blast
  then have "\<forall>v \<in> set vs'. conv (vtype (vhandler v)) (val v) = val v"
    using val_ok_type by (auto simp: list_all_iff intro!: conv_id)
  with keep show ?thesis by blast
qed

theorem prm_load_keeps_limits_witness:
  "list_all val_ok [timezone] \<and> deserialize savesys [0x05, 0x29, 0, 0] 4 [timezone] = Some (False, [timezone])"
proof -
  have d: "deserialize savesys [0x05, 0x29, 0, 0] 4 [timezone] = Some (False, [timezone])"
    by (simp add: deserialize_def rds_def)
  have "list_all val_ok [timezone]"
    by (simp add: timezone_def new_Val_def val_ok_def handler_ok_def cmin_def cmax_def prm_def)
  from prm_load_keeps_limits [OF this d] d show ?thesis by simp
qed

end
