(* ===== verification/Eeprom.thy ===== *)
theory Eeprom
  imports I2c Parameters
begin

unbundle bit_operations_syntax

text \<open>
  The EEPROM driver \<open>dev/src/24AAxx.cpp\<close> and the loading and saving of the settings in
  \<open>task/src/systemTSK.cpp\<close>.  The memory device is a parameter: the function that one page write
  applies to its contents.
\<close>

section \<open>Driver\<close>

abbreviation (input) "CONTROLCODE \<equiv> (0xA :: u8)"
abbreviation (input) "BYTESINPAGE \<equiv> (256 :: nat)"
abbreviation (input) "BYTESINBLOCK \<equiv> (16 :: nat)"
abbreviation (input) "eepWrite \<equiv> (0 :: u8)"
abbreviation (input) "eepRead \<equiv> (1 :: u8)"

definition eepAddress :: "u8 \<Rightarrow> nat \<Rightarrow> u8" where
  "eepAddress rw blockSelect = rw OR push_bit 1 (of_nat blockSelect AND 7) OR push_bit 4 CONTROLCODE"

definition canWrite :: "nat \<Rightarrow> nat" where
  "canWrite adrInBlock =
     (let n = (BYTESINPAGE - adrInBlock) mod BYTESINBLOCK in if n = 0 then BYTESINBLOCK else n)"

lemma canWrite_bounds: "0 < canWrite a" "canWrite a \<le> 16"
  by (simp_all add: canWrite_def Let_def)

function eep_write_loop :: "u16 \<Rightarrow> u8 list \<Rightarrow> nat \<Rightarrow> u8 list \<Rightarrow> i2c \<Rightarrow> (bool \<times> i2c) option" where
  "eep_write_loop dst pData len eep_tempBff b =
     (if len > 0 then
        (let blockSelect = unat dst div BYTESINPAGE; adrInBlock = unat dst mod BYTESINPAGE in
         if len \<le> canWrite adrInBlock then do {
           eep_tempBff \<leftarrow> wr eep_tempBff 0 (of_nat adrInBlock);
           bytes \<leftarrow> rds pData 0 (int len);
           eep_tempBff \<leftarrow> wrs eep_tempBff 1 bytes;
           (ok, b) \<leftarrow> I2cManager_write (eepAddress eepWrite blockSelect) (take (len + 1) eep_tempBff) True b;
           if \<not> ok then Some (False, b) else do {
             b \<leftarrow> vTaskDelay b;
             eep_write_loop dst pData (len - len) eep_tempBff b
           }
         } else do {
           eep_tempBff \<leftarrow> wr eep_tempBff 0 (of_nat adrInBlock);
           bytes \<leftarrow> rds pData 0 (int (canWrite adrInBlock));
           eep_tempBff \<leftarrow> wrs eep_tempBff 1 bytes;
           (ok, b) \<leftarrow> I2cManager_write (eepAddress eepWrite blockSelect) (take (canWrite adrInBlock + 1) eep_tempBff) True b;
           if \<not> ok then Some (False, b) else do {
             b \<leftarrow> vTaskDelay b;
             eep_write_loop (dst + of_nat (canWrite adrInBlock)) (drop (canWrite adrInBlock) pData)
               (len - canWrite adrInBlock) eep_tempBff b
           }
         })
      else Some (True, b))"
  by auto
termination
  by (relation "measure (\<lambda>(dst, pData, len, buf, b). len)") (auto simp: canWrite_bounds)

declare eep_write_loop.simps [simp del]

definition Eep24AA_write :: "u16 \<Rightarrow> u8 list \<Rightarrow> nat \<Rightarrow> i2c \<Rightarrow> (bool \<times> i2c) option" where
  "Eep24AA_write dst src len b =
     (if len = 0 then Some (False, b) else eep_write_loop dst src len (replicate 17 0) b)"

text \<open>\<open>Eep24AA::read\<close>; the bytes it stores are \<^term>\<open>rx_data\<close>.\<close>

definition Eep24AA_read :: "u16 \<Rightarrow> nat \<Rightarrow> i2c \<Rightarrow> (bool \<times> i2c) option" where
  "Eep24AA_read src len b =
     (if len = 0 then Some (False, b)
      else let blockSelect = unat src div BYTESINPAGE; adrInBlock = of_nat (unat src mod BYTESINPAGE) in do {
        (ok, b) \<leftarrow> I2cManager_write (eepAddress eepWrite blockSelect) [adrInBlock] False b;
        if \<not> ok then Some (False, b) else do {
          (ok, b) \<leftarrow> I2cManager_read (eepAddress eepRead blockSelect) len b;
          Some (ok, b)
        }
      })"

section \<open>Settings\<close>

abbreviation (input) "systemSettingsAddress \<equiv> (0 :: u16)"
abbreviation (input) "userSettingsAddress \<equiv> (512 :: u16)"

text \<open>\<open>saveparametersSystem\<close> and \<open>saveparametersUser\<close>, which ignore the result of the write.  The buffer
  on the stack holds \<open>junk\<close> before it is filled.\<close>

definition saveparameters :: "Save \<Rightarrow> u16 \<Rightarrow> u8 \<Rightarrow> Val list \<Rightarrow> i2c \<Rightarrow> i2c option" where
  "saveparameters s address junk vs b =
     (let len = getSerialSize s vs in
      if len \<noteq> 0 then do {
        (_, buffer) \<leftarrow> serialize s vs (replicate len junk);
        (_, b) \<leftarrow> Eep24AA_write address buffer len b;
        Some b
      } else Some b)"

definition saveparametersSystem :: "u8 \<Rightarrow> Val list \<Rightarrow> i2c \<Rightarrow> i2c option" where
  "saveparametersSystem = saveparameters savesys systemSettingsAddress"

definition saveparametersUser :: "u8 \<Rightarrow> Val list \<Rightarrow> i2c \<Rightarrow> i2c option" where
  "saveparametersUser = saveparameters saveuse userSettingsAddress"

text \<open>One half of \<open>loadParameters\<close>; the flag is its \<open>SettingLoadDefault\<close>.\<close>

definition load_half :: "Save \<Rightarrow> u16 \<Rightarrow> Val list \<Rightarrow> i2c \<Rightarrow> (bool \<times> Val list \<times> i2c) option" where
  "load_half s address vs b =
     (let len = getSerialSize s vs in
      if len \<noteq> 0 then do {
        (ok, b) \<leftarrow> Eep24AA_read address len b;
        if ok then do {
          (good, vs) \<leftarrow> deserialize s (rx_data b) (of_nat len) vs;
          Some (\<not> good, vs, b)
        } else Some (False, vs, b)
      } else Some (False, vs, b))"

definition loadParameters :: "Val list \<Rightarrow> i2c \<Rightarrow> (bool \<times> bool \<times> Val list \<times> i2c) option" where
  "loadParameters vs b = do {
     (sysSettingLoadDefault, vs, b) \<leftarrow> load_half savesys systemSettingsAddress vs b;
     (userSettingLoadDefault, vs, b) \<leftarrow> load_half saveuse userSettingsAddress vs b;
     Some (sysSettingLoadDefault, userSettingLoadDefault, vs, b)
   }"

section \<open>The memory\<close>

text \<open>What the device does with the transfers of the bus: a transfer to it of more than an address writes
  the rest there.  A device keeps its promise when a write that stays within a row of 16 bytes stores
  its bytes and changes nothing else.\<close>

type_synonym page_write = "nat \<Rightarrow> u8 list \<Rightarrow> u8 list \<Rightarrow> u8 list"

definition keeps_pages :: "page_write \<Rightarrow> bool" where
  "keeps_pages w \<longleftrightarrow> (\<forall>a bs m. length m = 1024 \<and> bs \<noteq> [] \<and> a < 1024 \<and> a mod 16 + length bs \<le> 16 \<longrightarrow>
     w a bs m = take a m @ bs @ drop (a + length bs) m)"

definition device_transfer :: "page_write \<Rightarrow> u8 \<times> u8 list \<times> bool \<Rightarrow> u8 list \<Rightarrow> u8 list" where
  "device_transfer w t m =
     (case t of (adr, bytes, stop) \<Rightarrow>
        (case bytes of [] \<Rightarrow> m
         | a # bs \<Rightarrow> if bs = [] then m else w (256 * unat (drop_bit 1 adr AND 3) + unat a) bs m))"

definition device_memory :: "page_write \<Rightarrow> (u8 \<times> u8 list \<times> bool) list \<Rightarrow> u8 list \<Rightarrow> u8 list" where
  "device_memory w ts m = fold (device_transfer w) ts m"

definition store :: "nat \<Rightarrow> u8 list \<Rightarrow> u8 list \<Rightarrow> u8 list" where
  "store a bs m = take a m @ bs @ drop (a + length bs) m"

lemma length_store [simp]: "a + length bs \<le> length m \<Longrightarrow> length (store a bs m) = length m"
  by (simp add: store_def)

lemma store_store:
  assumes "a + length bs + length cs \<le> length m"
  shows "store (a + length bs) cs (store a bs m) = store a (bs @ cs) m"
  using assms by (cases bs) (auto simp: store_def min_def ac_simps)

lemma read_store: "a + length bs \<le> length m \<Longrightarrow> take (length bs) (drop a (store a bs m)) = bs"
  by (simp add: store_def)

lemma read_store_other:
  "b + n \<le> a \<or> a + length bs \<le> b \<Longrightarrow> a + length bs \<le> length m \<Longrightarrow> take n (drop b (store a bs m)) = take n (drop b m)"
  by (auto simp: store_def drop_take min_def)

section \<open>Writing\<close>

lemma canWrite_row: "a < 256 \<Longrightarrow> a mod 16 + canWrite a = 16"
proof -
  assume "a < 256"
  then have "256 - a = 16 * (15 - a div 16) + (16 - a mod 16)"
    using div_mult_mod_eq [of a 16] mod_less_divisor [of 16 a] by arith
  then have "(256 - a) mod 16 = (16 - a mod 16) mod 16" by (simp only: mod_mult_self4)
  then show ?thesis using mod_less_divisor [of 16 a] by (cases "a mod 16 = 0") (simp_all add: canWrite_def Let_def)
qed

lemma eep_write_loop_0 [simp]: "eep_write_loop dst pData 0 buf = (\<lambda>b. Some (True, b))"
  by (rule ext) (simp add: eep_write_loop.simps)

lemma eep_write_loop_step:
  fixes dst :: u16
  assumes "0 < len" "len \<le> length pData" "length buf = 17"
  defines "adr \<equiv> unat dst mod 256"
  defines "n \<equiv> min len (canWrite adr)"
  shows "eep_write_loop dst pData len buf b = do {
      (ok, b) \<leftarrow> I2cManager_write (eepAddress eepWrite (unat dst div 256)) (of_nat adr # take n pData) True b;
      if \<not> ok then Some (False, b) else do {
        b \<leftarrow> vTaskDelay b;
        eep_write_loop (dst + of_nat n) (drop n pData) (len - n) (of_nat adr # take n pData @ drop (n + 1) buf) b
      }
    }"
proof -
  have n16: "n \<le> 16" unfolding n_def using canWrite_bounds [of adr] by simp
  have bytes: "rds pData 0 (int n) = Some (take n pData)" using assms(2) by (simp add: rds_def n_def)
  obtain c buf' where buf: "buf = c # buf'" "length buf' = 16" using assms(3) by (cases buf) auto
  have store: "wr buf 0 (of_nat adr) = Some (of_nat adr # buf')"
    "wrs (of_nat adr # buf') 1 (take n pData) = Some (of_nat adr # take n pData @ drop (n + 1) buf)"
    using n16 assms(2) by (simp_all add: wr_def wrs_def buf n_def)
  have sent: "take (n + 1) (of_nat adr # take n pData @ drop (n + 1) buf) = of_nat adr # take n pData"
    using assms(2) by (simp add: n_def)
  show ?thesis
  proof (cases "len \<le> canWrite adr")
    case True
    then have n: "n = len" by (simp add: n_def)
    show ?thesis using assms(1) True bytes store sent unfolding n
      by (subst eep_write_loop.simps)
        (simp add: adr_def [symmetric] Let_def del: take_append take_Suc_Cons,
          auto intro!: Option.bind_cong)
  next
    case False
    then have n: "n = canWrite adr" by (simp add: n_def)
    show ?thesis using assms(1) False bytes store sent unfolding n
      by (subst eep_write_loop.simps)
        (simp add: adr_def [symmetric] Let_def del: take_append take_Suc_Cons,
          auto intro!: Option.bind_cong)
  qed
qed

lemma block_address: "a < 4 \<Longrightarrow> unat (drop_bit 1 (eepAddress eepWrite a AND 0xFE) AND 3 :: u8) = a"
proof -
  assume "a < 4"
  then have "a = 0 \<or> a = 1 \<or> a = 2 \<or> a = 3" by arith
  then show ?thesis by (elim disjE) (simp_all add: eepAddress_def)
qed

text \<open>One page write does what it is for.\<close>

lemma transfer_stores:
  assumes "keeps_pages w" "length m = 1024" "unat dst < 1024" "bs \<noteq> []" "length bs \<le> canWrite (unat dst mod 256)"
  shows "device_transfer w (eepAddress eepWrite (unat (dst :: u16) div 256) AND 0xFE, of_nat (unat dst mod 256) # bs, True) m
    = store (unat dst) bs m"
proof -
  let ?a = "unat dst mod 256"
  have a: "256 * unat (drop_bit 1 (eepAddress eepWrite (unat dst div 256) AND 0xFE) AND 3 :: u8) + unat (of_nat ?a :: u8) = unat dst"
    using assms(3) by (subst block_address) (simp_all add: unsigned_of_nat take_bit_eq_mod)
  have "?a mod 16 = unat dst mod 16" by (rule mod_mod_cancel) simp
  then have "unat dst mod 16 + length bs \<le> 16" using canWrite_row [of ?a] assms(5) by simp
  then show ?thesis using assms(1-4) a unfolding device_transfer_def keeps_pages_def by (simp add: store_def)
qed

lemma eep_write_loop_stores:
  assumes "keeps_pages w"
  shows "i2c_idle b \<Longrightarrow> unat dst + len \<le> 1024 \<Longrightarrow> len \<le> length pData \<Longrightarrow> length buf = 17 \<Longrightarrow>
    eep_write_loop dst pData len buf b = Some (True, b') \<Longrightarrow>
    i2c_idle b' \<and> (\<exists>ts. transfers b' = transfers b @ ts \<and>
      (\<forall>m. length m = 1024 \<longrightarrow> device_memory w ts m = store (unat dst) (take len pData) m))"
proof (induction len arbitrary: dst pData buf b rule: less_induct)
  case (less len)
  show ?case
  proof (cases "len = 0")
    case True
    then show ?thesis using less.prems by (auto simp: device_memory_def store_def)
  next
    case False
    define n where "n = min len (canWrite (unat dst mod 256))"
    let ?adr = "unat dst mod 256"
    let ?t = "(eepAddress eepWrite (unat dst div 256) AND 0xFE, of_nat ?adr # take n pData, True)"
    have n: "0 < n" "n \<le> len" "n \<le> canWrite ?adr" "n \<le> length pData" "pData \<noteq> []" "n \<le> 16"
      using False canWrite_bounds [of ?adr] less.prems(3) by (auto simp: n_def min_def)
    obtain ok b1 where b1: "I2cManager_write (eepAddress eepWrite (unat dst div 256)) (of_nat ?adr # take n pData) True b = Some (ok, b1)"
      using less.prems(5) False eep_write_loop_step [of len pData buf dst b] less.prems(3,4)
      by (auto simp: n_def [symmetric] split: bind_splits)
    with less.prems(5) False eep_write_loop_step [of len pData buf dst b] less.prems(3,4) obtain b2 where
      b2: "ok" "vTaskDelay b1 = Some b2"
        "eep_write_loop (dst + of_nat n) (drop n pData) (len - n) (of_nat ?adr # take n pData @ drop (n + 1) buf) b2 = Some (True, b')"
      by (auto simp: n_def [symmetric] split: bind_splits if_splits)
    have t1: "quiet b1" "transfers b1 = transfers b @ [?t]"
      using write_truthful [OF less.prems(1) b1] b2(1) by (auto simp: quiet_def)
    then have t2: "i2c_idle b2" "transfers b2 = transfers b1"
      using delay_quiet [of b1 "events b1" b2] b2(2) by (auto simp: vTaskDelay_def quiet_def)
    show ?thesis
    proof (cases "len = n")
      case True
      then have "transfers b' = transfers b @ [?t]" "i2c_idle b'" using b2(3) t1 t2 by auto
      moreover have "device_memory w [?t] m = store (unat dst) (take len pData) m" if "length m = 1024" for m
        using transfer_stores [OF assms that, of dst "take n pData"] n less.prems(2,3) True by (simp add: device_memory_def)
      ultimately show ?thesis by blast
    next
      case False
      then have small: "n < len" using n by simp
      have dst: "unat (dst + of_nat n) = unat dst + n"
        using small less.prems(2) by (simp add: unat_word_ariths unsigned_of_nat take_bit_eq_mod)
      have "i2c_idle b' \<and> (\<exists>ts. transfers b' = transfers b2 @ ts \<and> (\<forall>m. length m = 1024 \<longrightarrow>
          device_memory w ts m = store (unat dst + n) (take (len - n) (drop n pData)) m))"
        using less.IH [OF _ t2(1) _ _ _ b2(3)] n small less.prems(2-4) dst by simp
      then obtain ts where ts: "i2c_idle b'" "transfers b' = transfers b @ ?t # ts"
        "\<And>m. length m = 1024 \<Longrightarrow> device_memory w ts m = store (unat dst + n) (take (len - n) (drop n pData)) m"
        using t1 t2 by auto
      have "device_memory w (?t # ts) m = store (unat dst) (take len pData) m" if m: "length m = 1024" for m
      proof -
        have "device_transfer w ?t m = store (unat dst) (take n pData) m"
          using transfer_stores [OF assms m, of dst "take n pData"] n less.prems(2) by simp
        moreover have "take n pData @ take (len - n) (drop n pData) = take len pData"
          using small take_add [of n "len - n" pData] by simp
        ultimately show ?thesis
          using ts(3) [of "store (unat dst) (take n pData) m"] m small n less.prems(2,3)
            store_store [of "unat dst" "take n pData" "take (len - n) (drop n pData)" m]
          by (simp add: device_memory_def)
      qed
      with ts show ?thesis by blast
    qed
  qed
qed

section \<open>Undisturbed transfers\<close>

text \<open>The number of page writes for \<open>len\<close> bytes at an address.\<close>

function eep_chunks :: "nat \<Rightarrow> nat \<Rightarrow> nat" where
  "eep_chunks a len =
     (if len = 0 then 0 else Suc (eep_chunks (a + canWrite (a mod 256)) (len - canWrite (a mod 256))))"
  by auto
termination by (relation "measure snd") (auto simp: canWrite_bounds)

declare eep_chunks.simps [simp del]

definition written_events :: "bool list \<Rightarrow> i2c_event list" where
  "written_events stops = sent_events stops @ [Expire]"

lemma eep_write_loop_completes:
  "i2c_idle b \<Longrightarrow> unat dst + len \<le> 1024 \<Longrightarrow> len \<le> length pData \<Longrightarrow> length buf = 17 \<Longrightarrow>
   length scripts = eep_chunks (unat dst) len \<Longrightarrow> (\<forall>stops \<in> set scripts. False \<in> set stops) \<Longrightarrow>
   events b = concat (map written_events scripts) @ es \<Longrightarrow>
   \<exists>b'. eep_write_loop dst pData len buf b = Some (True, b') \<and> events b' = es"
proof (induction len arbitrary: dst pData buf b scripts rule: less_induct)
  case (less len)
  show ?case
  proof (cases "len = 0")
    case True
    then show ?thesis using less.prems(5,7) by (simp add: eep_chunks.simps)
  next
    case False
    let ?adr = "unat dst mod 256"
    define n where "n = min len (canWrite ?adr)"
    have n: "0 < n" "n \<le> len" "n \<le> length pData" "n \<le> 16"
      using False canWrite_bounds [of ?adr] less.prems(3) by (auto simp: n_def min_def)
    obtain stops scripts' where scripts: "scripts = stops # scripts'"
      "length scripts' = eep_chunks (unat dst + canWrite ?adr) (len - canWrite ?adr)"
      using less.prems(5) False by (cases scripts) (simp_all add: eep_chunks.simps [of "unat dst" len])
    have "events b = sent_events stops @ Expire # concat (map written_events scripts') @ es" "False \<in> set stops"
      using less.prems(6,7) by (simp_all add: scripts written_events_def [of stops])
    from manager_write_sent [OF less.prems(1) this(1), of True] this(2) obtain b1 where
      b1: "I2cManager_write (eepAddress eepWrite (unat dst div 256)) (of_nat ?adr # take n pData) True b = Some (True, b1)"
        "i2c_idle b1" "events b1 = Expire # concat (map written_events scripts') @ es" by blast
    then have b2: "vTaskDelay b1 = Some (b1\<lparr>events := concat (map written_events scripts') @ es\<rparr>)"
      by (simp add: vTaskDelay_def)
    let ?b2 = "b1\<lparr>events := concat (map written_events scripts') @ es\<rparr>"
    have "\<exists>b'. eep_write_loop (dst + of_nat n) (drop n pData) (len - n) (of_nat ?adr # take n pData @ drop (n + 1) buf) ?b2
      = Some (True, b') \<and> events b' = es"
    proof (cases "len = n")
      case True
      then have "scripts' = []" using scripts(2) by (simp add: n_def eep_chunks.simps)
      then show ?thesis using True by simp
    next
      case False
      then have c: "n = canWrite ?adr" "n < len" using n by (auto simp: n_def min_def split: if_splits)
      have dst: "unat (dst + of_nat n) = unat dst + n"
        using n less.prems(2) by (simp add: unat_word_ariths unsigned_of_nat take_bit_eq_mod)
      show ?thesis
        by (rule less.IH [of "len - n" ?b2 _ _ _ scripts'])
          (use n c dst b1(2) scripts less.prems in \<open>simp_all add: i2c_idle_def diff_le_mono\<close>)
    qed
    then show ?thesis using eep_write_loop_step [of len pData buf dst b] False less.prems(3,4) b1(1) b2
      by (simp add: n_def [symmetric])
  qed
qed

text \<open>The script of an undisturbed reading that delivers \<open>bytes\<close>.\<close>

definition read_events :: "u8 list \<Rightarrow> bool list \<Rightarrow> i2c_event list" where
  "read_events bytes stops = sent_events [] @ [Ev I2C_SR1_SB [], Ev I2C_SR1_ADDR [], RxDma bytes stops]"

lemma manager_read_done:
  assumes "i2c_idle b" "events b = [Ev I2C_SR1_SB [], Ev I2C_SR1_ADDR [], RxDma bytes stops] @ es" "False \<in> set stops"
  shows "\<exists>b'. I2cManager_read adr len b = Some (True, b') \<and> i2c_idle b' \<and> events b' = es \<and> rx_data b' = bytes \<and>
    transfers b' = transfers b"
  using assms
  by (auto simp: I2cManager_read_def i2c_read_def i2c_idle_def Let_def take_sem_cons take_sem_given i2c_interrupt_def
      i2cEventHendler_def i2cRxDmaHendler_def wait_stop_def call_tcHook_def)

lemma eep_read_done:
  assumes "i2c_idle b" "events b = read_events bytes stops @ es" "False \<in> set stops" "0 < len"
  shows "\<exists>b'. Eep24AA_read src len b = Some (True, b') \<and> i2c_idle b' \<and> events b' = es \<and> rx_data b' = bytes"
proof -
  let ?a = "unat src div 256" and ?adr = "of_nat (unat src mod 256) :: u8"
  have e: "events b = sent_events [] @ [Ev I2C_SR1_SB [], Ev I2C_SR1_ADDR [], RxDma bytes stops] @ es"
    using assms(2) by (simp add: read_events_def)
  obtain b1 where b1: "I2cManager_write (eepAddress eepWrite ?a) [?adr] False b = Some (True, b1)" "i2c_idle b1"
    "events b1 = [Ev I2C_SR1_SB [], Ev I2C_SR1_ADDR [], RxDma bytes stops] @ es"
    using manager_write_sent [OF assms(1) e, of False] by auto
  obtain b2 where "I2cManager_read (eepAddress eepRead ?a) len b1 = Some (True, b2)" "i2c_idle b2" "events b2 = es"
    "rx_data b2 = bytes" using manager_read_done [OF b1(2,3) assms(3)] by blast
  then show ?thesis using b1(1) assms(4) by (simp add: Eep24AA_read_def Let_def)
qed

section \<open>Properties of the memory\<close>


lemma store_keeps_pages: "keeps_pages store"
  by (simp add: keeps_pages_def store_def)

lemma eep_write_completes:
  assumes "i2c_idle b" "unat dst + len \<le> 1024" "len \<le> length src" "0 < len"
    and "length scripts = eep_chunks (unat dst) len" "\<forall>stops \<in> set scripts. False \<in> set stops"
    and "events b = concat (map written_events scripts) @ es"
  shows "\<exists>b'. Eep24AA_write dst src len b = Some (True, b') \<and> events b' = es"
  using eep_write_loop_completes [OF assms(1-3) _ assms(5-7), of "replicate 17 0"] assms(4) by (simp add: Eep24AA_write_def)


section \<open>Settings survive\<close>

lemma handlers_sizes:
  assumes "map vhandler vs = parametres"
  shows "getSerialSize savesys vs = 52" "getSerialSize saveuse vs = 43"
proof -
  have "map vhandler vs = map vhandler valuearray"
    using assms by (simp add: valuearray_def new_Val_def comp_def)
  from getSerialSize_cong [OF this] show "getSerialSize savesys vs = 52" "getSerialSize saveuse vs = 43"
    by (simp_all add: valuearray_sizes)
qed

lemma save_stores:
  assumes "i2c_idle b" "keeps_pages w" "getSerialSize s vs \<noteq> 0" "unat address + getSerialSize s vs \<le> 1024"
    and "length scripts = eep_chunks (unat address) (getSerialSize s vs)" "\<forall>stops \<in> set scripts. False \<in> set stops"
    and "events b = concat (map written_events scripts) @ es"
  shows "\<exists>b' ts. saveparameters s address junk vs b = Some b' \<and> i2c_idle b' \<and> events b' = es \<and>
    transfers b' = transfers b @ ts \<and>
    (\<forall>m. length m = 1024 \<longrightarrow> device_memory w ts m = store (unat address) (block s vs) m)"
proof -
  let ?n = "getSerialSize s vs"
  have ser: "serialize s vs (replicate ?n junk) = Some (True, block s vs)"
    using serialize_eq [of s vs "replicate ?n junk"] assms(4) by simp
  have len: "?n \<le> length (block s vs)" by (simp add: length_block)
  obtain b' where b': "Eep24AA_write address (block s vs) ?n b = Some (True, b')" "events b' = es"
    using eep_write_completes [OF assms(1,4) len _ assms(5-7)] assms(3) by auto
  have "i2c_idle b' \<and> (\<exists>ts. transfers b' = transfers b @ ts \<and>
      (\<forall>m. length m = 1024 \<longrightarrow> device_memory w ts m = store (unat address) (take ?n (block s vs)) m))"
    using b'(1) eep_write_loop_stores [OF assms(2,1,4) len, of "replicate 17 0" b'] assms(3)
    by (simp add: Eep24AA_write_def)
  then show ?thesis using ser b' assms(3) by (auto simp: saveparameters_def Let_def length_block [symmetric])
qed

lemma load_restores:
  assumes "i2c_idle b" "events b = read_events (block s vs) stops @ es" "False \<in> set stops"
    and "list_all val_ok vs" "map vhandler ws = map vhandler vs" "getSerialSize s vs \<noteq> 0" "getSerialSize s vs < 2 ^ 32"
  shows "\<exists>b'. load_half s address ws b = Some (False, restored s vs ws, b') \<and> i2c_idle b' \<and> events b' = es"
proof -
  have n: "getSerialSize s ws = getSerialSize s vs" by (rule getSerialSize_cong [OF assms(5)])
  obtain b' where "Eep24AA_read address (getSerialSize s vs) b = Some (True, b')" "i2c_idle b'" "events b' = es"
    "rx_data b' = block s vs" using eep_read_done [OF assms(1-3), of "getSerialSize s vs"] assms(6) by blast
  then show ?thesis using deserialize_block [OF assms(7,4,5)] assms(6) by (simp add: load_half_def Let_def n)
qed


text \<open>The brightness set to 77 percent.\<close>

definition sample_parameters :: "Val list" where
  "sample_parameters = valuearray[6 := (valuearray ! 6)\<lparr>val := 77\<rparr>]"

lemma brightness:
  "6 < length valuearray" "vhandler (valuearray ! 6) = prm ''brightness'' T_uint8 None 0 0x0101 60 10 100 1 10 0 savesys"
  by (simp_all add: valuearray_def parametres_def new_Val_def)

lemma sample_parameters_ok: "list_all val_ok sample_parameters" "map vhandler sample_parameters = parametres"
proof -
  have "val_ok ((valuearray ! 6)\<lparr>val := 77\<rparr>)"
    by (simp add: val_ok_def handler_ok_def brightness prm_def cmin_def cmax_def)
  then show "list_all val_ok sample_parameters"
    using valuearray_ok set_update_subset_insert [of valuearray 6 "(valuearray ! 6)\<lparr>val := 77\<rparr>"]
    unfolding sample_parameters_def list_all_iff by blast
  have "map vhandler sample_parameters = (map vhandler valuearray)[6 := map vhandler valuearray ! 6]"
    by (simp add: sample_parameters_def map_update brightness)
  then show "map vhandler sample_parameters = parametres"
    by (simp only: list_update_id) (simp add: valuearray_def new_Val_def comp_def)
qed


end
