(* ===== verification/Display.thy ===== *)
theory Display
  imports Prelude
begin

unbundle bit_operations_syntax

text \<open>
  The display driver \<open>dev/src/st7735.c\<close>, with the delay of \<open>hal/src/htimer.c\<close> and the rectangles of
  \<open>window/src/display.cpp\<close>.  What the panel sees is the list of the operations on its pins and its
  serial bus; an access outside the command table or the video buffer is \<^term>\<open>None\<close>.
\<close>

section \<open>Commands\<close>

datatype lcd_pin = GP_LCD_DC | GP_LCD_CS | GP_LCD_RST

datatype lcd_op = Pin lcd_pin bool | Spi u8 | Delay u16

abbreviation (input) "ST7735_W \<equiv> (160 :: int)"
abbreviation (input) "ST7735_H \<equiv> (128 :: int)"

abbreviation (input) "ST7735_SWRESET \<equiv> (0x01 :: u8)"
abbreviation (input) "ST7735_SLPOUT \<equiv> (0x11 :: u8)"
abbreviation (input) "ST7735_NORON \<equiv> (0x13 :: u8)"
abbreviation (input) "ST7735_INVOFF \<equiv> (0x20 :: u8)"
abbreviation (input) "ST7735_INVON \<equiv> (0x21 :: u8)"
abbreviation (input) "ST7735_DISPON \<equiv> (0x29 :: u8)"
abbreviation (input) "ST7735_CASET \<equiv> (0x2A :: u8)"
abbreviation (input) "ST7735_RASET \<equiv> (0x2B :: u8)"
abbreviation (input) "ST7735_RAMWR \<equiv> (0x2C :: u8)"
abbreviation (input) "ST7735_COLMOD \<equiv> (0x3A :: u8)"
abbreviation (input) "ST7735_MADCTL \<equiv> (0x36 :: u8)"
abbreviation (input) "ST7735_FRMCTR1 \<equiv> (0xB1 :: u8)"
abbreviation (input) "ST7735_FRMCTR2 \<equiv> (0xB2 :: u8)"
abbreviation (input) "ST7735_FRMCTR3 \<equiv> (0xB3 :: u8)"
abbreviation (input) "ST7735_INVCTR \<equiv> (0xB4 :: u8)"
abbreviation (input) "ST7735_PWCTR1 \<equiv> (0xC0 :: u8)"
abbreviation (input) "ST7735_PWCTR2 \<equiv> (0xC1 :: u8)"
abbreviation (input) "ST7735_PWCTR3 \<equiv> (0xC2 :: u8)"
abbreviation (input) "ST7735_PWCTR4 \<equiv> (0xC3 :: u8)"
abbreviation (input) "ST7735_PWCTR5 \<equiv> (0xC4 :: u8)"
abbreviation (input) "ST7735_VMCTR1 \<equiv> (0xC5 :: u8)"
abbreviation (input) "ST7735_GMCTRP1 \<equiv> (0xE0 :: u8)"
abbreviation (input) "ST7735_GMCTRN1 \<equiv> (0xE1 :: u8)"
abbreviation (input) "MADCTL_MY \<equiv> (0x80 :: u8)"
abbreviation (input) "MADCTL_MX \<equiv> (0x40 :: u8)"
abbreviation (input) "MADCTL_MV \<equiv> (0x20 :: u8)"
abbreviation (input) "MADCTL_RGB \<equiv> (0x00 :: u8)"
abbreviation (input) "MADCTL_BGR \<equiv> (0x08 :: u8)"

datatype display_type = JD_T18003 | IPS16080

datatype displayRotation = ST7735_R0 | ST7735_R90 | ST7735_R180 | ST7735_R270

record st7735cfg_type =
  cfg_w :: u8
  cfg_h :: u8
  cstart :: u8
  rstart :: u8
  invert :: u8
  madctl :: u8

fun st7735cfg :: "display_type \<Rightarrow> st7735cfg_type" where
  "st7735cfg JD_T18003 = \<lparr>cfg_w = 128, cfg_h = 160, cstart = 0, rstart = 0, invert = 0, madctl = MADCTL_RGB\<rparr>"
| "st7735cfg IPS16080 = \<lparr>cfg_w = 80, cfg_h = 160, cstart = 26, rstart = 1, invert = 1, madctl = MADCTL_BGR\<rparr>"

record lcd =
  lcd_ops :: "lcd_op list"
  videoBff :: "u16 list"
  xstart :: u8
  ystart :: u8
  lcd_width :: u8
  lcd_height :: u8

definition rcmd :: "u8 list" where
  "rcmd =
     [19,
      ST7735_SWRESET, 0, 150,
      ST7735_SLPOUT, 0, 255,
      ST7735_FRMCTR1, 3, 0, 0x01, 0x2C, 0x2D,
      ST7735_FRMCTR2, 3, 0, 0x01, 0x2C, 0x2D,
      ST7735_FRMCTR3, 6, 0, 0x01, 0x2C, 0x2D, 0x01, 0x2C, 0x2D,
      ST7735_INVCTR, 1, 0, 0x07,
      ST7735_PWCTR1, 3, 0, 0xA2, 0x02, 0x84,
      ST7735_PWCTR2, 1, 0, 0xC5,
      ST7735_PWCTR3, 2, 0, 0x0A, 0x00,
      ST7735_PWCTR4, 2, 0, 0x8A, 0x2A,
      ST7735_PWCTR5, 2, 0, 0x8A, 0xEE,
      ST7735_VMCTR1, 1, 0, 0x0E,
      ST7735_INVOFF, 0, 0,
      ST7735_MADCTL, 1, 0, 0xC8,
      ST7735_COLMOD, 1, 0, 0x05,
      ST7735_GMCTRP1, 16, 0, 0x02, 0x1c, 0x07, 0x12, 0x37, 0x32, 0x29, 0x2d, 0x29, 0x25, 0x2B, 0x39, 0x00, 0x01, 0x03, 0x10,
      ST7735_GMCTRN1, 16, 0, 0x03, 0x1d, 0x07, 0x06, 0x2E, 0x2C, 0x29, 0x2D, 0x2E, 0x2E, 0x37, 0x3F, 0x00, 0x00, 0x02, 0x10,
      ST7735_NORON, 0, 10,
      ST7735_DISPON, 0, 100]"

definition lcd_do :: "lcd_op list \<Rightarrow> lcd \<Rightarrow> lcd" where
  "lcd_do os l = l\<lparr>lcd_ops := lcd_ops l @ os\<rparr>"

definition st7735_lcdCmd :: "u8 \<Rightarrow> lcd \<Rightarrow> lcd" where
  "st7735_lcdCmd cmd l = lcd_do [Spi cmd] (lcd_do [Pin GP_LCD_DC False] l)"

definition st7735_lcdDat :: "u8 \<Rightarrow> lcd \<Rightarrow> lcd" where
  "st7735_lcdDat d l = lcd_do [Spi d] (lcd_do [Pin GP_LCD_DC True] l)"

definition lcdDelay :: "u16 \<Rightarrow> lcd \<Rightarrow> lcd" where
  "lcdDelay delay l = lcd_do [Delay delay] l"

definition st7735_setAddressWindow :: "u8 \<Rightarrow> u8 \<Rightarrow> u8 \<Rightarrow> u8 \<Rightarrow> lcd \<Rightarrow> lcd" where
  "st7735_setAddressWindow x0 y0 x1 y1 l =
     (let l = st7735_lcdCmd ST7735_CASET l;
          l = st7735_lcdDat 0x00 l;
          l = st7735_lcdDat (x0 + xstart l) l;
          l = st7735_lcdDat 0x00 l;
          l = st7735_lcdDat (x1 + xstart l) l;
          l = st7735_lcdCmd ST7735_RASET l;
          l = st7735_lcdDat 0x00 l;
          l = st7735_lcdDat (y0 + ystart l) l;
          l = st7735_lcdDat 0x00 l;
          l = st7735_lcdDat (y1 + ystart l) l
      in st7735_lcdCmd ST7735_RAMWR l)"

text \<open>The loops of \<open>commandList\<close>, with the number of rounds left; \<open>a\<close> is the position in the table.\<close>

fun send_args :: "nat \<Rightarrow> u8 list \<Rightarrow> int \<Rightarrow> lcd \<Rightarrow> (int \<times> lcd) option" where
  "send_args 0 addr a l = Some (a, l)"
| "send_args (Suc numArgs) addr a l = do { d \<leftarrow> rd addr a; send_args numArgs addr (a + 1) (st7735_lcdDat d l) }"

fun send_commands :: "nat \<Rightarrow> u8 list \<Rightarrow> int \<Rightarrow> lcd \<Rightarrow> (int \<times> lcd) option" where
  "send_commands 0 addr a l = Some (a, l)"
| "send_commands (Suc numCommands) addr a l = do {
     cmd \<leftarrow> rd addr a;
     let l = st7735_lcdCmd cmd l in do {
       numArgs \<leftarrow> rd addr (a + 1);
       ms \<leftarrow> rd addr (a + 2);
       (a, l) \<leftarrow> send_args (unat numArgs) addr (a + 3) l;
       let l = (if ms \<noteq> 0 then lcdDelay (if ms = 255 then 500 else ucast ms) l else l)
       in send_commands numCommands addr a l
     }
   }"

definition commandList :: "u8 list \<Rightarrow> lcd \<Rightarrow> lcd option" where
  "commandList addr l = do {
     numCommands \<leftarrow> rd addr 0;
     (a, l) \<leftarrow> send_commands (unat numCommands) addr 1 l;
     Some l
   }"

definition commonInit :: "lcd \<Rightarrow> lcd" where
  "commonInit l =
     (let l = lcd_do [Pin GP_LCD_CS False] l;
          l = lcd_do [Pin GP_LCD_RST True] l;
          l = lcdDelay 10 l;
          l = lcd_do [Pin GP_LCD_RST False] l;
          l = lcdDelay 10 l;
          l = lcd_do [Pin GP_LCD_RST True] l
      in lcdDelay 10 l)"

definition setRotation :: "display_type \<Rightarrow> displayRotation \<Rightarrow> lcd \<Rightarrow> lcd" where
  "setRotation t r l =
     (let l = st7735_lcdCmd ST7735_MADCTL l; c = st7735cfg t in
      case r of
        ST7735_R0 \<Rightarrow> (st7735_lcdDat (MADCTL_MX OR MADCTL_MY OR madctl c) l)
          \<lparr>xstart := cstart c, ystart := rstart c, lcd_width := cfg_w c, lcd_height := cfg_h c\<rparr>
      | ST7735_R90 \<Rightarrow> (st7735_lcdDat (MADCTL_MY OR MADCTL_MV OR madctl c) l)
          \<lparr>xstart := rstart c, ystart := cstart c, lcd_width := cfg_h c, lcd_height := cfg_w c\<rparr>
      | ST7735_R180 \<Rightarrow> (st7735_lcdDat (madctl c) l)
          \<lparr>xstart := cstart c, ystart := rstart c, lcd_width := cfg_w c, lcd_height := cfg_h c\<rparr>
      | ST7735_R270 \<Rightarrow> (st7735_lcdDat (MADCTL_MX OR MADCTL_MV OR madctl c) l)
          \<lparr>xstart := rstart c, ystart := cstart c, lcd_width := cfg_h c, lcd_height := cfg_w c\<rparr>)"

definition invertDisplay :: "u8 \<Rightarrow> lcd \<Rightarrow> lcd" where
  "invertDisplay i l = (if i \<noteq> 0 then st7735_lcdCmd ST7735_INVON l else st7735_lcdCmd ST7735_INVOFF l)"

definition st7735_init :: "display_type \<Rightarrow> displayRotation \<Rightarrow> lcd \<Rightarrow> lcd option" where
  "st7735_init t r l = do {
     l \<leftarrow> commandList rcmd (commonInit l);
     let l = setRotation t r l;
         l = invertDisplay (invert (st7735cfg t)) l
     in Some (st7735_setAddressWindow 0 0 (lcd_width l - 1) (lcd_height l - 1) l)
   }"

section \<open>Pixels\<close>

definition st7735_setPixel :: "u16 \<Rightarrow> u16 \<Rightarrow> u16 \<Rightarrow> lcd \<Rightarrow> lcd option" where
  "st7735_setPixel x y color l = do {
     v \<leftarrow> wr (videoBff l) (uint y * ST7735_W + uint x) color;
     Some (l\<lparr>videoBff := v\<rparr>)
   }"

definition st7735_getPixel :: "u16 \<Rightarrow> u16 \<Rightarrow> lcd \<Rightarrow> u16 option" where
  "st7735_getPixel x y l = rd (videoBff l) (uint y * ST7735_W + uint x)"

text \<open>\<open>st7735_flush\<close>: the pixels that the DMA sends into the address window; \<open>sizeof(videoBff)/2\<close> of them.\<close>

definition st7735_flush :: "lcd \<Rightarrow> u16 list option" where
  "st7735_flush l = rds (videoBff l) 0 (ST7735_W * ST7735_H)"

text \<open>\<open>st7735_fillBuffer\<close>, when the DMA is done.\<close>

definition st7735_fillBuffer :: "u16 \<Rightarrow> lcd \<Rightarrow> lcd" where
  "st7735_fillBuffer color l = l\<lparr>videoBff := replicate (nat (ST7735_W * ST7735_H)) color\<rparr>"

text \<open>\<open>Disp::fillRect\<close>: \<open>x\<close> and \<open>y\<close> are 16-bit signed numbers, \<open>x2\<close> and \<open>y2\<close> unsigned.\<close>

definition to_int16 :: "int \<Rightarrow> int" where
  "to_int16 x = (x + 32768) mod 65536 - 32768"

partial_function (option) fill_columns :: "int \<Rightarrow> int \<Rightarrow> int \<Rightarrow> u16 \<Rightarrow> lcd \<Rightarrow> lcd option" where
  "fill_columns x x2 y color l =
     (if x < x2 then do {
        l \<leftarrow> st7735_setPixel (word_of_int x) (word_of_int y) color l;
        fill_columns (to_int16 (x + 1)) x2 y color l
      } else Some l)"

partial_function (option) fill_rows :: "int \<Rightarrow> int \<Rightarrow> int \<Rightarrow> int \<Rightarrow> u16 \<Rightarrow> lcd \<Rightarrow> lcd option" where
  "fill_rows x0 x2 y y2 color l =
     (if y < y2 then do {
        l \<leftarrow> fill_columns x0 x2 y color l;
        fill_rows x0 x2 (to_int16 (y + 1)) y2 color l
      } else Some l)"

definition fillRect :: "int \<Rightarrow> int \<Rightarrow> int \<Rightarrow> int \<Rightarrow> u16 \<Rightarrow> lcd \<Rightarrow> lcd option" where
  "fillRect x y w h color l =
     (let x0 = to_int16 (x mod 65536); x2 = (x + w) mod 65536; y2 = (y + h) mod 65536
      in fill_rows x0 x2 y y2 color l)"

section \<open>Delays\<close>

text \<open>\<open>htimer_delay\<close> on the readings of the counter, which counts microseconds modulo 65536: the number
  of readings until it returns.\<close>

fun htimer_wait :: "u16 \<Rightarrow> u16 list \<Rightarrow> nat option" where
  "htimer_wait v [] = None"
| "htimer_wait v (CNT # cs) = (if uint v - uint CNT > 0 then map_option Suc (htimer_wait v cs) else Some 0)"

definition htimer_delay :: "u16 \<Rightarrow> u16 list \<Rightarrow> nat option" where
  "htimer_delay us cs = (case cs of [] \<Rightarrow> None | CNT # cs \<Rightarrow> htimer_wait (CNT + us) cs)"

section \<open>Command tables\<close>

type_synonym lcd_command = "u8 \<times> u8 list \<times> u8"

fun encode_command :: "lcd_command \<Rightarrow> u8 list" where
  "encode_command (c, args, ms) = [c, of_nat (length args), ms] @ args"

text \<open>What the panel sees of a command: data and command bytes differ in the pin DC.\<close>

definition dat_ops :: "u8 \<Rightarrow> lcd_op list" where
  "dat_ops d = [Pin GP_LCD_DC True, Spi d]"

fun command_ops :: "lcd_command \<Rightarrow> lcd_op list" where
  "command_ops (c, args, ms) = [Pin GP_LCD_DC False, Spi c] @ concat (map dat_ops args)
     @ (if ms = 0 then [] else if ms = 255 then [Delay 500] else [Delay (ucast ms)])"

lemma lcd_do_append [simp]: "lcd_do bs (lcd_do as l) = lcd_do (as @ bs) l"
  by (simp add: lcd_do_def)

lemma lcd_do_nil [simp]: "lcd_do [] l = l"
  by (simp add: lcd_do_def)

lemma lcd_do_simps [simp]: "lcd_ops (lcd_do os l) = lcd_ops l @ os" "videoBff (lcd_do os l) = videoBff l"
  "xstart (lcd_do os l) = xstart l" "ystart (lcd_do os l) = ystart l"
  "lcd_width (lcd_do os l) = lcd_width l" "lcd_height (lcd_do os l) = lcd_height l"
  by (simp_all add: lcd_do_def)

lemma send_args_eq:
  "send_args (length args) (pre @ args @ post) (int (length pre)) l
     = Some (int (length pre + length args), lcd_do (concat (map dat_ops args)) l)"
proof (induction args arbitrary: pre l)
  case (Cons d args)
  have "rd (pre @ d # args @ post) (int (length pre)) = Some d" by (simp add: rd_def)
  then show ?case using Cons [of "pre @ [d]" "st7735_lcdDat d l"]
    by (simp add: st7735_lcdDat_def dat_ops_def algebra_simps)
qed simp

lemma send_commands_eq:
  "\<forall>(c, args, ms) \<in> set cs. length args < 256 \<Longrightarrow>
   send_commands (length cs) (pre @ concat (map encode_command cs) @ post) (int (length pre)) l
     = Some (int (length pre + length (concat (map encode_command cs))), lcd_do (concat (map command_ops cs)) l)"
proof (induction cs arbitrary: pre l)
  case (Cons cmd cs)
  obtain c args ms where cmd: "cmd = (c, args, ms)" by (cases cmd)
  let ?rest = "concat (map encode_command cs) @ post" and ?n = "of_nat (length args) :: u8"
  let ?addr = "pre @ [c, ?n, ms] @ args @ ?rest"
  have n: "unat ?n = length args" using Cons.prems cmd by (simp add: unsigned_of_nat take_bit_eq_mod)
  have reads: "rd ?addr (int (length pre)) = Some c" "rd ?addr (int (length pre) + 1) = Some ?n"
    "rd ?addr (int (length pre) + 2) = Some ms"
    by (simp_all add: rd_def nth_append nat_add_distrib)
  have args: "send_args (length args) ?addr (int (length pre) + 3) l'
    = Some (int (length pre) + 3 + int (length args), lcd_do (concat (map dat_ops args)) l')" for l'
    using send_args_eq [of args "pre @ [c, ?n, ms]" ?rest l'] by (simp add: algebra_simps)
  have rest: "send_commands (length cs) ?addr (int (length pre) + 3 + int (length args)) l'
    = Some (int (length pre) + 3 + int (length args) + int (length (concat (map encode_command cs))),
        lcd_do (concat (map command_ops cs)) l')" for l'
    using Cons.IH [of "pre @ [c, ?n, ms] @ args" l'] Cons.prems by (simp add: algebra_simps)
  have addr: "pre @ concat (map encode_command (cmd # cs)) @ post = ?addr" by (simp add: cmd)
  show ?case unfolding addr
    using reads args rest
    by (auto simp: cmd n st7735_lcdCmd_def lcdDelay_def Let_def algebra_simps)
qed simp

lemma commandList_eq:
  assumes "length cs < 256" "\<forall>(c, args, ms) \<in> set cs. length args < 256"
  shows "commandList (of_nat (length cs) # concat (map encode_command cs)) l = Some (lcd_do (concat (map command_ops cs)) l)"
proof -
  have n: "unat (of_nat (length cs) :: u8) = length cs" using assms(1) by (simp add: unsigned_of_nat take_bit_eq_mod)
  show ?thesis using send_commands_eq [OF assms(2), of "[of_nat (length cs)]" "[]" l]
    by (simp add: commandList_def rd_def n)
qed

text \<open>The commands of \<open>rcmd\<close>.\<close>

definition panel_commands :: "lcd_command list" where
  "panel_commands =
     [(ST7735_SWRESET, [], 150), (ST7735_SLPOUT, [], 255),
      (ST7735_FRMCTR1, [0x01, 0x2C, 0x2D], 0), (ST7735_FRMCTR2, [0x01, 0x2C, 0x2D], 0),
      (ST7735_FRMCTR3, [0x01, 0x2C, 0x2D, 0x01, 0x2C, 0x2D], 0), (ST7735_INVCTR, [0x07], 0),
      (ST7735_PWCTR1, [0xA2, 0x02, 0x84], 0), (ST7735_PWCTR2, [0xC5], 0), (ST7735_PWCTR3, [0x0A, 0x00], 0),
      (ST7735_PWCTR4, [0x8A, 0x2A], 0), (ST7735_PWCTR5, [0x8A, 0xEE], 0), (ST7735_VMCTR1, [0x0E], 0),
      (ST7735_INVOFF, [], 0), (ST7735_MADCTL, [0xC8], 0), (ST7735_COLMOD, [0x05], 0),
      (ST7735_GMCTRP1, [0x02, 0x1c, 0x07, 0x12, 0x37, 0x32, 0x29, 0x2d, 0x29, 0x25, 0x2B, 0x39, 0x00, 0x01, 0x03, 0x10], 0),
      (ST7735_GMCTRN1, [0x03, 0x1d, 0x07, 0x06, 0x2E, 0x2C, 0x29, 0x2D, 0x2E, 0x2E, 0x37, 0x3F, 0x00, 0x00, 0x02, 0x10], 0),
      (ST7735_NORON, [], 10), (ST7735_DISPON, [], 100)]"

lemma rcmd_commands: "rcmd = of_nat (length panel_commands) # concat (map encode_command panel_commands)"
  by (simp add: rcmd_def panel_commands_def)

lemma rcmd_sent: "commandList rcmd l = Some (lcd_do (concat (map command_ops panel_commands)) l)"
  unfolding rcmd_commands by (rule commandList_eq) (simp_all add: panel_commands_def)

section \<open>Initialisation\<close>

definition reset_ops :: "lcd_op list" where
  "reset_ops = [Pin GP_LCD_CS False, Pin GP_LCD_RST True, Delay 10, Pin GP_LCD_RST False, Delay 10, Pin GP_LCD_RST True, Delay 10]"

fun rotation_bits :: "displayRotation \<Rightarrow> u8" where
  "rotation_bits ST7735_R0 = 0xC0" | "rotation_bits ST7735_R90 = 0xA0"
| "rotation_bits ST7735_R180 = 0x00" | "rotation_bits ST7735_R270 = 0x60"

lemma dat_ops_do: "st7735_lcdDat d l = lcd_do (dat_ops d) l"
  by (simp add: st7735_lcdDat_def dat_ops_def)

lemma cmd_ops_do: "st7735_lcdCmd c l = lcd_do [Pin GP_LCD_DC False, Spi c] l"
  by (simp add: st7735_lcdCmd_def)

definition window_ops :: "u8 \<Rightarrow> u8 \<Rightarrow> u8 \<Rightarrow> u8 \<Rightarrow> lcd_op list" where
  "window_ops x0 y0 x1 y1 = command_ops (ST7735_CASET, [0, x0, 0, x1], 0) @ command_ops (ST7735_RASET, [0, y0, 0, y1], 0)
     @ command_ops (ST7735_RAMWR, [], 0)"

lemma setAddressWindow_eq:
  "st7735_setAddressWindow x0 y0 x1 y1 l = lcd_do (window_ops (x0 + xstart l) (y0 + ystart l) (x1 + xstart l) (y1 + ystart l)) l"
  by (simp add: st7735_setAddressWindow_def Let_def dat_ops_do cmd_ops_do window_ops_def)

text \<open>The last column and row, with the panel on its side or not.\<close>

fun last_column :: "displayRotation \<Rightarrow> u8" where
  "last_column ST7735_R0 = 127" | "last_column ST7735_R90 = 159"
| "last_column ST7735_R180 = 127" | "last_column ST7735_R270 = 159"

fun last_row :: "displayRotation \<Rightarrow> u8" where
  "last_row ST7735_R0 = 159" | "last_row ST7735_R90 = 127"
| "last_row ST7735_R180 = 159" | "last_row ST7735_R270 = 127"

text \<open>The panel after \<open>st7735_init\<close>.  The table of commands is well-formed and is read exactly to its
  end; in every rotation the panel sees the reset, the 19 commands with their data and delays, the
  rotation, no inversion, and the address window; and the window of the panel that is fitted has
  exactly as many pixels as one flush of the video buffer sends.\<close>

theorem lcd_initialised:
  assumes "length (videoBff l) = 20480"
  shows "\<exists>l' pixels. st7735_init JD_T18003 r l = Some l' \<and>
    lcd_ops l' = lcd_ops l @ reset_ops @ concat (map command_ops panel_commands) @
      command_ops (ST7735_MADCTL, [rotation_bits r], 0) @ command_ops (ST7735_INVOFF, [], 0) @ window_ops 0 0 (last_column r) (last_row r) \<and>
    st7735_flush l' = Some pixels \<and> length pixels = (unat (last_column r) + 1) * (unat (last_row r) + 1)"
  using assms
  by (cases r) (simp_all add: st7735_init_def commonInit_def lcdDelay_def rcmd_sent setRotation_def invertDisplay_def
      setAddressWindow_eq dat_ops_do cmd_ops_do reset_ops_def Let_def st7735_flush_def rds_def)

definition sample_lcd :: lcd where
  "sample_lcd = \<lparr>lcd_ops = [], videoBff = replicate 20480 0, xstart = 0, ystart = 0, lcd_width = 0, lcd_height = 0\<rparr>"

lemma sample_lcd_simps [simp]: "length (videoBff sample_lcd) = 20480" "lcd_ops sample_lcd = []"
  by (simp_all add: sample_lcd_def)

theorem lcd_initialised_witness:
  "\<exists>l' pixels. st7735_init JD_T18003 ST7735_R270 sample_lcd = Some l' \<and>
    lcd_ops l' = reset_ops @ concat (map command_ops panel_commands) @
      command_ops (ST7735_MADCTL, [0x60], 0) @ command_ops (ST7735_INVOFF, [], 0) @ window_ops 0 0 159 127 \<and>
    st7735_flush l' = Some pixels \<and> length pixels = 160 * 128"
  using lcd_initialised [of sample_lcd ST7735_R270] by simp

text \<open>The other panel has fewer pixels than a flush sends.\<close>

lemma other_panel_window:
  "\<exists>l'. st7735_init IPS16080 ST7735_R270 l = Some l' \<and> unat (lcd_width l') * unat (lcd_height l') = 12800"
  by (simp add: st7735_init_def rcmd_sent setRotation_def invertDisplay_def setAddressWindow_eq dat_ops_do cmd_ops_do Let_def)

section \<open>Rectangles\<close>

lemma setPixel_eq:
  assumes "length (videoBff l) = 20480" "0 \<le> x" "x < 160" "0 \<le> y" "y < 128"
  shows "st7735_setPixel (word_of_int x) (word_of_int y) c l
    = Some (l\<lparr>videoBff := (videoBff l)[nat (160 * y + x) := c]\<rparr>)"
  using assms by (simp add: st7735_setPixel_def wr_def uint_word_of_int take_bit_eq_mod algebra_simps)

text \<open>\<open>painted P l l'\<close>: the pixels in \<open>P\<close> have the colour, the others are as they were.\<close>

definition painted :: "(int \<Rightarrow> int \<Rightarrow> bool) \<Rightarrow> u16 \<Rightarrow> lcd \<Rightarrow> lcd \<Rightarrow> bool" where
  "painted P c l l' \<longleftrightarrow> length (videoBff l') = 20480 \<and>
     (\<forall>x y. 0 \<le> x \<and> x < 160 \<and> 0 \<le> y \<and> y < 128 \<longrightarrow>
        videoBff l' ! nat (160 * y + x) = (if P x y then c else videoBff l ! nat (160 * y + x)))"

lemma painted_none: "length (videoBff l) = 20480 \<Longrightarrow> painted (\<lambda>x y. False) c l l"
  by (simp add: painted_def)

lemma painted_trans:
  "painted P c l l1 \<Longrightarrow> painted Q c l1 l2 \<Longrightarrow> painted (\<lambda>x y. P x y \<or> Q x y) c l l2"
  by (auto simp: painted_def)

lemma pixel_index_inj:
  assumes "0 \<le> x" "x < 160" "0 \<le> x'" "x' < (160 :: int)" "0 \<le> y" "0 \<le> y'"
  shows "nat (160 * y + x) = nat (160 * y' + x') \<longleftrightarrow> x = x' \<and> y = y'"
proof -
  have "y = y'" if "160 * y + x = 160 * y' + x'" using assms(1-4) that by linarith
  then have "160 * y + x = 160 * y' + x' \<longleftrightarrow> x = x' \<and> y = y'" by auto
  then show ?thesis using assms by (simp add: eq_nat_nat_iff)
qed

lemma painted_pixel:
  assumes "length (videoBff l) = 20480" "0 \<le> x" "x < 160" "0 \<le> y" "y < 128"
  shows "painted (\<lambda>x' y'. x' = x \<and> y' = y) c l (l\<lparr>videoBff := (videoBff l)[nat (160 * y + x) := c]\<rparr>)"
proof -
  have "(videoBff l)[nat (160 * y + x) := c] ! nat (160 * y' + x')
      = (if x' = x \<and> y' = y then c else videoBff l ! nat (160 * y' + x'))"
    if "0 \<le> x'" "x' < 160" "0 \<le> y'" "y' < 128" for x' y'
  proof -
    have "nat (160 * y + x) < length (videoBff l)" using assms by simp
    then show ?thesis using pixel_index_inj [of x x' y y'] that assms(2-5) by (cases "x' = x \<and> y' = y") (auto simp: nth_list_update)
  qed
  then show ?thesis using assms(1) by (simp add: painted_def)
qed

lemma painted_cong:
  "painted P c l l' \<Longrightarrow> (\<And>x y. 0 \<le> x \<Longrightarrow> x < 160 \<Longrightarrow> 0 \<le> y \<Longrightarrow> y < 128 \<Longrightarrow> P x y = Q x y) \<Longrightarrow> painted Q c l l'"
  by (simp add: painted_def)

lemma to_int16_id: "- 32768 \<le> x \<Longrightarrow> x < 32768 \<Longrightarrow> to_int16 x = x"
  by (simp add: to_int16_def)

lemma fill_columns_paints:
  assumes "0 \<le> y" "y < 128" "x2 \<le> 160"
  shows "length (videoBff l) = 20480 \<Longrightarrow> 0 \<le> x \<Longrightarrow>
    \<exists>l'. fill_columns x x2 y c l = Some l' \<and> painted (\<lambda>x' y'. x \<le> x' \<and> x' < x2 \<and> y' = y) c l l'"
proof (induction "nat (x2 - x)" arbitrary: x l)
  case 0
  then have "\<not> x < x2" by simp
  moreover have "painted (\<lambda>x' y'. x \<le> x' \<and> x' < x2 \<and> y' = y) c l l"
    by (rule painted_cong [OF painted_none]) (use 0 \<open>\<not> x < x2\<close> in auto)
  ultimately show ?case by (auto simp: fill_columns.simps)
next
  case (Suc n)
  then have x: "x < x2" "x < 160" using assms(3) by simp_all
  let ?l = "l\<lparr>videoBff := (videoBff l)[nat (160 * y + x) := c]\<rparr>"
  have first: "painted (\<lambda>x' y'. x' = x \<and> y' = y) c l ?l"
    using Suc.prems x assms by (intro painted_pixel) auto
  have "n = nat (x2 - (x + 1))" using Suc.hyps(2) by simp
  from Suc.hyps(1) [OF this, of ?l] Suc.prems obtain l' where
    l': "fill_columns (x + 1) x2 y c ?l = Some l'" "painted (\<lambda>x' y'. x + 1 \<le> x' \<and> x' < x2 \<and> y' = y) c ?l l'"
    by auto
  have "fill_columns x x2 y c l = Some l'"
    using l'(1) x Suc.prems assms setPixel_eq [of l x y c]
    by (subst fill_columns.simps) (simp add: to_int16_id)
  moreover have "painted (\<lambda>x' y'. x \<le> x' \<and> x' < x2 \<and> y' = y) c l l'"
    by (rule painted_cong [OF painted_trans [OF first l'(2)]]) (use x in auto)
  ultimately show ?case by blast
qed

lemma fill_rows_paints:
  assumes "0 \<le> x0" "x2 \<le> 160" "y2 \<le> 128"
  shows "length (videoBff l) = 20480 \<Longrightarrow> 0 \<le> y \<Longrightarrow>
    \<exists>l'. fill_rows x0 x2 y y2 c l = Some l' \<and> painted (\<lambda>x' y'. x0 \<le> x' \<and> x' < x2 \<and> y \<le> y' \<and> y' < y2) c l l'"
proof (induction "nat (y2 - y)" arbitrary: y l)
  case 0
  then have "\<not> y < y2" by simp
  moreover have "painted (\<lambda>x' y'. x0 \<le> x' \<and> x' < x2 \<and> y \<le> y' \<and> y' < y2) c l l"
    by (rule painted_cong [OF painted_none]) (use 0 \<open>\<not> y < y2\<close> in auto)
  ultimately show ?case by (auto simp: fill_rows.simps)
next
  case (Suc n)
  then have y: "y < y2" "y < 128" using assms(3) by simp_all
  obtain l1 where l1: "fill_columns x0 x2 y c l = Some l1" "painted (\<lambda>x' y'. x0 \<le> x' \<and> x' < x2 \<and> y' = y) c l l1"
    using fill_columns_paints [OF Suc.prems(2) y(2) assms(2) Suc.prems(1) assms(1)] by blast
  have "n = nat (y2 - (y + 1))" using Suc.hyps(2) by simp
  from Suc.hyps(1) [OF this, of l1] Suc.prems l1(2) obtain l' where
    l': "fill_rows x0 x2 (y + 1) y2 c l1 = Some l'"
      "painted (\<lambda>x' y'. x0 \<le> x' \<and> x' < x2 \<and> y + 1 \<le> y' \<and> y' < y2) c l1 l'"
    by (auto simp: painted_def)
  have "fill_rows x0 x2 y y2 c l = Some l'"
    using l'(1) l1(1) y Suc.prems by (subst fill_rows.simps) (simp add: to_int16_id)
  moreover have "painted (\<lambda>x' y'. x0 \<le> x' \<and> x' < x2 \<and> y \<le> y' \<and> y' < y2) c l l'"
    by (rule painted_cong [OF painted_trans [OF l1(2) l'(2)]]) (use y in auto)
  ultimately show ?case by blast
qed

text \<open>Rectangles.  A rectangle within the screen is filled without an access outside the video buffer:
  every pixel in it has the colour afterwards, and every other pixel is as it was.\<close>

theorem fillRect_exact:
  assumes "length (videoBff l) = 20480" "0 \<le> x" "0 \<le> w" "x + w \<le> 160" "0 \<le> y" "0 \<le> h" "y + h \<le> 128"
  shows "\<exists>l'. fillRect x y w h c l = Some l' \<and>
    (\<forall>px py. px < 160 \<and> py < 128 \<longrightarrow> st7735_getPixel px py l' =
      (if x \<le> uint px \<and> uint px < x + w \<and> y \<le> uint py \<and> uint py < y + h then Some c else st7735_getPixel px py l))"
proof -
  have "fillRect x y w h c l = fill_rows x (x + w) y (y + h) c l"
    using assms by (simp add: fillRect_def Let_def to_int16_id)
  moreover obtain l' where l': "fill_rows x (x + w) y (y + h) c l = Some l'"
    "painted (\<lambda>x' y'. x \<le> x' \<and> x' < x + w \<and> y \<le> y' \<and> y' < y + h) c l l'"
    using fill_rows_paints [OF assms(2,4,7,1,5)] by blast
  moreover have "st7735_getPixel px py l' =
      (if x \<le> uint px \<and> uint px < x + w \<and> y \<le> uint py \<and> uint py < y + h then Some c else st7735_getPixel px py l)"
    if p: "px < 160" "py < 128" for px py :: u16
  proof -
    have "uint px < 160" "uint py < 128" using p by (simp_all add: word_less_def)
    then show ?thesis using l'(2) assms(1) by (simp add: painted_def st7735_getPixel_def rd_def algebra_simps)
  qed
  ultimately show ?thesis by auto
qed

theorem fillRect_exact_witness:
  "\<exists>l'. fillRect 150 120 10 8 0xFFFF sample_lcd = Some l' \<and> st7735_getPixel 159 127 l' = Some 0xFFFF \<and>
     st7735_getPixel 149 127 l' = st7735_getPixel 149 127 sample_lcd"
proof -
  from fillRect_exact [of sample_lcd 150 10 120 8 "0xFFFF"] obtain l' where
    l': "fillRect 150 120 10 8 0xFFFF sample_lcd = Some l'"
    "\<And>px py. px < 160 \<and> py < 128 \<Longrightarrow> st7735_getPixel px py l' =
      (if 150 \<le> uint px \<and> uint px < 150 + 10 \<and> 120 \<le> uint py \<and> uint py < 120 + 8 then Some 0xFFFF
       else st7735_getPixel px py sample_lcd)"
    by auto
  show ?thesis using l'(1) l'(2) [of 159 127] l'(2) [of 149 127] by simp
qed

section \<open>The counter wraps around\<close>

lemma htimer_wait_until:
  "htimer_wait v (cs @ c # cs') = Some (length cs)" if "\<forall>x \<in> set cs. x < v" "v \<le> c"
  using that by (induction cs) (auto simp: word_less_def word_le_def)

text \<open>A delay ends with the first reading that reaches the sum; when the sum wraps around, that is the
  next reading, whatever the time.\<close>

lemma htimer_delay_outcome:
  "\<forall>x \<in> set cs. x < c0 + us \<Longrightarrow> c0 + us \<le> c \<Longrightarrow> htimer_delay us (c0 # cs @ c # cs') = Some (length cs)"
  "c0 + us < c0 \<Longrightarrow> htimer_delay us (c0 # c0 # cs') = Some 0"
  by (simp_all add: htimer_delay_def htimer_wait_until word_less_def)

end
