(* ===== verification/Platform.thy ===== *)
theory Platform
  imports Prelude
begin

unbundle bit_operations_syntax

text \<open>
  Services of the platform: the allocator wrappers of \<open>systems/src/memmgr.c\<close>, the flash driver
  \<open>hal/src/flash.c\<close>, and the hex dump of \<open>utils/src/plog.c\<close>.
\<close>

section \<open>Allocation\<close>

text \<open>The heap maps the address of a block to its bytes.  What \<open>pvPortMalloc\<close> answers is a parameter:
  an address that is not in use, with the bytes that happen to be there, or nothing.  Copying from
  behind a block, or freeing what is not a block, is \<^term>\<open>None\<close>; the null pointer is 0.\<close>

type_synonym heap = "nat \<rightharpoonup> u8 list"

abbreviation (input) "NULL \<equiv> (0 :: nat)"

definition pvPortMalloc :: "(nat \<times> u8 list) option \<Rightarrow> heap \<Rightarrow> nat \<times> heap" where
  "pvPortMalloc answer h = (case answer of None \<Rightarrow> (NULL, h) | Some (p, junk) \<Rightarrow> (p, h(p \<mapsto> junk)))"

definition vPortFree :: "nat \<Rightarrow> heap \<Rightarrow> heap option" where
  "vPortFree ptr h = (if ptr = NULL then Some h else if h ptr = None then None else Some (h(ptr := None)))"

definition malloc_fw :: "(nat \<times> u8 list) option \<Rightarrow> heap \<Rightarrow> nat \<times> heap" where
  "malloc_fw answer h = pvPortMalloc answer h"

definition free_fw :: "nat \<Rightarrow> heap \<Rightarrow> heap option" where
  "free_fw ptr h = vPortFree ptr h"

definition realloc_fw :: "(nat \<times> u8 list) option \<Rightarrow> nat \<Rightarrow> nat \<Rightarrow> heap \<Rightarrow> (nat \<times> heap) option" where
  "realloc_fw answer ptr sz h =
     (if sz = 0 then do { h \<leftarrow> vPortFree ptr h; Some (NULL, h) }
      else let (p, h) = pvPortMalloc answer h in
        if p \<noteq> NULL then
          (if ptr \<noteq> NULL then do {
             old \<leftarrow> h ptr;
             bytes \<leftarrow> rds old 0 (int sz);
             new \<leftarrow> h p;
             new \<leftarrow> wrs new 0 bytes;
             h \<leftarrow> vPortFree ptr (h(p \<mapsto> new));
             Some (p, h)
           } else Some (p, h))
        else Some (p, h))"

text \<open>\<open>count * size\<close> is computed in 32 bits; \<open>answer\<close> is for that size.\<close>

definition calloc_fw :: "(u32 \<Rightarrow> (nat \<times> u8 list) option) \<Rightarrow> u32 \<Rightarrow> u32 \<Rightarrow> heap \<Rightarrow> (nat \<times> heap) option" where
  "calloc_fw answer count sz h =
     (let n = count * sz; (p, h) = pvPortMalloc (answer n) h in
      if p \<noteq> NULL then do {
        old \<leftarrow> h p;
        new \<leftarrow> wrs old 0 (replicate (unat n) 0);
        Some (p, h(p \<mapsto> new))
      } else Some (p, h))"

section \<open>Flash\<close>

abbreviation (input) "FLASH_CR_PG \<equiv> (0x1 :: u32)"
abbreviation (input) "FLASH_CR_SER \<equiv> (0x2 :: u32)"
abbreviation (input) "FLASH_CR_MER \<equiv> (0x4 :: u32)"
abbreviation (input) "FLASH_CR_SNB \<equiv> (0xF8 :: u32)"
abbreviation (input) "FLASH_CR_STRT \<equiv> (0x10000 :: u32)"
abbreviation (input) "FLASH_CR_LOCK \<equiv> (0x80000000 :: u32)"
abbreviation (input) "FLASH_KEY1 \<equiv> (0x45670123 :: u32)"
abbreviation (input) "FLASH_KEY2 \<equiv> (0xCDEF89AB :: u32)"

record flash =
  KEYR_written :: "u32 list"
  FLASH_CR :: u32
  started :: "u32 list"

definition flash_unlock :: "flash \<Rightarrow> flash" where
  "flash_unlock f =
     (let f = f\<lparr>KEYR_written := KEYR_written f @ [FLASH_KEY1]\<rparr> in f\<lparr>KEYR_written := KEYR_written f @ [FLASH_KEY2]\<rparr>)"

definition flash_lock :: "flash \<Rightarrow> flash" where
  "flash_lock f = f\<lparr>FLASH_CR := FLASH_CR f OR FLASH_CR_LOCK\<rparr>"

text \<open>\<open>while(flash_busy());\<close> on the readings of the flag: \<^term>\<open>None\<close> when it never clears.\<close>

fun wait_flash :: "bool list \<Rightarrow> bool list option" where
  "wait_flash [] = None"
| "wait_flash (busy # bs) = (if busy then wait_flash bs else Some bs)"

text \<open>Setting \<open>STRT\<close> starts the operation that the register then holds; the hardware resets the bit.\<close>

definition flash_start :: "flash \<Rightarrow> flash" where
  "flash_start f = (let f = f\<lparr>FLASH_CR := FLASH_CR f OR FLASH_CR_STRT\<rparr>
     in f\<lparr>started := started f @ [FLASH_CR f], FLASH_CR := FLASH_CR f AND NOT FLASH_CR_STRT\<rparr>)"

definition flash_eraseAllPages :: "bool list \<Rightarrow> flash \<Rightarrow> flash option" where
  "flash_eraseAllPages busy f =
     (let f = f\<lparr>FLASH_CR := FLASH_CR f OR FLASH_CR_MER\<rparr>; f = flash_start f in do {
        _ \<leftarrow> wait_flash busy;
        Some (f\<lparr>FLASH_CR := FLASH_CR f AND FLASH_CR_MER\<rparr>)
      })"

definition flash_sector :: "int \<Rightarrow> int" where
  "flash_sector addr =
     (if addr \<le> 0x0800FFFF then (addr - 0x08000000) div (16 * 1024)
      else if addr \<ge> 0x08010000 \<and> addr \<le> 0x0801FFFF then 4
      else 5 + (addr - 0x08020000) div (128 * 1024))"

definition flash_erasePage :: "bool list \<Rightarrow> int \<Rightarrow> flash \<Rightarrow> (bool \<times> flash) option" where
  "flash_erasePage busy address f =
     (let f = f\<lparr>FLASH_CR := FLASH_CR_SER\<rparr>;
          sectorNumber = word_of_int (flash_sector address);
          f = f\<lparr>FLASH_CR := FLASH_CR f OR push_bit 3 sectorNumber\<rparr>;
          f = flash_start f
      in do {
        _ \<leftarrow> wait_flash busy;
        Some (True, f\<lparr>FLASH_CR := FLASH_CR f AND NOT (FLASH_CR_SER OR FLASH_CR_SNB)\<rparr>)
      })"

text \<open>The bytes stored by \<open>flash_write\<close>, with the control register they are stored under.\<close>

fun flash_bytes :: "nat \<Rightarrow> u8 list \<Rightarrow> int \<Rightarrow> bool list \<Rightarrow> u8 list \<Rightarrow> int \<Rightarrow> (u8 list \<times> bool list) option" where
  "flash_bytes 0 src i busy dst j = Some (dst, busy)"
| "flash_bytes (Suc n) src i busy dst j = do {
     b \<leftarrow> rd src i;
     dst \<leftarrow> wr dst j b;
     busy \<leftarrow> wait_flash busy;
     flash_bytes n src (i + 1) busy dst (j + 1)
   }"

definition flash_write :: "bool list \<Rightarrow> nat \<Rightarrow> u8 list \<Rightarrow> nat \<Rightarrow> u8 list \<Rightarrow> flash \<Rightarrow> (u8 list \<times> flash) option" where
  "flash_write busy dst src num memory f =
     (let f = f\<lparr>FLASH_CR := FLASH_CR_PG\<rparr> in do {
        busy \<leftarrow> wait_flash busy;
        (memory, busy) \<leftarrow> flash_bytes num src 0 busy memory (int dst);
        let f = f\<lparr>FLASH_CR := FLASH_CR f AND NOT FLASH_CR_PG\<rparr> in do {
          _ \<leftarrow> wait_flash busy;
          Some (memory, f)
        }
      })"

section \<open>Hex dump\<close>

datatype dump = Address nat | Hex u8 | Gap | Spaces int | Character u8 | Newline

definition isprint :: "u8 \<Rightarrow> bool" where
  "isprint c \<longleftrightarrow> 0x20 \<le> c \<and> c < 0x7F"

fun dump_hex :: "nat \<Rightarrow> u8 list \<Rightarrow> int \<Rightarrow> dump list option" where
  "dump_hex 0 b i = Some []"
| "dump_hex (Suc n) b i = do { c \<leftarrow> rd b i; ds \<leftarrow> dump_hex n b (i + 1); Some (Hex c # ds) }"

fun dump_chars :: "nat \<Rightarrow> u8 list \<Rightarrow> int \<Rightarrow> dump list option" where
  "dump_chars 0 b i = Some []"
| "dump_chars (Suc n) b i = do {
     c \<leftarrow> rd b i;
     ds \<leftarrow> dump_chars n b (i + 1);
     Some (Character (if isprint c then c else 0x2E) # ds)
   }"

text \<open>\<open>plog_hexdumpcolumn\<close>: what it prints, from position \<open>i\<close> on; \<open>length\<close> is positive within the loop,
  so that its second loop has \<open>column\<close> rounds.\<close>

partial_function (option) dump_lines :: "u8 list \<Rightarrow> nat \<Rightarrow> nat \<Rightarrow> nat \<Rightarrow> dump list option" where
  "dump_lines b i len column =
     (if len = 0 then Some []
      else let linelen = (if column < len then column else len) in do {
        hex \<leftarrow> dump_hex linelen b (int i);
        chars \<leftarrow> dump_chars column b (int i);
        rest \<leftarrow> dump_lines b (i + linelen) (len - linelen) column;
        Some ([Address i] @ hex @ [Gap] @ (if linelen < column then [Spaces (int ((column - linelen) * 3))] else [])
          @ chars @ [Newline] @ rest)
      })"

definition plog_hexdumpcolumn :: "u8 list \<Rightarrow> nat \<Rightarrow> nat \<Rightarrow> dump list option" where
  "plog_hexdumpcolumn buffer len column = (if len = 0 then Some [] else dump_lines buffer 0 len column)"

section \<open>Properties of the allocator\<close>

text \<open>\<open>realloc\<close> of a block to a size that it has keeps the first bytes, frees the old block and touches
  no other; growing a block reads behind it, because the new size is copied from the old block.\<close>

theorem realloc_copies:
  assumes "h ptr = Some old" "ptr \<noteq> NULL" "p \<noteq> NULL" "h p = None" "length junk = sz" "0 < sz"
  shows "realloc_fw (Some (p, junk)) ptr sz h =
    (if sz \<le> length old then Some (p, h(p \<mapsto> take sz old, ptr := None)) else None)"
proof -
  have "p \<noteq> ptr" using assms(1,4) by auto
  then show ?thesis using assms
    by (auto simp: realloc_fw_def pvPortMalloc_def vPortFree_def rds_def wrs_def Let_def)
qed

theorem realloc_copies_witness:
  "realloc_fw (Some (200, [9, 9])) 100 2 [100 \<mapsto> [1, 2, 3]] = Some (200, [200 \<mapsto> [1, 2]]) \<and>
   realloc_fw (Some (200, [9, 9, 9, 9])) 100 4 [100 \<mapsto> [1, 2, 3]] = None"
proof -
  have "realloc_fw (Some (200, [9, 9])) 100 2 [100 \<mapsto> [1, 2, 3]]
      = Some (200, [100 \<mapsto> [1, 2, 3], 200 \<mapsto> [1, 2]](100 := None))"
    using realloc_copies [of "[100 \<mapsto> [1, 2, 3]]" 100 "[1, 2, 3]" 200 "[9, 9]" 2] by simp
  moreover have "[100 \<mapsto> [1, 2, 3], 200 \<mapsto> [1, 2]](100 := None) = ([200 \<mapsto> [1, 2]] :: heap)" by (rule ext) simp
  moreover have "realloc_fw (Some (200, [9, 9, 9, 9])) 100 4 [100 \<mapsto> [1, 2, 3]] = None"
    using realloc_copies [of "[100 \<mapsto> [1, 2, 3]]" 100 "[1, 2, 3]" 200 "[9, 9, 9, 9]" 4] by simp
  ultimately show ?thesis by simp
qed

section \<open>Properties of the flash driver\<close>

text \<open>The first addresses of the twelve sectors of the 1 MB flash, and its end.\<close>

definition sector_starts :: "int list" where
  "sector_starts = [0x08000000, 0x08004000, 0x08008000, 0x0800C000, 0x08010000, 0x08020000, 0x08040000, 0x08060000,
     0x08080000, 0x080A0000, 0x080C0000, 0x080E0000, 0x08100000]"

lemma sector_of_small: "0x08000000 \<le> a \<Longrightarrow> a \<le> 0x0800FFFF \<Longrightarrow> flash_sector a \<in> {0, 1, 2, 3} \<and>
    0x08000000 + 0x4000 * flash_sector a \<le> a \<and> a < 0x08000000 + 0x4000 * (flash_sector a + 1)"
  by (auto simp: flash_sector_def)

lemma sector_of_large: "0x08020000 \<le> a \<Longrightarrow> a < 0x08100000 \<Longrightarrow> flash_sector a \<in> {5 .. 11} \<and>
    0x08020000 + 0x20000 * (flash_sector a - 5) \<le> a \<and> a < 0x08020000 + 0x20000 * (flash_sector a - 4)"
  by (auto simp: flash_sector_def)

lemma flash_sector_correct:
  assumes "0x08000000 \<le> a" "a < 0x08100000"
  shows "0 \<le> flash_sector a \<and> flash_sector a < 12 \<and> sector_starts ! nat (flash_sector a) \<le> a \<and>
    a < sector_starts ! (nat (flash_sector a) + 1)"
proof -
  consider "a \<le> 0x0800FFFF" | "0x08010000 \<le> a" "a \<le> 0x0801FFFF" | "0x08020000 \<le> a" by linarith
  then show ?thesis
  proof cases
    case 1
    from sector_of_small [OF assms(1) 1] show ?thesis by (auto simp: sector_starts_def)
  next
    case 2
    then show ?thesis by (simp add: flash_sector_def sector_starts_def)
  next
    case 3
    have "flash_sector a \<in> {5, 6, 7, 8, 9, 10, 11}" using sector_of_large [OF 3 assms(2)] by auto
    then show ?thesis using sector_of_large [OF 3 assms(2)] by (auto simp: sector_starts_def)
  qed
qed

text \<open>Erasing a page starts exactly one operation, the erasure of the sector that contains the address,
  and leaves the control register clear, for every address of the flash.\<close>

theorem flash_erases_sector:
  assumes "0x08000000 \<le> a" "a < 0x08100000" "wait_flash busy = Some rest"
  shows "\<exists>f' cmd. flash_erasePage busy a f = Some (True, f') \<and> started f' = started f @ [cmd] \<and> FLASH_CR f' = 0 \<and>
    cmd AND FLASH_CR_SER \<noteq> 0 \<and>
    (let s = unat (drop_bit 3 (cmd AND FLASH_CR_SNB)) in
     s < 12 \<and> sector_starts ! s \<le> a \<and> a < sector_starts ! (s + 1))"
proof -
  note s = flash_sector_correct [OF assms(1,2)]
  let ?n = "nat (flash_sector a)"
  let ?cr = "FLASH_CR_SER OR push_bit 3 (word_of_int (flash_sector a))"
  have "0 \<le> flash_sector a" "flash_sector a < 12" using s by auto
  then have "flash_sector a = 0 \<or> flash_sector a = 1 \<or> flash_sector a = 2 \<or> flash_sector a = 3 \<or> flash_sector a = 4 \<or>
    flash_sector a = 5 \<or> flash_sector a = 6 \<or> flash_sector a = 7 \<or> flash_sector a = 8 \<or> flash_sector a = 9 \<or>
    flash_sector a = 10 \<or> flash_sector a = 11" by presburger
  then have "unat (drop_bit 3 ((?cr OR FLASH_CR_STRT) AND FLASH_CR_SNB)) = ?n \<and>
      (?cr OR FLASH_CR_STRT) AND FLASH_CR_SER \<noteq> 0 \<and>
      ((?cr OR FLASH_CR_STRT) AND NOT FLASH_CR_STRT) AND NOT (FLASH_CR_SER OR FLASH_CR_SNB) = 0"
    by auto
  moreover have "?n < 12" using s by linarith
  ultimately show ?thesis using assms(3) s by (simp add: flash_erasePage_def flash_start_def Let_def)
qed

definition sample_flash :: flash where
  "sample_flash = \<lparr>KEYR_written = [], FLASH_CR = 0, started = []\<rparr>"

theorem flash_erases_sector_witness:
  "\<exists>f' cmd. flash_erasePage [True, False] 0x08020000 sample_flash = Some (True, f') \<and> started f' = [cmd] \<and> FLASH_CR f' = 0"
  using flash_erases_sector [of "0x08020000" "[True, False]" "[]" sample_flash] by (auto simp: sample_flash_def)

text \<open>Erasing everything leaves the mass-erase bit set and clears the others: the mask lacks a negation.\<close>

lemma eraseAllPages_leaves_MER:
  "wait_flash busy = Some rest \<Longrightarrow> \<exists>f'. flash_eraseAllPages busy f = Some f' \<and> FLASH_CR f' = FLASH_CR_MER"
proof -
  have "NOT FLASH_CR_STRT AND FLASH_CR_MER = FLASH_CR_MER" by simp
  moreover have "((FLASH_CR f OR FLASH_CR_MER) OR FLASH_CR_STRT) AND FLASH_CR_MER = FLASH_CR_MER"
    by (rule bit_word_eqI) (auto simp: bit_or_iff bit_and_iff)
  ultimately have "(((FLASH_CR f OR FLASH_CR_MER) OR FLASH_CR_STRT) AND NOT FLASH_CR_STRT) AND FLASH_CR_MER = FLASH_CR_MER"
    by (simp only: and.assoc)
  then show "wait_flash busy = Some rest \<Longrightarrow> ?thesis" by (simp add: flash_eraseAllPages_def flash_start_def Let_def)
qed

section \<open>Properties of the hex dump\<close>

lemma dump_hex_eq: "dump_hex n b (int i) = (if i + n \<le> length b \<or> n = 0 then Some (map Hex (take n (drop i b))) else None)"
proof (induction n arbitrary: i)
  case (Suc n)
  show ?case
  proof (cases "i < length b")
    case True
    then have "take (Suc n) (drop i b) = b ! i # take n (drop (Suc i) b)" by (simp flip: Cons_nth_drop_Suc)
    then show ?thesis using Suc [of "Suc i"] True by (auto simp: rd_int add.commute)
  qed (simp add: rd_def)
qed simp

lemma dump_chars_defined: "dump_chars n b (int i) \<noteq> None \<longleftrightarrow> i + n \<le> length b \<or> n = 0"
proof (induction n arbitrary: i)
  case (Suc n)
  show ?case using Suc [of "Suc i"] by (cases "i < length b") (auto simp: rd_def add.commute split: bind_splits)
qed simp

definition lines_of :: "nat \<Rightarrow> nat \<Rightarrow> nat" where
  "lines_of len column = (len + column - 1) div column"

lemma lines_of_step: "0 < column \<Longrightarrow> column < len \<Longrightarrow> lines_of len column = Suc (lines_of (len - column) column)"
proof -
  assume c: "0 < column" "column < len"
  then have e: "len + column - 1 = (len - 1) + column" "len - column + column - 1 = len - 1" by simp_all
  have "(len - 1 + column) div column = Suc ((len - 1) div column)" by (rule div_add_self2 [THEN trans]) (use c in simp_all)
  then show ?thesis unfolding lines_of_def e .
qed

lemma lines_of_last: "0 < len \<Longrightarrow> len \<le> column \<Longrightarrow> lines_of len column = 1"
  by (simp add: lines_of_def div_nat_eqI)

lemma dump_lines_defined:
  assumes "0 < column"
  shows "0 < len \<Longrightarrow> dump_lines b i len column \<noteq> None \<longleftrightarrow> i + column * lines_of len column \<le> length b"
proof (induction len arbitrary: i rule: less_induct)
  case (less len)
  show ?case
  proof (cases "column < len")
    case True
    have "dump_lines b (i + column) (len - column) column \<noteq> None
      \<longleftrightarrow> i + column + column * lines_of (len - column) column \<le> length b"
      by (rule less.IH) (use True assms in auto)
    moreover have "dump_lines b i len column \<noteq> None \<longleftrightarrow>
      dump_chars column b (int i) \<noteq> None \<and> dump_lines b (i + column) (len - column) column \<noteq> None"
      using True assms dump_chars_defined [of column b i]
      by (subst dump_lines.simps) (cases "dump_chars column b (int i)"; simp add: dump_hex_eq bind_eq_None_conv)
    ultimately show ?thesis using dump_chars_defined [of column b i] lines_of_step [OF assms True] assms by auto
  next
    case False
    have "dump_lines b (i + len) 0 column = Some []" by (simp add: dump_lines.simps)
    then have "dump_lines b i len column \<noteq> None \<longleftrightarrow> dump_chars column b (int i) \<noteq> None"
      using False assms dump_chars_defined [of column b i] less.prems
      by (subst dump_lines.simps) (cases "dump_chars column b (int i)"; simp add: dump_hex_eq)
    then show ?thesis using dump_chars_defined [of column b i] lines_of_last [of len column] False less.prems assms by auto
  qed
qed

text \<open>A hex dump reads whole lines: it stays within the buffer exactly when the length, rounded up to a
  multiple of the number of columns, does; dumping a buffer whose length is not a multiple reads behind
  it.\<close>

theorem hexdump_reads_whole_lines:
  assumes "0 < column" "0 < len"
  shows "plog_hexdumpcolumn buffer len column \<noteq> None \<longleftrightarrow> column * ((len + column - 1) div column) \<le> length buffer"
  using assms dump_lines_defined [OF assms, of buffer 0] by (simp add: plog_hexdumpcolumn_def lines_of_def)

theorem hexdump_reads_whole_lines_witness: "plog_hexdumpcolumn [1, 2, 3] 3 32 = None"
  using hexdump_reads_whole_lines [of 32 3 "[1, 2, 3]"] by simp

end
