(* ===== verification/Boot.thy ===== *)
theory Boot
  imports Platform
begin

unbundle bit_operations_syntax

text \<open>
  The boot loader, \<open>boot.cpp\<close>, with \<open>imageheader.h\<close> and the checksum of \<open>hal/crc32.h\<close>.  Memory is a
  partial function from addresses to bytes; reading where nothing is mapped faults and is \<^term>\<open>None\<close>.
  The flash array and the CRC unit are hardware: the loader's run is the list of flash operations that
  its driver starts, and what an operation does to memory, and what the CRC unit computes, are
  parameters.  A power failure leaves the memory after any prefix of these operations.
\<close>

type_synonym mem = "int \<Rightarrow> u8 option"

section \<open>The checksum\<close>

definition RBIT :: "u32 \<Rightarrow> u32" where
  "RBIT x = horner_sum of_bool 2 (rev (map (bit x) [0..<32]))"

definition rd32 :: "mem \<Rightarrow> int \<Rightarrow> u32 option" where
  "rd32 m a = do {
     b0 \<leftarrow> m a;
     b1 \<leftarrow> m (a + 1);
     b2 \<leftarrow> m (a + 2);
     b3 \<leftarrow> m (a + 3);
     Some (ucast b0 OR push_bit 8 (ucast b1) OR push_bit 16 (ucast b2) OR push_bit 24 (ucast b3))
   }"

text \<open>\<open>crc32_CalcCRC\<close> is \<open>unit\<close>: the data register after a write, from its value and the word written.\<close>

fun crc32_words :: "(u32 \<Rightarrow> u32 \<Rightarrow> u32) \<Rightarrow> mem \<Rightarrow> int \<Rightarrow> nat \<Rightarrow> u32 \<Rightarrow> (int \<times> nat \<times> u32) option" where
  "crc32_words unit m p len reg =
     (if len \<ge> 4 then do {
        w \<leftarrow> rd32 m p;
        crc32_words unit m (p + 4) (len - 4) (unit reg (RBIT w))
      } else Some (p, len, reg))"

declare crc32_words.simps [simp del]

definition crc32_tail :: "(u32 \<Rightarrow> u32 \<Rightarrow> u32) \<Rightarrow> u32 \<Rightarrow> nat \<Rightarrow> u32 \<Rightarrow> u32 \<Rightarrow> u32 \<times> u32" where
  "crc32_tail unit w len crc reg =
     (if len = 1 then let reg = unit reg (drop_bit 24 (RBIT ((w AND 0xFF) XOR crc))) in (drop_bit 8 crc XOR RBIT reg, reg)
      else if len = 2 then let reg = unit reg (drop_bit 16 (RBIT ((w AND 0xFFFF) XOR crc))) in (drop_bit 16 crc XOR RBIT reg, reg)
      else if len = 3 then let reg = unit reg (drop_bit 8 (RBIT ((w AND 0xFFFFFF) XOR crc))) in (drop_bit 24 crc XOR RBIT reg, reg)
      else (crc, reg))"

definition crc32_posix :: "(u32 \<Rightarrow> u32 \<Rightarrow> u32) \<Rightarrow> mem \<Rightarrow> int \<Rightarrow> nat \<Rightarrow> bool \<Rightarrow> u32 \<Rightarrow> (u32 \<times> u32) option" where
  "crc32_posix unit m buf len clear reg =
     (let reg = (if clear then 0xFFFFFFFF else reg) in do {
        (p, len, reg) \<leftarrow> (if len \<ge> 4 then crc32_words unit m buf len reg else Some (buf, len, unit reg 0xEBABAB));
        let crc = RBIT reg in
        if len \<noteq> 0 then let reg = unit reg reg in do {
          w \<leftarrow> rd32 m p;
          let (crc, reg) = crc32_tail unit w len crc reg in Some (NOT crc, reg)
        } else Some (NOT crc, reg)
      })"

section \<open>Images\<close>

abbreviation (input) "main_flash_start \<equiv> (0x08020000 :: int)"
abbreviation (input) "fwstorage_flash_start \<equiv> (0x08080000 :: int)"
abbreviation (input) "fwstorage_flash_size \<equiv> (384 * 1024 :: int)"
abbreviation (input) "header_magic \<equiv> (0x38272585 :: u32)"
abbreviation (input) "FLASH_PAGE_SIZE \<equiv> (1024 * 128 :: int)"

definition valueCRC :: "mem \<Rightarrow> int \<Rightarrow> u32 option" where "valueCRC m h = rd32 m h"
definition imagesize :: "mem \<Rightarrow> int \<Rightarrow> u32 option" where "imagesize m h = rd32 m (h + 4)"
definition imagemagic :: "mem \<Rightarrow> int \<Rightarrow> u32 option" where "imagemagic m h = rd32 m (h + 8)"
definition versionMajor :: "mem \<Rightarrow> int \<Rightarrow> u32 option" where "versionMajor m h = rd32 m (h + 12)"
definition versionMinor :: "mem \<Rightarrow> int \<Rightarrow> u32 option" where "versionMinor m h = rd32 m (h + 16)"
definition versionPach :: "mem \<Rightarrow> int \<Rightarrow> u32 option" where "versionPach m h = rd32 m (h + 20)"
definition exeOffset :: "mem \<Rightarrow> int \<Rightarrow> u32 option" where "exeOffset m h = rd32 m (h + 24)"

text \<open>The eight bytes of zeros that stand for the checksum and the size.\<close>

definition zero_buffer :: mem where
  "zero_buffer a = (if 0 \<le> a \<and> a < 8 then Some 0 else None)"

definition checkProgram :: "(u32 \<Rightarrow> u32 \<Rightarrow> u32) \<Rightarrow> mem \<Rightarrow> int \<Rightarrow> bool option" where
  "checkProgram unit m addr = do {
     magic \<leftarrow> imagemagic m addr;
     if magic \<noteq> header_magic then Some False else do {
       sz \<leftarrow> imagesize m addr;
       if sz = 0 then Some False else do {
         (crc, reg) \<leftarrow> crc32_posix unit zero_buffer 0 8 True 0;
         (crc, reg) \<leftarrow> crc32_posix unit m (addr + 8) (unat (sz - 8)) False reg;
         value \<leftarrow> valueCRC m addr;
         Some (value = crc)
       }
     }
   }"

section \<open>Flash\<close>

datatype flash_op = Erase int | Program int u8

record flash_unit =
  erase :: "int \<Rightarrow> mem \<Rightarrow> mem"
  program :: "int \<Rightarrow> u8 \<Rightarrow> mem \<Rightarrow> mem"

primrec apply_op :: "flash_unit \<Rightarrow> flash_op \<Rightarrow> mem \<Rightarrow> mem" where
  "apply_op hw (Erase s) m = erase hw s m"
| "apply_op hw (Program a v) m = program hw a v m"

text \<open>\<open>for(p = start; p < end; p += FLASH_PAGE_SIZE) flash_erasePage(p)\<close>.\<close>

function erase_pages :: "flash_unit \<Rightarrow> int \<Rightarrow> int \<Rightarrow> mem \<Rightarrow> flash_op list \<times> mem" where
  "erase_pages hw p end m =
     (if p < end then
        let op = Erase (flash_sector p); (ops, m) = erase_pages hw (p + FLASH_PAGE_SIZE) end (apply_op hw op m)
        in (op # ops, m)
      else ([], m))"
  by pat_completeness auto
termination by (relation "measure (\<lambda>(_, p, end, _). nat (end - p))") auto

declare erase_pages.simps [simp del]

text \<open>\<open>flash_write\<close> of memory to memory.\<close>

fun copy_flash :: "flash_unit \<Rightarrow> nat \<Rightarrow> int \<Rightarrow> int \<Rightarrow> mem \<Rightarrow> (flash_op list \<times> mem) option" where
  "copy_flash hw 0 dst src m = Some ([], m)"
| "copy_flash hw (Suc n) dst src m = do {
     v \<leftarrow> m src;
     (ops, m) \<leftarrow> copy_flash hw n (dst + 1) (src + 1) (apply_op hw (Program dst v) m);
     Some (Program dst v # ops, m)
   }"

section \<open>The loader\<close>

datatype boot_outcome = Executes int | Halts

definition needs_upgrade :: "(u32 \<Rightarrow> u32 \<Rightarrow> u32) \<Rightarrow> mem \<Rightarrow> bool option" where
  "needs_upgrade unit m = do {
     stored \<leftarrow> checkProgram unit m fwstorage_flash_start;
     if stored then do {
       current \<leftarrow> checkProgram unit m main_flash_start;
       if current then do {
         major \<leftarrow> versionMajor m main_flash_start;
         major' \<leftarrow> versionMajor m fwstorage_flash_start;
         minor \<leftarrow> versionMinor m main_flash_start;
         minor' \<leftarrow> versionMinor m fwstorage_flash_start;
         pach \<leftarrow> versionPach m main_flash_start;
         pach' \<leftarrow> versionPach m fwstorage_flash_start;
         crc \<leftarrow> valueCRC m main_flash_start;
         crc' \<leftarrow> valueCRC m fwstorage_flash_start;
         Some (major \<noteq> major' \<or> minor \<noteq> minor' \<or> pach \<noteq> pach' \<or> crc \<noteq> crc')
       } else Some True
     } else Some False
   }"

definition upgrade_main :: "(u32 \<Rightarrow> u32 \<Rightarrow> u32) \<Rightarrow> flash_unit \<Rightarrow> mem \<Rightarrow> (flash_op list \<times> mem) option" where
  "upgrade_main unit hw m =
     (let (ops1, m) = erase_pages hw main_flash_start fwstorage_flash_start m in do {
        sz \<leftarrow> imagesize m fwstorage_flash_start;
        (ops2, m) \<leftarrow> copy_flash hw (unat sz) main_flash_start fwstorage_flash_start m;
        ok \<leftarrow> checkProgram unit m main_flash_start;
        let (ops3, m) = (if ok then erase_pages hw fwstorage_flash_start (fwstorage_flash_start + fwstorage_flash_size) m
                         else ([], m))
        in Some (ops1 @ ops2 @ ops3, m)
      })"

definition boot :: "(u32 \<Rightarrow> u32 \<Rightarrow> u32) \<Rightarrow> flash_unit \<Rightarrow> mem \<Rightarrow> (flash_op list \<times> mem \<times> boot_outcome) option" where
  "boot unit hw m = do {
     upgrade \<leftarrow> needs_upgrade unit m;
     (ops, m) \<leftarrow> (if upgrade then upgrade_main unit hw m else Some ([], m));
     ok \<leftarrow> checkProgram unit m main_flash_start;
     if ok then do {
       off \<leftarrow> exeOffset m main_flash_start;
       Some (ops, m, Executes (main_flash_start + uint off))
     } else Some (ops, m, Halts)
   }"

section \<open>The flash array, and power failures\<close>

text \<open>The hardware that the loader relies on: erasing a sector sets its bytes, programming a byte clears
  bits of it, and neither touches anything else.  Sectors 5 to 11 have 128 KiB each.\<close>

definition in_sector :: "int \<Rightarrow> int \<Rightarrow> bool" where
  "in_sector s a \<longleftrightarrow> main_flash_start + (s - 5) * FLASH_PAGE_SIZE \<le> a \<and> a < main_flash_start + (s - 4) * FLASH_PAGE_SIZE"

definition flash_works :: "flash_unit \<Rightarrow> bool" where
  "flash_works hw \<longleftrightarrow>
     (\<forall>s m a. 5 \<le> s \<longrightarrow> s \<le> 11 \<longrightarrow> erase hw s m a = (if in_sector s a then map_option (\<lambda>_. 0xFF) (m a) else m a)) \<and>
     (\<forall>a v m b. program hw a v m b = (if b = a then map_option (\<lambda>old. old AND v) (m b) else m b))"

text \<open>The memory that a power failure leaves of a run of operations: between two operations, within the
  programming of a byte, which is then arbitrary, or within the erasing of a sector that holds no header,
  whose bytes are then arbitrary.\<close>

inductive power_cut :: "flash_unit \<Rightarrow> flash_op list \<Rightarrow> mem \<Rightarrow> mem \<Rightarrow> bool" for hw where
  cut: "power_cut hw ops m m"
| cut_byte: "m a \<noteq> None \<Longrightarrow> power_cut hw (Program a v # ops) m (m(a \<mapsto> b))"
| cut_erase: "s \<noteq> 5 \<Longrightarrow> s \<noteq> 8 \<Longrightarrow> (\<And>a. \<not> in_sector s a \<Longrightarrow> m' a = m a) \<Longrightarrow> dom m' = dom m
    \<Longrightarrow> power_cut hw (Erase s # ops) m m'"
| cut_later: "power_cut hw ops (apply_op hw op m) m' \<Longrightarrow> power_cut hw (op # ops) m m'"

text \<open>The memories that a sequence of starts, each cut by a power failure or not, can reach.\<close>

inductive restarts :: "(u32 \<Rightarrow> u32 \<Rightarrow> u32) \<Rightarrow> flash_unit \<Rightarrow> mem \<Rightarrow> mem \<Rightarrow> bool" for unit hw m0 where
  first: "restarts unit hw m0 m0"
| again: "restarts unit hw m0 m \<Longrightarrow> boot unit hw m = Some (ops, m1, out) \<Longrightarrow> power_cut hw ops m m'
    \<Longrightarrow> restarts unit hw m0 m'"

section \<open>Reading memory\<close>

definition mapped :: "mem \<Rightarrow> bool" where
  "mapped m \<longleftrightarrow> dom m = {0x08000000 ..< 0x08100000}"

lemma mapped_Some: "mapped m \<Longrightarrow> 0x08000000 \<le> a \<Longrightarrow> a < 0x08100000 \<Longrightarrow> m a = Some (the (m a))"
  unfolding mapped_def by (metis atLeastLessThan_iff domIff option.collapse)

lemma mapped_iff: "mapped m \<longleftrightarrow> (\<forall>a. m a \<noteq> None \<longleftrightarrow> 0x08000000 \<le> a \<and> a < 0x08100000)"
  by (auto simp: mapped_def dom_def)

definition le_word :: "u8 \<Rightarrow> u8 \<Rightarrow> u8 \<Rightarrow> u8 \<Rightarrow> u32" where
  "le_word b0 b1 b2 b3 = ucast b0 OR push_bit 8 (ucast b1) OR push_bit 16 (ucast b2) OR push_bit 24 (ucast b3)"

lemma rd32_bytes:
  assumes "mapped m" "0x08000000 \<le> a" "a + 3 < 0x08100000"
  shows "rd32 m a = Some (le_word (the (m a)) (the (m (a + 1))) (the (m (a + 2))) (the (m (a + 3))))"
proof -
  have "m a = Some (the (m a))" "m (a + 1) = Some (the (m (a + 1)))"
    "m (a + 2) = Some (the (m (a + 2)))" "m (a + 3) = Some (the (m (a + 3)))"
    using assms(2,3) by (auto intro!: mapped_Some [OF assms(1)])
  then obtain b0 b1 b2 b3 where "m a = Some b0" "m (a + 1) = Some b1" "m (a + 2) = Some b2" "m (a + 3) = Some b3"
    by blast
  then show ?thesis by (simp add: rd32_def le_word_def)
qed

lemma rd32_cong:
  assumes "\<And>i. 0 \<le> i \<Longrightarrow> i < 4 \<Longrightarrow> m (a + i) = m' (b + i)"
  shows "rd32 m a = rd32 m' b"
  using assms [of 0] assms [of 1] assms [of 2] assms [of 3] by (simp add: rd32_def)

lemma le_word_masks:
  "le_word a b c d AND 0xFF = ucast a"
  "le_word a b c d AND 0xFFFF = ucast a OR push_bit 8 (ucast b)"
  "le_word a b c d AND 0xFFFFFF = ucast a OR push_bit 8 (ucast b) OR push_bit 16 (ucast c)"
proof -
  have m: "(0xFF :: u32) = mask 8" "(0xFFFF :: u32) = mask 16" "(0xFFFFFF :: u32) = mask 24"
    by (simp_all add: mask_eq_exp_minus_1)
  have out: "bit x k \<Longrightarrow> k < 8" for x :: u8 and k using bit_imp_le_length [of x k] by simp
  show "le_word a b c d AND 0xFF = ucast a" unfolding m le_word_def
    by (rule bit_word_eqI) (auto simp: bit_simps dest: out)
  show "le_word a b c d AND 0xFFFF = ucast a OR push_bit 8 (ucast b)" unfolding m le_word_def
    by (rule bit_word_eqI) (auto simp: bit_simps dest: out)
  show "le_word a b c d AND 0xFFFFFF = ucast a OR push_bit 8 (ucast b) OR push_bit 16 (ucast c)" unfolding m le_word_def
    by (rule bit_word_eqI) (auto simp: bit_simps dest: out)
qed

section \<open>The checksum reads the image only\<close>

lemma crc32_words_eq:
  assumes "mapped m" "mapped m'" "0x08000000 \<le> p" "0x08000000 \<le> q"
    "p + int len \<le> 0x08100000" "q + int len \<le> 0x08100000"
    "\<And>i. 0 \<le> i \<Longrightarrow> i < int len \<Longrightarrow> m (p + i) = m' (q + i)"
  shows "\<exists>k reg'. crc32_words unit m p len reg = Some (p + 4 * int k, len - 4 * k, reg') \<and>
    crc32_words unit m' q len reg = Some (q + 4 * int k, len - 4 * k, reg') \<and> 4 * k \<le> len \<and> len - 4 * k < 4"
  using assms(3-)
proof (induction len arbitrary: p q reg rule: less_induct)
  case (less len)
  show ?case
  proof (cases "len \<ge> 4")
    case False
    then show ?thesis by (intro exI [of _ "0 :: nat"] exI [of _ reg]) (simp add: crc32_words.simps)
  next
    case True
    have w: "rd32 m p = rd32 m' q" using True less.prems(5) by (intro rd32_cong) simp
    obtain w where "rd32 m p = Some w" using rd32_bytes [OF assms(1), of p] less.prems True by auto
    moreover have "\<exists>k reg'. crc32_words unit m (p + 4) (len - 4) (unit reg (RBIT w)) = Some (p + 4 + 4 * int k, len - 4 - 4 * k, reg') \<and>
      crc32_words unit m' (q + 4) (len - 4) (unit reg (RBIT w)) = Some (q + 4 + 4 * int k, len - 4 - 4 * k, reg') \<and>
      4 * k \<le> len - 4 \<and> len - 4 - 4 * k < 4"
    proof (rule less.IH)
      fix i :: int
      assume "0 \<le> i" "i < int (len - 4)"
      with less.prems(5) [of "i + 4"] True show "m (p + 4 + i) = m' (q + 4 + i)" by (simp add: add_ac)
    qed (use True less.prems in auto)
    then obtain k reg' where "crc32_words unit m (p + 4) (len - 4) (unit reg (RBIT w)) = Some (p + 4 + 4 * int k, len - 4 - 4 * k, reg')"
      "crc32_words unit m' (q + 4) (len - 4) (unit reg (RBIT w)) = Some (q + 4 + 4 * int k, len - 4 - 4 * k, reg')"
      "4 * k \<le> len - 4" "len - 4 - 4 * k < 4" by blast
    ultimately show ?thesis using w True
      by (intro exI [of _ "Suc k"] exI [of _ reg']) (simp add: crc32_words.simps [of _ _ _ len])
  qed
qed

lemma crc32_tail_eq:
  assumes "mapped m" "mapped m'" "0x08000000 \<le> p" "0x08000000 \<le> q" "p + 3 < 0x08100000" "q + 3 < 0x08100000"
    "\<And>i. 0 \<le> i \<Longrightarrow> i < int len \<Longrightarrow> m (p + i) = m' (q + i)"
  shows "\<exists>w w'. rd32 m p = Some w \<and> rd32 m' q = Some w' \<and> crc32_tail unit w len crc reg = crc32_tail unit w' len crc reg"
proof -
  have "0 < len \<Longrightarrow> m p = m' q" "1 < len \<Longrightarrow> m (p + 1) = m' (q + 1)" "2 < len \<Longrightarrow> m (p + 2) = m' (q + 2)"
    using assms(7) [of 0] assms(7) [of 1] assms(7) [of 2] by auto
  then show ?thesis using assms
    by (simp add: rd32_bytes crc32_tail_def le_word_masks)
qed

lemma crc32_posix_eq:
  assumes "mapped m" "mapped m'" "0x08000000 \<le> p" "0x08000000 \<le> q"
    "p + int len + 3 < 0x08100000" "q + int len + 3 < 0x08100000"
    "\<And>i. 0 \<le> i \<Longrightarrow> i < int len \<Longrightarrow> m (p + i) = m' (q + i)"
  shows "\<exists>crc reg'. crc32_posix unit m p len clear reg = Some (crc, reg') \<and> crc32_posix unit m' q len clear reg = Some (crc, reg')"
proof -
  let ?reg = "if clear then 0xFFFFFFFF else reg"
  define W where "W m p = (if len \<ge> 4 then crc32_words unit m p len ?reg else Some (p, len, unit ?reg 0xEBABAB))" for m p
  have "\<exists>k reg'. W m p = Some (p + 4 * int k, len - 4 * k, reg') \<and> W m' q = Some (q + 4 * int k, len - 4 * k, reg') \<and>
    4 * k \<le> len \<and> len - 4 * k < 4"
  proof (cases "len \<ge> 4")
    case True
    then show ?thesis using crc32_words_eq [OF assms(1,2,3,4), of len unit ?reg] assms(5-7) by (simp add: W_def)
  qed (auto simp: W_def intro!: exI [of _ 0])
  then obtain k reg' where W: "W m p = Some (p + 4 * int k, len - 4 * k, reg')" "W m' q = Some (q + 4 * int k, len - 4 * k, reg')"
    "4 * k \<le> len" "len - 4 * k < 4" by blast
  have k: "4 * int k \<le> int len" using W(3) by linarith
  have "\<exists>w w'. rd32 m (p + 4 * int k) = Some w \<and> rd32 m' (q + 4 * int k) = Some w' \<and>
    crc32_tail unit w (len - 4 * k) (RBIT reg') (unit reg' reg') = crc32_tail unit w' (len - 4 * k) (RBIT reg') (unit reg' reg')"
  proof (rule crc32_tail_eq [OF assms(1,2)])
    fix i :: int
    assume "0 \<le> i" "i < int (len - 4 * k)"
    with assms(7) [of "4 * int k + i"] k show "m (p + 4 * int k + i) = m' (q + 4 * int k + i)" by (simp add: add_ac)
  qed (use assms k in linarith)+
  then show ?thesis using W(1,2)
    unfolding crc32_posix_def W_def Let_def by (auto simp: split: prod.splits)
qed

section \<open>Checking a program\<close>

lemma zero_checksum: "\<exists>crc reg. crc32_posix unit zero_buffer 0 8 True 0 = Some (crc, reg)"
  by (simp add: crc32_posix_def crc32_words.simps rd32_def zero_buffer_def)

definition header_sane :: "mem \<Rightarrow> int \<Rightarrow> bool" where
  "header_sane m h \<longleftrightarrow> imagemagic m h \<noteq> Some header_magic \<or>
     (\<exists>sz. imagesize m h = Some sz \<and> (sz = 0 \<or> 8 \<le> uint sz \<and> uint sz \<le> 384 * 1024))"

lemma uint_minus_8: "8 \<le> uint sz \<Longrightarrow> uint (sz - 8) = uint sz - 8" for sz :: u32
  by (simp add: uint_minus_simple_alt [THEN iffD1] word_le_def)

lemma fields_mapped:
  assumes "mapped m" "h = main_flash_start \<or> h = fwstorage_flash_start"
  shows "\<exists>w. valueCRC m h = Some w" "\<exists>w. imagesize m h = Some w" "\<exists>w. imagemagic m h = Some w"
    "\<exists>w. versionMajor m h = Some w" "\<exists>w. versionMinor m h = Some w" "\<exists>w. versionPach m h = Some w"
    "\<exists>w. exeOffset m h = Some w"
  using assms by (auto simp: valueCRC_def imagesize_def imagemagic_def versionMajor_def versionMinor_def
      versionPach_def exeOffset_def rd32_bytes)

lemma checkProgram_defined:
  assumes "mapped m" "h = main_flash_start \<or> h = fwstorage_flash_start" "header_sane m h"
  shows "\<exists>b. checkProgram unit m h = Some b"
proof -
  obtain magic sz v where f: "imagemagic m h = Some magic" "imagesize m h = Some sz" "valueCRC m h = Some v"
    using fields_mapped [OF assms(1,2)] by blast
  obtain c r where z: "crc32_posix unit zero_buffer 0 8 True 0 = Some (c, r)" using zero_checksum by blast
  show ?thesis
  proof (cases "magic \<noteq> header_magic \<or> sz = 0")
    case True
    then show ?thesis by (auto simp: checkProgram_def f)
  next
    case False
    with assms(3) f have sz: "8 \<le> uint sz" "uint sz \<le> 384 * 1024" by (auto simp: header_sane_def)
    obtain c' r' where "crc32_posix unit m (h + 8) (unat (sz - 8)) False r = Some (c', r')"
      using crc32_posix_eq [OF assms(1,1), of "h + 8" "h + 8" "unat (sz - 8)" unit False r] sz assms(2)
      by (auto simp: uint_minus_8)
    with z f False show ?thesis by (simp add: checkProgram_def)
  qed
qed

lemma fields_eq:
  assumes "\<And>i. 0 \<le> i \<Longrightarrow> i < sz \<Longrightarrow> m (h + i) = m' (h' + i)" "28 \<le> sz"
  shows "valueCRC m h = valueCRC m' h'" "imagesize m h = imagesize m' h'" "imagemagic m h = imagemagic m' h'"
    "versionMajor m h = versionMajor m' h'" "versionMinor m h = versionMinor m' h'" "versionPach m h = versionPach m' h'"
    "exeOffset m h = exeOffset m' h'"
proof -
  have *: "rd32 m (h + k) = rd32 m' (h' + k)" if "0 \<le> k" "k \<le> 24" for k
  proof (rule rd32_cong)
    fix i :: int
    assume "0 \<le> i" "i < 4"
    with assms(1) [of "k + i"] assms(2) that show "m (h + k + i) = m' (h' + k + i)" by (simp add: add_ac)
  qed
  show "valueCRC m h = valueCRC m' h'" "imagesize m h = imagesize m' h'" "imagemagic m h = imagemagic m' h'"
    "versionMajor m h = versionMajor m' h'" "versionMinor m h = versionMinor m' h'" "versionPach m h = versionPach m' h'"
    "exeOffset m h = exeOffset m' h'"
    using * [of 0] * [of 4] * [of 8] * [of 12] * [of 16] * [of 20] * [of 24]
    by (simp_all add: valueCRC_def imagesize_def imagemagic_def versionMajor_def versionMinor_def versionPach_def
        exeOffset_def)
qed

text \<open>Whether a program is valid depends on the bytes of its image only.\<close>

lemma checkProgram_eq:
  assumes "mapped m" "mapped m'" "h = main_flash_start \<or> h = fwstorage_flash_start"
    "h' = main_flash_start \<or> h' = fwstorage_flash_start"
    "\<And>i. 0 \<le> i \<Longrightarrow> i < uint sz \<Longrightarrow> m (h + i) = m' (h' + i)"
    "imagesize m h = Some sz" "28 \<le> uint sz" "uint sz \<le> 384 * 1024"
  shows "checkProgram unit m h = checkProgram unit m' h'"
proof -
  note f = fields_eq [where sz = "uint sz" and h = h and h' = h' and m = m and m' = m', OF assms(5) assms(7), simplified]
  obtain c r where z: "crc32_posix unit zero_buffer 0 8 True 0 = Some (c, r)" using zero_checksum by blast
  have "crc32_posix unit m (h + 8) (unat (sz - 8)) False r = crc32_posix unit m' (h' + 8) (unat (sz - 8)) False r"
  proof -
    have "m (h + 8 + i) = m' (h' + 8 + i)" if "0 \<le> i" "i < int (unat (sz - 8))" for i
    proof -
      have "uint (sz - 8) = uint sz - 8" using assms(7) by (intro uint_minus_8) simp
      with that show ?thesis using assms(5) [of "8 + i"] by (simp add: add_ac)
    qed
    moreover have "uint (sz - 8) = uint sz - 8" using assms(7) by (intro uint_minus_8) simp
    ultimately show ?thesis
      using crc32_posix_eq [OF assms(1,2), of "h + 8" "h' + 8" "unat (sz - 8)" unit False r] assms(3,4,8) by auto
  qed
  moreover have "imagesize m' h' = Some sz" using f(2) assms(6) by simp
  ultimately show ?thesis using f(1,3) assms(6) z by (cases "imagemagic m' h'") (simp_all add: checkProgram_def)
qed

section \<open>What the operations do\<close>

lemma erase_main:
  assumes "flash_works hw"
  shows "erase_pages hw main_flash_start fwstorage_flash_start m =
    ([Erase 5, Erase 6, Erase 7], \<lambda>a. if main_flash_start \<le> a \<and> a < fwstorage_flash_start then map_option (\<lambda>_. 0xFF) (m a) else m a)"
  using assms
  by (auto simp: erase_pages.simps flash_sector_def flash_works_def in_sector_def option.map_comp comp_def fun_eq_iff)

lemma erase_storage:
  assumes "flash_works hw"
  shows "erase_pages hw fwstorage_flash_start (fwstorage_flash_start + fwstorage_flash_size) m =
    ([Erase 8, Erase 9, Erase 10],
     \<lambda>a. if fwstorage_flash_start \<le> a \<and> a < fwstorage_flash_start + fwstorage_flash_size then map_option (\<lambda>_. 0xFF) (m a) else m a)"
  using assms
  by (auto simp: erase_pages.simps flash_sector_def flash_works_def in_sector_def option.map_comp comp_def fun_eq_iff)

definition copied :: "mem \<Rightarrow> int \<Rightarrow> int \<Rightarrow> nat \<Rightarrow> mem" where
  "copied m dst src n = (\<lambda>a. if dst \<le> a \<and> a < dst + int n then m (a - dst + src) else m a)"

fun copy_ops :: "mem \<Rightarrow> int \<Rightarrow> int \<Rightarrow> nat \<Rightarrow> flash_op list" where
  "copy_ops m dst src 0 = []"
| "copy_ops m dst src (Suc n) = Program dst (the (m src)) # copy_ops m (dst + 1) (src + 1) n"

lemma copy_ops_cong: "(\<And>i. 0 \<le> i \<Longrightarrow> i < int n \<Longrightarrow> m (src + i) = m' (src + i)) \<Longrightarrow> copy_ops m dst src n = copy_ops m' dst src n"
proof (induction n arbitrary: dst src)
  case (Suc n)
  have "copy_ops m (dst + 1) (src + 1) n = copy_ops m' (dst + 1) (src + 1) n"
  proof (rule Suc.IH)
    fix i :: int
    assume "0 \<le> i" "i < int n"
    with Suc.prems [of "i + 1"] show "m (src + 1 + i) = m' (src + 1 + i)" by (simp add: add_ac)
  qed
  with Suc.prems [of 0] show ?case by simp
qed simp

lemma program_erased: "flash_works hw \<Longrightarrow> m a = Some 0xFF \<Longrightarrow> program hw a v m = m(a \<mapsto> v)"
proof -
  have "(0xFF :: u8) = -1" by simp
  then show "flash_works hw \<Longrightarrow> m a = Some 0xFF \<Longrightarrow> program hw a v m = m(a \<mapsto> v)"
    by (auto simp: flash_works_def fun_eq_iff)
qed

text \<open>Memory that \<open>n\<close> bytes can be copied in: the target is erased and lies below the source.\<close>

definition copyable :: "mem \<Rightarrow> int \<Rightarrow> int \<Rightarrow> nat \<Rightarrow> bool" where
  "copyable m dst src n \<longleftrightarrow>
     dst + int n \<le> src \<and> (\<forall>i. 0 \<le> i \<longrightarrow> i < int n \<longrightarrow> m (dst + i) = Some 0xFF \<and> m (src + i) \<noteq> None)"

lemma copied_0 [simp]: "copied m dst src 0 = m"
  by (rule ext) (auto simp: copied_def)

lemma copy_step:
  assumes "flash_works hw" "copyable m dst src (Suc n)"
  obtains v where "m src = Some v" "program hw dst v m = m(dst \<mapsto> v)" "m dst \<noteq> None"
    "copyable (m(dst \<mapsto> v)) (dst + 1) (src + 1) n"
    "copy_ops m dst src (Suc n) = Program dst v # copy_ops (m(dst \<mapsto> v)) (dst + 1) (src + 1) n"
    "\<And>k. k \<le> n \<Longrightarrow> copied (m(dst \<mapsto> v)) (dst + 1) (src + 1) k = copied m dst src (Suc k)"
proof -
  note c = assms(2) [unfolded copyable_def]
  then obtain v where v: "m src = Some v" "m dst = Some 0xFF" by fastforce
  have "(m(dst \<mapsto> v)) (dst + 1 + i) = Some 0xFF \<and> (m(dst \<mapsto> v)) (src + 1 + i) \<noteq> None" if "0 \<le> i" "i < int n" for i
    using c that by (auto simp: add_ac dest: spec [of _ "i + 1"])
  with c have "copyable (m(dst \<mapsto> v)) (dst + 1) (src + 1) n" by (simp add: copyable_def)
  moreover have "copy_ops m dst src (Suc n) = Program dst v # copy_ops (m(dst \<mapsto> v)) (dst + 1) (src + 1) n"
    using c v by (auto intro!: copy_ops_cong)
  moreover have "copied (m(dst \<mapsto> v)) (dst + 1) (src + 1) k = copied m dst src (Suc k)" if "k \<le> n" for k
    using c v that by (auto simp: copied_def fun_eq_iff add_ac)
  ultimately show thesis using that v program_erased [OF assms(1), of m dst] by simp
qed

lemma copy_flash_eq:
  "flash_works hw \<Longrightarrow> copyable m dst src n \<Longrightarrow> copy_flash hw n dst src m = Some (copy_ops m dst src n, copied m dst src n)"
proof (induction n arbitrary: dst src m)
  case (Suc n)
  from Suc.prems obtain v where "m src = Some v" "program hw dst v m = m(dst \<mapsto> v)"
    "copyable (m(dst \<mapsto> v)) (dst + 1) (src + 1) n"
    "copy_ops m dst src (Suc n) = Program dst v # copy_ops (m(dst \<mapsto> v)) (dst + 1) (src + 1) n"
    "copied (m(dst \<mapsto> v)) (dst + 1) (src + 1) n = copied m dst src (Suc n)"
    using copy_step by (metis order_refl)
  with Suc.IH Suc.prems(1) show ?case by simp
qed simp

lemma fold_copy_ops:
  "flash_works hw \<Longrightarrow> copyable m dst src n \<Longrightarrow> fold (apply_op hw) (copy_ops m dst src n) m = copied m dst src n"
proof (induction n arbitrary: dst src m)
  case (Suc n)
  from Suc.prems obtain v where "program hw dst v m = m(dst \<mapsto> v)" "copyable (m(dst \<mapsto> v)) (dst + 1) (src + 1) n"
    "copy_ops m dst src (Suc n) = Program dst v # copy_ops (m(dst \<mapsto> v)) (dst + 1) (src + 1) n"
    "copied (m(dst \<mapsto> v)) (dst + 1) (src + 1) n = copied m dst src (Suc n)"
    using copy_step by (metis order_refl)
  with Suc.IH Suc.prems(1) show ?case by simp
qed simp

section \<open>Cutting a run\<close>

inductive_simps power_cut_Nil: "power_cut hw [] m m'"
inductive_simps power_cut_Cons: "power_cut hw (op # ops) m m'"
inductive_simps power_cut_Erase: "power_cut hw (Erase s # ops) m m'"
inductive_simps power_cut_Program: "power_cut hw (Program a v # ops) m m'"

lemma power_cut_all: "power_cut hw ops m (fold (apply_op hw) ops m)"
  by (induction ops arbitrary: m) (auto intro: power_cut.intros)

lemma power_cut_append:
  "power_cut hw (xs @ ys) m m' \<Longrightarrow> power_cut hw xs m m' \<or> power_cut hw ys (fold (apply_op hw) xs m) m'"
proof (induction xs arbitrary: m)
  case (Cons x xs)
  then show ?case
    using power_cut_Cons [of hw x "xs @ ys" m m'] power_cut_Cons [of hw x xs m m'] by auto
qed simp

text \<open>A copy that is cut: the first bytes are copied, the next one may be anything, the others are
  untouched.\<close>

lemma copy_cut:
  "flash_works hw \<Longrightarrow> copyable m dst src n \<Longrightarrow> power_cut hw (copy_ops m dst src n) m m' \<Longrightarrow>
    \<exists>k\<le>n. (\<forall>a. a \<noteq> dst + int k \<longrightarrow> m' a = copied m dst src k a) \<and>
      (m' (dst + int k) = copied m dst src k (dst + int k) \<or> k < n \<and> m' (dst + int k) \<noteq> None)"
proof (induction n arbitrary: dst src m)
  case 0
  then show ?case by (intro exI [of _ 0]) (simp add: power_cut_Nil)
next
  case (Suc n)
  obtain v where v: "m src = Some v" "program hw dst v m = m(dst \<mapsto> v)" "copyable (m(dst \<mapsto> v)) (dst + 1) (src + 1) n"
    "copy_ops m dst src (Suc n) = Program dst v # copy_ops (m(dst \<mapsto> v)) (dst + 1) (src + 1) n"
    "\<And>k. k \<le> n \<Longrightarrow> copied (m(dst \<mapsto> v)) (dst + 1) (src + 1) k = copied m dst src (Suc k)"
    using copy_step [OF Suc.prems(1,2)] by metis
  from Suc.prems(3) v(4) have "power_cut hw (Program dst v # copy_ops (m(dst \<mapsto> v)) (dst + 1) (src + 1) n) m m'" by simp
  then consider "m' = m" | b where "m' = m(dst \<mapsto> b)"
    | "power_cut hw (copy_ops (m(dst \<mapsto> v)) (dst + 1) (src + 1) n) (m(dst \<mapsto> v)) m'"
    using v(2) by (auto simp: power_cut_Program)
  then show ?case
  proof cases
    case 3
    from Suc.IH [OF Suc.prems(1) v(3) this] obtain k where "k \<le> n"
      "\<forall>a. a \<noteq> dst + 1 + int k \<longrightarrow> m' a = copied (m(dst \<mapsto> v)) (dst + 1) (src + 1) k a"
      "m' (dst + 1 + int k) = copied (m(dst \<mapsto> v)) (dst + 1) (src + 1) k (dst + 1 + int k) \<or>
       k < n \<and> m' (dst + 1 + int k) \<noteq> None" by blast
    with v(5) show ?thesis by (intro exI [of _ "Suc k"]) (simp add: add_ac)
  qed (auto intro!: exI [of _ "0 :: nat"])
qed

section \<open>Every cut leaves a program to start from\<close>

definition waiting :: "mem \<Rightarrow> mem \<Rightarrow> bool" where
  "waiting m0 m \<longleftrightarrow> mapped m \<and> header_sane m main_flash_start \<and>
     (\<forall>a. fwstorage_flash_start \<le> a \<longrightarrow> a < fwstorage_flash_start + fwstorage_flash_size \<longrightarrow> m a = m0 a)"

definition installed :: "mem \<Rightarrow> u32 \<Rightarrow> mem \<Rightarrow> bool" where
  "installed m0 sz m \<longleftrightarrow> mapped m \<and> imagemagic m fwstorage_flash_start \<noteq> Some header_magic \<and>
     (\<forall>i. 0 \<le> i \<longrightarrow> i < uint sz \<longrightarrow> m (main_flash_start + i) = m0 (fwstorage_flash_start + i))"

definition stored :: "(u32 \<Rightarrow> u32 \<Rightarrow> u32) \<Rightarrow> mem \<Rightarrow> u32 \<Rightarrow> bool" where
  "stored unit m sz \<longleftrightarrow> mapped m \<and> checkProgram unit m fwstorage_flash_start = Some True \<and>
     imagesize m fwstorage_flash_start = Some sz \<and> 28 \<le> uint sz \<and> uint sz \<le> 384 * 1024"

lemma le_word_top: "ucast (drop_bit 24 (le_word a b c d)) = d"
proof -
  have out: "bit x k \<Longrightarrow> k < 8" for x :: u8 and k using bit_imp_le_length [of x k] by simp
  show ?thesis unfolding le_word_def by (rule bit_word_eqI) (auto simp: bit_simps dest: out)
qed

lemma magic_byte:
  assumes "mapped m" "h = main_flash_start \<or> h = fwstorage_flash_start" "m (h + 11) = Some 0xFF"
  shows "imagemagic m h \<noteq> Some header_magic"
proof
  assume "imagemagic m h = Some header_magic"
  then have "le_word (the (m (h + 8))) (the (m (h + 9))) (the (m (h + 10))) 0xFF = header_magic"
    using assms by (auto simp: imagemagic_def rd32_bytes)
  then have "ucast (drop_bit 24 header_magic) = (0xFF :: u8)" by (metis le_word_top)
  then show False by simp
qed

lemma mapped_if: "mapped (\<lambda>a. if P a then map_option f (m a) else m a) = mapped m"
  by (simp add: mapped_def dom_def cong: conj_cong)

lemma erase_at:
  "flash_works hw \<Longrightarrow> 5 \<le> s \<Longrightarrow> s \<le> 11 \<Longrightarrow> erase hw s m = (\<lambda>a. if in_sector s a then map_option (\<lambda>_. 0xFF) (m a) else m a)"
  by (rule ext) (simp add: flash_works_def)

lemma mapped_erase: "flash_works hw \<Longrightarrow> 5 \<le> s \<Longrightarrow> s \<le> 11 \<Longrightarrow> mapped (erase hw s m) = mapped m"
  by (simp add: erase_at mapped_if)

lemma waiting_blank:
  assumes "mapped m'" "m' (main_flash_start + 11) = Some 0xFF"
    "\<And>a. fwstorage_flash_start \<le> a \<Longrightarrow> a < fwstorage_flash_start + fwstorage_flash_size \<Longrightarrow> m' a = m0 a"
  shows "waiting m0 m'"
  using assms magic_byte [OF assms(1), of main_flash_start] by (simp add: waiting_def header_sane_def)

text \<open>Sectors 5 to 7 hold the main program; the others do not reach the storage.\<close>

lemma erase_main_cut:
  assumes hw: "flash_works hw" and w: "waiting m0 m" and c: "power_cut hw [Erase 5, Erase 6, Erase 7] m m'"
  shows "waiting m0 m'"
proof -
  let ?m5 = "erase hw 5 m" let ?m6 = "erase hw 6 ?m5" let ?m7 = "erase hw 7 ?m6"
  have mp: "mapped m" using w by (simp add: waiting_def)
  have st: "m a = m0 a" if "fwstorage_flash_start \<le> a" "a < fwstorage_flash_start + fwstorage_flash_size" for a
    using w that by (simp add: waiting_def)
  have b: "m (main_flash_start + 11) \<noteq> None" using mapped_Some [OF mp, of "main_flash_start + 11"] by auto
  have torn: "waiting m0 m'" if "\<And>a. \<not> in_sector s a \<Longrightarrow> m' a = k a" "dom m' = dom k" "waiting m0 k"
    "k (main_flash_start + 11) = Some 0xFF" "s = 6 \<or> s = 7" for s k
  proof (rule waiting_blank)
    show "mapped m'" using that(2,3) by (simp add: waiting_def mapped_def)
    show "m' (main_flash_start + 11) = Some 0xFF" using that by (auto simp: in_sector_def)
    show "m' a = m0 a" if "fwstorage_flash_start \<le> a" "a < fwstorage_flash_start + fwstorage_flash_size" for a
      using that \<open>waiting m0 k\<close> \<open>s = 6 \<or> s = 7\<close> \<open>\<And>a. \<not> in_sector s a \<Longrightarrow> m' a = k a\<close>
      by (auto simp: in_sector_def waiting_def)
  qed
  have e: "?m5 (main_flash_start + 11) = Some 0xFF" "?m6 (main_flash_start + 11) = Some 0xFF" "?m7 (main_flash_start + 11) = Some 0xFF"
    using b by (auto simp: erase_at [OF hw] in_sector_def)
  have M: "mapped ?m5" "mapped ?m6" "mapped ?m7" using mp by (simp_all add: mapped_erase [OF hw])
  have S: "?m5 a = m0 a" "?m6 a = m0 a" "?m7 a = m0 a"
    if "fwstorage_flash_start \<le> a" "a < fwstorage_flash_start + fwstorage_flash_size" for a
    using that st [OF that] by (simp_all add: erase_at [OF hw] in_sector_def)
  have W: "waiting m0 ?m5" "waiting m0 ?m6" "waiting m0 ?m7"
    using waiting_blank [OF M(1) e(1) S(1)] waiting_blank [OF M(2) e(2) S(2)] waiting_blank [OF M(3) e(3) S(3)] by blast+
  from c consider "m' = m" | "m' = ?m5" | "\<And>a. \<not> in_sector 6 a \<Longrightarrow> m' a = ?m5 a" "dom m' = dom ?m5"
    | "m' = ?m6" | "\<And>a. \<not> in_sector 7 a \<Longrightarrow> m' a = ?m6 a" "dom m' = dom ?m6" | "m' = ?m7"
    by (auto simp: power_cut_Erase power_cut_Nil)
  then show ?thesis
    by cases (use w W torn [of 6 ?m5] torn [of 7 ?m6] e in auto)
qed

lemma field_storage:
  assumes "waiting m0 m" "0 \<le> k" "k \<le> 384 * 1024 - 4"
  shows "rd32 m (fwstorage_flash_start + k) = rd32 m0 (fwstorage_flash_start + k)"
  using assms by (intro rd32_cong) (simp add: waiting_def)

lemma imagesize_storage: "waiting m0 m \<Longrightarrow> imagesize m fwstorage_flash_start = imagesize m0 fwstorage_flash_start"
  using field_storage [of m0 m 4] by (simp add: imagesize_def)

lemma stored_waiting:
  assumes "stored unit m0 sz" "waiting m0 m"
  shows "stored unit m sz"
proof -
  have "checkProgram unit m0 fwstorage_flash_start = checkProgram unit m fwstorage_flash_start"
    by (rule checkProgram_eq [where sz = sz]) (use assms in \<open>auto simp: stored_def waiting_def\<close>)
  with assms show ?thesis using imagesize_storage [OF assms(2)] by (simp add: stored_def waiting_def)
qed

lemma stored_size: "stored unit m sz \<Longrightarrow> 28 \<le> unat sz" "stored unit m sz \<Longrightarrow> unat sz \<le> 384 * 1024"
  using uint_nat [of sz] unfolding stored_def by linarith+

lemma copy_main_cut:
  assumes hw: "flash_works hw" and st: "stored unit m0 sz" and w: "waiting m0 m"
    and c: "copyable m main_flash_start fwstorage_flash_start (unat sz)"
    and cut: "power_cut hw (copy_ops m main_flash_start fwstorage_flash_start (unat sz)) m m'"
  shows "waiting m0 m'"
proof -
  note n = stored_size [OF st]
  from copy_cut [OF hw c cut] obtain k where k: "k \<le> unat sz"
    "\<And>a. a \<noteq> main_flash_start + int k \<Longrightarrow> m' a = copied m main_flash_start fwstorage_flash_start k a"
    "m' (main_flash_start + int k) = copied m main_flash_start fwstorage_flash_start k (main_flash_start + int k) \<or>
     k < unat sz \<and> m' (main_flash_start + int k) \<noteq> None" by blast
  have mp: "mapped m" using w by (simp add: waiting_def)
  have FF: "m (main_flash_start + 11) = Some 0xFF"
  proof -
    have "11 < int (unat sz)" using n by linarith
    then show ?thesis using c unfolding copyable_def by (metis zero_le_numeral)
  qed
  have "mapped m'" unfolding mapped_iff
  proof
    fix a
    show "m' a \<noteq> None \<longleftrightarrow> 0x08000000 \<le> a \<and> a < 0x08100000"
      using k(1) k(2) [of a] k(3) n mp by (cases "a = main_flash_start + int k") (auto simp: copied_def mapped_iff)
  qed
  moreover have "m' a = m0 a" if "fwstorage_flash_start \<le> a" "a < fwstorage_flash_start + fwstorage_flash_size" for a
    using k(1) k(2) [of a] k(3) n that w
    by (cases "a = main_flash_start + int k") (auto simp: copied_def waiting_def)
  moreover have "header_sane m' main_flash_start"
  proof (cases "8 \<le> k")
    case True
    then have "imagesize m' main_flash_start = imagesize m fwstorage_flash_start" unfolding imagesize_def
      by (intro rd32_cong) (simp add: k(2) copied_def)
    then show ?thesis using st w by (auto simp: imagesize_storage stored_def header_sane_def)
  next
    case False
    then have "m' (main_flash_start + 11) = Some 0xFF" using FF by (simp add: k(2) copied_def)
    then show ?thesis using magic_byte [OF \<open>mapped m'\<close>, of main_flash_start] by (simp add: header_sane_def)
  qed
  ultimately show ?thesis by (simp add: waiting_def)
qed

text \<open>Sectors 8 to 10 hold the storage.\<close>

lemma erase_storage_cut:
  assumes hw: "flash_works hw" and mp: "mapped m"
    and i: "\<And>i. 0 \<le> i \<Longrightarrow> i < uint sz \<Longrightarrow> m (main_flash_start + i) = m0 (fwstorage_flash_start + i)"
    and sz: "uint sz \<le> 384 * 1024" and c: "power_cut hw [Erase 8, Erase 9, Erase 10] m m'"
  shows "m' = m \<or> installed m0 sz m'"
proof -
  let ?m8 = "erase hw 8 m" let ?m9 = "erase hw 9 ?m8" let ?m10 = "erase hw 10 ?m9"
  have b: "m (fwstorage_flash_start + 11) \<noteq> None" using mapped_Some [OF mp, of "fwstorage_flash_start + 11"] by auto
  have I: "installed m0 sz k" if "mapped k" "k (fwstorage_flash_start + 11) = Some 0xFF"
    "\<And>a. main_flash_start \<le> a \<Longrightarrow> a < main_flash_start + 384 * 1024 \<Longrightarrow> k a = m a" for k
  proof -
    have "k (main_flash_start + i) = m0 (fwstorage_flash_start + i)" if "0 \<le> i" "i < uint sz" for i
      using \<open>\<And>a. main_flash_start \<le> a \<Longrightarrow> a < main_flash_start + 384 * 1024 \<Longrightarrow> k a = m a\<close> [of "main_flash_start + i"]
        i [OF that] that sz by simp
    then show ?thesis using magic_byte [OF that(1) _ that(2)] that(1) by (simp add: installed_def)
  qed
  have M: "mapped ?m8" "mapped ?m9" "mapped ?m10" using mp by (simp_all add: mapped_erase [OF hw])
  have e: "?m8 (fwstorage_flash_start + 11) = Some 0xFF" "?m9 (fwstorage_flash_start + 11) = Some 0xFF"
    "?m10 (fwstorage_flash_start + 11) = Some 0xFF"
    using b by (auto simp: erase_at [OF hw] in_sector_def)
  have S: "?m8 a = m a" "?m9 a = m a" "?m10 a = m a" if "main_flash_start \<le> a" "a < main_flash_start + 384 * 1024" for a
    using that by (simp_all add: erase_at [OF hw] in_sector_def)
  have W: "installed m0 sz ?m8" "installed m0 sz ?m9" "installed m0 sz ?m10"
    using I [OF M(1) e(1) S(1)] I [OF M(2) e(2) S(2)] I [OF M(3) e(3) S(3)] by blast+
  have torn: "installed m0 sz m'" if t: "\<And>a. \<not> in_sector s a \<Longrightarrow> m' a = k a" "dom m' = dom k" "s = 9 \<or> s = 10"
    "k (fwstorage_flash_start + 11) = Some 0xFF" "mapped k"
    "\<And>a. main_flash_start \<le> a \<Longrightarrow> a < main_flash_start + 384 * 1024 \<Longrightarrow> k a = m a" for s k
  proof (rule I)
    show "mapped m'" using t(2,5) by (simp add: mapped_def)
    show "m' (fwstorage_flash_start + 11) = Some 0xFF" using t(1) [of "fwstorage_flash_start + 11"] t(3,4) by (auto simp: in_sector_def)
    show "m' a = m a" if "main_flash_start \<le> a" "a < main_flash_start + 384 * 1024" for a
      using t(1) [of a] t(3) t(6) [OF that] that by (auto simp: in_sector_def)
  qed
  from c consider "m' = m" | "m' = ?m8" | "\<And>a. \<not> in_sector 9 a \<Longrightarrow> m' a = ?m8 a" "dom m' = dom ?m8"
    | "m' = ?m9" | "\<And>a. \<not> in_sector 10 a \<Longrightarrow> m' a = ?m9 a" "dom m' = dom ?m9" | "m' = ?m10"
    by (auto simp: power_cut_Erase power_cut_Nil)
  then show ?thesis
  proof cases
    case 3
    then show ?thesis using torn [OF 3 _ e(1) M(1) S(1)] by simp
  next
    case 5
    then show ?thesis using torn [OF 5 _ e(2) M(2) S(2)] by simp
  qed (use W in auto)
qed

section \<open>A start\<close>

text \<open>The operations of an upgrade, and the memory it ends in.\<close>

definition blank :: "mem \<Rightarrow> mem" where
  "blank m = (\<lambda>a. if main_flash_start \<le> a \<and> a < fwstorage_flash_start then map_option (\<lambda>_. 0xFF) (m a) else m a)"

definition upgraded :: "mem \<Rightarrow> u32 \<Rightarrow> mem" where
  "upgraded m sz = copied (blank m) main_flash_start fwstorage_flash_start (unat sz)"

definition upgrade_ops :: "mem \<Rightarrow> u32 \<Rightarrow> flash_op list" where
  "upgrade_ops m sz = [Erase 5, Erase 6, Erase 7] @
     copy_ops (blank m) main_flash_start fwstorage_flash_start (unat sz) @ [Erase 8, Erase 9, Erase 10]"

lemma blank_copyable:
  assumes "mapped m" "n \<le> 384 * 1024"
  shows "copyable (blank m) main_flash_start fwstorage_flash_start n"
  using assms by (auto simp: copyable_def blank_def mapped_iff)

lemma fold_erase_main: "flash_works hw \<Longrightarrow> fold (apply_op hw) [Erase 5, Erase 6, Erase 7] m = blank m"
  by (auto simp: erase_at blank_def in_sector_def option.map_comp comp_def fun_eq_iff)

lemma upgraded_props:
  assumes "flash_works hw" "stored unit m0 sz" "waiting m0 m"
  shows "mapped (upgraded m sz)" "waiting m0 (upgraded m sz)"
    "0 \<le> i \<Longrightarrow> i < uint sz \<Longrightarrow> upgraded m sz (main_flash_start + i) = m0 (fwstorage_flash_start + i)"
proof -
  note n = stored_size [OF assms(2)]
  have mp: "mapped m" using assms(3) by (simp add: waiting_def)
  have b: "waiting m0 (blank m)"
    using erase_main_cut [OF assms(1,3), of "blank m"] fold_erase_main [OF assms(1), of m]
      power_cut_all [of hw "[Erase 5, Erase 6, Erase 7]" m] by metis
  note c = blank_copyable [OF mp n(2)]
  show w: "waiting m0 (upgraded m sz)"
  proof (rule copy_main_cut [OF assms(1,2) b c])
    from power_cut_all [of hw "copy_ops (blank m) main_flash_start fwstorage_flash_start (unat sz)" "blank m"]
    show "power_cut hw (copy_ops (blank m) main_flash_start fwstorage_flash_start (unat sz)) (blank m) (upgraded m sz)"
      by (simp add: fold_copy_ops [OF assms(1) c] upgraded_def)
  qed
  then show "mapped (upgraded m sz)" by (simp add: waiting_def)
  assume i: "0 \<le> i" "i < uint sz"
  then have "upgraded m sz (main_flash_start + i) = blank m (fwstorage_flash_start + i)"
    unfolding upgraded_def copied_def by (simp add: add.commute)
  also have "\<dots> = m0 (fwstorage_flash_start + i)" using b i assms(2) by (simp add: waiting_def stored_def)
  finally show "upgraded m sz (main_flash_start + i) = m0 (fwstorage_flash_start + i)" .
qed

text \<open>A start that upgrades.\<close>

lemma upgrade_main_eq:
  assumes hw: "flash_works hw" and st: "stored unit m0 sz" and w: "waiting m0 m"
  shows "\<exists>m2. upgrade_main unit hw m = Some (upgrade_ops m sz, m2) \<and> mapped m2 \<and>
    checkProgram unit m2 main_flash_start = Some True \<and>
    (\<forall>i. 0 \<le> i \<longrightarrow> i < uint sz \<longrightarrow> m2 (main_flash_start + i) = m0 (fwstorage_flash_start + i))"
proof -
  note n = stored_size [OF st]
  note st' = stored_waiting [OF st w]
  have mp: "mapped m" using w by (simp add: waiting_def)
  note up = upgraded_props [OF hw st w]
  note c = blank_copyable [OF mp n(2)]
  have sz: "imagesize m fwstorage_flash_start = Some sz" using st' by (simp add: stored_def)
  have "imagesize (blank m) fwstorage_flash_start = imagesize m fwstorage_flash_start" unfolding imagesize_def
    by (intro rd32_cong) (simp add: blank_def)
  then have szb: "imagesize (blank m) fwstorage_flash_start = Some sz" using sz by simp
  have st0: "mapped m0" "checkProgram unit m0 fwstorage_flash_start = Some True"
    "imagesize m0 fwstorage_flash_start = Some sz" "28 \<le> uint sz" "uint sz \<le> 384 * 1024"
    using st by (simp_all add: stored_def)
  have chk: "checkProgram unit k main_flash_start = Some True"
    if "mapped k" "\<And>i. 0 \<le> i \<Longrightarrow> i < uint sz \<Longrightarrow> k (main_flash_start + i) = m0 (fwstorage_flash_start + i)" for k
    using checkProgram_eq [OF st0(1) that(1), of fwstorage_flash_start main_flash_start sz unit] st0 that(2) by simp
  define m2 where "m2 = (\<lambda>a. if fwstorage_flash_start \<le> a \<and> a < fwstorage_flash_start + fwstorage_flash_size
    then map_option (\<lambda>_. 0xFF) (upgraded m sz a) else upgraded m sz a)"
  have m2: "mapped m2" using up(1) unfolding m2_def by (simp only: mapped_if)
  have img: "m2 (main_flash_start + i) = m0 (fwstorage_flash_start + i)" if "0 \<le> i" "i < uint sz" for i
    using up(3) [OF that] that st0(5) by (simp add: m2_def)
  have "erase_pages hw main_flash_start fwstorage_flash_start m = ([Erase 5, Erase 6, Erase 7], blank m)"
    using erase_main [OF hw, of m] by (simp add: blank_def)
  moreover have "copy_flash hw (unat sz) main_flash_start fwstorage_flash_start (blank m) =
    Some (copy_ops (blank m) main_flash_start fwstorage_flash_start (unat sz), upgraded m sz)"
    using copy_flash_eq [OF hw c] by (simp add: upgraded_def)
  moreover have "checkProgram unit (upgraded m sz) main_flash_start = Some True" using chk [OF up(1,3)] by simp
  moreover have "erase_pages hw fwstorage_flash_start (fwstorage_flash_start + fwstorage_flash_size) (upgraded m sz) =
    ([Erase 8, Erase 9, Erase 10], m2)"
    using erase_storage [OF hw, of "upgraded m sz"] unfolding m2_def by simp
  ultimately have "upgrade_main unit hw m = Some (upgrade_ops m sz, m2)"
    using szb unfolding upgrade_main_def upgrade_ops_def by simp
  with m2 img chk [OF m2 img] show ?thesis by blast
qed

lemma upgrade_cut:
  assumes hw: "flash_works hw" and st: "stored unit m0 sz" and w: "waiting m0 m"
    and cut: "power_cut hw (upgrade_ops m sz) m m'"
  shows "waiting m0 m' \<or> installed m0 sz m'"
proof -
  note n = stored_size [OF st]
  have mp: "mapped m" using w by (simp add: waiting_def)
  note up = upgraded_props [OF hw st w]
  note c = blank_copyable [OF mp n(2)]
  note f = fold_erase_main [OF hw, of m]
  have b: "waiting m0 (blank m)"
    using erase_main_cut [OF hw w, of "blank m"] f power_cut_all [of hw "[Erase 5, Erase 6, Erase 7]" m] by metis
  have sz: "uint sz \<le> 384 * 1024" using st by (simp add: stored_def)
  from power_cut_append [OF cut [unfolded upgrade_ops_def]] f consider
    "power_cut hw [Erase 5, Erase 6, Erase 7] m m'"
  | "power_cut hw (copy_ops (blank m) main_flash_start fwstorage_flash_start (unat sz) @ [Erase 8, Erase 9, Erase 10]) (blank m) m'"
    by metis
  then show ?thesis
  proof cases
    case 1
    then show ?thesis using erase_main_cut [OF hw w] by simp
  next
    case 2
    from power_cut_append [OF this] consider
      "power_cut hw (copy_ops (blank m) main_flash_start fwstorage_flash_start (unat sz)) (blank m) m'"
    | "power_cut hw [Erase 8, Erase 9, Erase 10] (upgraded m sz) m'"
      using fold_copy_ops [OF hw c] by (auto simp: upgraded_def)
    then show ?thesis
    proof cases
      case 1
      then show ?thesis using copy_main_cut [OF hw st b c] by simp
    next
      case 2
      then show ?thesis using erase_storage_cut [OF hw up(1) up(3) sz] up(2) by auto
    qed
  qed
qed

definition same_release :: "mem \<Rightarrow> mem \<Rightarrow> bool" where
  "same_release m0 m \<longleftrightarrow>
     versionMajor m main_flash_start = versionMajor m0 fwstorage_flash_start \<and>
     versionMinor m main_flash_start = versionMinor m0 fwstorage_flash_start \<and>
     versionPach m main_flash_start = versionPach m0 fwstorage_flash_start \<and>
     valueCRC m main_flash_start = valueCRC m0 fwstorage_flash_start"

definition same_image :: "mem \<Rightarrow> u32 \<Rightarrow> mem \<Rightarrow> bool" where
  "same_image m0 sz m \<longleftrightarrow>
     (\<forall>i. 0 \<le> i \<longrightarrow> i < uint sz \<longrightarrow> m (main_flash_start + i) = m0 (fwstorage_flash_start + i))"

lemma same_imageD:
  assumes "stored unit m0 sz" "same_image m0 sz m"
  shows "same_release m0 m" "mapped m \<Longrightarrow> checkProgram unit m main_flash_start = Some True"
proof -
  have st0: "mapped m0" "checkProgram unit m0 fwstorage_flash_start = Some True"
    "imagesize m0 fwstorage_flash_start = Some sz" "28 \<le> uint sz" "uint sz \<le> 384 * 1024"
    using assms(1) by (simp_all add: stored_def)
  have i: "m0 (fwstorage_flash_start + i) = m (main_flash_start + i)" if "0 \<le> i" "i < uint sz" for i
    using assms(2) that by (simp add: same_image_def)
  show "same_release m0 m" unfolding same_release_def
    using fields_eq [of "uint sz" m0 fwstorage_flash_start m main_flash_start, OF i st0(4)] by simp
  assume "mapped m"
  with checkProgram_eq [OF st0(1), of m fwstorage_flash_start main_flash_start sz unit] st0 i
  show "checkProgram unit m main_flash_start = Some True" by simp
qed

lemma release_storage: 
  assumes "waiting m0 m"
  shows "versionMajor m fwstorage_flash_start = versionMajor m0 fwstorage_flash_start"
    "versionMinor m fwstorage_flash_start = versionMinor m0 fwstorage_flash_start"
    "versionPach m fwstorage_flash_start = versionPach m0 fwstorage_flash_start"
    "valueCRC m fwstorage_flash_start = valueCRC m0 fwstorage_flash_start"
  using field_storage [OF assms, of 12] field_storage [OF assms, of 16] field_storage [OF assms, of 20]
    field_storage [OF assms, of 0]
  by (simp_all add: versionMajor_def versionMinor_def versionPach_def valueCRC_def)

lemma needs_upgrade_waiting:
  assumes "stored unit m0 sz" "waiting m0 m"
  shows "needs_upgrade unit m = Some True \<or> needs_upgrade unit m = Some False \<and>
    checkProgram unit m main_flash_start = Some True \<and> same_release m0 m"
proof -
  have mp: "mapped m" "header_sane m main_flash_start" using assms(2) by (simp_all add: waiting_def)
  have s: "checkProgram unit m fwstorage_flash_start = Some True"
    using stored_waiting [OF assms] by (simp add: stored_def)
  obtain b where b: "checkProgram unit m main_flash_start = Some b"
    using checkProgram_defined [OF mp(1) _ mp(2)] by blast
  show ?thesis
  proof (cases b)
    case False
    with s b show ?thesis by (simp add: needs_upgrade_def)
  next
    case True
    obtain a1 a2 a3 a4 where a: "versionMajor m main_flash_start = Some a1" "versionMinor m main_flash_start = Some a2"
      "versionPach m main_flash_start = Some a3" "valueCRC m main_flash_start = Some a4"
      using fields_mapped [OF mp(1), of main_flash_start] by auto
    obtain b1 b2 b3 b4 where b': "versionMajor m fwstorage_flash_start = Some b1" "versionMinor m fwstorage_flash_start = Some b2"
      "versionPach m fwstorage_flash_start = Some b3" "valueCRC m fwstorage_flash_start = Some b4"
      using fields_mapped [OF mp(1), of fwstorage_flash_start] by auto
    show ?thesis using s b True a b' release_storage [OF assms(2)]
      by (simp add: needs_upgrade_def same_release_def)
  qed
qed

lemma boot_runs:
  assumes "needs_upgrade unit m = Some u" "(if u then upgrade_main unit hw m else Some ([], m)) = Some (ops, m2)"
    "mapped m2" "checkProgram unit m2 main_flash_start = Some True"
  shows "\<exists>off. boot unit hw m = Some (ops, m2, Executes (main_flash_start + uint off)) \<and> exeOffset m2 main_flash_start = Some off"
proof -
  obtain off where "exeOffset m2 main_flash_start = Some off" using fields_mapped [OF assms(3), of main_flash_start] by blast
  with assms show ?thesis by (simp add: boot_def)
qed

text \<open>What a start achieves.\<close>

definition started_up :: "(u32 \<Rightarrow> u32 \<Rightarrow> u32) \<Rightarrow> flash_unit \<Rightarrow> mem \<Rightarrow> u32 \<Rightarrow> mem \<Rightarrow> flash_op list \<Rightarrow> bool" where
  "started_up unit hw m0 sz m ops \<longleftrightarrow>
     (\<exists>m2 off. boot unit hw m = Some (ops, m2, Executes (main_flash_start + uint off)) \<and>
        exeOffset m2 main_flash_start = Some off \<and> checkProgram unit m2 main_flash_start = Some True \<and>
        same_release m0 m2 \<and> (ops = [] \<and> m2 = m \<or> same_image m0 sz m2))"

lemma start_waiting:
  assumes hw: "flash_works hw" and st: "stored unit m0 sz" and w: "waiting m0 m"
  shows "\<exists>ops. started_up unit hw m0 sz m ops \<and> (\<forall>m'. power_cut hw ops m m' \<longrightarrow> waiting m0 m' \<or> installed m0 sz m')"
  using needs_upgrade_waiting [OF st w]
proof
  assume u: "needs_upgrade unit m = Some True"
  obtain m2 where m2: "upgrade_main unit hw m = Some (upgrade_ops m sz, m2)" "mapped m2"
    "checkProgram unit m2 main_flash_start = Some True" "same_image m0 sz m2"
    using upgrade_main_eq [OF hw st w] unfolding same_image_def by blast
  obtain off where "boot unit hw m = Some (upgrade_ops m sz, m2, Executes (main_flash_start + uint off))"
    "exeOffset m2 main_flash_start = Some off"
    using boot_runs [OF u _ m2(2,3), of hw "upgrade_ops m sz"] m2(1) by auto
  with m2 same_imageD [OF st m2(4)] have "started_up unit hw m0 sz m (upgrade_ops m sz)"
    by (auto simp: started_up_def)
  with upgrade_cut [OF hw st w] show ?thesis by blast
next
  assume u: "needs_upgrade unit m = Some False \<and> checkProgram unit m main_flash_start = Some True \<and> same_release m0 m"
  have "mapped m" using w by (simp add: waiting_def)
  with u boot_runs [of unit m False hw "[]" m] have "started_up unit hw m0 sz m []" by (auto simp: started_up_def)
  with w show ?thesis by (auto simp: power_cut_Nil)
qed

lemma start_installed:
  assumes hw: "flash_works hw" and st: "stored unit m0 sz" and i: "installed m0 sz m"
  shows "started_up unit hw m0 sz m []"
proof -
  have m: "mapped m" "imagemagic m fwstorage_flash_start \<noteq> Some header_magic" and img: "same_image m0 sz m"
    using i by (simp_all add: installed_def same_image_def)
  obtain g where "imagemagic m fwstorage_flash_start = Some g" using fields_mapped [OF m(1), of fwstorage_flash_start] by blast
  with m have "needs_upgrade unit m = Some False" by (simp add: needs_upgrade_def checkProgram_def)
  with boot_runs [of unit m False hw "[]" m] same_imageD [OF st img] m(1) img show ?thesis
    by (auto simp: started_up_def)
qed

lemma restarts_safe:
  assumes hw: "flash_works hw" and st: "stored unit m0 sz" and h: "header_sane m0 main_flash_start"
    and "restarts unit hw m0 m"
  shows "waiting m0 m \<or> installed m0 sz m"
  using assms(4)
proof (induction rule: restarts.induct)
  case first
  then show ?case using st h by (simp add: waiting_def stored_def)
next
  case (again m ops m1 out m')
  from again.IH show ?case
  proof
    assume "waiting m0 m"
    from start_waiting [OF hw st this] again.hyps show ?thesis by (auto simp: started_up_def)
  next
    assume i: "installed m0 sz m"
    from start_installed [OF hw st i] again.hyps i show ?thesis by (auto simp: started_up_def power_cut_Nil)
  qed
qed

section \<open>Properties\<close>


text \<open>The unit of the microcontroller, and an image of a header only.\<close>

definition stm32_crc :: "u32 \<Rightarrow> u32 \<Rightarrow> u32" where
  "stm32_crc reg w =
     fold (\<lambda>_ r. if bit r 31 then push_bit 1 r XOR 0x04C11DB7 else push_bit 1 r) [0..<32::nat] (reg XOR w)"

definition stm32_flash :: flash_unit where
  "stm32_flash = \<lparr>erase = (\<lambda>s m a. if in_sector s a then map_option (\<lambda>_. 0xFF) (m a) else m a),
     program = (\<lambda>a v m b. if b = a then map_option (\<lambda>old. old AND v) (m b) else m b)\<rparr>"

definition sample_image :: "u8 list" where
  "sample_image = [0x08, 0xEA, 0x5A, 0x70, 0x1C, 0x00, 0x00, 0x00, 0x85, 0x25, 0x27, 0x38, 0x01, 0x00, 0x00, 0x00, 0x02, 0x00, 0x00, 0x00, 0x03, 0x00, 0x00, 0x00, 0x00, 0x04, 0x00, 0x00]"

definition sample_memory :: mem where
  "sample_memory a =
     (if fwstorage_flash_start \<le> a \<and> a < fwstorage_flash_start + 28 then Some (sample_image ! nat (a - fwstorage_flash_start))
      else if 0x08000000 \<le> a \<and> a < 0x08100000 then Some 0xFF else None)"

lemma sample_stored: "stored stm32_crc sample_memory 28"
proof -
  have "checkProgram stm32_crc sample_memory fwstorage_flash_start = Some True"
    apply (simp add: checkProgram_def imagemagic_def imagesize_def valueCRC_def crc32_posix_def crc32_words.simps
        rd32_def zero_buffer_def sample_memory_def sample_image_def)
    apply (simp add: RBIT_def stm32_crc_def upt_rec)
    done
  moreover have "imagesize sample_memory fwstorage_flash_start = Some 28"
    by (simp add: imagesize_def rd32_def sample_memory_def sample_image_def)
  ultimately show ?thesis by (simp add: stored_def mapped_iff sample_memory_def)
qed

lemma sample_blank: "header_sane sample_memory main_flash_start"
  by (simp add: header_sane_def imagemagic_def rd32_def sample_memory_def)

lemma stm32_flash_works: "flash_works stm32_flash"
  by (simp add: flash_works_def stm32_flash_def)


lemma crc32_words_fault:
  assumes "mapped m" "0x08000000 \<le> p" "0x08100000 + 8 \<le> p + int len"  "p \<le> 0x08100000"
  shows "crc32_words unit m p len reg = None"
  using assms(2-)
proof (induction len arbitrary: p reg rule: less_induct)
  case (less len)
  have len: "4 \<le> len" using less.prems(2,3) by linarith
  show ?case
  proof (cases "p + 3 < 0x08100000")
    case True
    obtain w where w: "rd32 m p = Some w" using rd32_bytes [OF assms(1) less.prems(1) True] by blast
    have "crc32_words unit m (p + 4) (len - 4) (unit reg (RBIT w)) = None"
      by (rule less.IH) (use len less.prems True in auto)
    with w len show ?thesis by (simp add: crc32_words.simps)
  next
    case False
    then have "m (p + 3) = None" using assms(1) by (metis domIff mapped_def atLeastLessThan_iff)
    then have "rd32 m p = None" by (auto simp: rd32_def Option.bind_eq_None_conv)
    with len show ?thesis by (simp add: crc32_words.simps)
  qed
qed

lemma checkProgram_fault:
  assumes "mapped m" "imagemagic m fwstorage_flash_start = Some header_magic"
    "imagesize m fwstorage_flash_start = Some sz" "0 < sz" "uint sz < 8 \<or> 0x80008 \<le> uint sz"
  shows "checkProgram unit m fwstorage_flash_start = None"
proof -
  obtain c r where z: "crc32_posix unit zero_buffer 0 8 True 0 = Some (c, r)" using zero_checksum by blast
  have u: "0x80000 \<le> uint (sz - 8)"
  proof (cases "uint sz < 8")
    case True
    moreover have "0 < uint sz" using assms(4) by (simp add: word_less_def)
    ultimately have "(uint sz - 8 + 4294967296) mod 4294967296 = uint sz - 8 + 4294967296"
      by (intro mod_pos_pos_trivial) auto
    then have "(uint sz - 8) mod 4294967296 = uint sz - 8 + 4294967296" by (simp only: mod_add_self2)
    with \<open>0 < uint sz\<close> show ?thesis by (simp add: uint_word_ariths(2))
  next
    case False
    with assms(5) show ?thesis using uint_minus_8 [of sz] by linarith
  qed
  then have "4 \<le> unat (sz - 8)" using uint_nat [of "sz - 8"] by linarith
  moreover have "crc32_words unit m (fwstorage_flash_start + 8) (unat (sz - 8)) r = None"
    by (rule crc32_words_fault) (use assms(1) u in auto)
  ultimately have "crc32_posix unit m (fwstorage_flash_start + 8) (unat (sz - 8)) False r = None"
    by (simp add: crc32_posix_def)
  with z assms(2-4) show ?thesis by (auto simp: checkProgram_def)
qed

text \<open>The size in the header of an image is used before anything has validated it.  A header in the
  storage with the right magic number and a size below the eight bytes that the checksum skips, where
  \<open>size - skipbytes\<close> wraps around, or a size that reaches past the flash, makes the loader read memory
  that is not there, on every start and whatever valid program the main area holds.\<close>

theorem corrupt_header_faults_loader:
  assumes "mapped m" "imagemagic m 0x08080000 = Some 0x38272585" "imagesize m 0x08080000 = Some sz"
    "0 < sz" "uint sz < 8 \<or> 0x80008 \<le> uint sz"
  shows "boot unit hw m = None"
  using checkProgram_fault [OF assms] by (simp add: boot_def needs_upgrade_def)

definition corrupt_memory :: mem where
  "corrupt_memory = sample_memory(fwstorage_flash_start + 4 \<mapsto> 4)"

theorem corrupt_header_faults_loader_witness: "boot stm32_crc stm32_flash corrupt_memory = None"
  by (rule corrupt_header_faults_loader [of _ 4])
    (simp_all add: corrupt_memory_def mapped_iff sample_memory_def imagemagic_def imagesize_def rd32_def sample_image_def)

end
