(* ===== verification/PanelServer.thy ===== *)
theory PanelServer
  imports Parameters Boot
begin

unbundle bit_operations_syntax

text \<open>
  The Modbus TCP server of the panel: the callbacks and the port of \<open>portfreemodbus\<close>
  (\<open>porttcp.cpp\<close>, \<open>portevent.c\<close>) with the part of \<open>lib/freemodbus\<close> that the configuration
  builds: \<open>mb.c\<close>, \<open>mbtcp.c\<close>, \<open>mbfuncholding.c\<close>, the writing of file records and the slave
  identification.  A frame is handled in place in \<open>workbuffer\<close>, so that every access is checked against
  its 256 bytes.  One call of \<open>eMBPoll\<close> takes what the network then yields: whether a connection is
  accepted, and one reception.
\<close>

datatype eMBErrorCode = MB_ENOERR | MB_ENOREG | MB_EINVAL | MB_EPORTERR | MB_ENORES | MB_EIO | MB_EILLSTATE | MB_ETIMEDOUT

datatype eMBException = MB_EX_NONE | MB_EX_ILLEGAL_FUNCTION | MB_EX_ILLEGAL_DATA_ADDRESS | MB_EX_ILLEGAL_DATA_VALUE
  | MB_EX_SLAVE_DEVICE_FAILURE | MB_EX_ACKNOWLEDGE | MB_EX_SLAVE_BUSY | MB_EX_MEMORY_PARITY_ERROR
  | MB_EX_GATEWAY_PATH_FAILED | MB_EX_GATEWAY_TGT_FAILED

fun exception_code :: "eMBException \<Rightarrow> u8" where
  "exception_code MB_EX_NONE = 0" | "exception_code MB_EX_ILLEGAL_FUNCTION = 1"
| "exception_code MB_EX_ILLEGAL_DATA_ADDRESS = 2" | "exception_code MB_EX_ILLEGAL_DATA_VALUE = 3"
| "exception_code MB_EX_SLAVE_DEVICE_FAILURE = 4" | "exception_code MB_EX_ACKNOWLEDGE = 5"
| "exception_code MB_EX_SLAVE_BUSY = 6" | "exception_code MB_EX_MEMORY_PARITY_ERROR = 8"
| "exception_code MB_EX_GATEWAY_PATH_FAILED = 10" | "exception_code MB_EX_GATEWAY_TGT_FAILED = 11"

datatype eMBRegisterMode = MB_REG_READ | MB_REG_WRITE

datatype eMBEventType = EV_READY | EV_FRAME_RECEIVED | EV_EXECUTE | EV_FRAME_SENT

datatype mb_state = STATE_ENABLED | STATE_DISABLED | STATE_NOT_INITIALIZED

datatype tcp_reception = Received "u8 list" | Timed_out | Failed

text \<open>\<open>frame_functions\<close>: the function pointers \<open>pvMBFrameStartCur\<close>, \<open>pvMBFrameStopCur\<close>, \<open>peMBFrameReceiveCur\<close> and
  \<open>peMBFrameSendCur\<close> are set, to the functions of the TCP mode, and not null.\<close>

record server =
  prms :: "Val list"
  flash_mem :: mem
  workbuffer :: "u8 list"
  newconn :: bool
  responses :: "u8 list list"
  closed :: nat
  xEventInQueue :: bool
  eQueuedEvent :: eMBEventType
  eMBState :: mb_state
  frame_functions :: bool
  ucMBFrame :: int
  ucRcvAddress :: u8
  usLength :: u16
  ucMBSlaveID :: "u8 list"

text \<open>What the server runs on: the version of the firmware, the flash, and the regulator connection, which
  answers the requests for another unit.\<close>

record platform =
  fw_version :: "u16 \<times> u16 \<times> u16 \<times> u16"
  flash_hw :: flash_unit
  tcpModbusRequest :: "u8 list \<Rightarrow> u8 list"

definition prveMBError2Exception :: "eMBErrorCode \<Rightarrow> eMBException" where
  "prveMBError2Exception e =
     (case e of MB_ENOERR \<Rightarrow> MB_EX_NONE | MB_ENOREG \<Rightarrow> MB_EX_ILLEGAL_DATA_ADDRESS | MB_ETIMEDOUT \<Rightarrow> MB_EX_SLAVE_BUSY
      | _ \<Rightarrow> MB_EX_SLAVE_DEVICE_FAILURE)"

section \<open>The registers\<close>

text \<open>The loops of \<open>eMBRegHoldingCB\<close>.  A parameter of eight bytes overruns the four bytes of \<open>buffer\<close>.\<close>

function read_regs_loop :: "u16 \<times> u16 \<times> u16 \<times> u16 \<Rightarrow> Val option \<times> nat \<Rightarrow> nat \<Rightarrow> int \<Rightarrow> Val list \<Rightarrow> u8 list
    \<Rightarrow> (eMBErrorCode \<times> Val list \<times> u8 list) option" where
  "read_regs_loop version ph usNRegs pos vs buf =
     (if usNRegs = 0 then Some (MB_ENOERR, vs, buf)
      else case ph of
        (None, i) \<Rightarrow> Some (MB_ENOREG, vs, buf)
      | (Some v, i) \<Rightarrow>
          if getsize v = 4 \<and> usNRegs < 2 then Some (MB_EINVAL, vs, buf)
          else let v = call_Val version v; vs = vs[i := v] in
            (case wrs [0, 0, 0, 0] 0 (serialize_Val v) of
               None \<Rightarrow> None
             | Some buffer \<Rightarrow>
                 if getsize v = 1 \<or> getsize v = 2
                 then (case wrs buf pos [buffer ! 1, buffer ! 0] of
                         None \<Rightarrow> None
                       | Some buf \<Rightarrow> read_regs_loop version (getNext vs i) (usNRegs - 1) (pos + 2) vs buf)
                 else (case wrs buf pos [buffer ! 1, buffer ! 0, buffer ! 3, buffer ! 2] of
                         None \<Rightarrow> None
                       | Some buf \<Rightarrow> read_regs_loop version (getNext vs i) (usNRegs - 2) (pos + 4) vs buf)))"
  by pat_completeness auto
termination by (relation "measure (\<lambda>(_, _, n, _). n)") auto

declare read_regs_loop.simps [simp del]

function write_regs_loop :: "u16 \<times> u16 \<times> u16 \<times> u16 \<Rightarrow> Val option \<times> nat \<Rightarrow> nat \<Rightarrow> int \<Rightarrow> u8 list \<Rightarrow> Val list
    \<Rightarrow> (eMBErrorCode \<times> Val list) option" where
  "write_regs_loop version ph usNRegs pos buf vs =
     (if usNRegs = 0 then Some (MB_ENOERR, vs)
      else case ph of
        (None, i) \<Rightarrow> Some (MB_ENOREG, vs)
      | (Some v, i) \<Rightarrow>
          if getsize v = 4 \<and> usNRegs < 2 then Some (MB_EINVAL, vs)
          else if getsize v = 1 \<or> getsize v = 2
          then (case rds buf pos 2 of
                  None \<Rightarrow> None
                | Some r \<Rightarrow>
                    (case deserialize_Val (take (getsize v) [r ! 1, r ! 0]) v of
                       (False, v) \<Rightarrow> Some (MB_EINVAL, vs)
                     | (True, v) \<Rightarrow> let vs = vs[i := call_Val version v]
                                   in write_regs_loop version (getNext vs i) (usNRegs - 1) (pos + 2) buf vs))
          else if getsize v = 4
          then (case rds buf pos 4 of
                  None \<Rightarrow> None
                | Some r \<Rightarrow>
                    (case deserialize_Val [r ! 1, r ! 0, r ! 3, r ! 2] v of
                       (False, v) \<Rightarrow> Some (MB_EINVAL, vs)
                     | (True, v) \<Rightarrow> let vs = vs[i := call_Val version v]
                                   in write_regs_loop version (getNext vs i) (usNRegs - 2) (pos + 4) buf vs))
          else None)"
  by pat_completeness auto
termination by (relation "measure (\<lambda>(_, _, n, _). n)") auto

declare write_regs_loop.simps [simp del]

definition eMBRegHoldingCB :: "platform \<Rightarrow> int \<Rightarrow> u16 \<Rightarrow> u16 \<Rightarrow> eMBRegisterMode \<Rightarrow> server \<Rightarrow> (eMBErrorCode \<times> server) option" where
  "eMBRegHoldingCB env pos usAddress usNRegs mode s =
     (let usAddress = usAddress - 1; ph = getbyaddress (uint usAddress) (prms s) 0 in
      case mode of
        MB_REG_READ \<Rightarrow> do {
          (e, vs, buf) \<leftarrow> read_regs_loop (fw_version env) ph (unat usNRegs) pos (prms s) (workbuffer s);
          Some (e, s\<lparr>prms := vs, workbuffer := buf\<rparr>)
        }
      | MB_REG_WRITE \<Rightarrow> do {
          (e, vs) \<leftarrow> write_regs_loop (fw_version env) ph (unat usNRegs) pos (workbuffer s) (prms s);
          Some (e, s\<lparr>prms := vs\<rparr>)
        })"

section \<open>File records\<close>

text \<open>\<open>m[i*2 + 0] = *pucDataBuffer++; m[i*2 + 1] = *pucDataBuffer++\<close>.\<close>

fun record_bytes :: "nat \<Rightarrow> int \<Rightarrow> int \<Rightarrow> u8 list \<Rightarrow> u8 list \<Rightarrow> u8 list option" where
  "record_bytes 0 i pos buf m = Some m"
| "record_bytes (Suc n) i pos buf m = do {
     r \<leftarrow> rds buf pos 2;
     m \<leftarrow> wr m (i * 2) (r ! 0);
     m \<leftarrow> wr m (i * 2 + 1) (r ! 1);
     record_bytes n (i + 1) (pos + 2) buf m
   }"

text \<open>\<open>flash_write\<close> of a buffer.\<close>

fun program_bytes :: "flash_unit \<Rightarrow> int \<Rightarrow> u8 list \<Rightarrow> mem \<Rightarrow> mem" where
  "program_bytes hw a [] m = m"
| "program_bytes hw a (b # bs) m = program_bytes hw (a + 1) bs (apply_op hw (Program a b) m)"

definition eMBFileRecordCB :: "platform \<Rightarrow> int \<Rightarrow> u16 \<Rightarrow> u16 \<Rightarrow> u16 \<Rightarrow> eMBRegisterMode \<Rightarrow> server \<Rightarrow> (eMBErrorCode \<times> server) option" where
  "eMBFileRecordCB env pos usFile usRecord usLen mode s =
     (let offset = uint usRecord * 128 in
      if usFile \<noteq> 1 then Some (MB_EINVAL, s)
      else if offset \<ge> fwstorage_flash_size then Some (MB_EINVAL, s)
      else if mode = MB_REG_WRITE then do {
        m \<leftarrow> record_bytes (unat usLen) 0 pos (workbuffer s) (replicate 128 0);
        let bytes = take (unat usLen * 2) m in
        Some (MB_ENOERR, s\<lparr>flash_mem := program_bytes (flash_hw env) (fwstorage_flash_start + offset) bytes (flash_mem s)\<rparr>)
      } else Some (MB_ENOERR, s))"

section \<open>The functions of the protocol\<close>

definition frame_byte :: "server \<Rightarrow> int \<Rightarrow> u8 option" where
  "frame_byte s i = rd (workbuffer s) (ucMBFrame s + i)"

definition set_frame :: "int \<Rightarrow> u8 \<Rightarrow> server \<Rightarrow> server option" where
  "set_frame i b s = map_option (\<lambda>buf. s\<lparr>workbuffer := buf\<rparr>) (wr (workbuffer s) (ucMBFrame s + i) b)"

definition be16w :: "u8 \<Rightarrow> u8 \<Rightarrow> u16" where
  "be16w hi lo = push_bit 8 (ucast hi) OR ucast lo"

definition frame16 :: "server \<Rightarrow> int \<Rightarrow> u16 option" where
  "frame16 s i = do { hi \<leftarrow> frame_byte s i; lo \<leftarrow> frame_byte s (i + 1); Some (be16w hi lo) }"

definition eMBFuncWriteHoldingRegister :: "platform \<Rightarrow> u16 \<Rightarrow> server \<Rightarrow> (eMBException \<times> u16 \<times> server) option" where
  "eMBFuncWriteHoldingRegister env usLen s =
     (if usLen = 4 + 1 then do {
        usRegAddress \<leftarrow> frame16 s 1;
        (eRegStatus, s) \<leftarrow> eMBRegHoldingCB env (ucMBFrame s + 3) (usRegAddress + 1) 1 MB_REG_WRITE s;
        Some (if eRegStatus \<noteq> MB_ENOERR then prveMBError2Exception eRegStatus else MB_EX_NONE, usLen, s)
      } else Some (MB_EX_ILLEGAL_DATA_VALUE, usLen, s))"

definition eMBFuncWriteMultipleHoldingRegister :: "platform \<Rightarrow> u16 \<Rightarrow> server \<Rightarrow> (eMBException \<times> u16 \<times> server) option" where
  "eMBFuncWriteMultipleHoldingRegister env usLen s =
     (if usLen \<ge> 5 + 1 then do {
        usRegAddress \<leftarrow> frame16 s 1;
        usRegCount \<leftarrow> frame16 s 3;
        ucRegByteCount \<leftarrow> frame_byte s 5;
        if usRegCount \<ge> 1 \<and> usRegCount \<le> 0x78 \<and> ucRegByteCount = ucast (2 * usRegCount) then do {
          (eRegStatus, s) \<leftarrow> eMBRegHoldingCB env (ucMBFrame s + 6) (usRegAddress + 1) usRegCount MB_REG_WRITE s;
          if eRegStatus \<noteq> MB_ENOERR then Some (prveMBError2Exception eRegStatus, usLen, s)
          else Some (MB_EX_NONE, 5, s)
        } else Some (MB_EX_ILLEGAL_DATA_VALUE, usLen, s)
      } else Some (MB_EX_ILLEGAL_DATA_VALUE, usLen, s))"

text \<open>The count is the low byte alone: the second assignment of \<open>usRegCount\<close> lacks its \<open>|\<close>.\<close>

definition eMBFuncReadHoldingRegister :: "platform \<Rightarrow> u16 \<Rightarrow> server \<Rightarrow> (eMBException \<times> u16 \<times> server) option" where
  "eMBFuncReadHoldingRegister env usLen s =
     (if usLen = 4 + 1 then do {
        usRegAddress \<leftarrow> frame16 s 1;
        _ \<leftarrow> frame_byte s 3;
        lo \<leftarrow> frame_byte s 4;
        let usRegCount = ucast lo :: u16 in
        if usRegCount \<ge> 1 \<and> usRegCount \<le> 0x7D then do {
          s \<leftarrow> set_frame 0 3 s;
          s \<leftarrow> set_frame 1 (ucast (usRegCount * 2)) s;
          (eRegStatus, s) \<leftarrow> eMBRegHoldingCB env (ucMBFrame s + 2) (usRegAddress + 1) usRegCount MB_REG_READ s;
          if eRegStatus \<noteq> MB_ENOERR then Some (prveMBError2Exception eRegStatus, 2, s)
          else Some (MB_EX_NONE, 2 + usRegCount * 2, s)
        } else Some (MB_EX_ILLEGAL_DATA_VALUE, usLen, s)
      } else Some (MB_EX_ILLEGAL_DATA_VALUE, usLen, s))"

definition eMBFuncReadWriteMultipleHoldingRegister :: "platform \<Rightarrow> u16 \<Rightarrow> server \<Rightarrow> (eMBException \<times> u16 \<times> server) option" where
  "eMBFuncReadWriteMultipleHoldingRegister env usLen s =
     (if usLen \<ge> 9 + 1 then do {
        usRegReadAddress \<leftarrow> frame16 s 1;
        usRegReadCount \<leftarrow> frame16 s 3;
        usRegWriteAddress \<leftarrow> frame16 s 5;
        usRegWriteCount \<leftarrow> frame16 s 7;
        ucRegWriteByteCount \<leftarrow> frame_byte s 9;
        if usRegReadCount \<ge> 1 \<and> usRegReadCount \<le> 0x7D \<and> usRegWriteCount \<ge> 1 \<and> usRegWriteCount \<le> 0x79 \<and>
           2 * uint usRegWriteCount = uint ucRegWriteByteCount then do {
          (eRegStatus, s) \<leftarrow> eMBRegHoldingCB env (ucMBFrame s + 10) (usRegWriteAddress + 1) usRegWriteCount MB_REG_WRITE s;
          if eRegStatus = MB_ENOERR then do {
            s \<leftarrow> set_frame 0 23 s;
            s \<leftarrow> set_frame 1 (ucast (usRegReadCount * 2)) s;
            (eRegStatus, s) \<leftarrow> eMBRegHoldingCB env (ucMBFrame s + 2) (usRegReadAddress + 1) usRegReadCount MB_REG_READ s;
            if eRegStatus = MB_ENOERR then Some (MB_EX_NONE, 2 + 2 * usRegReadCount, s)
            else Some (prveMBError2Exception eRegStatus, 2, s)
          } else Some (prveMBError2Exception eRegStatus, usLen, s)
        } else Some (MB_EX_ILLEGAL_DATA_VALUE, usLen, s)
      } else Some (MB_EX_NONE, usLen, s))"

text \<open>The sub-requests of a file record write, from position \<open>cur\<close> of the frame to \<open>end\<close>.\<close>

function file_records :: "platform \<Rightarrow> int \<Rightarrow> int \<Rightarrow> eMBException \<Rightarrow> u16 \<Rightarrow> server \<Rightarrow> (eMBException \<times> u16 \<times> server) option" where
  "file_records env cur end eStatus usLen s =
     (if cur < end then
        (case (frame16 s (cur + 1), frame16 s (cur + 3), frame16 s (cur + 5)) of
           (Some usFile, Some usRecord, Some usRecordLen) \<Rightarrow>
             (case eMBFileRecordCB env (ucMBFrame s + cur + 7) usFile usRecord usRecordLen MB_REG_WRITE s of
                None \<Rightarrow> None
              | Some (eFileStatus, s) \<Rightarrow>
                  file_records env (cur + 1 + 2 + 2 + 2 + uint usRecordLen * 2) end
                    (if eFileStatus \<noteq> MB_ENOERR then prveMBError2Exception eFileStatus else eStatus)
                    (usLen + (1 + 2 + 2 + 2 + usRecordLen * 2)) s)
         | _ \<Rightarrow> None)
      else Some (eStatus, usLen, s))"
  by pat_completeness auto
termination
  by (relation "measure (\<lambda>(_, cur, end, _). nat (end - cur))") (auto intro: le_less_trans [of _ 0])

declare file_records.simps [simp del]

definition eMBFuncWriteFileRecord :: "platform \<Rightarrow> u16 \<Rightarrow> server \<Rightarrow> (eMBException \<times> u16 \<times> server) option" where
  "eMBFuncWriteFileRecord env usLen s = do {
     requestDataLength \<leftarrow> frame_byte s 1;
     if requestDataLength \<ge> 7 \<and> requestDataLength \<le> 0xF5 then do {
       (eStatus, usLen, s) \<leftarrow> file_records env 2 (2 + uint requestDataLength) MB_EX_NONE 0 s;
       s \<leftarrow> set_frame 1 (ucast usLen) s;
       Some (eStatus, usLen + 2, s)
     } else Some (MB_EX_ILLEGAL_DATA_VALUE, usLen, s)
   }"

definition eMBSetSlaveID :: "u8 \<Rightarrow> bool \<Rightarrow> u8 list \<Rightarrow> server \<Rightarrow> eMBErrorCode \<times> server" where
  "eMBSetSlaveID ucSlaveID xIsRunning additional s =
     (if length additional + 2 < 32
      then (MB_ENOERR, s\<lparr>ucMBSlaveID := [ucSlaveID, if xIsRunning then 0xFF else 0] @ additional\<rparr>)
      else (MB_ENORES, s))"

definition eMBFuncReportSlaveID :: "platform \<Rightarrow> u16 \<Rightarrow> server \<Rightarrow> (eMBException \<times> u16 \<times> server) option" where
  "eMBFuncReportSlaveID env usLen s = do {
     buf \<leftarrow> wrs (workbuffer s) (ucMBFrame s + 1) (ucMBSlaveID s);
     Some (MB_EX_NONE, of_nat (1 + length (ucMBSlaveID s)), s\<lparr>workbuffer := buf\<rparr>)
   }"

text \<open>The handlers that the configuration registers, in the order of the table.\<close>

definition xFuncHandlers :: "(u8 \<times> (platform \<Rightarrow> u16 \<Rightarrow> server \<Rightarrow> (eMBException \<times> u16 \<times> server) option)) list" where
  "xFuncHandlers =
     [(17, eMBFuncReportSlaveID), (3, eMBFuncReadHoldingRegister), (16, eMBFuncWriteMultipleHoldingRegister),
      (6, eMBFuncWriteHoldingRegister), (21, eMBFuncWriteFileRecord), (23, eMBFuncReadWriteMultipleHoldingRegister)]"

section \<open>The port\<close>

definition xMBPortEventInit :: "server \<Rightarrow> server" where
  "xMBPortEventInit s = s\<lparr>xEventInQueue := False\<rparr>"

definition xMBPortEventPost :: "eMBEventType \<Rightarrow> server \<Rightarrow> server" where
  "xMBPortEventPost e s = s\<lparr>xEventInQueue := True, eQueuedEvent := e\<rparr>"

text \<open>\<open>accepted\<close>: \<open>netconn_accept\<close> returns \<open>ERR_OK\<close>.  The branch for \<open>ERR_TIMEOUT\<close> comes after the one
  for every error and is never taken.\<close>

definition xMBPortTCPPoll :: "bool \<Rightarrow> server \<Rightarrow> server" where
  "xMBPortTCPPoll accepted s =
     (if \<not> newconn s
      then (if accepted then xMBPortEventPost EV_FRAME_RECEIVED (s\<lparr>newconn := True\<rparr>) else s\<lparr>newconn := False\<rparr>)
      else xMBPortEventPost EV_FRAME_RECEIVED s)"

definition xMBPortEventGet :: "bool \<Rightarrow> server \<Rightarrow> eMBEventType option \<times> server" where
  "xMBPortEventGet accepted s =
     (let s = (if \<not> (xEventInQueue s \<and> eQueuedEvent s = EV_EXECUTE) then xMBPortTCPPoll accepted s else s) in
      if xEventInQueue s then (Some (eQueuedEvent s), s\<lparr>xEventInQueue := False\<rparr>) else (None, s))"

definition xMBTCPPortSendResponse :: "u8 list \<Rightarrow> server \<Rightarrow> server" where
  "xMBTCPPortSendResponse bytes s = s\<lparr>responses := responses s @ [bytes]\<rparr>"

text \<open>Where the request's frame is: in \<open>workbuffer\<close>, nowhere, or wherever an uninitialised pointer shows.\<close>

datatype frame_pointer = Workbuffer | Nullptr | Uninitialised

definition xMBTCPPortGetRequest :: "platform \<Rightarrow> bool \<Rightarrow> tcp_reception \<Rightarrow> server \<Rightarrow> (bool \<times> frame_pointer \<times> u16 \<times> server) option" where
  "xMBTCPPortGetRequest env link_up rc s =
     (if newconn s then
        (case rc of
           Received bytes \<Rightarrow> do {
             buf \<leftarrow> wrs (workbuffer s) 0 bytes;
             let s = s\<lparr>workbuffer := buf\<rparr> in do {
               unit_id \<leftarrow> rd buf 6;
               if unit_id = 2 then Some (True, Workbuffer, of_nat (length bytes), s)
               else Some (True, Nullptr, 0, xMBTCPPortSendResponse (tcpModbusRequest env bytes) s)
             }
           }
         | Timed_out \<Rightarrow> if \<not> link_up then Some (False, Uninitialised, 0, s\<lparr>closed := closed s + 1\<rparr>)
                      else Some (True, Uninitialised, 0, s)
         | Failed \<Rightarrow> Some (False, Uninitialised, 0, s\<lparr>newconn := False, closed := closed s + 1\<rparr>))
      else Some (True, Uninitialised, 0, s))"

text \<open>\<open>xMBTCPPortInit\<close>: the pages of the storage that are not blank are erased; then the results of the
  three calls that open the listening connection decide.\<close>

fun page_blank :: "nat \<Rightarrow> int \<Rightarrow> mem \<Rightarrow> bool option" where
  "page_blank 0 p m = Some True"
| "page_blank (Suc n) p m = do {
     w \<leftarrow> rd32 m p;
     if w \<noteq> 0xFFFFFFFF then Some False else page_blank n (p + 4) m
   }"

function erase_dirty :: "flash_unit \<Rightarrow> int \<Rightarrow> int \<Rightarrow> mem \<Rightarrow> mem option" where
  "erase_dirty hw p end m =
     (if p < end then
        (case page_blank (nat FLASH_PAGE_SIZE div 4) p m of
           None \<Rightarrow> None
         | Some blank_page \<Rightarrow>
             erase_dirty hw (p + FLASH_PAGE_SIZE) end (if blank_page then m else apply_op hw (Erase (flash_sector p)) m))
      else Some m)"
  by pat_completeness auto
termination by (relation "measure (\<lambda>(_, p, end, _). nat (end - p))") auto

declare erase_dirty.simps [simp del]

definition xMBTCPPortInit :: "platform \<Rightarrow> bool \<Rightarrow> bool \<Rightarrow> bool \<Rightarrow> server \<Rightarrow> (bool \<times> server) option" where
  "xMBTCPPortInit env created bound listening s = do {
     m \<leftarrow> erase_dirty (flash_hw env) fwstorage_flash_start (fwstorage_flash_start + fwstorage_flash_size) (flash_mem s);
     Some (created \<and> bound \<and> listening, s\<lparr>flash_mem := m\<rparr>)
   }"

section \<open>The stack\<close>

definition eMBTCPDoInit :: "platform \<Rightarrow> bool \<Rightarrow> bool \<Rightarrow> bool \<Rightarrow> server \<Rightarrow> (eMBErrorCode \<times> server) option" where
  "eMBTCPDoInit env created bound listening s = do {
     (ok, s) \<leftarrow> xMBTCPPortInit env created bound listening s;
     Some (if \<not> ok then MB_EPORTERR else MB_ENOERR, s)
   }"

definition eMBTCPInit :: "platform \<Rightarrow> bool \<Rightarrow> bool \<Rightarrow> bool \<Rightarrow> server \<Rightarrow> (eMBErrorCode \<times> server) option" where
  "eMBTCPInit env created bound listening s = do {
     (eStatus, s) \<leftarrow> eMBTCPDoInit env created bound listening s;
     if eStatus \<noteq> MB_ENOERR then Some (eStatus, s\<lparr>eMBState := STATE_DISABLED\<rparr>)
     else Some (eStatus, (xMBPortEventInit s)\<lparr>frame_functions := True, eMBState := STATE_DISABLED\<rparr>)
   }"

text \<open>The function that starts a frame does nothing in the TCP mode; calling a null pointer faults.\<close>

definition eMBEnable :: "server \<Rightarrow> (eMBErrorCode \<times> server) option" where
  "eMBEnable s =
     (if eMBState s = STATE_DISABLED
      then if frame_functions s then Some (MB_ENOERR, s\<lparr>eMBState := STATE_ENABLED\<rparr>) else None
      else Some (MB_EILLSTATE, s))"

definition eMBDisable :: "server \<Rightarrow> (eMBErrorCode \<times> server) option" where
  "eMBDisable s =
     (if eMBState s = STATE_ENABLED
      then if frame_functions s then Some (MB_ENOERR, s\<lparr>eMBState := STATE_DISABLED\<rparr>) else None
      else if eMBState s = STATE_DISABLED then Some (MB_ENOERR, s) else Some (MB_EILLSTATE, s))"

text \<open>\<open>eMBTCPReceive\<close> looks at the frame whatever its pointer is.  A request for the regulator leaves a
  null pointer, so that the two bytes of the protocol identifier come from addresses 2 and 3 of memory.\<close>

definition eMBTCPReceive :: "platform \<Rightarrow> bool \<Rightarrow> tcp_reception \<Rightarrow> server \<Rightarrow> (eMBErrorCode \<times> server) option" where
  "eMBTCPReceive env link_up rc s = do {
     (ok, pointer, usLen, s) \<leftarrow> xMBTCPPortGetRequest env link_up rc s;
     if ok then
       (case pointer of
          Workbuffer \<Rightarrow> do {
            hi \<leftarrow> rd (workbuffer s) 2;
            lo \<leftarrow> rd (workbuffer s) 3;
            if be16w hi lo = 0
            then Some (MB_ENOERR, s\<lparr>ucMBFrame := 7, usLength := usLen - 7, ucRcvAddress := 255\<rparr>)
            else Some (MB_EIO, s)
          }
        | Nullptr \<Rightarrow> do {
            hi \<leftarrow> flash_mem s 2;
            lo \<leftarrow> flash_mem s 3;
            if be16w hi lo = 0 then None else Some (MB_EIO, s)
          }
        | Uninitialised \<Rightarrow> None)
     else Some (MB_EIO, s)
   }"

definition eMBTCPSend :: "u16 \<Rightarrow> server \<Rightarrow> (eMBErrorCode \<times> server) option" where
  "eMBTCPSend usLen s =
     (let start = ucMBFrame s - 7; usTCPLength = usLen + 7; n = uint usLen + 1 in do {
        buf \<leftarrow> wrs (workbuffer s) (start + 4) [word_of_int (n div 256), word_of_int (n mod 256)];
        bytes \<leftarrow> rds buf start (uint usTCPLength);
        let s = xMBTCPPortSendResponse bytes (s\<lparr>workbuffer := buf\<rparr>) in
        Some (MB_EIO, s)
      })"

definition execute :: "platform \<Rightarrow> server \<Rightarrow> server option" where
  "execute env s = do {
     ucFunctionCode \<leftarrow> frame_byte s 0;
     (eException, usLen, s) \<leftarrow>
       (case map_of xFuncHandlers ucFunctionCode of
          None \<Rightarrow> Some (MB_EX_ILLEGAL_FUNCTION, usLength s, s)
        | Some handler \<Rightarrow> handler env (usLength s) s);
     let s = s\<lparr>usLength := usLen\<rparr> in
     if ucRcvAddress s \<noteq> 0 then do {
       s \<leftarrow> (if eException \<noteq> MB_EX_NONE then do {
               s \<leftarrow> set_frame 0 (ucFunctionCode OR 128) s;
               s \<leftarrow> set_frame 1 (exception_code eException) s;
               Some (s\<lparr>usLength := 2\<rparr>)
             } else Some s);
       (eStatus, s) \<leftarrow> eMBTCPSend (usLength s) s;
       Some s
     } else Some s
   }"

text \<open>A call of \<open>eMBPoll\<close>, with what the network yields to it.\<close>

definition eMBPoll :: "platform \<Rightarrow> bool \<Rightarrow> bool \<Rightarrow> tcp_reception \<Rightarrow> server \<Rightarrow> (eMBErrorCode \<times> server) option" where
  "eMBPoll env accepted link_up rc s =
     (if eMBState s \<noteq> STATE_ENABLED then Some (MB_EILLSTATE, s)
      else let (event, s) = xMBPortEventGet accepted s in
        case event of
          None \<Rightarrow> Some (MB_ENOERR, s)
        | Some EV_READY \<Rightarrow> Some (MB_ENOERR, s)
        | Some EV_FRAME_RECEIVED \<Rightarrow> do {
            (eStatus, s) \<leftarrow> eMBTCPReceive env link_up rc s;
            if eStatus = MB_ENOERR then
              (if ucRcvAddress s = 255 \<or> ucRcvAddress s = 0 then Some (MB_ENOERR, xMBPortEventPost EV_EXECUTE s)
               else Some (MB_ENOERR, s))
            else Some (MB_ENOERR, s)
          }
        | Some EV_EXECUTE \<Rightarrow> do { s \<leftarrow> execute env s; Some (MB_ENOERR, s) }
        | Some EV_FRAME_SENT \<Rightarrow> Some (MB_ENOERR, s))"

text \<open>\<open>modbusServerTSK\<close>: the server starts, then polls on.\<close>

definition server_start :: "platform \<Rightarrow> bool \<Rightarrow> bool \<Rightarrow> bool \<Rightarrow> server \<Rightarrow> server option" where
  "server_start env created bound listening s = do {
     (e, s) \<leftarrow> eMBTCPInit env created bound listening s;
     (e, s) \<leftarrow> eMBEnable s;
     Some s
   }"

fun server_polls :: "platform \<Rightarrow> (bool \<times> bool \<times> tcp_reception) list \<Rightarrow> server \<Rightarrow> server option" where
  "server_polls env [] s = Some s"
| "server_polls env ((accepted, link_up, rc) # es) s = do {
     (e, s) \<leftarrow> eMBPoll env accepted link_up rc s;
     server_polls env es s
   }"

section \<open>The register loops\<close>

lemma vhandler_call [simp]: "vhandler (call_Val version v) = vhandler v"
  by (simp add: call_Val_def getFwVer_def split: option.split prod.split vcallback.split)

lemma getsize_call [simp]: "getsize (call_Val version v) = getsize v"
  by (simp add: getsize_def)

definition register_sized :: "Val \<Rightarrow> bool" where
  "register_sized v \<longleftrightarrow> getsize v = 1 \<or> getsize v = 2 \<or> getsize v = 4"

definition nregs :: "Val \<Rightarrow> nat" where
  "nregs v = (if getsize v = 4 then 2 else 1)"

text \<open>The registers of a parameter, the low half first, each with its high byte first.\<close>

definition regs_of :: "Val \<Rightarrow> u8 list" where
  "regs_of v = (let b = serialize_Val v @ replicate (4 - getsize v) 0 in
     if getsize v = 4 then [b ! 1, b ! 0, b ! 3, b ! 2] else [b ! 1, b ! 0])"

lemma length_regs_of [simp]: "length (regs_of v) = 2 * nregs v"
  by (simp add: regs_of_def nregs_def Let_def)

lemma nregs_pos [simp]: "0 < nregs v"
  by (simp add: nregs_def)

definition total_regs :: "Val list \<Rightarrow> nat" where
  "total_regs vs = sum_list (map nregs vs)"

lemma total_regs_simps [simp]: "total_regs [] = 0" "total_regs (v # vs) = nregs v + total_regs vs"
  by (simp_all add: total_regs_def)

definition registers :: "Val list \<Rightarrow> u8 list" where
  "registers vs = concat (map regs_of vs)"

lemma registers_simps [simp]: "registers [] = []" "registers (v # vs) = regs_of v @ registers vs"
  by (simp_all add: registers_def)

lemma total_regs_call [simp]: "total_regs (map (call_Val version) vs) = total_regs vs"
  by (induction vs) (simp_all add: nregs_def)

lemma length_registers [simp]: "length (registers vs) = 2 * total_regs vs"
  by (induction vs) auto

definition cursor :: "Val list \<Rightarrow> nat \<Rightarrow> Val option \<times> nat" where
  "cursor vs i = (if i < length vs then Some (vs ! i) else None, i)"

lemma getNext_cursor: "getNext vs i = cursor vs (Suc i)"
  by (simp add: getNext_def cursor_def)

lemma cursor_at [simp]: "cursor (pre @ p # post) (length pre) = (Some p, length pre)"
  by (simp add: cursor_def)

lemma buffer_of: "register_sized v \<Longrightarrow> wrs [0, 0, 0, 0] 0 (serialize_Val v) = Some (serialize_Val v @ replicate (4 - getsize v) 0)"
  by (auto simp: wrs_def register_sized_def numeral_eq_Suc)

lemma read_regs_loop_step:
  assumes "register_sized p" "length b2 = 2 * nregs p"
  shows "read_regs_loop ver (cursor (pre @ p # post) (length pre)) (nregs p + n) (int (length b1)) (pre @ p # post) (b1 @ b2 @ b3) =
    read_regs_loop ver (cursor ((pre @ [call_Val ver p]) @ post) (length (pre @ [call_Val ver p]))) n
      (int (length (b1 @ regs_of (call_Val ver p)))) ((pre @ [call_Val ver p]) @ post) ((b1 @ regs_of (call_Val ver p)) @ b3)"
proof -
  let ?c = "call_Val ver p"
  have c: "register_sized ?c" using assms(1) by (simp add: register_sized_def)
  have w: "wrs (b1 @ b2 @ b3) (int (length b1)) r = Some (b1 @ r @ b3)" if "length r = 2 * nregs p" for r
    using that assms(2) by (simp add: wrs_def)
  show ?thesis
  proof (cases "getsize p = 4")
    case True
    then show ?thesis using buffer_of [OF c] w [of "regs_of ?c"]
      by (subst read_regs_loop.simps) (simp add: nregs_def regs_of_def Let_def getNext_cursor nth_append add_ac)
  next
    case False
    with assms(1) have s: "getsize p = 1 \<or> getsize p = 2" by (auto simp: register_sized_def)
    with False show ?thesis using buffer_of [OF c] w [of "regs_of ?c"]
      by (subst read_regs_loop.simps) (simp add: nregs_def regs_of_def Let_def getNext_cursor nth_append add_ac)
  qed
qed

lemma read_regs_loop_eq:
  "list_all register_sized ps \<Longrightarrow> length b2 = 2 * total_regs ps \<Longrightarrow>
    read_regs_loop ver (cursor (pre @ ps @ post) (length pre)) (total_regs ps) (int (length b1)) (pre @ ps @ post) (b1 @ b2 @ b3) =
    Some (MB_ENOERR, pre @ map (call_Val ver) ps @ post, b1 @ registers (map (call_Val ver) ps) @ b3)"
proof (induction ps arbitrary: pre b1 b2)
  case Nil
  then show ?case by (subst read_regs_loop.simps) simp
next
  case (Cons p ps)
  define x y where "x = take (2 * nregs p) b2" and "y = drop (2 * nregs p) b2"
  have b2: "b2 = x @ y" "length x = 2 * nregs p" "length y = 2 * total_regs ps"
    using Cons.prems(2) by (simp_all add: x_def y_def)
  have "read_regs_loop ver (cursor (pre @ p # (ps @ post)) (length pre)) (nregs p + total_regs ps) (int (length b1)) (pre @ p # (ps @ post)) (b1 @ x @ (y @ b3))
    = Some (MB_ENOERR, pre @ map (call_Val ver) (p # ps) @ post, b1 @ registers (map (call_Val ver) (p # ps)) @ b3)"
    using Cons.prems(1) b2 Cons.IH [of y "pre @ [call_Val ver p]" "b1 @ regs_of (call_Val ver p)"]
    by (subst read_regs_loop_step) simp_all
  then show ?case by (simp add: b2(1))
qed

text \<open>Values that the parameters \<open>ps\<close> can take.\<close>

definition assignable :: "Val list \<Rightarrow> Val list \<Rightarrow> bool" where
  "assignable ps ws \<longleftrightarrow> list_all2 (\<lambda>p w. vhandler w = vhandler p \<and> val_ok w \<and> register_sized w) ps ws"

lemma deserialize_assigns: "val_ok w \<Longrightarrow> vhandler w = vhandler p \<Longrightarrow> deserialize_Val (serialize_Val w) p = (True, w)"
  using deserialize_serialize_Val [of w p] by (cases p, cases w) simp

lemma register_bytes:
  "register_sized w \<Longrightarrow> getsize w \<noteq> 4 \<Longrightarrow> take (getsize w) [regs_of w ! 1, regs_of w ! 0] = serialize_Val w"
  "getsize w = 4 \<Longrightarrow> [regs_of w ! 1, regs_of w ! 0, regs_of w ! 3, regs_of w ! 2] = serialize_Val w"
proof -
  have l: "length xs = 1 \<Longrightarrow> \<exists>a. xs = [a]" "length xs = 2 \<Longrightarrow> \<exists>a b. xs = [a, b]"
    "length xs = 4 \<Longrightarrow> \<exists>a b c d. xs = [a, b, c, d]" for xs :: "u8 list"
    by (auto simp: length_Suc_conv numeral_eq_Suc)
  note one = l(1) [of "serialize_Val w"] and two = l(2) [of "serialize_Val w"] and four = l(3) [of "serialize_Val w"]
  show "register_sized w \<Longrightarrow> getsize w \<noteq> 4 \<Longrightarrow> take (getsize w) [regs_of w ! 1, regs_of w ! 0] = serialize_Val w"
    using one two by (auto simp: register_sized_def regs_of_def)
  show "getsize w = 4 \<Longrightarrow> [regs_of w ! 1, regs_of w ! 0, regs_of w ! 3, regs_of w ! 2] = serialize_Val w"
    using four by (auto simp: regs_of_def)
qed

lemma write_regs_loop_step:
  assumes "vhandler w = vhandler p" "val_ok w" "register_sized w"
  shows "write_regs_loop ver (cursor (pre @ p # post) (length pre)) (nregs w + n) (int (length b1)) (b1 @ regs_of w @ b3) (pre @ p # post) =
    write_regs_loop ver (cursor ((pre @ [call_Val ver w]) @ post) (length (pre @ [call_Val ver w]))) n
      (int (length (b1 @ regs_of w))) ((b1 @ regs_of w) @ b3) ((pre @ [call_Val ver w]) @ post)"
proof -
  have sz: "getsize p = getsize w" using assms(1) by (simp add: getsize_def)
  have r: "rds (b1 @ regs_of w @ b3) (int (length b1)) (int (2 * nregs w)) = Some (regs_of w)" by (simp add: rds_def)
  show ?thesis
  proof (cases "getsize w = 4")
    case True
    then show ?thesis using r sz register_bytes(2) [OF True] deserialize_assigns [OF assms(2,1)]
      by (subst write_regs_loop.simps) (simp add: nregs_def Let_def getNext_cursor add_ac)
  next
    case False
    with assms(3) have "getsize w = 1 \<or> getsize w = 2" by (auto simp: register_sized_def)
    then show ?thesis using False r sz register_bytes(1) [OF assms(3) False] deserialize_assigns [OF assms(2,1)]
      by (subst write_regs_loop.simps) (simp add: nregs_def Let_def getNext_cursor add_ac)
  qed
qed

lemma write_regs_loop_eq:
  "assignable ps ws \<Longrightarrow>
    write_regs_loop ver (cursor (pre @ ps @ post) (length pre)) (total_regs ws) (int (length b1)) (b1 @ registers ws @ b3) (pre @ ps @ post) =
    Some (MB_ENOERR, pre @ map (call_Val ver) ws @ post)"
proof (induction ws arbitrary: ps pre b1)
  case Nil
  then show ?case by (subst write_regs_loop.simps) (simp add: assignable_def)
next
  case (Cons w ws)
  from Cons.prems obtain p ps' where ps: "ps = p # ps'" "vhandler w = vhandler p" "val_ok w" "register_sized w" "assignable ps' ws"
    by (auto simp: assignable_def list_all2_Cons2)
  then show ?case using write_regs_loop_step [OF ps(2-4), of ver pre "ps' @ post" "total_regs ws" b1 "registers ws @ b3"]
      Cons.IH [OF ps(5), of "pre @ [call_Val ver w]" "b1 @ regs_of w"] by simp
qed

section \<open>A request and its reply\<close>

lemma be16w_bytes: "be16w (word_of_int (uint (r :: u16) div 256)) (word_of_int (uint r mod 256)) = r"
proof -
  have "uint r div 256 = drop_bit 8 (uint r)" by (simp add: drop_bit_eq_div)
  then have d: "word_of_int (uint r div 256) = (ucast (drop_bit 8 r) :: u8)"
    by (simp add: bit_eq_iff bit_simps)
  have "uint r mod 256 = take_bit 8 (uint r)" by (simp add: take_bit_eq_mod)
  then have m: "word_of_int (uint r mod 256) = (ucast r :: u8)"
    by (simp add: bit_eq_iff bit_simps)
  show ?thesis unfolding d m be16w_def by (rule bit_word_eqI) (auto simp: bit_simps)
qed

definition be2 :: "u16 \<Rightarrow> u8 list" where
  "be2 r = [word_of_int (uint r div 256), word_of_int (uint r mod 256)]"

text \<open>A frame for the panel: transaction, protocol, length, unit 2, and the protocol data unit.\<close>

definition mbap :: "u8 \<Rightarrow> u8 \<Rightarrow> nat \<Rightarrow> u8 list" where
  "mbap t1 t2 n = [t1, t2, 0, 0, word_of_int (int (n + 1) div 256), word_of_int (int (n + 1) mod 256), 2]"

lemma length_mbap [simp]: "length (mbap t1 t2 n) = 7"
  by (simp add: mbap_def)

definition panel_frame :: "u8 \<Rightarrow> u8 \<Rightarrow> u8 list \<Rightarrow> u8 list" where
  "panel_frame t1 t2 pdu = mbap t1 t2 (length pdu) @ pdu"

definition serving :: "server \<Rightarrow> bool" where
  "serving s \<longleftrightarrow> eMBState s = STATE_ENABLED \<and> newconn s \<and> \<not> xEventInQueue s \<and> length (workbuffer s) = 256"

text \<open>The state in which the request is executed.\<close>

definition loaded :: "u8 list \<Rightarrow> server \<Rightarrow> server" where
  "loaded bytes s = s\<lparr>workbuffer := bytes @ drop (length bytes) (workbuffer s), ucMBFrame := 7,
     usLength := of_nat (length bytes) - 7, ucRcvAddress := 255, eQueuedEvent := EV_EXECUTE, xEventInQueue := False\<rparr>"

lemma poll_receive:
  assumes "serving s" "length pdu \<le> 249"
  shows "eMBPoll env acc up (Received (panel_frame t1 t2 pdu)) s =
    Some (MB_ENOERR, (loaded (panel_frame t1 t2 pdu) s)\<lparr>xEventInQueue := True\<rparr>)"
proof -
  let ?b = "panel_frame t1 t2 pdu"
  have l: "length ?b = 7 + length pdu" by (simp add: panel_frame_def)
  have w: "wrs (workbuffer s) 0 ?b = Some (?b @ drop (length ?b) (workbuffer s))"
    using assms l by (simp add: wrs_def serving_def)
  have b: "rd (?b @ ys) 6 = Some 2" "rd (?b @ ys) 2 = Some 0" "rd (?b @ ys) 3 = Some 0" for ys
    by (simp_all add: rd_def panel_frame_def mbap_def nth_append)
  show ?thesis using assms(1) w b
    by (simp add: eMBPoll_def xMBPortEventGet_def xMBPortTCPPoll_def xMBPortEventPost_def serving_def
        eMBTCPReceive_def xMBTCPPortGetRequest_def be16w_def loaded_def)
qed

lemma poll_execute:
  assumes "serving s"
  shows "eMBPoll env acc up rc ((loaded b s)\<lparr>xEventInQueue := True\<rparr>) =
    map_option (\<lambda>s. (MB_ENOERR, s)) (execute env (loaded b s))"
  using assms
  by (cases "execute env (loaded b s)") (simp_all add: eMBPoll_def xMBPortEventGet_def loaded_def serving_def)

text \<open>A request is two polls: one receives it, the other executes it.\<close>

definition ask :: "u8 list \<Rightarrow> (bool \<times> bool \<times> tcp_reception) list" where
  "ask bytes = [(False, True, Received bytes), (False, True, Timed_out)]"

lemma server_polls_append: "server_polls env (es @ fs) s = server_polls env es s \<bind> server_polls env fs"
  by (induction env es s rule: server_polls.induct) (auto intro!: Option.bind_cong)

lemma ask_polls:
  assumes "serving s" "length pdu \<le> 249"
  shows "server_polls env (ask (panel_frame t1 t2 pdu)) s = execute env (loaded (panel_frame t1 t2 pdu) s)"
  using poll_receive [OF assms] poll_execute [OF assms(1)]
  by (cases "execute env (loaded (panel_frame t1 t2 pdu) s)") (simp_all add: ask_def)

definition located :: "u16 \<Rightarrow> Val list \<Rightarrow> nat \<Rightarrow> bool" where
  "located a vs i \<longleftrightarrow> i < length vs \<and> getaddress (vs ! i) = uint a \<and> (\<forall>j<i. getaddress (vs ! j) \<noteq> uint a)"

lemma getbyaddress_eq:
  "i < length vs \<Longrightarrow> getaddress (vs ! i) = a \<Longrightarrow> (\<And>j. j < i \<Longrightarrow> getaddress (vs ! j) \<noteq> a) \<Longrightarrow>
    getbyaddress a vs k = (Some (vs ! i), k + i)"
proof (induction vs arbitrary: i k)
  case (Cons v vs)
  show ?case
  proof (cases i)
    case 0
    with Cons.prems show ?thesis by simp
  next
    case (Suc i')
    have "getaddress v \<noteq> a" using Cons.prems(3) [of 0] Suc by simp
    moreover have "getbyaddress a vs (Suc k) = (Some (vs ! i'), Suc k + i')"
    proof (rule Cons.IH)
      fix j
      assume "j < i'"
      with Cons.prems(3) [of "Suc j"] Suc show "getaddress (vs ! j) \<noteq> a" by simp
    qed (use Cons.prems Suc in simp_all)
    ultimately show ?thesis using Suc by simp
  qed
qed simp

lemma located_cursor: "located a vs i \<Longrightarrow> getbyaddress (uint a) vs 0 = cursor vs i"
  using getbyaddress_eq [of i vs "uint a" 0] by (simp add: located_def cursor_def)

lemma located_cong: "map vhandler vs = map vhandler ws \<Longrightarrow> located a vs i \<Longrightarrow> located a ws i"
proof -
  assume h: "map vhandler vs = map vhandler ws" and l: "located a vs i"
  have n: "length vs = length ws" using h by (metis length_map)
  have "getaddress (vs ! j) = getaddress (ws ! j)" if "j < length vs" for j
    using h that n by (metis getaddress_def nth_map)
  then show "located a ws i" using l n by (auto simp: located_def)
qed

definition write_pdu :: "u16 \<Rightarrow> Val list \<Rightarrow> u8 list" where
  "write_pdu a ws = [16] @ be2 a @ be2 (of_nat (total_regs ws)) @ [of_nat (2 * total_regs ws)] @ registers ws"

definition write_reply :: "u16 \<Rightarrow> Val list \<Rightarrow> u8 list" where
  "write_reply a ws = [16] @ be2 a @ be2 (of_nat (total_regs ws))"

definition read_pdu :: "u16 \<Rightarrow> nat \<Rightarrow> u8 list" where
  "read_pdu a n = [3] @ be2 a @ be2 (of_nat n)"

definition read_reply :: "Val list \<Rightarrow> u8 list" where
  "read_reply vs = [3, of_nat (2 * total_regs vs)] @ registers vs"

lemma length_be2 [simp]: "length (be2 r) = 2"
  by (simp add: be2_def)

lemma frame_loaded: "i < length pdu \<Longrightarrow> frame_byte (loaded (panel_frame t1 t2 pdu) s) (int i) = Some (pdu ! i)"
proof -
  assume i: "i < length pdu"
  have l: "length (panel_frame t1 t2 pdu) = 7 + length pdu" by (simp add: panel_frame_def)
  have "frame_byte (loaded (panel_frame t1 t2 pdu) s) (int i) = rd (panel_frame t1 t2 pdu @ drop (7 + length pdu) (workbuffer s)) (int (7 + i))"
    by (simp add: frame_byte_def loaded_def l)
  also have "\<dots> = Some ((panel_frame t1 t2 pdu @ drop (7 + length pdu) (workbuffer s)) ! (7 + i))"
    using i l by (intro rd_int) simp
  finally show ?thesis using i l by (simp add: nth_append) (simp add: panel_frame_def nth_append)
qed

lemma frame16_loaded:
  "Suc i < length pdu \<Longrightarrow> pdu ! i = word_of_int (uint r div 256) \<Longrightarrow> pdu ! Suc i = word_of_int (uint r mod 256) \<Longrightarrow>
    frame16 (loaded (panel_frame t1 t2 pdu) s) (int i) = Some r"
  using frame_loaded [of i pdu t1 t2 s] frame_loaded [of "Suc i" pdu t1 t2 s]
  by (simp add: frame16_def be16w_bytes add.commute)

lemma send_pdu:
  assumes "ucMBFrame s = 7" "workbuffer s = mbap t1 t2 k @ pdu @ rest" "length pdu \<le> 249"
  shows "eMBTCPSend (of_nat (length pdu)) s =
    Some (MB_EIO, s\<lparr>workbuffer := panel_frame t1 t2 pdu @ rest, responses := responses s @ [panel_frame t1 t2 pdu]\<rparr>)"
proof -
  have u: "uint (word_of_nat (length pdu) :: u16) = int (length pdu)" using assms(3) by (simp add: unsigned_of_nat take_bit_nat_eq_self)
  have u7: "uint (word_of_nat (length pdu) + 7 :: u16) = int (length pdu) + 7"
    using assms(3) u by (simp add: uint_word_ariths)
  have "wrs (workbuffer s) (0 + 4) [word_of_int ((int (length pdu) + 1) div 256), word_of_int ((int (length pdu) + 1) mod 256)] =
    Some (panel_frame t1 t2 pdu @ rest)"
    using assms(2) by (simp add: wrs_def mbap_def panel_frame_def numeral_eq_Suc add_ac)
  moreover have "rds (panel_frame t1 t2 pdu @ rest) 0 (int (length pdu) + 7) = Some (panel_frame t1 t2 pdu)"
  proof -
    have "nat (int (length pdu) + 7) = length (panel_frame t1 t2 pdu)" by (simp add: panel_frame_def nat_add_distrib)
    then show ?thesis by (simp add: rds_def panel_frame_def)
  qed
  ultimately show ?thesis using assms(1)
    by (simp add: eMBTCPSend_def u u7 xMBTCPPortSendResponse_def)
qed

lemma loaded_simps [simp]:
  "prms (loaded b s) = prms s" "ucMBFrame (loaded b s) = 7" "ucRcvAddress (loaded b s) = 255"
  "responses (loaded b s) = responses s" "usLength (loaded b s) = of_nat (length b) - 7"
  "workbuffer (loaded b s) = b @ drop (length b) (workbuffer s)" "flash_mem (loaded b s) = flash_mem s"
  by (simp_all add: loaded_def)

lemma uint_small: "n < 65536 \<Longrightarrow> uint (of_nat n :: u16) = int n" "n < 65536 \<Longrightarrow> unat (of_nat n :: u16) = n"
  by (simp_all add: unsigned_of_nat take_bit_nat_eq_self)

lemma ucast_small: "n < 65536 \<Longrightarrow> ucast (of_nat n :: u16) = (of_nat n :: u8)"
  using of_nat_unat [of "of_nat n :: u16", where 'a = "8 word"] by (simp add: uint_small(2))

lemma total_regs_pos: "ps \<noteq> [] \<Longrightarrow> 0 < total_regs ps"
  by (cases ps) auto

lemma located_at: "located a (pre @ ps @ post) (length pre) \<Longrightarrow> getbyaddress (uint a) (pre @ ps @ post) 0 = cursor (pre @ ps @ post) (length pre)"
  by (rule located_cursor)

text \<open>Writing a run of parameters.\<close>

lemma write_multiple_eq:
  assumes "located a (pre @ ps @ post) (length pre)" "assignable ps ws" "ps \<noteq> []" "total_regs ws \<le> 120"
    "prms s = pre @ ps @ post"
  shows "eMBFuncWriteMultipleHoldingRegister env (of_nat (6 + 2 * total_regs ws)) (loaded (panel_frame t1 t2 (write_pdu a ws)) s) =
    Some (MB_EX_NONE, 5, (loaded (panel_frame t1 t2 (write_pdu a ws)) s)\<lparr>prms := pre @ map (call_Val (fw_version env)) ws @ post\<rparr>)"
proof -
  let ?pdu = "write_pdu a ws" and ?n = "of_nat (total_regs ws) :: u16"
  let ?s = "loaded (panel_frame t1 t2 ?pdu) s"
  have ne: "ws \<noteq> []" using assms(2,3) by (auto simp: assignable_def)
  have n: "uint ?n = int (total_regs ws)" "unat ?n = total_regs ws" using assms(4) by (simp_all add: uint_small)
  have l: "length ?pdu = 6 + 2 * total_regs ws" by (simp add: write_pdu_def)
  have f: "frame16 ?s 1 = Some a" "frame16 ?s 3 = Some ?n" "frame_byte ?s 5 = Some (of_nat (2 * total_regs ws))"
    using frame16_loaded [of 1 ?pdu a t1 t2 s] frame16_loaded [of 3 ?pdu ?n t1 t2 s] frame_loaded [of 5 ?pdu t1 t2 s] l
    by (simp_all add: write_pdu_def be2_def nth_append)
  have c: "1 \<le> ?n" "?n \<le> 0x78" "(of_nat (2 * total_regs ws) :: u8) = ucast (2 * ?n)" "6 \<le> (of_nat (6 + 2 * total_regs ws) :: u16)"
  proof -
    show "1 \<le> ?n" "?n \<le> 0x78" using n(1) assms(4) total_regs_pos [OF ne] by (simp_all add: word_le_def)
    show "6 \<le> (of_nat (6 + 2 * total_regs ws) :: u16)" using assms(4) uint_small(1) [of "6 + 2 * total_regs ws"] by (simp add: word_le_def)
    show "(of_nat (2 * total_regs ws) :: u8) = ucast (2 * ?n)"
      using ucast_small [of "2 * total_regs ws"] assms(4) by simp
  qed
  have "write_regs_loop (fw_version env) (cursor (pre @ ps @ post) (length pre)) (total_regs ws) 13
      (panel_frame t1 t2 ?pdu @ drop (length (panel_frame t1 t2 ?pdu)) (workbuffer s)) (pre @ ps @ post) =
    Some (MB_ENOERR, pre @ map (call_Val (fw_version env)) ws @ post)"
    using write_regs_loop_eq [OF assms(2), of "fw_version env" pre post
        "mbap t1 t2 (length ?pdu) @ [16] @ be2 a @ be2 ?n @ [of_nat (2 * total_regs ws)]"
        "drop (length (panel_frame t1 t2 ?pdu)) (workbuffer s)"]
    by (simp add: panel_frame_def write_pdu_def)
  then have "eMBRegHoldingCB env 13 (a + 1) ?n MB_REG_WRITE ?s =
    Some (MB_ENOERR, ?s\<lparr>prms := pre @ map (call_Val (fw_version env)) ws @ post\<rparr>)"
    using located_at [OF assms(1)] assms(5) n(2) by (simp add: eMBRegHoldingCB_def)
  with f c show ?thesis by (simp add: eMBFuncWriteMultipleHoldingRegister_def)
qed

text \<open>Reading a run of parameters.\<close>

lemma read_holding_calls:
  assumes "1 \<le> n" "n \<le> 125" "length (workbuffer s) = 256"
  shows "eMBFuncReadHoldingRegister env 5 (loaded (panel_frame t1 t2 (read_pdu a n)) s) =
    eMBRegHoldingCB env 9 (a + 1) (of_nat n) MB_REG_READ ((loaded (panel_frame t1 t2 (read_pdu a n)) s)
      \<lparr>workbuffer := mbap t1 t2 5 @ [3, of_nat (2 * n)] @ drop 2 (read_pdu a n) @ drop 12 (workbuffer s)\<rparr>) \<bind>
    (\<lambda>(e, s). if e \<noteq> MB_ENOERR then Some (prveMBError2Exception e, 2, s) else Some (MB_EX_NONE, 2 + of_nat n * 2, s))"
proof -
  let ?pdu = "read_pdu a n" and ?n = "of_nat n :: u16"
  let ?s = "loaded (panel_frame t1 t2 ?pdu) s"
  have n: "uint ?n = int n" using assms(2) by (simp add: uint_small)
  have l: "length ?pdu = 5" "length (panel_frame t1 t2 ?pdu) = 12" by (simp_all add: read_pdu_def panel_frame_def)
  have f: "frame16 ?s 1 = Some a" "frame_byte ?s 3 = Some (word_of_int (uint ?n div 256))" "frame_byte ?s 4 = Some (of_nat n)"
    using frame16_loaded [of 1 ?pdu a t1 t2 s] frame_loaded [of 3 ?pdu t1 t2 s] frame_loaded [of 4 ?pdu t1 t2 s] assms(2)
    by (simp_all add: read_pdu_def be2_def nth_append n)
  have c: "1 \<le> ?n" "?n \<le> 0x7D" "ucast (of_nat n :: u8) = ?n" "ucast (?n * 2) = (of_nat (2 * n) :: u8)"
  proof -
    show "1 \<le> ?n" "?n \<le> 0x7D" using n assms(1,2) by (simp_all add: word_le_def)
    have "unat (of_nat n :: u8) = n" using assms(2) by (simp add: unsigned_of_nat take_bit_nat_eq_self)
    then show "ucast (of_nat n :: u8) = ?n" by (metis of_nat_unat)
    show "ucast (?n * 2) = (of_nat (2 * n) :: u8)" using ucast_small [of "2 * n"] assms(2) by (simp add: mult.commute)
  qed
  have p: "panel_frame t1 t2 ?pdu = mbap t1 t2 5 @ (?pdu ! 0) # (?pdu ! 1) # drop 2 ?pdu"
    by (simp add: panel_frame_def l(1)) (simp add: read_pdu_def be2_def)
  have s0: "set_frame 0 3 ?s = Some (?s\<lparr>workbuffer := mbap t1 t2 5 @ 3 # (?pdu ! 1) # drop 2 ?pdu @ drop 12 (workbuffer s)\<rparr>)"
    using p by (simp add: set_frame_def l wr_def nth_append list_update_append)
  have s1: "set_frame 1 b (?s\<lparr>workbuffer := mbap t1 t2 5 @ 3 # c # buf\<rparr>) = Some (?s\<lparr>workbuffer := mbap t1 t2 5 @ [3, b] @ buf\<rparr>)" for b c buf
    by (simp add: set_frame_def wr_def list_update_append)
  show ?thesis using f c by (simp add: eMBFuncReadHoldingRegister_def s0 s1 Let_def case_prod_unfold) (rule Option.bind_cong; simp)
qed

lemma read_holding_eq:
  assumes "located a (pre @ ps @ post) (length pre)" "list_all register_sized ps" "ps \<noteq> []" "total_regs ps \<le> 123"
    "prms s = pre @ ps @ post" "length (workbuffer s) = 256"
  shows "\<exists>rest. eMBFuncReadHoldingRegister env 5 (loaded (panel_frame t1 t2 (read_pdu a (total_regs ps))) s) =
    Some (MB_EX_NONE, of_nat (length (read_reply ps)), (loaded (panel_frame t1 t2 (read_pdu a (total_regs ps))) s)
      \<lparr>prms := pre @ map (call_Val (fw_version env)) ps @ post,
       workbuffer := mbap t1 t2 5 @ read_reply (map (call_Val (fw_version env)) ps) @ rest\<rparr>) \<and>
    length rest + length (read_reply ps) = 249"
proof -
  let ?pdu = "read_pdu a (total_regs ps)" and ?n = "of_nat (total_regs ps) :: u16"
  let ?vs = "pre @ map (call_Val (fw_version env)) ps @ post"
  have n: "unat ?n = total_regs ps" using assms(4) by (simp add: uint_small)
  define b2 where "b2 = take (2 * total_regs ps) (drop 2 ?pdu @ drop 12 (workbuffer s))"
  define b3 where "b3 = drop (2 * total_regs ps) (drop 2 ?pdu @ drop 12 (workbuffer s))"
  have b: "drop 2 ?pdu @ drop 12 (workbuffer s) = b2 @ b3" unfolding b2_def b3_def by (simp only: append_take_drop_id)
  have lb: "length b2 = 2 * total_regs ps" "length b3 = 247 - 2 * total_regs ps"
    using assms(4,6) by (simp_all add: b2_def b3_def read_pdu_def)
  have "read_regs_loop (fw_version env) (cursor (pre @ ps @ post) (length pre)) (total_regs ps) 9 (pre @ ps @ post)
      (mbap t1 t2 5 @ [3, of_nat (2 * total_regs ps)] @ b2 @ b3) =
    Some (MB_ENOERR, ?vs, mbap t1 t2 5 @ read_reply (map (call_Val (fw_version env)) ps) @ b3)"
    using read_regs_loop_eq [OF assms(2) lb(1), of "fw_version env" pre post "mbap t1 t2 5 @ [3, of_nat (2 * total_regs ps)]" b3]
    by (simp add: read_reply_def)
  then have "eMBFuncReadHoldingRegister env 5 (loaded (panel_frame t1 t2 ?pdu) s) =
    Some (MB_EX_NONE, 2 + ?n * 2, (loaded (panel_frame t1 t2 ?pdu) s)\<lparr>prms := ?vs,
      workbuffer := mbap t1 t2 5 @ read_reply (map (call_Val (fw_version env)) ps) @ b3\<rparr>)"
    using located_at [OF assms(1)] assms(4,5) n total_regs_pos [OF assms(3)]
    by (simp add: read_holding_calls [OF _ _ assms(6)] eMBRegHoldingCB_def b)
  moreover have "2 + ?n * 2 = of_nat (length (read_reply ps))" by (simp add: read_reply_def mult.commute)
  moreover have "length b3 + length (read_reply ps) = 249" using lb(2) assms(4) by (simp add: read_reply_def)
  ultimately show ?thesis by metis
qed

text \<open>A handler that succeeds: the reply is the first bytes that it leaves in the frame.\<close>

lemma execute_success:
  assumes "frame_byte s 0 = Some code" "map_of xFuncHandlers code = Some handler" "ucRcvAddress s = 255"
    "handler env (usLength s) s = Some (MB_EX_NONE, of_nat (length reply), s')"
    "ucMBFrame s' = 7" "ucRcvAddress s' = 255" "workbuffer s' = mbap t1 t2 k @ reply @ rest" "length reply \<le> 249"
  shows "execute env s = Some (s'\<lparr>usLength := of_nat (length reply), workbuffer := panel_frame t1 t2 reply @ rest,
    responses := responses s' @ [panel_frame t1 t2 reply]\<rparr>)"
  using assms send_pdu [of "s'\<lparr>usLength := of_nat (length reply)\<rparr>" t1 t2 k reply rest]
  by (simp add: execute_def)

lemma loaded_length: "usLength (loaded (panel_frame t1 t2 pdu) s) = of_nat (length pdu)"
  by (simp add: panel_frame_def)

lemma frame_0: "pdu \<noteq> [] \<Longrightarrow> frame_byte (loaded (panel_frame t1 t2 pdu) s) 0 = Some (pdu ! 0)"
  using frame_loaded [of 0 pdu t1 t2 s] by simp

definition replied :: "server \<Rightarrow> Val list \<Rightarrow> u8 list \<Rightarrow> server \<Rightarrow> bool" where
  "replied s vs reply s' \<longleftrightarrow> serving s' \<and> prms s' = vs \<and> responses s' = responses s @ [reply] \<and> flash_mem s' = flash_mem s"

lemma loaded_serving: "serving s \<Longrightarrow> eMBState (loaded b s) = STATE_ENABLED \<and> newconn (loaded b s) \<and> \<not> xEventInQueue (loaded b s)"
  by (simp add: loaded_def serving_def)

lemma ask_write:
  assumes "serving s" "located a (pre @ ps @ post) (length pre)" "assignable ps ws" "ps \<noteq> []" "total_regs ws \<le> 120"
    "prms s = pre @ ps @ post"
  shows "\<exists>s'. server_polls env (ask (panel_frame t1 t2 (write_pdu a ws))) s = Some s' \<and>
    replied s (pre @ map (call_Val (fw_version env)) ws @ post) (panel_frame t1 t2 (write_reply a ws)) s'"
proof -
  let ?pdu = "write_pdu a ws"
  let ?s = "loaded (panel_frame t1 t2 ?pdu) s"
  let ?s' = "?s\<lparr>prms := pre @ map (call_Val (fw_version env)) ws @ post\<rparr>"
  let ?rest = "[of_nat (2 * total_regs ws)] @ registers ws @ drop (length (panel_frame t1 t2 ?pdu)) (workbuffer s)"
  have l: "length ?pdu = 6 + 2 * total_regs ws" by (simp add: write_pdu_def)
  have w: "workbuffer ?s' = mbap t1 t2 (length ?pdu) @ write_reply a ws @ ?rest"
    by (simp add: panel_frame_def write_pdu_def write_reply_def)
  have r: "length (write_reply a ws) = 5" by (simp add: write_reply_def)
  have "eMBFuncWriteMultipleHoldingRegister env (usLength ?s) ?s = Some (MB_EX_NONE, of_nat (length (write_reply a ws)), ?s')"
    using write_multiple_eq [OF assms(2-6), of env t1 t2] r unfolding loaded_length l by simp
  moreover have "frame_byte ?s 0 = Some 16" using frame_0 [of ?pdu t1 t2 s] by (simp add: write_pdu_def)
  moreover have "map_of xFuncHandlers 16 = Some eMBFuncWriteMultipleHoldingRegister" by (simp add: xFuncHandlers_def)
  ultimately have "execute env ?s = Some (?s'\<lparr>usLength := of_nat (length (write_reply a ws)),
    workbuffer := panel_frame t1 t2 (write_reply a ws) @ ?rest, responses := responses ?s' @ [panel_frame t1 t2 (write_reply a ws)]\<rparr>)"
    using execute_success [of ?s 16 eMBFuncWriteMultipleHoldingRegister env "write_reply a ws" ?s' t1 t2 "length ?pdu" ?rest] w r by simp
  moreover have "length (panel_frame t1 t2 (write_reply a ws) @ ?rest) = 256"
  proof -
    have "length (panel_frame t1 t2 ?pdu) \<le> 256" using l assms(5) by (simp add: panel_frame_def)
    then show ?thesis using assms(1) l by (simp add: panel_frame_def r serving_def)
  qed
  ultimately show ?thesis using ask_polls [OF assms(1), of ?pdu env t1 t2] l assms(5) loaded_serving [OF assms(1), of "panel_frame t1 t2 ?pdu"]
    by (simp add: replied_def serving_def)
qed

lemma ask_read:
  assumes "serving s" "located a (pre @ ps @ post) (length pre)" "list_all register_sized ps" "ps \<noteq> []" "total_regs ps \<le> 123"
    "prms s = pre @ ps @ post"
  shows "\<exists>s'. server_polls env (ask (panel_frame t1 t2 (read_pdu a (total_regs ps)))) s = Some s' \<and>
    replied s (pre @ map (call_Val (fw_version env)) ps @ post) (panel_frame t1 t2 (read_reply (map (call_Val (fw_version env)) ps))) s'"
proof -
  let ?pdu = "read_pdu a (total_regs ps)" and ?vs = "map (call_Val (fw_version env)) ps"
  let ?s = "loaded (panel_frame t1 t2 ?pdu) s"
  have l: "length ?pdu = 5" by (simp add: read_pdu_def)
  have wb: "length (workbuffer s) = 256" using assms(1) by (simp add: serving_def)
  from read_holding_eq [OF assms(2-6) wb, of env t1 t2] obtain rest where
    h: "eMBFuncReadHoldingRegister env 5 ?s = Some (MB_EX_NONE, of_nat (length (read_reply ps)), ?s
      \<lparr>prms := pre @ ?vs @ post, workbuffer := mbap t1 t2 5 @ read_reply ?vs @ rest\<rparr>)"
    and rest: "length rest + length (read_reply ps) = 249" by blast
  have same: "length (read_reply ?vs) = length (read_reply ps)" by (simp add: read_reply_def)
  let ?s' = "?s\<lparr>prms := pre @ ?vs @ post, workbuffer := mbap t1 t2 5 @ read_reply ?vs @ rest\<rparr>"
  have "eMBFuncReadHoldingRegister env (usLength ?s) ?s = Some (MB_EX_NONE, of_nat (length (read_reply ?vs)), ?s')"
    using h unfolding loaded_length l same by simp
  moreover have "frame_byte ?s 0 = Some 3" using frame_0 [of ?pdu t1 t2 s] by (simp add: read_pdu_def)
  moreover have "map_of xFuncHandlers 3 = Some eMBFuncReadHoldingRegister" by (simp add: xFuncHandlers_def)
  ultimately have "execute env ?s = Some (?s'\<lparr>usLength := of_nat (length (read_reply ?vs)),
    workbuffer := panel_frame t1 t2 (read_reply ?vs) @ rest, responses := responses ?s' @ [panel_frame t1 t2 (read_reply ?vs)]\<rparr>)"
    using execute_success [of ?s 3 eMBFuncReadHoldingRegister env "read_reply ?vs" ?s' t1 t2 5 rest] rest same by simp
  then show ?thesis using ask_polls [OF assms(1), of ?pdu env t1 t2] l rest same loaded_serving [OF assms(1), of "panel_frame t1 t2 ?pdu"]
    by (simp add: replied_def serving_def panel_frame_def)
qed

section \<open>Limits\<close>

text \<open>The parameters of the panel, each within its limits.\<close>

definition params_ok :: "Val list \<Rightarrow> bool" where
  "params_ok vs \<longleftrightarrow> map vhandler vs = parametres \<and> list_all val_ok vs"

lemma callbacks_wide: "list_all (\<lambda>h. vcallback h \<noteq> None \<longrightarrow> vmin h = 0 \<and> vmax h = 65535) parametres"
  by (simp add: parametres_def prm_def)

lemma call_ok:
  assumes "params_ok vs" "i < length vs" "val_ok v" "vhandler v = vhandler (vs ! i)"
  shows "params_ok (vs[i := call_Val version v])"
proof -
  have h: "vhandler v \<in> set parametres" using assms unfolding params_ok_def by (metis length_map nth_map nth_mem)
  have "val_ok (call_Val version v)"
  proof (cases "vcallback (vhandler v)")
    case None
    then show ?thesis using assms(3) by (simp add: call_Val_def)
  next
    case (Some c)
    then have "vmin (vhandler v) = 0 \<and> vmax (vhandler v) = 65535" using callbacks_wide h by (auto simp: list_all_iff)
    moreover have "uint (x :: u16) \<le> 65535" for x using uint_lt2p [of x] by simp
    ultimately show ?thesis using assms(3) Some
      by (cases c) (auto simp: call_Val_def getFwVer_def val_ok_def split: prod.split)
  qed
  moreover have "map vhandler (vs[i := call_Val version v]) = map vhandler vs"
    unfolding assms(4) map_update vhandler_call by (metis list_update_id map_update)
  ultimately show ?thesis using assms(1) assms(2) by (auto simp: params_ok_def list_all_length nth_list_update)
qed

definition at_cursor :: "Val list \<Rightarrow> Val option \<times> nat \<Rightarrow> bool" where
  "at_cursor vs ph \<longleftrightarrow> (\<forall>v. fst ph = Some v \<longrightarrow> snd ph < length vs \<and> v = vs ! snd ph)"

lemma at_cursor_next [simp]: "at_cursor vs (getNext vs i)"
  by (simp add: at_cursor_def getNext_cursor cursor_def)

lemma at_cursor_address: "at_cursor vs (getbyaddress a vs 0)"
proof -
  have "k \<le> i \<and> i < k + length vs \<and> v = vs ! (i - k)" if "getbyaddress a vs k = (Some v, i)" for k i v
    using that
  proof (induction vs arbitrary: k)
    case (Cons p vs)
    show ?case
    proof (cases "a = getaddress p")
      case False
      with Cons.prems have "getbyaddress a vs (Suc k) = (Some v, i)" by simp
      from Cons.IH [OF this] have *: "Suc k \<le> i" "i < Suc k + length vs" "v = vs ! (i - Suc k)" by auto
      then have "i - k = Suc (i - Suc k)" by simp
      with * show ?thesis by simp
    qed (use Cons.prems in simp)
  qed simp
  then show ?thesis by (cases "getbyaddress a vs 0") (fastforce simp: at_cursor_def)
qed

lemma read_regs_loop_ok:
  "params_ok vs \<Longrightarrow> at_cursor vs ph \<Longrightarrow> read_regs_loop version ph n pos vs buf = Some (e, vs', buf') \<Longrightarrow> params_ok vs'"
proof (induction n arbitrary: ph pos vs buf rule: less_induct)
  case (less n)
  show ?case
  proof (cases "fst ph = None \<or> n = 0")
    case True
    then show ?thesis using less.prems(1,3) by (cases ph) (auto simp: read_regs_loop.simps [of _ _ n] split: if_splits)
  next
    case False
    then obtain v i where ph: "ph = (Some v, i)" and n: "0 < n" by (cases ph) auto
    have i: "i < length vs" "v = vs ! i" using less.prems(2) ph by (auto simp: at_cursor_def)
    have "val_ok v" using less.prems(1) i by (simp add: params_ok_def list_all_length)
    then have ok: "params_ok (vs[i := call_Val version v])" using call_ok [OF less.prems(1) i(1)] i(2) by simp
    note IH = less.IH [OF _ ok at_cursor_next]
    show ?thesis using IH [of "n - 1"] IH [of "n - 2"] less.prems(1,3) n
      by (subst (asm) read_regs_loop.simps) (auto simp: ph Let_def split: if_splits option.splits)
  qed
qed

lemma write_regs_loop_ok:
  "params_ok vs \<Longrightarrow> at_cursor vs ph \<Longrightarrow> write_regs_loop version ph n pos buf vs = Some (e, vs') \<Longrightarrow> params_ok vs'"
proof (induction n arbitrary: ph pos vs rule: less_induct)
  case (less n)
  show ?case
  proof (cases "fst ph = None \<or> n = 0")
    case True
    then show ?thesis using less.prems(1,3) by (cases ph) (auto simp: write_regs_loop.simps [of _ _ n] split: if_splits)
  next
    case False
    then obtain v i where ph: "ph = (Some v, i)" and n: "0 < n" by (cases ph) auto
    have i: "i < length vs" "v = vs ! i" using less.prems(2) ph by (auto simp: at_cursor_def)
    have v: "val_ok v" using less.prems(1) i by (simp add: params_ok_def list_all_length)
    have ok: "params_ok (vs[i := call_Val version w])" if "deserialize_Val bs v = (True, w)" for bs w
      using call_ok [OF less.prems(1) i(1), of w version] deserialize_Val_ok [OF v, of bs] that i(2) by simp
    note IH = less.IH [OF _ ok at_cursor_next]
    show ?thesis using IH [of "n - 1"] IH [of "n - 2"] less.prems(1,3) n
      by (subst (asm) write_regs_loop.simps)
        (auto simp: ph Let_def split: if_splits option.splits prod.splits bool.splits)
  qed
qed

definition keeps :: "server \<Rightarrow> server \<Rightarrow> bool" where
  "keeps s s' \<longleftrightarrow> (params_ok (prms s) \<longrightarrow> params_ok (prms s'))"

lemma keepsI: "prms s' = prms s \<Longrightarrow> keeps s s'"
  by (simp add: keeps_def)

lemma keeps_trans: "keeps s t \<Longrightarrow> keeps t u \<Longrightarrow> keeps s u"
  by (simp add: keeps_def)

text \<open>A computation whose results all satisfy a predicate.\<close>

definition yields :: "('a \<Rightarrow> bool) \<Rightarrow> 'a option \<Rightarrow> bool" where
  "yields P m \<longleftrightarrow> (\<forall>r. m = Some r \<longrightarrow> P r)"

lemma yields_Some: "P r \<Longrightarrow> yields P (Some r)"
  by (simp add: yields_def)

lemma yields_bind: "(\<And>x. m = Some x \<Longrightarrow> yields P (f x)) \<Longrightarrow> yields P (m \<bind> f)"
  by (cases m) (simp_all add: yields_def)

lemma yields_step: "yields Q m \<Longrightarrow> (\<And>x. Q x \<Longrightarrow> yields P (f x)) \<Longrightarrow> yields P (m \<bind> f)"
  by (cases m) (simp_all add: yields_def)

lemma yields_if: "(b \<Longrightarrow> yields P m) \<Longrightarrow> (\<not> b \<Longrightarrow> yields P n) \<Longrightarrow> yields P (if b then m else n)"
  by simp

lemma yieldsD: "yields P m \<Longrightarrow> m = Some r \<Longrightarrow> P r"
  by (simp add: yields_def)

abbreviation (input) "keeping1 s \<equiv> yields (\<lambda>(e, s'). keeps s s')"
abbreviation (input) "keeping2 s \<equiv> yields (\<lambda>(e, n, s'). keeps s s')"

lemma registers_keep: "keeping1 s (eMBRegHoldingCB env pos a n mode s)"
proof (cases mode)
  case MB_REG_READ
  then show ?thesis using read_regs_loop_ok [OF _ at_cursor_address, where version = "fw_version env"]
    by (auto simp: eMBRegHoldingCB_def Let_def yields_def keeps_def Option.bind_eq_Some_conv)
next
  case MB_REG_WRITE
  then show ?thesis using write_regs_loop_ok [OF _ at_cursor_address, where version = "fw_version env"]
    by (auto simp: eMBRegHoldingCB_def Let_def yields_def keeps_def Option.bind_eq_Some_conv)
qed

lemma set_frame_keep: "yields (keeps s) (set_frame i b s)"
  by (auto simp: set_frame_def yields_def keeps_def)

lemma record_keep: "keeping1 s (eMBFileRecordCB env pos f r n mode s)"
  by (auto simp: eMBFileRecordCB_def Let_def yields_def keeps_def Option.bind_eq_Some_conv)

lemma keeping_via: "keeps s t \<Longrightarrow> keeping2 t m \<Longrightarrow> keeping2 s m"
  by (auto simp: yields_def intro: keeps_trans)

lemma file_records_keep: "keeping2 s (file_records env cur end e n s)"
proof (induction env cur "end" e n s rule: file_records.induct)
  case (1 env cur "end" e n s)
  show ?case
  proof (cases "cur < end")
    case False
    then show ?thesis by (simp add: file_records.simps [of env cur] yields_def keeps_def)
  next
    case True
    show ?thesis
    proof (cases "frame16 s (cur + 1) = None \<or> frame16 s (cur + 3) = None \<or> frame16 s (cur + 5) = None")
      case True
      with \<open>cur < end\<close> show ?thesis by (auto simp: file_records.simps [of env cur] yields_def split: option.splits)
    next
      case False
      then obtain f r k where fr: "frame16 s (cur + 1) = Some f" "frame16 s (cur + 3) = Some r" "frame16 s (cur + 5) = Some k"
        by auto
      show ?thesis
      proof (cases "eMBFileRecordCB env (ucMBFrame s + cur + 7) f r k MB_REG_WRITE s")
        case None
        with fr \<open>cur < end\<close> show ?thesis by (simp add: file_records.simps [of env cur] yields_def)
      next
        case (Some es)
        obtain e' t where es: "es = (e', t)" by (cases es)
        have "keeps s t" using yieldsD [OF record_keep Some] es by simp
        moreover have "keeping2 t (file_records env (cur + 1 + 2 + 2 + 2 + uint k * 2) end
            (if e' \<noteq> MB_ENOERR then prveMBError2Exception e' else e) (n + (1 + 2 + 2 + 2 + k * 2)) t)"
          using 1 [OF True refl fr(1) refl fr(2) fr(3) Some es [symmetric]] by simp
        moreover have "file_records env cur end e n s = file_records env (cur + 1 + 2 + 2 + 2 + uint k * 2) end
            (if e' \<noteq> MB_ENOERR then prveMBError2Exception e' else e) (n + (1 + 2 + 2 + 2 + k * 2)) t"
          using fr Some es True by (subst file_records.simps) simp
        ultimately show ?thesis by (simp only: keeping_via)
      qed
    qed
  qed
qed

lemma yields_pair: "(\<And>a b. x = (a, b) \<Longrightarrow> yields P (f a b)) \<Longrightarrow> yields P (case x of (a, b) \<Rightarrow> f a b)"
  by (cases x) simp

lemma keeps_facts:
  "set_frame i b s = Some s' \<Longrightarrow> keeps s s'"
  "eMBRegHoldingCB env pos a n mode s = Some (e, s') \<Longrightarrow> keeps s s'"
  "file_records env cur end ex k s = Some (ex', k', s') \<Longrightarrow> keeps s s'"
  using yieldsD [OF set_frame_keep] yieldsD [OF registers_keep] yieldsD [OF file_records_keep] by fastforce+

lemmas yields_intros = yields_if yields_bind yields_pair yields_Some

lemma handlers_keep:
  "keeping2 s (eMBFuncReportSlaveID env n s)"
  "keeping2 s (eMBFuncReadHoldingRegister env n s)"
  "keeping2 s (eMBFuncWriteMultipleHoldingRegister env n s)"
  "keeping2 s (eMBFuncWriteHoldingRegister env n s)"
  "keeping2 s (eMBFuncWriteFileRecord env n s)"
  "keeping2 s (eMBFuncReadWriteMultipleHoldingRegister env n s)"
  unfolding eMBFuncReportSlaveID_def eMBFuncReadHoldingRegister_def eMBFuncWriteMultipleHoldingRegister_def
    eMBFuncWriteHoldingRegister_def eMBFuncWriteFileRecord_def eMBFuncReadWriteMultipleHoldingRegister_def Let_def
  by ((intro yields_intros; auto dest!: keeps_facts simp: keeps_def)[1])+

lemma handler_keep: "map_of xFuncHandlers code = Some handler \<Longrightarrow> keeping2 s (handler env n s)"
  by (auto simp: xFuncHandlers_def handlers_keep split: if_splits)

lemma send_keep: "keeping1 s (eMBTCPSend n s)"
  by (auto simp: eMBTCPSend_def Let_def Option.bind_eq_Some_conv xMBTCPPortSendResponse_def yields_def keeps_def)

lemma execute_keep: "yields (keeps s) (execute env s)"
proof -
  have h: "keeps s t" if "(case map_of xFuncHandlers code of None \<Rightarrow> Some (MB_EX_ILLEGAL_FUNCTION, usLength s, s)
      | Some handler \<Rightarrow> handler env (usLength s) s) = Some (e, n, t)" for code e n t
    using that yieldsD [OF handler_keep] by (fastforce simp: keeps_def split: option.splits)
  have send: "eMBTCPSend n t = Some (e, u) \<Longrightarrow> keeps t u" for n t e u
    using yieldsD [OF send_keep] by fastforce
  show ?thesis unfolding execute_def Let_def
    by (intro yields_intros; auto dest!: h send keeps_facts simp: keeps_def split: if_splits bind_splits)
qed

lemma receive_keep: "keeping1 s (eMBTCPReceive env up rc s)"
  by (auto simp: eMBTCPReceive_def xMBTCPPortGetRequest_def xMBTCPPortSendResponse_def Let_def yields_def keeps_def
      Option.bind_eq_Some_conv split: if_splits tcp_reception.splits)

lemma event_keep: "xMBPortEventGet acc s = (ev, t) \<Longrightarrow> keeps s t"
  by (auto simp: xMBPortEventGet_def xMBPortTCPPoll_def xMBPortEventPost_def Let_def keeps_def split: if_splits)

lemma poll_keep: "keeping1 s (eMBPoll env acc up rc s)"
proof (cases "eMBState s = STATE_ENABLED")
  case True
  obtain ev t where ev: "xMBPortEventGet acc s = (ev, t)" by fastforce
  note k = event_keep [OF ev]
  have r: "keeping1 s (eMBTCPReceive env up rc t \<bind> (\<lambda>(eStatus, s). if eStatus = MB_ENOERR then
      (if ucRcvAddress s = 255 \<or> ucRcvAddress s = 0 then Some (MB_ENOERR, xMBPortEventPost EV_EXECUTE s)
       else Some (MB_ENOERR, s)) else Some (MB_ENOERR, s)))"
    using k by (intro yields_step [OF receive_keep]) (auto simp: yields_def keeps_def xMBPortEventPost_def split: if_splits)
  have x: "keeping1 s (execute env t \<bind> (\<lambda>s. Some (MB_ENOERR, s)))"
    using k by (intro yields_step [OF execute_keep]) (auto simp: yields_def keeps_def)
  have o: "keeping1 s (Some (MB_ENOERR, t))" using k by (simp add: yields_def)
  consider "ev = None" | e where "ev = Some e" by (cases ev)
  then show ?thesis
  proof cases
    case (2 e)
    then show ?thesis using True ev r x o by (cases e) (simp_all only: eMBPoll_def Let_def split option.case eMBEventType.case simp_thms if_False)
  qed (use True ev o in \<open>simp add: eMBPoll_def\<close>)
next
  case False
  then show ?thesis by (simp add: eMBPoll_def yields_def keeps_def)
qed

lemma polls_keep: "server_polls env es s = Some s' \<Longrightarrow> keeps s s'"
proof (induction env es s rule: server_polls.induct)
  case (2 env accepted link_up rc es s)
  from 2(2) obtain e t where "eMBPoll env accepted link_up rc s = Some (e, t)" "server_polls env es t = Some s'"
    by (auto simp: Option.bind_eq_Some_conv)
  with 2(1) yieldsD [OF poll_keep, of env accepted link_up rc s "(e, t)"] show ?case by (auto intro: keeps_trans)
qed (simp add: keeps_def)

section \<open>Properties\<close>


text \<open>A server that has just accepted its client.\<close>

definition sample_server :: server where
  "sample_server = \<lparr>prms = valuearray, flash_mem = sample_memory, workbuffer = replicate 256 0, newconn = True,
     responses = [], closed = 0, xEventInQueue = False, eQueuedEvent = EV_READY, eMBState = STATE_ENABLED,
     frame_functions = True, ucMBFrame = 0, ucRcvAddress = 0, usLength = 0, ucMBSlaveID = []\<rparr>"

definition sample_platform :: platform where
  "sample_platform = \<lparr>fw_version = (1, 2, 3, 0), flash_hw = stm32_flash, tcpModbusRequest = (\<lambda>bs. [])\<rparr>"

text \<open>C11: What a client writes, it reads back: after a write of values within the limits to consecutive
  parameters, from the address of the first, the server acknowledges, the parameters have these values,
  all others keep theirs, and a read of the same registers returns the registers written.\<close>

theorem panel_write_then_read:
  assumes "serving s" "prms s = pre @ ps @ post" "located a (prms s) (length pre)" "ps \<noteq> []" "assignable ps ws"
    "list_all (\<lambda>w. vcallback (vhandler w) = None) ws" "total_regs ws \<le> 120"
  shows "\<exists>s'. server_polls env (ask (panel_frame t1 t2 (write_pdu a ws)) @
      ask (panel_frame t3 t4 (read_pdu a (total_regs ws)))) s = Some s' \<and> serving s' \<and>
    prms s' = pre @ ws @ post \<and>
    responses s' = responses s @ [panel_frame t1 t2 (write_reply a ws), panel_frame t3 t4 (read_reply ws)]"
proof -
  have c: "map (call_Val (fw_version env)) ws = ws"
    using assms(6) by (induction ws) (simp_all add: call_Val_def)
  have l: "located a (pre @ ps @ post) (length pre)" using assms(2,3) by simp
  obtain s1 where s1: "server_polls env (ask (panel_frame t1 t2 (write_pdu a ws))) s = Some s1"
    "replied s (pre @ ws @ post) (panel_frame t1 t2 (write_reply a ws)) s1"
    using ask_write [OF assms(1) l assms(5,4,7,2), of env t1 t2] c by auto
  have h: "map vhandler ps = map vhandler ws" "ws \<noteq> []" "list_all register_sized ws"
    using assms(4,5) by (auto simp: assignable_def list_all2_conv_all_nth list_all_length intro!: nth_equalityI)
  have l1: "located a (pre @ ws @ post) (length pre)" by (rule located_cong [OF _ l]) (simp add: h(1))
  obtain s2 where "server_polls env (ask (panel_frame t3 t4 (read_pdu a (total_regs ws)))) s1 = Some s2"
    "replied s1 (pre @ ws @ post) (panel_frame t3 t4 (read_reply ws)) s2"
    using ask_read [of s1 a pre ws post env t3 t4] l1 h s1(2) assms(7) c by (auto simp: replied_def)
  with s1 show ?thesis by (simp add: server_polls_append replied_def)
qed

lemma sample_serving: "serving sample_server"
  by (simp add: serving_def sample_server_def)

definition sample_brightness :: "Val list" where
  "sample_brightness = [(valuearray ! 6)\<lparr>val := 50\<rparr>, (valuearray ! 7)\<lparr>val := 0\<rparr>]"

lemma split_two: "Suc n < length xs \<Longrightarrow> xs = take n xs @ [xs ! n, xs ! Suc n] @ drop (Suc (Suc n)) xs"
  by (simp add: Cons_nth_drop_Suc)

lemma length_valuearray: "length valuearray = 79"
  by (simp add: valuearray_def parametres_def)

lemma valuearray_split: "valuearray = take 6 valuearray @ [valuearray ! 6, valuearray ! 7] @ drop 8 valuearray"
  using split_two [of 6 valuearray] by (simp add: length_valuearray numeral_eq_Suc)

lemma sample_located: "located 0x101 valuearray 6"
proof -
  have "map getaddress (take 7 valuearray) = [0, 1, 2, 3, 4, 0, 257]"
    by (simp add: valuearray_def parametres_def prm_def new_Val_def getaddress_def)
  moreover have "getaddress (valuearray ! j) = map getaddress (take 7 valuearray) ! j" if "j < 7" for j
    using that by (simp add: length_valuearray)
  ultimately have a: "getaddress (valuearray ! j) = [0, 1, 2, 3, 4, 0, 257] ! j" if "j < 7" for j using that by simp
  have "\<forall>j<6. [0, 1, 2, 3, 4, 0, 257 :: int] ! j \<noteq> 257" by (simp add: numeral_eq_Suc All_less_Suc)
  with a show ?thesis by (simp add: located_def length_valuearray)
qed

lemma sample_assignable: "assignable [valuearray ! 6, valuearray ! 7] sample_brightness"
  by (simp add: assignable_def sample_brightness_def valuearray_def parametres_def prm_def new_Val_def val_ok_def
      handler_ok_def register_sized_def getsize_def cmin_def cmax_def)

theorem panel_write_then_read_witness:
  "\<exists>s'. server_polls sample_platform (ask (panel_frame 0 1 (write_pdu 0x101 sample_brightness)) @
      ask (panel_frame 0 2 (read_pdu 0x101 (total_regs sample_brightness)))) sample_server = Some s' \<and> serving s' \<and>
    prms s' = take 6 valuearray @ sample_brightness @ drop 8 valuearray \<and>
    responses s' = responses sample_server @ [panel_frame 0 1 (write_reply 0x101 sample_brightness), panel_frame 0 2 (read_reply sample_brightness)]"
proof (rule panel_write_then_read [OF sample_serving _ _ _ sample_assignable])
  show "prms sample_server = take 6 valuearray @ [valuearray ! 6, valuearray ! 7] @ drop 8 valuearray"
    using valuearray_split by (simp add: sample_server_def)
  show "located 0x101 (prms sample_server) (length (take 6 valuearray))"
    using sample_located by (simp add: sample_server_def length_valuearray)
  show "list_all (\<lambda>w. vcallback (vhandler w) = None) sample_brightness" "total_regs sample_brightness \<le> 120"
    by (simp_all add: sample_brightness_def valuearray_def parametres_def prm_def new_Val_def nregs_def getsize_def)
qed simp


text \<open>A read that goes on beyond a run of parameters.\<close>

lemma read_regs_loop_run:
  "list_all register_sized ps \<Longrightarrow> length b2 = 2 * total_regs ps \<Longrightarrow>
    read_regs_loop ver (cursor (pre @ ps @ post) (length pre)) (total_regs ps + n) (int (length b1)) (pre @ ps @ post) (b1 @ b2 @ b3) =
    read_regs_loop ver (cursor (pre @ map (call_Val ver) ps @ post) (length pre + length ps)) n (int (length b1 + length b2))
      (pre @ map (call_Val ver) ps @ post) (b1 @ registers (map (call_Val ver) ps) @ b3)"
proof (induction ps arbitrary: pre b1 b2)
  case (Cons p ps)
  define x y where "x = take (2 * nregs p) b2" and "y = drop (2 * nregs p) b2"
  have b2: "b2 = x @ y" "length x = 2 * nregs p" "length y = 2 * total_regs ps"
    using Cons.prems(2) by (simp_all add: x_def y_def)
  have "read_regs_loop ver (cursor (pre @ p # (ps @ post)) (length pre)) (nregs p + (total_regs ps + n)) (int (length b1)) (pre @ p # (ps @ post)) (b1 @ x @ (y @ b3))
    = read_regs_loop ver (cursor (pre @ map (call_Val ver) (p # ps) @ post) (length pre + length (p # ps))) n (int (length b1 + length b2))
      (pre @ map (call_Val ver) (p # ps) @ post) (b1 @ registers (map (call_Val ver) (p # ps)) @ b3)"
    using Cons.prems(1) b2 Cons.IH [of y "pre @ [call_Val ver p]" "b1 @ regs_of (call_Val ver p)"]
    by (subst read_regs_loop_step) (simp_all add: add_ac nregs_def)
  then show ?case by (simp add: b2(1) add_ac)
qed simp

lemma read_regs_loop_mac:
  "getsize v = 8 \<Longrightarrow> read_regs_loop ver (cursor (pre @ v # post) (length pre)) (Suc n) pos (pre @ v # post) buf = None"
  by (subst read_regs_loop.simps) (simp add: Let_def wrs_def)

lemma panel_prefix:
  assumes "map vhandler vs = parametres"
  shows "length vs = 79" "located 0 vs 0" "list_all register_sized (take 62 vs)" "total_regs (take 62 vs) = 83" "getsize (vs ! 62) = 8"
proof -
  show l: "length vs = 79" using arg_cong [OF assms, of length] by (simp add: parametres_def)
  have h: "vhandler (vs ! i) = parametres ! i" if "i < 79" for i using assms that l by (metis nth_map)
  have "vaddr (vhandler (vs ! 0)) = 0" using h [of 0] by (simp add: parametres_def prm_def)
  then show "located 0 vs 0" using l by (simp add: located_def getaddress_def)
  have t: "map vhandler (take 62 vs) = take 62 parametres" using assms by (metis take_map)
  have r: "register_sized v = (csize (vtype (vhandler v)) \<in> {1, 2, 4})" for v by (simp add: register_sized_def getsize_def)
  have "list_all (\<lambda>h. csize (vtype h) \<in> {1, 2, 4}) (take 62 parametres)" by (simp add: parametres_def prm_def)
  then show "list_all register_sized (take 62 vs)" unfolding t [symmetric] by (simp add: list_all_iff r)
  have "sum_list (map (\<lambda>h. if csize (vtype h) = 4 then 2 else 1 :: nat) (take 62 parametres)) = 83" by (simp add: parametres_def prm_def)
  then have "sum_list (map ((\<lambda>h. if csize (vtype h) = 4 then 2 else 1 :: nat) \<circ> vhandler) (take 62 vs)) = 83"
    unfolding t [symmetric] by simp
  moreover have "nregs = (\<lambda>h. if csize (vtype h) = 4 then 2 else 1 :: nat) \<circ> vhandler"
    by (rule ext) (simp add: nregs_def getsize_def)
  ultimately show "total_regs (take 62 vs) = 83" by (simp only: total_regs_def)
  show "getsize (vs ! 62) = 8" using h [of 62] by (simp add: getsize_def parametres_def prm_def)
qed

text \<open>C40: A read of 84 registers or more from address 0 reaches the parameter \<open>mac0\<close>, whose eight bytes
  the server serializes into a buffer of four: the stack is overrun.  Up to 83 registers are served.\<close>

theorem panel_read_overruns_stack:
  assumes "serving s" "map vhandler (prms s) = parametres" "84 \<le> n" "n \<le> 125"
  shows "server_polls env (ask (panel_frame t1 t2 (read_pdu 0 n))) s = None"
proof -
  let ?pdu = "read_pdu 0 n" and ?ver = "fw_version env"
  note p = panel_prefix [OF assms(2)]
  have wb: "length (workbuffer s) = 256" using assms(1) by (simp add: serving_def)
  define buf where "buf = drop 2 ?pdu @ drop 12 (workbuffer s)"
  obtain k where k: "n = 84 + k" using assms(3) le_Suc_ex by blast
  have lb: "length (take 166 buf) = 166" using wb by (simp add: buf_def read_pdu_def)
  have vs: "prms s = take 62 (prms s) @ prms s ! 62 # drop 63 (prms s)" using id_take_nth_drop [of 62 "prms s"] p(1) by simp
  have "read_regs_loop ?ver (cursor (take 62 (prms s) @ prms s ! 62 # drop 63 (prms s)) 0) n 9 (take 62 (prms s) @ prms s ! 62 # drop 63 (prms s))
      ((mbap t1 t2 5 @ [3, of_nat (2 * n)]) @ take 166 buf @ drop 166 buf) = None"
    using read_regs_loop_run [OF p(3), of "take 166 buf" ?ver "[]" "prms s ! 62 # drop 63 (prms s)" "n - 83"
        "mbap t1 t2 5 @ [3, of_nat (2 * n)]" "drop 166 buf"] p(4) lb
      read_regs_loop_mac [OF p(5), of ?ver "map (call_Val ?ver) (take 62 (prms s))" "drop 63 (prms s)" k] p(1)
    by (simp add: k)
  then have "read_regs_loop ?ver (cursor (prms s) 0) n 9 (prms s) (mbap t1 t2 5 @ [3, of_nat (2 * n)] @ buf) = None"
    using vs by simp
  then have "eMBFuncReadHoldingRegister env 5 (loaded (panel_frame t1 t2 ?pdu) s) = None"
    using located_cursor [OF p(2)] assms(3,4) wb
    by (simp add: read_holding_calls eMBRegHoldingCB_def uint_small buf_def)
  moreover have "frame_byte (loaded (panel_frame t1 t2 ?pdu) s) 0 = Some 3" using frame_0 [of ?pdu t1 t2 s] by (simp add: read_pdu_def)
  moreover have "usLength (loaded (panel_frame t1 t2 ?pdu) s) = 5" by (simp only: loaded_length) (simp add: read_pdu_def)
  ultimately have "execute env (loaded (panel_frame t1 t2 ?pdu) s) = None"
    by (simp add: execute_def xFuncHandlers_def)
  then show ?thesis using ask_polls [OF assms(1), of ?pdu env t1 t2] by (simp add: read_pdu_def)
qed

theorem panel_read_overruns_stack_witness:
  "server_polls sample_platform (ask (panel_frame 0 1 (read_pdu 0 84))) sample_server = None"
  by (rule panel_read_overruns_stack [OF sample_serving])
    (simp_all add: sample_server_def valuearray_def new_Val_def comp_def)

section \<open>Uploading firmware\<close>

definition place :: "mem \<Rightarrow> int \<Rightarrow> u8 list \<Rightarrow> mem" where
  "place m a bs = (\<lambda>x. if a \<le> x \<and> x < a + int (length bs) then Some (bs ! nat (x - a)) else m x)"

lemma place_Nil [simp]: "place m a [] = m"
  by (rule ext) (auto simp: place_def)

lemma place_Cons: "place (m(a \<mapsto> b)) (a + 1) bs = place m a (b # bs)"
proof (rule ext)
  fix x
  have "nat (x - (a + 1)) = nat (x - a) - 1" by arith
  then show "place (m(a \<mapsto> b)) (a + 1) bs x = place m a (b # bs) x" by (auto simp: place_def nth_Cons')
qed

lemma place_place: "place (place m a bs) (a + int (length bs)) cs = place m a (bs @ cs)"
proof (rule ext)
  fix x
  have "nat (x - (a + int (length bs))) = nat (x - a) - length bs" by arith
  then show "place (place m a bs) (a + int (length bs)) cs x = place m a (bs @ cs) x"
    by (auto simp: place_def nth_append)
qed

lemma program_bytes_eq:
  "flash_works hw \<Longrightarrow> (\<And>x. a \<le> x \<Longrightarrow> x < a + int (length bs) \<Longrightarrow> m x = Some 0xFF) \<Longrightarrow> program_bytes hw a bs m = place m a bs"
proof (induction bs arbitrary: a m)
  case (Cons b bs)
  have "m a = Some 0xFF" using Cons.prems(2) [of a] by simp
  then have p: "program hw a b m = m(a \<mapsto> b)" by (rule program_erased [OF Cons.prems(1)])
  have "program_bytes hw (a + 1) bs (m(a \<mapsto> b)) = place (m(a \<mapsto> b)) (a + 1) bs"
    by (rule Cons.IH [OF Cons.prems(1)]) (use Cons.prems(2) in simp)
  then show ?case by (simp add: p place_Cons)
qed simp

lemma record_bytes_eq:
  "length bs = 2 * n \<Longrightarrow> length m = 128 \<Longrightarrow> 2 * (i + n) \<le> 128 \<Longrightarrow>
    record_bytes n (int i) (int (length b1)) (b1 @ bs @ b3) m = Some (take (2 * i) m @ bs @ drop (2 * (i + n)) m)"
proof (induction n arbitrary: i b1 bs m)
  case (Suc n)
  obtain x y bs' where bs: "bs = x # y # bs'" "length bs' = 2 * n"
    using Suc.prems(1) by (cases bs; cases "tl bs") auto
  let ?m = "m[2 * i := x, 2 * i + 1 := y]"
  have r: "rds (b1 @ bs @ b3) (int (length b1)) 2 = Some [x, y]" by (simp add: rds_def bs)
  have w: "wr m (int i * 2) x = Some (m[2 * i := x])" "wr (m[2 * i := x]) (int i * 2 + 1) y = Some ?m"
    using Suc.prems(2,3) by (simp_all add: wr_def nat_add_distrib nat_mult_distrib mult.commute)
  have "record_bytes n (int (Suc i)) (int (length (b1 @ [x, y]))) ((b1 @ [x, y]) @ bs' @ b3) ?m =
    Some (take (2 * Suc i) ?m @ bs' @ drop (2 * (Suc i + n)) ?m)"
    by (rule Suc.IH) (use bs Suc.prems in simp_all)
  moreover have "take (2 * Suc i) ?m = take (2 * i) m @ [x, y]"
  proof -
    have "2 * i + 1 < length m" using Suc.prems(2,3) by simp
    then have "take (Suc (Suc (2 * i))) ?m = take (2 * i) m @ [x, y]"
      by (simp add: take_Suc_conv_app_nth take_update_swap list_update_append nth_list_update)
    then show ?thesis by simp
  qed
  ultimately show ?case using r w by (simp add: bs(1) add_ac)
qed simp

definition file_pdu :: "u16 \<Rightarrow> u8 list \<Rightarrow> u8 list" where
  "file_pdu r c = [21, of_nat (7 + length c), 6, 0, 1] @ be2 r @ be2 (of_nat (length c div 2)) @ c"

lemma file_record_eq:
  assumes "flash_works (flash_hw env)" "uint r < 3072" "length c = 128" "length (workbuffer s) = 256"
    "\<And>x. 0x08080000 + uint r * 128 \<le> x \<Longrightarrow> x < 0x08080000 + uint r * 128 + 128 \<Longrightarrow> flash_mem s x = Some 0xFF"
  shows "eMBFuncWriteFileRecord env n (loaded (panel_frame t1 t2 (file_pdu r c)) s) =
    Some (MB_EX_NONE, of_nat (length (file_pdu r c)), (loaded (panel_frame t1 t2 (file_pdu r c)) s)
      \<lparr>flash_mem := place (flash_mem s) (0x08080000 + uint r * 128) c\<rparr>)"
proof -
  let ?pdu = "file_pdu r c"
  let ?s = "loaded (panel_frame t1 t2 ?pdu) s"
  let ?t = "?s\<lparr>flash_mem := place (flash_mem s) (0x08080000 + uint r * 128) c\<rparr>"
  have l: "length ?pdu = 137" by (simp add: file_pdu_def assms(3))
  have f: "frame_byte ?s 1 = Some 135" "frame16 ?s 3 = Some 1" "frame16 ?s 5 = Some r" "frame16 ?s 7 = Some 64"
    using frame_loaded [of 1 ?pdu t1 t2 s] frame16_loaded [of 3 ?pdu 1 t1 t2 s] frame16_loaded [of 5 ?pdu r t1 t2 s]
      frame16_loaded [of 7 ?pdu 64 t1 t2 s] l
    by (simp_all add: file_pdu_def be2_def nth_append assms(3))
  have wb: "workbuffer ?s = (mbap t1 t2 137 @ [21, 135, 6, 0, 1] @ be2 r @ be2 64) @ c @ drop 144 (workbuffer s)"
  proof -
    have "length (panel_frame t1 t2 ?pdu) = 144" by (simp add: panel_frame_def l)
    then show ?thesis by (simp add: panel_frame_def l) (simp add: file_pdu_def assms(3))
  qed
  have "record_bytes 64 0 16 (workbuffer ?s) (replicate 128 0) = Some c" unfolding wb
    using record_bytes_eq [of c 64 "replicate 128 0" 0 "mbap t1 t2 137 @ [21, 135, 6, 0, 1] @ be2 r @ be2 64" "drop 144 (workbuffer s)"]
      assms(3) by simp
  moreover have "program_bytes (flash_hw env) (0x08080000 + uint r * 128) c (flash_mem s) = place (flash_mem s) (0x08080000 + uint r * 128) c"
    by (rule program_bytes_eq [OF assms(1)]) (use assms(3,5) in simp)
  ultimately have cb: "eMBFileRecordCB env 16 1 r 64 MB_REG_WRITE ?s = Some (MB_ENOERR, ?t)"
    using assms(2,3) by (simp add: eMBFileRecordCB_def)
  have "file_records env 2 137 MB_EX_NONE 0 ?s = Some (MB_EX_NONE, 135, ?t)"
    using f cb by (subst file_records.simps) (simp add: file_records.simps [of env 137])
  moreover have "set_frame 1 135 ?t = Some ?t"
  proof -
    have "(workbuffer ?s)[8 := 135] = workbuffer ?s" unfolding wb by (simp add: list_update_append mbap_def)
    then show ?thesis using assms(4) by (simp add: set_frame_def wr_def panel_frame_def l)
  qed
  ultimately show ?thesis using f(1) l by (simp add: eMBFuncWriteFileRecord_def)
qed

lemma ask_file:
  assumes "serving s" "flash_works (flash_hw env)" "uint r < 3072" "length c = 128"
    "\<And>x. 0x08080000 + uint r * 128 \<le> x \<Longrightarrow> x < 0x08080000 + uint r * 128 + 128 \<Longrightarrow> flash_mem s x = Some 0xFF"
  shows "\<exists>s'. server_polls env (ask (panel_frame t1 t2 (file_pdu r c))) s = Some s' \<and> serving s' \<and>
    prms s' = prms s \<and> flash_mem s' = place (flash_mem s) (0x08080000 + uint r * 128) c \<and>
    responses s' = responses s @ [panel_frame t1 t2 (file_pdu r c)]"
proof -
  let ?pdu = "file_pdu r c"
  let ?s = "loaded (panel_frame t1 t2 ?pdu) s"
  let ?t = "?s\<lparr>flash_mem := place (flash_mem s) (0x08080000 + uint r * 128) c\<rparr>"
  let ?rest = "drop 144 (workbuffer s)"
  have wl: "length (workbuffer s) = 256" using assms(1) by (simp add: serving_def)
  have l: "length ?pdu = 137" "length (panel_frame t1 t2 ?pdu) = 144" by (simp_all add: file_pdu_def assms(4) panel_frame_def)
  have w: "workbuffer ?t = mbap t1 t2 137 @ ?pdu @ ?rest" by (simp add: l) (simp add: panel_frame_def l)
  have "eMBFuncWriteFileRecord env (usLength ?s) ?s = Some (MB_EX_NONE, of_nat (length ?pdu), ?t)"
    by (rule file_record_eq [OF assms(2,3,4) wl assms(5)])
  moreover have "frame_byte ?s 0 = Some 21" using frame_0 [of ?pdu t1 t2 s] by (simp add: file_pdu_def)
  moreover have "map_of xFuncHandlers 21 = Some eMBFuncWriteFileRecord" by (simp add: xFuncHandlers_def)
  ultimately have "execute env ?s = Some (?t\<lparr>usLength := of_nat (length ?pdu),
    workbuffer := panel_frame t1 t2 ?pdu @ ?rest, responses := responses ?t @ [panel_frame t1 t2 ?pdu]\<rparr>)"
    using execute_success [of ?s 21 eMBFuncWriteFileRecord env ?pdu ?t t1 t2 137 ?rest] w l by simp
  then show ?thesis using ask_polls [OF assms(1), of ?pdu env t1 t2] l wl loaded_serving [OF assms(1), of "panel_frame t1 t2 ?pdu"]
    by (simp add: serving_def)
qed

text \<open>The requests of a client that uploads an image in records of 128 bytes.\<close>

fun upload :: "nat \<Rightarrow> u8 list list \<Rightarrow> (bool \<times> bool \<times> tcp_reception) list" where
  "upload r [] = []"
| "upload r (c # cs) = ask (panel_frame 0 0 (file_pdu (of_nat r) c)) @ upload (Suc r) cs"

lemma upload_eq:
  assumes "flash_works (flash_hw env)"
  shows "serving s \<Longrightarrow> list_all (\<lambda>c. length c = 128) cs \<Longrightarrow> r + length cs \<le> 3072 \<Longrightarrow>
    (\<And>x. 0x08080000 + int r * 128 \<le> x \<Longrightarrow> x < 0x080E0000 \<Longrightarrow> flash_mem s x = Some 0xFF) \<Longrightarrow>
    \<exists>s'. server_polls env (upload r cs) s = Some s' \<and> serving s' \<and> prms s' = prms s \<and>
      flash_mem s' = place (flash_mem s) (0x08080000 + int r * 128) (concat cs)"
proof (induction cs arbitrary: r s)
  case (Cons c cs)
  have u: "uint (of_nat r :: u16) = int r" using Cons.prems(3) by (simp add: uint_small)
  have c: "length c = 128" "list_all (\<lambda>c. length c = 128) cs" using Cons.prems(2) by simp_all
  have f: "flash_mem s x = Some 0xFF" if "0x08080000 + uint (of_nat r :: u16) * 128 \<le> x" "x < 0x08080000 + uint (of_nat r :: u16) * 128 + 128" for x
    using that Cons.prems(3,4) u by simp
  obtain s1 where s1: "server_polls env (ask (panel_frame 0 0 (file_pdu (of_nat r) c))) s = Some s1" "serving s1"
    "prms s1 = prms s" "flash_mem s1 = place (flash_mem s) (0x08080000 + int r * 128) c"
    using ask_file [where r = "of_nat r" and ?t1.0 = 0 and ?t2.0 = 0, OF Cons.prems(1) assms _ c(1) f] u Cons.prems(3) by auto
  have "\<exists>s'. server_polls env (upload (Suc r) cs) s1 = Some s' \<and> serving s' \<and> prms s' = prms s1 \<and>
    flash_mem s' = place (flash_mem s1) (0x08080000 + int (Suc r) * 128) (concat cs)"
  proof (rule Cons.IH [OF s1(2) c(2)])
    fix x
    assume "0x08080000 + int (Suc r) * 128 \<le> x" "x < 0x080E0000"
    with Cons.prems(4) [of x] c(1) show "flash_mem s1 x = Some 0xFF" by (simp add: s1(4) place_def)
  qed (use Cons.prems(3) in simp)
  then obtain s' where s': "server_polls env (upload (Suc r) cs) s1 = Some s'" "serving s'" "prms s' = prms s1"
    "flash_mem s' = place (flash_mem s1) (0x08080000 + int (Suc r) * 128) (concat cs)" by blast
  have "place (flash_mem s1) (0x08080000 + int (Suc r) * 128) (concat cs) = place (flash_mem s) (0x08080000 + int r * 128) (c @ concat cs)"
    using place_place [of "flash_mem s" "0x08080000 + int r * 128" c "concat cs"] c(1) by (simp add: s1(4) algebra_simps)
  with s1 s' show ?case by (simp add: server_polls_append)
qed simp


definition blank_memory :: mem where
  "blank_memory a = (if 0x08000000 \<le> a \<and> a < 0x08100000 then Some 0xFF else None)"

lemma sample_placed: "place blank_memory 0x08080000 (sample_image @ replicate 100 0xFF) = sample_memory"
proof (rule ext)
  fix x :: int
  have "length sample_image = 28" by (simp add: sample_image_def)
  then show "place blank_memory 0x08080000 (sample_image @ replicate 100 0xFF) x = sample_memory x"
    by (auto simp: place_def blank_memory_def sample_memory_def nth_append)
qed


text \<open>The start of the server leaves the storage blank.\<close>

lemma le_word_ones:
  assumes "le_word b0 b1 b2 b3 = 0xFFFFFFFF"
  shows "b0 = 0xFF \<and> b1 = 0xFF \<and> b2 = 0xFF \<and> b3 = 0xFF"
proof -
  have out: "bit x k \<Longrightarrow> k < 8" for x :: u8 and k using bit_imp_le_length [of x k] by simp
  have "ucast (le_word b0 b1 b2 b3) = b0" "ucast (drop_bit 8 (le_word b0 b1 b2 b3)) = b1"
    "ucast (drop_bit 16 (le_word b0 b1 b2 b3)) = b2" "ucast (drop_bit 24 (le_word b0 b1 b2 b3)) = b3"
    unfolding le_word_def by (rule bit_word_eqI; auto simp: bit_simps dest: out)+
  then show ?thesis unfolding assms by auto
qed

lemma page_blank_bytes:
  "page_blank n p m = Some True \<Longrightarrow> p \<le> x \<Longrightarrow> x < p + 4 * int n \<Longrightarrow> m x = Some 0xFF"
proof (induction n arbitrary: p)
  case (Suc n)
  then have w: "rd32 m p = Some 0xFFFFFFFF" and r: "page_blank n (p + 4) m = Some True"
    by (auto simp: Option.bind_eq_Some_conv split: if_splits)
  show ?case
  proof (cases "p + 4 \<le> x")
    case True
    then show ?thesis using Suc.IH [OF r] Suc.prems(3) by simp
  next
    case False
    from w obtain b0 b1 b2 b3 where b: "m p = Some b0" "m (p + 1) = Some b1" "m (p + 2) = Some b2" "m (p + 3) = Some b3"
      "le_word b0 b1 b2 b3 = 0xFFFFFFFF"
      by (auto simp: rd32_def le_word_def Option.bind_eq_Some_conv)
    have "b0 = 0xFF \<and> b1 = 0xFF \<and> b2 = 0xFF \<and> b3 = 0xFF" using le_word_ones [OF b(5)] .
    moreover have "x = p \<or> x = p + 1 \<or> x = p + 2 \<or> x = p + 3" using False Suc.prems(2) by linarith
    ultimately show ?thesis using b by auto
  qed
qed simp

lemma page_blank_defined: "mapped m \<Longrightarrow> 0x08000000 \<le> p \<Longrightarrow> p + 4 * int n \<le> 0x08100000 \<Longrightarrow> page_blank n p m \<noteq> None"
proof (induction n arbitrary: p)
  case (Suc n)
  then obtain w where "rd32 m p = Some w" using rd32_bytes [of m p] by auto
  with Suc.IH [of "p + 4"] Suc.prems show ?case by auto
qed simp

text \<open>One page: erased, or already blank.\<close>

definition clean_page :: "flash_unit \<Rightarrow> int \<Rightarrow> mem \<Rightarrow> mem" where
  "clean_page hw k m = (if page_blank 32768 (0x08020000 + (k - 5) * 131072) m = Some True then m else erase hw k m)"

lemma clean_page:
  assumes "flash_works hw" "mapped m" "8 \<le> k" "k \<le> 10"
  shows "mapped (clean_page hw k m)" "in_sector k a \<Longrightarrow> clean_page hw k m a = Some 0xFF"
    "\<not> in_sector k a \<Longrightarrow> clean_page hw k m a = m a"
proof -
  let ?p = "0x08020000 + (k - 5) * 131072"
  have e: "erase hw k m a = Some 0xFF" if "in_sector k a"
  proof -
    have "m a = Some (the (m a))" using that assms(3,4) by (intro mapped_Some [OF assms(2)]) (auto simp: in_sector_def)
    then show ?thesis using assms(3,4) that by (simp add: erase_at [OF assms(1)]) (metis option.simps(9))
  qed
  show "mapped (clean_page hw k m)" using assms by (simp add: clean_page_def mapped_erase)
  show "clean_page hw k m a = Some 0xFF" if "in_sector k a"
    using page_blank_bytes [of 32768 ?p m a] e [OF that] that by (auto simp: clean_page_def in_sector_def algebra_simps)
  show "clean_page hw k m a = m a" if "\<not> in_sector k a"
    using that assms(3,4) by (simp add: clean_page_def erase_at [OF assms(1)])
qed

lemma erase_dirty_eq:
  assumes "flash_works hw" "mapped m"
  shows "erase_dirty hw fwstorage_flash_start (fwstorage_flash_start + fwstorage_flash_size) m =
    Some (clean_page hw 10 (clean_page hw 9 (clean_page hw 8 m)))"
proof -
  have step: "erase_dirty hw (0x08020000 + (k - 5) * 131072) end m =
      erase_dirty hw (0x08020000 + (k - 4) * 131072) end (clean_page hw k m)"
    if k: "8 \<le> k" "k \<le> 10" "mapped m" "0x08020000 + (k - 5) * 131072 < end" for k "end" m
  proof -
    obtain b where b: "page_blank 32768 (0x08020000 + (k - 5) * 131072) m = Some b"
      using page_blank_defined [OF k(3), of "0x08020000 + (k - 5) * 131072" 32768] k(1,2) by auto
    have "flash_sector (0x08020000 + (k - 5) * 131072) = k" using k(1,2) by (simp add: flash_sector_def)
    moreover have "0x08020000 + (k - 5) * 131072 + FLASH_PAGE_SIZE = 0x08020000 + (k - 4) * 131072" by (simp add: algebra_simps)
    ultimately show ?thesis using b k(4)
      by (subst erase_dirty.simps) (simp only: clean_page_def, simp)
  qed
  have m8: "mapped (clean_page hw 8 m)" using clean_page(1) [OF assms] by simp
  have m9: "mapped (clean_page hw 9 (clean_page hw 8 m))" using clean_page(1) [OF assms(1) m8] by simp
  show ?thesis
    using step [of 8 m "0x080E0000"] step [of 9 "clean_page hw 8 m" "0x080E0000"]
      step [of 10 "clean_page hw 9 (clean_page hw 8 m)" "0x080E0000"] assms(2) m8 m9
    by (simp add: erase_dirty.simps [of _ "0x080E0000"])
qed


definition sample_starting :: server where
  "sample_starting = sample_server\<lparr>eMBState := STATE_NOT_INITIALIZED, frame_functions := False\<rparr>"


end
