(* ===== verification/Windows.thy ===== *)
theory Windows
  imports Parameters Keys RegulatorSpec Calendar
begin

unbundle bit_operations_syntax

text \<open>
  The two working screens of the panel, \<open>window/src/baseTSK.cpp\<close> and \<open>window/src/chargeTSK.cpp\<close>: what one
  pass of their loops does with the keys, the encoder, the parameters and the regulator.  Drawing, the
  status line included, is left out.  The keyboard and the encoder come as scripts, the pins at each scan
  and the counter at each reading; running out of scans is \<^term>\<open>None\<close>, as is undefined behaviour.  A
  call that waits for the regulator goes to the surroundings, which answer it and may change the state of
  the connection, as the other tasks do meanwhile.
\<close>

section \<open>The panel\<close>

text \<open>The objects \<open>Prm::...\<close>, as places in the list of the parameters.\<close>

abbreviation (input) "Prm_brightness \<equiv> (6 :: nat)"
abbreviation (input) "Prm_timezone \<equiv> (5 :: nat)"
abbreviation (input) "Prm_bpWelcomeOnOff \<equiv> (7 :: nat)"
abbreviation (input) "Prm_bpKeyOnOff \<equiv> (8 :: nat)"
abbreviation (input) "Prm_bpCcCvOnOff \<equiv> (9 :: nat)"
abbreviation (input) "Prm_bpChFinOnOff \<equiv> (10 :: nat)"
abbreviation (input) "Prm_bpErrOnOff \<equiv> (11 :: nat)"
abbreviation (input) "Prm_ipadr \<equiv> (12 :: nat)"
abbreviation (input) "Prm_netmask \<equiv> (13 :: nat)"
abbreviation (input) "Prm_gateway \<equiv> (14 :: nat)"
abbreviation (input) "Prm_dhcpOnOff \<equiv> (15 :: nat)"
abbreviation (input) "Prm_dnsServip \<equiv> (16 :: nat)"
abbreviation (input) "Prm_dstOnOff \<equiv> (17 :: nat)"
abbreviation (input) "Prm_DSTSMon \<equiv> (18 :: nat)"
abbreviation (input) "Prm_DSTSWeek \<equiv> (19 :: nat)"
abbreviation (input) "Prm_DSTSDay \<equiv> (20 :: nat)"
abbreviation (input) "Prm_DSTSHour \<equiv> (21 :: nat)"
abbreviation (input) "Prm_DSTSMin \<equiv> (22 :: nat)"
abbreviation (input) "Prm_DSTSSec \<equiv> (23 :: nat)"
abbreviation (input) "Prm_DSTEMon \<equiv> (24 :: nat)"
abbreviation (input) "Prm_DSTEWeek \<equiv> (25 :: nat)"
abbreviation (input) "Prm_DSTEDay \<equiv> (26 :: nat)"
abbreviation (input) "Prm_DSTEHour \<equiv> (27 :: nat)"
abbreviation (input) "Prm_DSTEMin \<equiv> (28 :: nat)"
abbreviation (input) "Prm_DSTESec \<equiv> (29 :: nat)"
abbreviation (input) "Prm_wireResistance \<equiv> (30 :: nat)"
abbreviation (input) "Prm_wirecompensateOnOff \<equiv> (31 :: nat)"
abbreviation (input) "Prm_reboot \<equiv> (33 :: nat)"
abbreviation (input) "Prm_crange_set \<equiv> (34 :: nat)"
abbreviation (input) "Prm_vfilter \<equiv> (35 :: nat)"
abbreviation (input) "Prm_ifilter \<equiv> (36 :: nat)"
abbreviation (input) "Prm_vintegration \<equiv> (37 :: nat)"
abbreviation (input) "Prm_iintegration \<equiv> (38 :: nat)"
abbreviation (input) "Prm_currIpadr \<equiv> (39 :: nat)"
abbreviation (input) "Prm_currNetmask \<equiv> (40 :: nat)"
abbreviation (input) "Prm_currGateway \<equiv> (41 :: nat)"
abbreviation (input) "Prm_utcTime \<equiv> (42 :: nat)"
abbreviation (input) "Prm_Ureal \<equiv> (43 :: nat)"
abbreviation (input) "Prm_Ireal \<equiv> (44 :: nat)"
abbreviation (input) "Prm_Umeas \<equiv> (45 :: nat)"
abbreviation (input) "Prm_Imeas \<equiv> (46 :: nat)"
abbreviation (input) "Prm_Udac \<equiv> (47 :: nat)"
abbreviation (input) "Prm_Idac \<equiv> (48 :: nat)"
abbreviation (input) "Prm_Uadc \<equiv> (49 :: nat)"
abbreviation (input) "Prm_Iadc \<equiv> (50 :: nat)"
abbreviation (input) "Prm_point \<equiv> (51 :: nat)"
abbreviation (input) "Prm_resistance \<equiv> (52 :: nat)"
abbreviation (input) "Prm_input_v1 \<equiv> (53 :: nat)"
abbreviation (input) "Prm_input_v2 \<equiv> (54 :: nat)"
abbreviation (input) "Prm_input_v3 \<equiv> (55 :: nat)"
abbreviation (input) "Prm_input_v4 \<equiv> (56 :: nat)"
abbreviation (input) "Prm_input_vg \<equiv> (57 :: nat)"
abbreviation (input) "Prm_temp_heatsink \<equiv> (58 :: nat)"
abbreviation (input) "Prm_temp_shunt \<equiv> (59 :: nat)"
abbreviation (input) "Prm_temp_ref \<equiv> (60 :: nat)"
abbreviation (input) "Prm_reg_serial \<equiv> (61 :: nat)"
abbreviation (input) "Prm_mac0 \<equiv> (62 :: nat)"
abbreviation (input) "Prm_save_settings \<equiv> (63 :: nat)"
abbreviation (input) "Prm_startcnt \<equiv> (64 :: nat)"
abbreviation (input) "Prm_baseu0 \<equiv> (65 :: nat)"
abbreviation (input) "Prm_basei0 \<equiv> (66 :: nat)"
abbreviation (input) "Prm_basemode0 \<equiv> (67 :: nat)"
abbreviation (input) "Prm_baseu1 \<equiv> (68 :: nat)"
abbreviation (input) "Prm_basei1 \<equiv> (69 :: nat)"
abbreviation (input) "Prm_basemode1 \<equiv> (70 :: nat)"
abbreviation (input) "Prm_baseu2 \<equiv> (71 :: nat)"
abbreviation (input) "Prm_basei2 \<equiv> (72 :: nat)"
abbreviation (input) "Prm_basemode2 \<equiv> (73 :: nat)"
abbreviation (input) "Prm_basepreset \<equiv> (74 :: nat)"
abbreviation (input) "Prm_chargeru \<equiv> (75 :: nat)"
abbreviation (input) "Prm_chargeri \<equiv> (76 :: nat)"
abbreviation (input) "Prm_chargermode \<equiv> (77 :: nat)"
abbreviation (input) "Prm_chargert \<equiv> (78 :: nat)"

lemma parameter_names:
  "map (\<lambda>i. vlabel (parametres ! i)) [
     Prm_ipadr, Prm_netmask, Prm_gateway, Prm_dhcpOnOff, Prm_dnsServip, Prm_dstOnOff,
     Prm_DSTSMon, Prm_DSTSWeek, Prm_DSTSDay, Prm_DSTSHour, Prm_DSTSMin, Prm_DSTSSec,
     Prm_DSTEMon, Prm_DSTEWeek, Prm_DSTEDay, Prm_DSTEHour, Prm_DSTEMin, Prm_DSTESec,
     Prm_currIpadr, Prm_currNetmask, Prm_currGateway, Prm_mac0,
     Prm_brightness, Prm_timezone, Prm_bpWelcomeOnOff, Prm_bpKeyOnOff, Prm_bpCcCvOnOff,
     Prm_bpChFinOnOff, Prm_bpErrOnOff, Prm_wireResistance, Prm_wirecompensateOnOff, Prm_reboot,
     Prm_crange_set, Prm_vfilter, Prm_ifilter, Prm_vintegration, Prm_iintegration, Prm_utcTime,
     Prm_Ureal, Prm_Ireal, Prm_Umeas, Prm_Imeas, Prm_Udac, Prm_Idac, Prm_Uadc, Prm_Iadc, Prm_point,
     Prm_resistance, Prm_input_v1, Prm_input_v2, Prm_input_v3, Prm_input_v4, Prm_input_vg,
     Prm_temp_heatsink, Prm_temp_shunt, Prm_temp_ref, Prm_reg_serial, Prm_save_settings,
     Prm_startcnt, Prm_baseu0, Prm_basei0, Prm_basemode0, Prm_baseu1, Prm_basei1, Prm_basemode1,
     Prm_baseu2, Prm_basei2, Prm_basemode2, Prm_basepreset, Prm_chargeru, Prm_chargeri,
     Prm_chargermode, Prm_chargert] = [
     ''ipadr'', ''netmask'', ''gateway'', ''dhcpOnOff'', ''dnsServip'', ''dstOnOff'',
     ''DSTSMon'', ''DSTSWeek'', ''DSTSDay'', ''DSTSHour'', ''DSTSMin'', ''DSTSSec'',
     ''DSTEMon'', ''DSTEWeek'', ''DSTEDay'', ''DSTEHour'', ''DSTEMin'', ''DSTESec'',
     ''currIpadr'', ''currNetmask'', ''currGateway'', ''mac0'',
     ''brightness'', ''timezone'', ''bpWelcomeOnOff'', ''bpKeyOnOff'', ''bpCcCvOnOff'',
     ''bpChFinOnOff'', ''bpErrOnOff'', ''wireResistance'', ''wirecompensateOnOff'', ''reboot'',
     ''crange_set'', ''vfilter'', ''ifilter'', ''vintegration'', ''iintegration'', ''utcTime'',
     ''Ureal'', ''Ireal'', ''Umeas'', ''Imeas'', ''Udac'', ''Idac'', ''Uadc'', ''Iadc'', ''point'',
     ''resistance'', ''input_v1'', ''input_v2'', ''input_v3'', ''input_v4'', ''input_vg'',
     ''temp_heatsink'', ''temp_shunt'', ''temp_ref'', ''reg_serial'', ''save_settings'',
     ''startcnt'', ''baseu0'', ''basei0'', ''basemode0'', ''baseu1'', ''basei1'', ''basemode1'',
     ''baseu2'', ''basei2'', ''basemode2'', ''basepreset'', ''chargeru'', ''chargeri'',
     ''chargermode'', ''chargert'']"
  by (simp add: parametres_def prm_def)

text \<open>\<open>waits\<close>: what \<open>reg_waitCommand\<close> returns, what the destination then holds, and the connection.  \<open>now\<close>
  is \<open>time(NULL)\<close> when so many scans are still to come, \<open>junk\<close> what an uninitialised local variable holds;
  \<open>localtime\<close> and \<open>mktime\<close> are the functions of the C library, which depend on the time zone.\<close>

record surroundings =
  waits :: "request \<Rightarrow> reg \<Rightarrow> bool \<times> u16 list \<times> reg"
  now :: "nat \<Rightarrow> u32"
  junk :: u16
  localtime :: "u32 \<Rightarrow> tm"
  mktime :: "tm \<Rightarrow> int"

datatype selWindow = noneWindow | startupWindow | settingWindow | baseWindow | chargerWindow

datatype effect = Beep u16 u16 | Command request | Message string | Brightness int | SetClock u32
  | Putenv string | StaticNet u32 u32 u32 u32 | DhcpRenew | SaveSystem

record panel =
  settings :: "Val list"
  board :: reg
  keys :: key_type
  scans :: "(pin \<Rightarrow> bool) list"
  dial :: enco
  counts :: "u32 list"
  effects :: "effect list"

definition emit :: "effect \<Rightarrow> panel \<Rightarrow> panel" where
  "emit e p = p\<lparr>effects := effects p @ [e]\<rparr>"

primrec run_call :: "surroundings \<Rightarrow> 'a call \<Rightarrow> panel \<Rightarrow> bool \<times> 'a \<times> panel" where
  "run_call env (Returns ok x) p = (ok, x, p)"
| "run_call env (Waits q k) p =
     (case waits env q (board p) of (ok, dst, r) \<Rightarrow> run_call env (k ok dst) ((emit (Command q) p)\<lparr>board := r\<rparr>))"

text \<open>A call whose results are not used.\<close>

definition do_call :: "surroundings \<Rightarrow> 'a call \<Rightarrow> panel \<Rightarrow> panel" where
  "do_call env c p = snd (snd (run_call env c p))"

definition on_board :: "(reg \<Rightarrow> bool \<times> reg) \<Rightarrow> panel \<Rightarrow> bool \<times> panel" where
  "on_board f p = (let (ok, r) = f (board p) in (ok, p\<lparr>board := r\<rparr>))"

definition do_board :: "(reg \<Rightarrow> bool \<times> reg) \<Rightarrow> panel \<Rightarrow> panel" where
  "do_board f p = snd (on_board f p)"

definition scan_keys :: "panel \<Rightarrow> (u32 \<times> panel) option" where
  "scan_keys p =
     (case scans p of
        [] \<Rightarrow> None
      | pins # rest \<Rightarrow> do { (s, k) \<leftarrow> keyProc pins (keys p); Some (s, p\<lparr>keys := k, scans := rest\<rparr>) })"

definition press :: "kKey \<Rightarrow> panel \<Rightarrow> bool" where
  "press key p \<longleftrightarrow> keyState_get (kKey_mask key) (keys p) \<noteq> 0"

text \<open>The counter before a reading; it stands still when the script has ended.\<close>

definition read_dial :: "panel \<Rightarrow> int \<times> panel" where
  "read_dial p =
     (let (step, d) = enco_update (case counts p of [] \<Rightarrow> dial p | c # _ \<Rightarrow> (dial p)\<lparr>CNT := c\<rparr>)
      in (step, p\<lparr>dial := d, counts := tl (counts p)\<rparr>))"

definition prm_val :: "nat \<Rightarrow> panel \<Rightarrow> int" where
  "prm_val i p = val (settings p ! i)"

definition set_prm :: "nat \<Rightarrow> int \<Rightarrow> panel \<Rightarrow> panel" where
  "set_prm i x p = p\<lparr>settings := (settings p)[i := (settings p ! i)\<lparr>val := x\<rparr>]\<rparr>"

definition on_prm :: "nat \<Rightarrow> (Val \<Rightarrow> Val option) \<Rightarrow> panel \<Rightarrow> panel option" where
  "on_prm i f p = do { v \<leftarrow> f (settings p ! i); Some (p\<lparr>settings := (settings p)[i := v]\<rparr>) }"

text \<open>\<open>BeepTime(Prm::onoff ? time : 0, freq)\<close>, with the tones of \<open>ui.cpp\<close>.\<close>

definition BeepTime :: "nat \<Rightarrow> u16 \<Rightarrow> u16 \<Rightarrow> panel \<Rightarrow> panel" where
  "BeepTime onoff freq time p = emit (Beep (if prm_val onoff p \<noteq> 0 then time else 0) freq) p"

definition beep_key :: "panel \<Rightarrow> panel" where "beep_key = BeepTime Prm_bpKeyOnOff 4100 30"
definition beep_error :: "panel \<Rightarrow> panel" where "beep_error = BeepTime Prm_bpErrOnOff 3000 100"

section \<open>The base screen\<close>

record base =
  varParam :: u8
  func :: bool

definition base_params :: "nat list list" where
  "base_params =
     [[Prm_baseu0, Prm_basei0, Prm_basemode0], [Prm_baseu1, Prm_basei1, Prm_basemode1],
      [Prm_baseu2, Prm_basei2, Prm_basemode2]]"

definition preset :: "panel \<Rightarrow> nat list option" where
  "preset p = rd base_params (prm_val Prm_basepreset p)"

definition selected :: "base \<Rightarrow> panel \<Rightarrow> nat option" where
  "selected w p = do { row \<leftarrow> preset p; rd row (uint (varParam w)) }"

definition nextPreset :: "panel \<Rightarrow> panel" where
  "nextPreset p =
     (if prm_val Prm_basepreset p < int (length base_params) - 1
      then set_prm Prm_basepreset (conv T_uint8 (prm_val Prm_basepreset p + 1)) p
      else set_prm Prm_basepreset 0 p)"

definition base_start :: "panel \<Rightarrow> base \<times> panel" where
  "base_start p =
     (\<lparr>varParam = 0, func = False\<rparr>,
      p\<lparr>keys := ksSet 30 3 (ucast (kKey_mask kUp OR kKey_mask kDown)) (keys p), dial := enco_settic 1 (dial p)\<rparr>)"

text \<open>The keys.  \<open>selWindow\<close> does not return: the task is suspended, and deleted.\<close>

definition base_keys :: "surroundings \<Rightarrow> bool \<Rightarrow> base \<Rightarrow> panel \<Rightarrow> (selWindow option \<times> base \<times> panel) option" where
  "base_keys env regenable w p =
     (if reg_getremote (board p) then Some (None, w, beep_error p)
      else let p = beep_key p in
      if \<not> func w then
        (if press kNext p then
           let v = varParam w + 1 in Some (None, w\<lparr>varParam := if v \<ge> 2 then 0 else v\<rparr>, p)
         else if press kMode p then
           (if \<not> regenable then Some (Some chargerWindow, w, p) else Some (None, w, beep_error p))
         else if press kFunc p then Some (None, w\<lparr>func := True\<rparr>, p)
         else if press kOnOff p then Some (None, w, do_call env (reg_enableSet (\<not> regenable) (board p)) p)
         else if press kUp p then do { i \<leftarrow> selected w p; p \<leftarrow> on_prm i (bigstep_Val 1) p; Some (None, w, p) }
         else if press kDown p then do { i \<leftarrow> selected w p; p \<leftarrow> on_prm i (bigstep_Val (- 1)) p; Some (None, w, p) }
         else if press kZero p then do { i \<leftarrow> selected w p; p \<leftarrow> on_prm i (\<lambda>v. Some (setdef v)) p; Some (None, w, p) }
         else Some (None, w, p))
      else let w = w\<lparr>func := False\<rparr> in
        (if press kNext p then
           (if \<not> regenable then Some (None, w, nextPreset p) else Some (None, w, beep_error p))
         else if press kMode p then Some (Some settingWindow, w, p)
         else if press kFunc p then Some (None, w, p)
         else if press kUp p then
           Some (None, w, do_call env (reg_crangeSet reg_crange_hi) (set_prm Prm_crange_set 0 p))
         else if press kDown p then
           Some (None, w, do_call env (reg_crangeSet reg_crange_auto) (set_prm Prm_crange_set 1 p))
         else Some (None, w, p)))"

definition base_target :: "panel \<Rightarrow> panel option" where
  "base_target p = do {
     row \<leftarrow> preset p;
     u \<leftarrow> rd row 0;
     i \<leftarrow> rd row 1;
     m \<leftarrow> rd row 2;
     let p = do_board (reg_voltageSet (word_of_int (prm_val u p * 1000))) p;
         currentval = word_of_int (prm_val i p * 1000);
         p = (if prm_val m p = 0 then do_board (reg_currentSet currentval) (do_board (reg_modeSet reg_overcurrentShutdown) p)
              else if prm_val m p = 1 then do_board (reg_currentSet currentval) (do_board (reg_modeSet reg_limitation) p)
              else p)
     in Some (do_board (reg_timeSet 0) p)
   }"

definition base_dial :: "base \<Rightarrow> panel \<Rightarrow> panel option" where
  "base_dial w p =
     (let (encoval, p) = read_dial p in
      if encoval \<noteq> 0 then
        (if reg_getremote (board p) then Some (beep_error p)
         else do { i \<leftarrow> selected w p; on_prm i (step_Val encoval) p })
      else Some p)"

definition base_pass :: "surroundings \<Rightarrow> base \<Rightarrow> panel \<Rightarrow> (selWindow option \<times> base \<times> panel) option" where
  "base_pass env w p =
     (let regenable = fst (reg_enableGet (board p));
          p = (if reg_getremote (board p) then do_call env (reg_getTarget (replicate TARGET_WORDS 0)) p else p);
          p = do_call env (reg_crangeGet (junk env) (junk env)) p in do {
        (pressed, p) \<leftarrow> scan_keys p;
        (win, w, p) \<leftarrow> (if pressed \<noteq> 0 then base_keys env regenable w p else Some (None, w, p));
        if win \<noteq> None then Some (win, w, p)
        else do {
          p \<leftarrow> base_dial w p;
          p \<leftarrow> base_target p;
          Some (None, w, p)
        }
      })"

section \<open>The charger screen\<close>

record charger =
  ch_param :: u8
  finishBeep :: bool

definition charge_params :: "nat list" where
  "charge_params = [Prm_chargeru, Prm_chargeri, Prm_chargert, Prm_chargermode]"

definition charge_start :: "panel \<Rightarrow> charger \<times> panel" where
  "charge_start p =
     (\<lparr>ch_param = 0, finishBeep = False\<rparr>,
      p\<lparr>keys := ksSet 30 3 (ucast (kKey_mask kUp OR kKey_mask kDown)) (keys p), dial := enco_settic 1 (dial p)\<rparr>)"

definition charge_prm :: "charger \<Rightarrow> nat option" where
  "charge_prm w = rd charge_params (uint (ch_param w))"

definition charge_keys :: "surroundings \<Rightarrow> bool \<Rightarrow> charger \<Rightarrow> panel \<Rightarrow> (selWindow option \<times> charger \<times> panel) option" where
  "charge_keys env stateenable w p =
     (let p = beep_key p;
          p = (if press kOnOff p then
                 (if \<not> stateenable then do_call env (reg_enableSet True (board p)) p
                  else do_call env (reg_enableSet False (board p)) p)
               else p) in
      if \<not> stateenable then
        (if press kNext p then let v = ch_param w + 1 in Some (None, w\<lparr>ch_param := if v = 4 then 0 else v\<rparr>, p)
         else if press kMode p then Some (Some baseWindow, w, p)
         else if press kUp p then do { i \<leftarrow> charge_prm w; p \<leftarrow> on_prm i (bigstep_Val 1) p; Some (None, w, p) }
         else if press kDown p then do { i \<leftarrow> charge_prm w; p \<leftarrow> on_prm i (bigstep_Val (- 1)) p; Some (None, w, p) }
         else if press kZero p then do { i \<leftarrow> charge_prm w; p \<leftarrow> on_prm i (\<lambda>v. Some (setdef v)) p; Some (None, w, p) }
         else Some (None, w, p))
      else Some (None, w, p))"

definition charge_dial :: "bool \<Rightarrow> charger \<Rightarrow> panel \<Rightarrow> panel option" where
  "charge_dial stateenable w p =
     (let (encoval, p) = read_dial p in
      if \<not> stateenable then do { i \<leftarrow> charge_prm w; on_prm i (step_Val encoval) p } else Some p)"

definition charge_target :: "panel \<Rightarrow> panel" where
  "charge_target p =
     (let p = do_board (reg_voltageSet (word_of_int (prm_val Prm_chargeru p * 1000))) p;
          p = do_board (reg_currentSet (word_of_int (prm_val Prm_chargeri p * 1000))) p;
          p = do_board (reg_timeSet (if prm_val Prm_chargermode p = 0 then word_of_int (prm_val Prm_chargert p) else 0)) p
      in do_board (reg_modeSet (if prm_val Prm_chargermode p = 0 then reg_limitation else reg_lowCurrentShutdown)) p)"

definition charge_finish :: "regState \<Rightarrow> bool \<Rightarrow> charger \<Rightarrow> panel \<Rightarrow> charger \<times> panel" where
  "charge_finish regmeas stateenable w p =
     (let (w, p) = (if finishBeep w \<and> (rs_disablecause regmeas = 6 \<or> rs_disablecause regmeas = 7)
                    then (w\<lparr>finishBeep := False\<rparr>, BeepTime Prm_bpChFinOnOff 4100 2000 p) else (w, p))
      in (if stateenable then w\<lparr>finishBeep := True\<rparr> else w, p))"

definition charge_pass :: "surroundings \<Rightarrow> charger \<Rightarrow> panel \<Rightarrow> (selWindow option \<times> charger \<times> panel) option" where
  "charge_pass env w p =
     (let regmeas = fst (reg_getState (board p)); stateenable = fst (reg_enableGet (board p)) in do {
        (pressed, p) \<leftarrow> scan_keys p;
        (win, w, p) \<leftarrow> (if pressed \<noteq> 0 then charge_keys env stateenable w p else Some (None, w, p));
        if win \<noteq> None then Some (win, w, p)
        else do {
          p \<leftarrow> charge_dial stateenable w p;
          let p = charge_target p;
              w = (if prm_val Prm_chargermode p = 1 \<and> ch_param w = 2 then w\<lparr>ch_param := ch_param w + 1\<rparr> else w);
              (w, p) = charge_finish regmeas stateenable w p
          in Some (None, w, p)
        }
      })"

section \<open>Parameters that are stepped\<close>

lemma arith_unsigned:
  assumes "\<not> csigned T" "0 \<le> x" "x \<le> cmax T_int32 \<or> x \<le> cmax T"
  shows "\<exists>y. arith T x = Some y"
  using assms by (cases T) (auto simp: arith_def cmin_def cmax_def)

text \<open>A step of an unsigned parameter keeps it within its limits, even when the product wraps around.\<close>

lemma stepsize_unsigned:
  assumes "val_ok v" "\<not> csigned (vtype (vhandler v))" "0 \<le> sz" "sz * \<bar>n\<bar> \<le> cmax T_int32" "n \<noteq> cmin T_int32"
  shows "\<exists>x. stepsize n sz v = Some (v\<lparr>val := x\<rparr>) \<and> vmin (vhandler v) \<le> x \<and> x \<le> vmax (vhandler v)"
proof -
  let ?T = "vtype (vhandler v)" and ?lo = "vmin (vhandler v)" and ?hi = "vmax (vhandler v)"
  have lim: "cmin ?T \<le> ?lo" "?lo \<le> val v" "val v \<le> ?hi" "?hi \<le> cmax ?T"
    using assms(1) by (auto simp: val_ok_def handler_ok_def)
  have z: "cmin ?T = 0" using assms(2) by (simp add: cmin_def)
  obtain m where m: "arith ?T (sz * \<bar>n\<bar>) = Some m" using arith_unsigned [OF assms(2), of "sz * \<bar>n\<bar>"] assms(3,4) by auto
  define r where "r = conv ?T m"
  have r: "0 \<le> r" "r \<le> cmax ?T" using conv_range [of ?T m] z by (simp_all add: r_def)
  have small: "arith ?T x = Some x" if "0 \<le> x" "x \<le> cmax ?T" for x
    using that promoted_wider [of ?T] z by (auto intro!: arith_id)
  have room: "arith ?T (val v - ?lo) = Some (val v - ?lo)" "arith ?T (?hi - val v) = Some (?hi - val v)"
    using lim z by (auto intro!: small)
  have c: "conv ?T x = x" if "?lo \<le> x" "x \<le> ?hi" for x using that lim by (intro conv_id) auto
  have step: "stepsize n sz v = (if n < 0
      then (if r > val v - ?lo then Some ?lo else arith ?T (val v - r)) \<bind> (\<lambda>x. Some (v\<lparr>val := conv ?T x\<rparr>))
      else (if r > ?hi - val v then Some ?hi else arith ?T (val v + r)) \<bind> (\<lambda>x. Some (v\<lparr>val := conv ?T x\<rparr>)))"
    using assms(5) m room by (simp add: stepsize_def Let_def r_def)
  show ?thesis
  proof (cases "n < 0")
    case True
    show ?thesis
    proof (cases "r > val v - ?lo")
      case True
      with \<open>n < 0\<close> lim c [of ?lo] show ?thesis by (intro exI [of _ ?lo]) (simp add: step)
    next
      case False
      with \<open>n < 0\<close> lim r z c [of "val v - r"] small [of "val v - r"] show ?thesis
        by (intro exI [of _ "val v - r"]) (simp add: step)
    qed
  next
    case False
    show ?thesis
    proof (cases "r > ?hi - val v")
      case True
      with \<open>\<not> n < 0\<close> lim c [of ?hi] show ?thesis by (intro exI [of _ ?hi]) (simp add: step)
    next
      case False
      with \<open>\<not> n < 0\<close> lim r z c [of "val v + r"] small [of "val v + r"] show ?thesis
        by (intro exI [of _ "val v + r"]) (simp add: step)
    qed
  qed
qed

text \<open>The parameters that the two screens edit: the range of the current, and those from \<open>baseu0\<close> on.  The
  settings menu stores measurements in some of the others without regard to their limits.\<close>

definition screen_prm :: "nat \<Rightarrow> bool" where
  "screen_prm i \<longleftrightarrow> i = Prm_crange_set \<or> Prm_baseu0 \<le> i \<and> i < 79"

definition settings_ok :: "panel \<Rightarrow> bool" where
  "settings_ok p \<longleftrightarrow> map vhandler (settings p) = parametres \<and> (\<forall>i. screen_prm i \<longrightarrow> val_ok (settings p ! i))"

lemma screen_prm_less: "screen_prm i \<Longrightarrow> i < 79"
  by (auto simp: screen_prm_def)

lemma length_parametres: "length parametres = 79"
  by (simp add: parametres_def)

lemma settings_okD:
  assumes "settings_ok p" "i < 79"
  shows "length (settings p) = 79" "vhandler (settings p ! i) = parametres ! i" "screen_prm i \<Longrightarrow> val_ok (settings p ! i)"
proof -
  have m: "map vhandler (settings p) = parametres" using assms(1) by (simp add: settings_ok_def)
  then show l: "length (settings p) = 79" by (metis length_map length_parametres)
  show "vhandler (settings p ! i) = parametres ! i" using l assms(2) by (simp flip: m)
  show "val_ok (settings p ! i)" if "screen_prm i" using that assms(1) by (simp add: settings_ok_def)
qed

lemma prm_val_limits: "settings_ok p \<Longrightarrow> screen_prm i \<Longrightarrow> vmin (parametres ! i) \<le> prm_val i p \<and> prm_val i p \<le> vmax (parametres ! i)"
  using settings_okD(2,3) [of p i] screen_prm_less [of i] by (simp add: val_ok_def prm_val_def)

definition others_kept :: "panel \<Rightarrow> panel \<Rightarrow> bool" where
  "others_kept p p' \<longleftrightarrow> (\<forall>i. \<not> screen_prm i \<longrightarrow> settings p' ! i = settings p ! i)"

text \<open>\<open>p'\<close> is \<open>p\<close> with other values of the parameters of the screens, within the limits.\<close>

definition edited :: "panel \<Rightarrow> panel \<Rightarrow> bool" where
  "edited p p' \<longleftrightarrow> p' = p\<lparr>settings := settings p'\<rparr> \<and> settings_ok p' \<and> others_kept p p'"

lemma edited_simps: "edited p p' \<Longrightarrow> settings_ok p' \<and> others_kept p p' \<and> board p' = board p \<and> keys p' = keys p \<and> scans p' = scans p \<and>
    dial p' = dial p \<and> counts p' = counts p \<and> effects p' = effects p"
  by (simp add: edited_def) (metis panel.ext_inject panel.surjective panel.update_convs(1))

lemma edit_ok:
  assumes "settings_ok p" "screen_prm i" "val_ok v" "vhandler v = parametres ! i"
  shows "edited p (p\<lparr>settings := (settings p)[i := v]\<rparr>)"
proof -
  note i = screen_prm_less [OF assms(2)]
  note l = settings_okD(1) [OF assms(1) i]
  have "map vhandler ((settings p)[i := v]) = parametres"
    using assms i by (simp add: map_update settings_ok_def list_update_same_conv length_parametres)
  moreover have "val_ok ((settings p)[i := v] ! j)" if "screen_prm j" for j
    using assms(1,3) that i l by (cases "j = i") (simp_all add: settings_ok_def)
  moreover have "others_kept p (p\<lparr>settings := (settings p)[i := v]\<rparr>)"
    using assms(2) by (simp add: others_kept_def) (metis nth_list_update_neq)
  ultimately show ?thesis by (simp add: edited_def settings_ok_def)
qed

lemma set_prm_ok:
  "settings_ok p \<Longrightarrow> screen_prm i \<Longrightarrow> vmin (parametres ! i) \<le> x \<Longrightarrow> x \<le> vmax (parametres ! i) \<Longrightarrow> edited p (set_prm i x p)"
  unfolding set_prm_def using settings_okD [of p i] screen_prm_less [of i] by (intro edit_ok) (auto simp: val_ok_def)

lemma on_prm_step:
  assumes "settings_ok p" "screen_prm i" "\<not> csigned (vtype (parametres ! i))" "0 \<le> sz" "sz * \<bar>n\<bar> \<le> cmax T_int32" "n \<noteq> cmin T_int32"
    and "\<And>v. vhandler v = parametres ! i \<Longrightarrow> f v = stepsize n sz v"
  shows "\<exists>p'. on_prm i f p = Some p' \<and> edited p p'"
proof -
  note s = settings_okD(2) [OF assms(1) screen_prm_less [OF assms(2)]] settings_okD(3) [OF assms(1) screen_prm_less [OF assms(2)] assms(2)]
  obtain x where x: "stepsize n sz (settings p ! i) = Some ((settings p ! i)\<lparr>val := x\<rparr>)"
    "vmin (parametres ! i) \<le> x" "x \<le> vmax (parametres ! i)"
    using stepsize_unsigned [OF s(2) _ assms(4-6)] assms(3) s(1) by auto
  have "edited p (p\<lparr>settings := (settings p)[i := (settings p ! i)\<lparr>val := x\<rparr>]\<rparr>)"
    using s x by (intro edit_ok [OF assms(1,2)]) (auto simp: val_ok_def)
  then show ?thesis using assms(7) [OF s(1)] x(1) by (simp add: on_prm_def)
qed

lemma on_prm_default:
  assumes "settings_ok p" "screen_prm i"
  shows "\<exists>p'. on_prm i (\<lambda>v. Some (setdef v)) p = Some p' \<and> edited p p'"
proof -
  note s = settings_okD(2) [OF assms(1) screen_prm_less [OF assms(2)]] settings_okD(3) [OF assms(1) screen_prm_less [OF assms(2)] assms(2)]
  have "edited p (p\<lparr>settings := (settings p)[i := setdef (settings p ! i)]\<rparr>)"
    using s by (intro edit_ok [OF assms]) (auto simp: val_ok_def handler_ok_def setdef_def)
  then show ?thesis by (simp add: on_prm_def)
qed

section \<open>Keys, encoder and calls\<close>

lemma enco_bound: "\<bar>fst (enco_update e)\<bar> \<le> 57344"
proof -
  define raw where "raw = sint (ucast (CNT e - ENCO_ZERO) :: u16)"
  define step where "step = fst (enco_read e)"
  have "-32768 \<le> raw" "raw \<le> 32767"
    using sint_greater_eq [of "ucast (CNT e - ENCO_ZERO) :: u16"] sint_less [of "ucast (CNT e - ENCO_ZERO) :: u16"]
    by (simp_all add: raw_def)
  moreover have "step = (if raw > 0 then (raw + 2) div 4 else if raw < 0 then - ((2 - raw) div 4) else 0)"
    by (simp add: step_def enco_read_def raw_def Let_def signed_divide_int_def sgn_if abs_if)
  ultimately have "\<bar>step\<bar> \<le> 8192" by (auto split: if_splits)
  then show ?thesis unfolding step_def by (cases "enco_read e") (auto simp: enco_update_def)
qed

lemma read_dial_bound: "\<bar>fst (read_dial p)\<bar> \<le> 57344"
  using enco_bound by (simp add: read_dial_def split: prod.split list.split) (metis fst_conv)

lemma read_dial_keeps [simp]:
  "settings (snd (read_dial p)) = settings p" "board (snd (read_dial p)) = board p" "keys (snd (read_dial p)) = keys p"
  "scans (snd (read_dial p)) = scans p" "effects (snd (read_dial p)) = effects p"
  by (simp_all add: read_dial_def split: prod.split)

lemma run_call_panel: "\<exists>r qs. snd (snd (run_call env c p)) = p\<lparr>board := r, effects := effects p @ map Command qs\<rparr>"
proof (induction c arbitrary: p)
  case (Returns ok x)
  then show ?case by (intro exI [of _ "board p"] exI [of _ "[]"]) simp
next
  case (Waits q k)
  obtain ok dst r where w: "waits env q (board p) = (ok, dst, r)" by (metis prod_cases3)
  let ?p = "(emit (Command q) p)\<lparr>board := r\<rparr>"
  obtain r' qs where "snd (snd (run_call env (k ok dst) ?p)) = ?p\<lparr>board := r', effects := effects ?p @ map Command qs\<rparr>"
    using Waits [OF rangeI rangeI] by blast
  then show ?case using w by (intro exI [of _ r'] exI [of _ "q # qs"]) (simp add: emit_def)
qed

lemma run_call_keeps [simp]:
  "settings (snd (snd (run_call env c p))) = settings p" "keys (snd (snd (run_call env c p))) = keys p"
  "scans (snd (snd (run_call env c p))) = scans p" "dial (snd (snd (run_call env c p))) = dial p"
  "counts (snd (snd (run_call env c p))) = counts p"
proof -
  obtain r qs where "snd (snd (run_call env c p)) = p\<lparr>board := r, effects := effects p @ map Command qs\<rparr>"
    using run_call_panel by blast
  then show "settings (snd (snd (run_call env c p))) = settings p" "keys (snd (snd (run_call env c p))) = keys p"
    "scans (snd (snd (run_call env c p))) = scans p" "dial (snd (snd (run_call env c p))) = dial p"
    "counts (snd (snd (run_call env c p))) = counts p" by simp_all
qed

lemma do_call_keeps [simp]:
  "settings (do_call env c p) = settings p" "keys (do_call env c p) = keys p" "scans (do_call env c p) = scans p"
  "dial (do_call env c p) = dial p" "counts (do_call env c p) = counts p"
  by (simp_all add: do_call_def)

lemma do_board_keeps [simp]:
  "settings (do_board f p) = settings p" "keys (do_board f p) = keys p" "scans (do_board f p) = scans p"
  "dial (do_board f p) = dial p" "counts (do_board f p) = counts p" "effects (do_board f p) = effects p"
  "board (do_board f p) = snd (f (board p))"
  by (simp_all add: do_board_def on_board_def split: prod.split)

lemma beep_keeps [simp]:
  "settings (BeepTime i f t p) = settings p" "keys (BeepTime i f t p) = keys p" "scans (BeepTime i f t p) = scans p"
  "dial (BeepTime i f t p) = dial p" "counts (BeepTime i f t p) = counts p" "board (BeepTime i f t p) = board p"
  by (simp_all add: BeepTime_def emit_def)

lemma prm_val_cong: "settings p' = settings p \<Longrightarrow> prm_val i p' = prm_val i p"
  by (simp add: prm_val_def)

lemma scan_keys_eq:
  assumes "wf_key (keys p)" "scans p = s # ss"
  shows "\<exists>k. scan_keys p = Some (keyState k, p\<lparr>keys := k, scans := ss\<rparr>) \<and> wf_key k"
proof -
  obtain k where "keyProc s (keys p) = Some (keyState k, k)" "wf_key k" by (rule keyProc_keys [OF assms(1), of s])
  with assms(2) show ?thesis by (intro exI [of _ k]) (simp add: scan_keys_def)
qed

lemma settings_ok_cong: "settings p' = settings p \<Longrightarrow> settings_ok p' = settings_ok p"
  by (simp add: settings_ok_def)

section \<open>The base screen keeps its parameters and sets the target\<close>

lemma step_Val_steps: "vhandler v = h \<Longrightarrow> step_Val n v = stepsize n (vstep h) v"
  "vhandler v = h \<Longrightarrow> bigstep_Val n v = stepsize n (vbigstep h) v"
  by (simp_all add: step_Val_def bigstep_Val_def)

lemma less_3: "k < (3 :: nat) \<Longrightarrow> k = 0 \<or> k = 1 \<or> k = 2"
  by arith

definition steppable :: "nat \<Rightarrow> bool" where
  "steppable i \<longleftrightarrow> screen_prm i \<and> \<not> csigned (vtype (parametres ! i)) \<and> 0 \<le> vstep (parametres ! i) \<and> vstep (parametres ! i) \<le> 1000 \<and>
     0 \<le> vbigstep (parametres ! i) \<and> vbigstep (parametres ! i) \<le> 300000"

lemma steppable_step:
  assumes "settings_ok p" "steppable i" "\<bar>n\<bar> \<le> 57344"
  shows "\<exists>p'. on_prm i (step_Val n) p = Some p' \<and> edited p p'"
proof -
  have i: "screen_prm i" "\<not> csigned (vtype (parametres ! i))" "0 \<le> vstep (parametres ! i)" "vstep (parametres ! i) \<le> 1000"
    using assms(2) by (simp_all add: steppable_def)
  have "vstep (parametres ! i) * \<bar>n\<bar> \<le> 1000 * 57344" using i(3,4) assms(3) by (intro mult_mono) auto
  then show ?thesis using assms(3) i step_Val_steps(1)
    by (intro on_prm_step [OF assms(1) i(1-3)]) (auto simp: cmax_def cmin_def)
qed

lemma steppable_bigstep:
  assumes "settings_ok p" "steppable i" "n = 1 \<or> n = - 1"
  shows "\<exists>p'. on_prm i (bigstep_Val n) p = Some p' \<and> edited p p'"
proof -
  have i: "screen_prm i" "\<not> csigned (vtype (parametres ! i))" "0 \<le> vbigstep (parametres ! i)" "vbigstep (parametres ! i) \<le> 300000"
    using assms(2) by (simp_all add: steppable_def)
  show ?thesis using assms(3) i step_Val_steps(2)
    by (intro on_prm_step [OF assms(1) i(1-3)]) (auto simp: cmax_def cmin_def)
qed

lemma steppable_prms:
  "list_all steppable [Prm_baseu0, Prm_basei0, Prm_baseu1, Prm_basei1, Prm_baseu2, Prm_basei2,
     Prm_chargeru, Prm_chargeri, Prm_chargert, Prm_chargermode]"
  by (simp add: steppable_def screen_prm_def parametres_def prm_def)

lemma preset_limits: "vmin (parametres ! Prm_basepreset) = 0 \<and> vmax (parametres ! Prm_basepreset) = 2 \<and>
    vmin (parametres ! Prm_crange_set) = 0 \<and> vmax (parametres ! Prm_crange_set) = 1"
  by (simp add: parametres_def prm_def)

lemma preset_ok:
  assumes "settings_ok p"
  obtains k where "k < 3" "preset p = Some (base_params ! k)" "prm_val Prm_basepreset p = int k"
proof -
  have "0 \<le> prm_val Prm_basepreset p \<and> prm_val Prm_basepreset p \<le> 2"
    using prm_val_limits [OF assms, of Prm_basepreset] preset_limits by (simp add: screen_prm_def)
  then obtain k where "prm_val Prm_basepreset p = int k" "k < 3" by (metis int_ops(3) nonneg_eq_int of_nat_le_iff of_nat_numeral le_imp_less_Suc numeral_2_eq_2 numeral_3_eq_3)
  then show ?thesis using that [of k] by (simp add: preset_def rd_def base_params_def)
qed

lemma selected_ok:
  assumes "settings_ok p" "varParam w < 2"
  obtains i where "selected w p = Some i" "steppable i"
proof -
  obtain k where k: "k < 3" "preset p = Some (base_params ! k)" by (rule preset_ok [OF assms(1)])
  have "uint (varParam w) < 2" using assms(2) by (simp add: word_less_def)
  with uint_ge_0 [of "varParam w"] have "uint (varParam w) = 0 \<or> uint (varParam w) = 1" by linarith
  then have "\<exists>i. selected w p = Some i \<and> steppable i"
    using less_3 [OF k(1)] k(2) steppable_prms by (elim disjE) (simp_all add: selected_def base_params_def rd_def)
  with that show ?thesis by blast
qed

text \<open>What a pass keeps of the state of a screen.\<close>

definition kept :: "panel \<Rightarrow> panel \<Rightarrow> bool" where
  "kept p p' \<longleftrightarrow> settings_ok p' \<and> others_kept p p' \<and> keys p' = keys p \<and> scans p' = scans p"

lemma kept_edited: "edited p p' \<Longrightarrow> kept p p'"
  by (simp add: kept_def edited_simps)

lemma kept_same: "settings_ok p \<Longrightarrow> settings p' = settings p \<Longrightarrow> keys p' = keys p \<Longrightarrow> scans p' = scans p \<Longrightarrow> kept p p'"
  by (simp add: kept_def settings_ok_def others_kept_def)

lemma kept_trans: "kept p q \<Longrightarrow> kept q r \<Longrightarrow> kept p r"
  by (simp add: kept_def others_kept_def)

lemma kept_settings: "kept p p' \<Longrightarrow> settings_ok p'"
  by (simp add: kept_def)

lemma edits_kept:
  assumes "settings_ok p" "steppable i"
  shows "\<exists>p'. on_prm i (bigstep_Val 1) p = Some p' \<and> kept p p'"
    "\<exists>p'. on_prm i (bigstep_Val (- 1)) p = Some p' \<and> kept p p'"
    "\<exists>p'. on_prm i (\<lambda>v. Some (setdef v)) p = Some p' \<and> kept p p'"
    "\<bar>n\<bar> \<le> 57344 \<Longrightarrow> \<exists>p'. on_prm i (step_Val n) p = Some p' \<and> kept p p'"
  using steppable_bigstep [OF assms] steppable_step [OF assms] on_prm_default [OF assms(1), of i] assms(2) kept_edited
  by (fastforce simp: steppable_def)+

lemma kept_next_preset:
  assumes "settings_ok p"
  shows "kept p (nextPreset p)"
proof -
  obtain k where k: "k < 3" "prm_val Prm_basepreset p = int k" by (rule preset_ok [OF assms])
  show ?thesis
  proof (cases "k < 2")
    case True
    then have "nextPreset p = set_prm Prm_basepreset (int k + 1) p"
      using k by (simp add: nextPreset_def base_params_def conv_def cmin_def)
    then show ?thesis using set_prm_ok [OF assms, of Prm_basepreset "int k + 1"] preset_limits True k(1) kept_edited by (simp add: screen_prm_def)
  next
    case False
    then have "nextPreset p = set_prm Prm_basepreset 0 p" using k by (simp add: nextPreset_def base_params_def)
    then show ?thesis using set_prm_ok [OF assms, of Prm_basepreset 0] preset_limits kept_edited by (simp add: screen_prm_def)
  qed
qed

lemma kept_beep: "settings_ok p \<Longrightarrow> kept p (beep_key p)" "settings_ok p \<Longrightarrow> kept p (beep_error p)"
  by (rule kept_same; simp add: beep_key_def beep_error_def)+

lemma kept_call: "settings_ok p \<Longrightarrow> kept p (do_call env c p)"
  by (rule kept_same) simp_all

lemma kept_board: "settings_ok p \<Longrightarrow> kept p (do_board f p)"
  by (rule kept_same) simp_all

lemma kept_refl: "settings_ok p \<Longrightarrow> kept p p"
  by (simp add: kept_def others_kept_def)

lemma kept_crange:
  assumes "settings_ok p"
  shows "kept p (do_call env f (set_prm Prm_crange_set 0 p))" "kept p (do_call env f (set_prm Prm_crange_set 1 p))"
proof -
  have "kept p (set_prm Prm_crange_set 0 p)" "kept p (set_prm Prm_crange_set 1 p)"
    using set_prm_ok [OF assms, of Prm_crange_set] preset_limits by (auto intro: kept_edited simp: screen_prm_def)
  then show "kept p (do_call env f (set_prm Prm_crange_set 0 p))" "kept p (do_call env f (set_prm Prm_crange_set 1 p))"
    using kept_trans kept_call [OF kept_settings] by blast+
qed

definition screen_ok :: "('w \<Rightarrow> bool) \<Rightarrow> panel \<Rightarrow> (selWindow option \<times> 'w \<times> panel) option \<Rightarrow> bool" where
  "screen_ok W p r \<longleftrightarrow> (\<exists>win w p'. r = Some (win, w, p') \<and> W w \<and> kept p p')"

lemma screen_okI: "W w \<Longrightarrow> kept p p' \<Longrightarrow> screen_ok W p (Some (win, w, p'))"
  by (simp add: screen_ok_def)

lemma screen_ok_edit: "W w \<Longrightarrow> \<exists>p'. m = Some p' \<and> kept p p' \<Longrightarrow> screen_ok W p (m \<bind> (\<lambda>p. Some (win, w, p)))"
  by (auto simp: screen_ok_def)

lemma screen_ok_from: "kept p q \<Longrightarrow> screen_ok W q r \<Longrightarrow> screen_ok W p r"
  by (auto simp: screen_ok_def intro: kept_trans)

lemma screen_ok_if: "(b \<Longrightarrow> screen_ok W p r) \<Longrightarrow> (\<not> b \<Longrightarrow> screen_ok W p r') \<Longrightarrow> screen_ok W p (if b then r else r')"
  by simp

abbreviation base_ok :: "base \<Rightarrow> bool" where "base_ok w \<equiv> varParam w < 2"

lemma next_param: "base_ok (w\<lparr>varParam := if varParam w + 1 \<ge> 2 then 0 else varParam w + 1\<rparr>)"
  by (simp add: not_le)

lemma base_keys_ok:
  assumes "settings_ok p" "base_ok w"
  shows "screen_ok base_ok p (base_keys env en w p)"
proof (cases "reg_getremote (board p)")
  case True
  then show ?thesis using assms kept_beep by (simp add: base_keys_def screen_okI)
next
  case False
  define q where "q = beep_key p"
  have q: "settings_ok q" "kept p q" using kept_beep(1) [OF assms(1)] by (simp_all add: q_def kept_settings)
  obtain i where i: "selected w q = Some i" "steppable i" by (rule selected_ok [OF q(1) assms(2)])
  have v: "base_ok (w\<lparr>varParam := if 2 \<le> varParam w + 1 then 0 else varParam w + 1\<rparr>)" by (rule next_param)
  have "screen_ok base_ok q (base_keys env en w p)"
    unfolding base_keys_def q_def [symmetric] Let_def
    using False assms(2)
    by (simp only: if_False base.simps i(1) Option.bind.simps)
      (intro screen_ok_if screen_okI screen_ok_edit kept_refl [OF q(1)] edits_kept [OF q(1) i(2)] v
        kept_beep [OF q(1)] kept_call [OF q(1)] kept_next_preset [OF q(1)] kept_crange [OF q(1)]; simp)
  with q(2) show ?thesis by (rule screen_ok_from)
qed

lemma base_dial_ok:
  assumes "settings_ok p" "base_ok w"
  shows "\<exists>p'. base_dial w p = Some p' \<and> kept p p'"
proof -
  obtain n q where d: "read_dial p = (n, q)" by fastforce
  have q: "kept p q" using read_dial_keeps [of p] assms(1) by (simp add: d kept_same)
  have n: "\<bar>n\<bar> \<le> 57344" using read_dial_bound [of p] by (simp add: d)
  obtain i where i: "selected w q = Some i" "steppable i" by (rule selected_ok [OF kept_settings [OF q] assms(2)])
  have "\<exists>p'. base_dial w p = Some p' \<and> kept q p'"
    using edits_kept(4) [OF kept_settings [OF q] i(2) n] kept_beep(2) [OF kept_settings [OF q]] i(1)
      kept_same [OF kept_settings [OF q] refl refl refl]
    by (simp add: base_dial_def d)
  with q kept_trans show ?thesis by blast
qed

text \<open>The target that the parameters of the selected preset ask for.\<close>

definition setpoint :: "nat \<Rightarrow> nat \<Rightarrow> u16 \<Rightarrow> u32 \<Rightarrow> panel \<Rightarrow> regTarget \<Rightarrow> bool" where
  "setpoint u i m t p T \<longleftrightarrow>
     voltage_set T = word_of_int (prm_val u p * 1000) \<and> current_set T = word_of_int (prm_val i p * 1000) \<and>
     target_mode T = m \<and> time_set T = t"

lemma set_simps [simp]:
  "snd (reg_voltageSet u r) = r\<lparr>reg_target := (reg_target r)\<lparr>voltage_set := u\<rparr>\<rparr>"
  "snd (reg_currentSet i r) = r\<lparr>reg_target := (reg_target r)\<lparr>current_set := i\<rparr>\<rparr>"
  "snd (reg_modeSet m r) = r\<lparr>reg_target := (reg_target r)\<lparr>target_mode := regMode_code m\<rparr>\<rparr>"
  "snd (reg_timeSet t r) = r\<lparr>reg_target := (reg_target r)\<lparr>time_set := t\<rparr>\<rparr>"
  by (simp_all add: reg_voltageSet_def reg_currentSet_def reg_modeSet_def reg_timeSet_def)

lemma mode_limits: "list_all (\<lambda>i. vmin (parametres ! i) = 0 \<and> vmax (parametres ! i) = 1)
    [Prm_basemode0, Prm_basemode1, Prm_basemode2, Prm_chargermode]"
  by (simp add: parametres_def prm_def)

lemma base_target_ok:
  assumes "settings_ok p"
  shows "\<exists>k p'. k < 3 \<and> prm_val Prm_basepreset p = int k \<and> base_target p = Some p' \<and> kept p p' \<and> settings p' = settings p \<and>
    setpoint (base_params ! k ! 0) (base_params ! k ! 1) (if prm_val (base_params ! k ! 2) p = 0 then 0 else 1) 0 p (reg_target (board p')) \<and>
    board p' = (board p)\<lparr>reg_target := reg_target (board p')\<rparr>"
proof -
  obtain k where k: "k < 3" "preset p = Some (base_params ! k)" "prm_val Prm_basepreset p = int k" by (rule preset_ok [OF assms])
  have l: "length (base_params ! k) = 3" using less_3 [OF k(1)] by (auto simp: base_params_def)
  define m where "m = base_params ! k ! 2"
  have "m = Prm_basemode0 \<or> m = Prm_basemode1 \<or> m = Prm_basemode2"
    using less_3 [OF k(1)] by (auto simp: base_params_def m_def)
  then have "0 \<le> prm_val m p \<and> prm_val m p \<le> 1" using prm_val_limits [OF assms, of m] mode_limits by (auto simp: screen_prm_def)
  then have m: "prm_val m p = 0 \<or> prm_val m p = 1" by auto
  have rd: "rd (base_params ! k) 0 = Some (base_params ! k ! 0)" "rd (base_params ! k) 1 = Some (base_params ! k ! 1)"
    "rd (base_params ! k) 2 = Some m" using l by (simp_all add: rd_def m_def)
  have v: "prm_val j (do_board f q) = prm_val j q" for j f q by (simp add: prm_val_def)
  show ?thesis using k(1,3) m rd assms 
    by (intro exI [of _ k]) (auto simp: m_def [symmetric] base_target_def k(2) v setpoint_def kept_def settings_ok_def others_kept_def)
qed

lemma base_pass_returns:
  assumes "settings_ok p" "wf_key (keys p)" "varParam w < 2" "scans p \<noteq> []"
  obtains win w' p' where "base_pass env w p = Some (win, w', p')" "settings_ok p'" "wf_key (keys p')" "varParam w' < 2"
    "scans p' = tl (scans p)" "others_kept p p'"
    "win = None \<Longrightarrow> \<exists>k < 3. prm_val Prm_basepreset p' = int k \<and>
      setpoint (base_params ! k ! 0) (base_params ! k ! 1) (if prm_val (base_params ! k ! 2) p' = 0 then 0 else 1) 0 p' (reg_target (board p'))"
proof -
  obtain s ss where s: "scans p = s # ss" using assms(4) by (cases "scans p") auto
  define p1 where "p1 = (if reg_getremote (board p) then do_call env (reg_getTarget (replicate TARGET_WORDS 0)) p else p)"
  define p2 where "p2 = do_call env (reg_crangeGet (junk env) (junk env)) p1"
  have p1: "kept p p1" using kept_call kept_same [OF assms(1)] assms(1) by (simp add: p1_def)
  have p2: "kept p p2" using kept_trans [OF p1 kept_call [OF kept_settings [OF p1]]] by (simp add: p2_def)
  obtain key where k: "scan_keys p2 = Some (keyState key, p2\<lparr>keys := key, scans := ss\<rparr>)" "wf_key key"
    using scan_keys_eq [of p2 s ss] p2 assms(2) s by (auto simp: kept_def)
  define p3 where "p3 = p2\<lparr>keys := key, scans := ss\<rparr>"
  have p3: "settings_ok p3" "keys p3 = key" "scans p3 = ss" "settings p3 = settings p"
    using p2 by (simp_all add: p3_def kept_def settings_ok_def p2_def p1_def)
  have out: "others_kept p q" if "kept p3 q" for q using that p3(4) by (simp add: kept_def others_kept_def)
  have "screen_ok base_ok p3 (if keyState key \<noteq> 0 then base_keys env (fst (reg_enableGet (board p))) w p3 else Some (None, w, p3))"
    using base_keys_ok [OF p3(1) assms(3)] kept_same [OF p3(1)] assms(3) by (simp add: screen_okI)
  then obtain win w4 p4 where w4: "(if keyState key \<noteq> 0 then base_keys env (fst (reg_enableGet (board p))) w p3 else Some (None, w, p3)) = Some (win, w4, p4)"
    "varParam w4 < 2" "kept p3 p4" by (auto simp: screen_ok_def)
  note step = base_pass_def p1_def [symmetric] p2_def [symmetric] k(1) p3_def [symmetric] w4(1)
  show thesis
  proof (cases win)
    case (Some x)
    show thesis by (rule that [of win w4 p4]) (use Some w4(2,3) p3(1-3) k(2) s out [OF w4(3)] in \<open>simp_all add: step kept_def\<close>)
  next
    case None
    obtain p5 where p5: "base_dial w4 p4 = Some p5" "kept p4 p5" using base_dial_ok [OF kept_settings [OF w4(3)] w4(2)] by blast
    obtain i p6 where p6: "i < 3" "prm_val Prm_basepreset p5 = int i" "base_target p5 = Some p6" "kept p5 p6" "settings p6 = settings p5"
      "setpoint (base_params ! i ! 0) (base_params ! i ! 1) (if prm_val (base_params ! i ! 2) p5 = 0 then 0 else 1) 0 p5 (reg_target (board p6))"
      using base_target_ok [OF kept_settings [OF p5(2)]] by blast
    have v: "prm_val j p6 = prm_val j p5" for j using p6(5) by (rule prm_val_cong)
    have kept: "kept p3 p6" using w4(3) p5(2) p6(4) kept_trans by blast
    show thesis
    proof (rule that [of None w4 p6])
      show "base_pass env w p = Some (None, w4, p6)" using None p5(1) p6(3) by (simp add: step)
      show "settings_ok p6" "wf_key (keys p6)" "varParam w4 < 2" "scans p6 = tl (scans p)" "others_kept p p6"
        using kept p3 k(2) w4(2) s out [OF kept] by (simp_all add: kept_def)
      show "\<exists>k < 3. prm_val Prm_basepreset p6 = int k \<and>
        setpoint (base_params ! k ! 0) (base_params ! k ! 1) (if prm_val (base_params ! k ! 2) p6 = 0 then 0 else 1) 0 p6 (reg_target (board p6))"
        using p6 v by (auto simp: setpoint_def)
    qed
  qed
qed

text \<open>C17: What is dialled on the base screen is what the regulator is asked for.  Whatever keys are pressed and
  however far the encoder was turned, a pass of the base screen returns, keeps the parameters of the screens
  within their limits and all others as they are, keeps the selection within the table, and, unless it leaves for another screen, hands the voltage
  in microvolts, the current in microamperes and the mode of the selected preset to the connection task,
  which then sends exactly these on the line, at most three times.\<close>

theorem base_setpoint_reaches_regulator:
  assumes "settings_ok p" "wf_key (keys p)" "varParam w < 2" "scans p \<noteq> []" "link_ok mb"
  shows "\<exists>win w' p'. base_pass env w p = Some (win, w', p') \<and> settings_ok p' \<and> others_kept p p' \<and> wf_key (keys p') \<and> varParam w' < 2 \<and>
    (win = None \<longrightarrow> \<not> reg_getremote (board p') \<longrightarrow>
      (\<exists>k T r' mb' n. k < 3 \<and> prm_val Prm_basepreset p' = int k \<and>
        voltage_set T = word_of_int (1000 * prm_val (base_params ! k ! 0) p') \<and>
        current_set T = word_of_int (1000 * prm_val (base_params ! k ! 1) p') \<and>
        target_mode T = (if prm_val (base_params ! k ! 2) p' = 0 then 0 else 1) \<and> time_set T = 0 \<and>
        task_target (board p') mb = Some (r', mb') \<and> n \<le> 3 \<and>
        sent (port mb') = sent (port mb) @ replicate n (write_message 0x0100 (target_regs T))))"
proof -
  obtain win w' p' where r: "base_pass env w p = Some (win, w', p')" "settings_ok p'" "wf_key (keys p')" "varParam w' < 2" "others_kept p p'"
    "win = None \<Longrightarrow> \<exists>k < 3. prm_val Prm_basepreset p' = int k \<and>
      setpoint (base_params ! k ! 0) (base_params ! k ! 1) (if prm_val (base_params ! k ! 2) p' = 0 then 0 else 1) 0 p' (reg_target (board p'))"
    by (rule base_pass_returns [OF assms(1-4), of env]) blast
  let ?T = "reg_target (board p')"
  obtain mb' j where t: "task_target (board p') mb = Some (if gremote (board p') then board p'
      else (board p')\<lparr>errorCount := count_error (j \<noteq> None) (errorCount (board p'))\<rparr>, mb')"
    "sent (port mb') = sent (port mb) @ (if gremote (board p') then [] else replicate (tries 3 j) (target_message (board p')))"
    "j = exchange_target (line mb)"
    by (rule task_target_spec [OF assms(5), of "board p'"]) blast
  have n: "tries 3 j \<le> 3" unfolding t(3) exchange_target_def
    using wrs.retry_bounded [where regs = "target_regs ?T" and n = 3 and rs = "line mb"] by simp
  have "\<exists>k T r' mb' n. k < 3 \<and> prm_val Prm_basepreset p' = int k \<and>
        voltage_set T = word_of_int (1000 * prm_val (base_params ! k ! 0) p') \<and>
        current_set T = word_of_int (1000 * prm_val (base_params ! k ! 1) p') \<and>
        target_mode T = (if prm_val (base_params ! k ! 2) p' = 0 then 0 else 1) \<and> time_set T = 0 \<and>
        task_target (board p') mb = Some (r', mb') \<and> n \<le> 3 \<and>
        sent (port mb') = sent (port mb) @ replicate n (write_message 0x0100 (target_regs T))"
    if win: "win = None" and g: "\<not> reg_getremote (board p')"
  proof -
    obtain k where k: "k < 3" "prm_val Prm_basepreset p' = int k"
      "setpoint (base_params ! k ! 0) (base_params ! k ! 1) (if prm_val (base_params ! k ! 2) p' = 0 then 0 else 1) 0 p' ?T"
      using r(6) [OF win] by blast
    show ?thesis using k t(1,2) g n
      by (intro exI [of _ k] exI [of _ ?T] exI [of _ mb'] exI [of _ "tries 3 j"] exI)
        (auto simp: setpoint_def mult.commute reg_getremote_def target_message_def)
  qed
  with r(1-5) show ?thesis by blast
qed

text \<open>The panel as it starts, with one key scan to come, and a connection that answers nothing.\<close>

definition sample_panel :: panel where
  "sample_panel = \<lparr>settings = valuearray, board = initial_reg, keys = initial_key, scans = [\<lambda>_. True],
     dial = \<lparr>CNT = ENCO_ZERO, enco_tic = 1, ntic = 0\<rparr>, counts = [], effects = []\<rparr>"

definition silent_surroundings :: surroundings where
  "silent_surroundings = \<lparr>waits = \<lambda>q r. (False, rq_dst q, r), now = \<lambda>_. 0, junk = 0,
     localtime = \<lambda>t. gmtime_r (uint t), mktime = \<lambda>t. case timegm t of Some x \<Rightarrow> x | None \<Rightarrow> 0\<rparr>"

lemma sample_panel_ok: "settings_ok sample_panel" "wf_key (keys sample_panel)" "scans sample_panel \<noteq> []"
proof -
  have "val_ok (valuearray ! i)" if "screen_prm i" for i
    using valuearray_ok screen_prm_less [OF that] by (simp add: list_all_length valuearray_def length_parametres)
  then show "settings_ok sample_panel" by (simp add: sample_panel_def settings_ok_def valuearray_def new_Val_def comp_def)
  show "wf_key (keys sample_panel)" "scans sample_panel \<noteq> []" by (simp_all add: sample_panel_def wf_key_def initial_key_def)
qed

theorem base_setpoint_reaches_regulator_witness:
  "\<exists>win w' p'. base_pass silent_surroundings \<lparr>varParam = 0, func = False\<rparr> sample_panel = Some (win, w', p') \<and> settings_ok p' \<and>
    (win = None \<longrightarrow> \<not> reg_getremote (board p') \<longrightarrow>
      (\<exists>k T r' mb' n. k < 3 \<and> prm_val Prm_basepreset p' = int k \<and>
        voltage_set T = word_of_int (1000 * prm_val (base_params ! k ! 0) p') \<and>
        task_target (board p') (mb_sample []) = Some (r', mb') \<and> n \<le> 3 \<and>
        sent (port mb') = sent (port (mb_sample [])) @ replicate n (write_message 0x0100 (target_regs T))))"
proof -
  have "varParam \<lparr>varParam = 0, func = False\<rparr> < 2" by simp
  from base_setpoint_reaches_regulator [OF sample_panel_ok(1,2) this sample_panel_ok(3) link_ok_sample, of silent_surroundings "[]"]
  show ?thesis by blast
qed

section \<open>Remote control\<close>

definition reads_only :: "effect \<Rightarrow> bool" where
  "reads_only e \<longleftrightarrow> (case e of Command q \<Rightarrow> rq_src q = [] | Beep t f \<Rightarrow> True | _ \<Rightarrow> False)"

lemma remote_call:
  assumes "\<And>q r. gremote (snd (snd (waits env q r))) = gremote r"
  shows "gremote (board (do_call env c p)) = gremote (board p)"
proof (induction c arbitrary: p)
  case (Waits q k)
  obtain ok dst r where w: "waits env q (board p) = (ok, dst, r)" by (metis prod_cases3)
  have "gremote r = gremote (board p)" using assms [of q "board p"] w by simp
  with w Waits [OF rangeI rangeI, of ok dst "(emit (Command q) p)\<lparr>board := r\<rparr>"] show ?case by (simp add: do_call_def)
qed (simp add: do_call_def)

lemma remote_reads:
  "effects (do_call env (reg_getTarget t) p) = effects p @ [Command (read_request 0x0100 (take TARGET_WORDS t))]"
  "effects (do_call env (reg_crangeGet c d) p) = effects p @ [Command (read_request 0x0110 [c])]"
  by (simp_all add: do_call_def reg_getTarget_def reg_crangeGet_def emit_def split: prod.split)

lemma scan_keys_keeps:
  "scan_keys p = Some (s, p') \<Longrightarrow> settings p' = settings p \<and> board p' = board p \<and> effects p' = effects p"
  by (auto simp: scan_keys_def Option.bind_eq_Some_conv split: list.splits)

lemma beep_effects [simp]:
  "effects (beep_error p) = effects p @ [Beep (if prm_val Prm_bpErrOnOff p \<noteq> 0 then 100 else 0) 3000]"
  "settings (beep_error p) = settings p" "board (beep_error p) = board p"
  by (simp_all add: beep_error_def BeepTime_def emit_def)

lemma base_target_keeps:
  "base_target p = Some p' \<Longrightarrow> settings p' = settings p \<and> effects p' = effects p \<and> gremote (board p') = gremote (board p)"
  by (auto simp: base_target_def Option.bind_eq_Some_conv Let_def split: if_splits)

text \<open>C18: While the panel is under remote control its own keys and encoder change nothing: provided that the
  other tasks leave the mode alone, a pass of the base screen stays on it, keeps every parameter, asks
  nothing of the regulator but to read, and beeps at every key and at every turn of the encoder.\<close>

theorem remote_locks_the_panel:
  assumes "\<And>q r. gremote (snd (snd (waits env q r))) = gremote r" "gremote (board p)"
    and "base_pass env w p = Some (win, w', p')"
  shows "win = None \<and> w' = w \<and> settings p' = settings p \<and> gremote (board p') \<and>
    (\<exists>es. effects p' = effects p @ es \<and> list_all reads_only es)"
proof -
  define p1 where "p1 = do_call env (reg_getTarget (replicate TARGET_WORDS 0)) p"
  define p2 where "p2 = do_call env (reg_crangeGet (junk env) (junk env)) p1"
  have p2: "gremote (board p2)" "settings p2 = settings p"
    using assms(2) by (simp_all add: p1_def p2_def remote_call [OF assms(1)])
  obtain es where e2: "effects p2 = effects p @ es" "list_all reads_only es"
    by (simp add: p1_def p2_def remote_reads reads_only_def read_request_def)
  have pass: "base_pass env w p = scan_keys p2 \<bind> (\<lambda>(s, p3).
      (if s \<noteq> 0 then base_keys env (fst (reg_enableGet (board p))) w p3 else Some (None, w, p3)) \<bind>
      (\<lambda>(win, w, p4). if win \<noteq> None then Some (win, w, p4)
         else base_dial w p4 \<bind> (\<lambda>p5. base_target p5 \<bind> (\<lambda>p6. Some (None, w, p6)))))"
    using assms(2) by (simp add: base_pass_def reg_getremote_def p1_def p2_def)
  obtain s p3 where p3: "scan_keys p2 = Some (s, p3)" using assms(3) pass by (cases "scan_keys p2") auto
  note k3 = scan_keys_keeps [OF p3]
  define p4 where "p4 = (if s \<noteq> 0 then beep_error p3 else p3)"
  have k4: "settings p4 = settings p3" "board p4 = board p3" "\<exists>es. effects p4 = effects p3 @ es \<and> list_all reads_only es"
    by (simp_all add: p4_def reads_only_def)
  have "(if s \<noteq> 0 then base_keys env (fst (reg_enableGet (board p))) w p3 else Some (None, w, p3)) = Some (None, w, p4)"
    using k3 p2 by (simp add: p4_def base_keys_def reg_getremote_def)
  then have pass4: "base_pass env w p = base_dial w p4 \<bind> (\<lambda>p5. base_target p5 \<bind> (\<lambda>p6. Some (None, w, p6)))"
    by (simp add: pass p3)
  obtain n q where d: "read_dial p4 = (n, q)" by fastforce
  define p5 where "p5 = (if n \<noteq> 0 then beep_error q else q)"
  have q: "settings q = settings p4" "board q = board p4" "effects q = effects p4" using read_dial_keeps [of p4] by (simp_all add: d)
  then have k5: "settings p5 = settings p4" "board p5 = board p4" "\<exists>es. effects p5 = effects p4 @ es \<and> list_all reads_only es"
    by (simp_all add: p5_def reads_only_def)
  have "base_dial w p4 = Some p5" using q(2) k4(2) k3 p2 by (simp add: base_dial_def d p5_def reg_getremote_def)
  then obtain p6 where p6: "base_target p5 = Some p6" "base_pass env w p = Some (None, w, p6)"
    using assms(3) pass4 by (cases "base_target p5") auto
  have "\<exists>es. effects p6 = effects p @ es \<and> list_all reads_only es"
    using e2 k3 k4(3) k5(3) base_target_keeps [OF p6(1)] by (metis append.assoc list_all_append)
  then show ?thesis using p6(2) assms(3) base_target_keeps [OF p6(1)] k3 k4 k5 p2 by simp
qed

definition remote_panel :: panel where
  "remote_panel = sample_panel\<lparr>board := reg_setremote True initial_reg, scans := [\<lambda>p. False, \<lambda>p. False]\<rparr>"

theorem remote_locks_the_panel_witness:
  "\<exists>w' p'. base_pass silent_surroundings \<lparr>varParam = 0, func = False\<rparr> remote_panel = Some (None, w', p') \<and>
    settings p' = valuearray"
proof -
  have p: "settings_ok remote_panel" "wf_key (keys remote_panel)" "scans remote_panel \<noteq> []"
    using sample_panel_ok by (simp_all add: remote_panel_def settings_ok_def)
  obtain win w' p' where r: "base_pass silent_surroundings \<lparr>varParam = 0, func = False\<rparr> remote_panel = Some (win, w', p')"
    by (rule base_pass_returns [OF p(1,2) _ p(3), of "\<lparr>varParam = 0, func = False\<rparr>" silent_surroundings]) simp_all
  have "gremote (board remote_panel)" by (simp add: remote_panel_def reg_setremote_def)
  with remote_locks_the_panel [OF _ this r] show ?thesis
    using r by (auto simp: silent_surroundings_def remote_panel_def sample_panel_def)
qed

section \<open>The charger screen keeps its parameters and sets the target\<close>

abbreviation charger_ok :: "charger \<Rightarrow> bool" where "charger_ok w \<equiv> ch_param w < 4"

lemma charge_prm_ok:
  assumes "charger_ok w"
  obtains i where "charge_prm w = Some i" "steppable i"
proof -
  have "uint (ch_param w) < 4" using assms by (simp add: word_less_def)
  with uint_ge_0 [of "ch_param w"] have "uint (ch_param w) = 0 \<or> uint (ch_param w) = 1 \<or> uint (ch_param w) = 2 \<or> uint (ch_param w) = 3"
    by linarith
  then have "\<exists>i. charge_prm w = Some i \<and> steppable i"
    using steppable_prms by (elim disjE) (simp_all add: charge_prm_def charge_params_def rd_def)
  with that show thesis by blast
qed

lemma next_charge_param: "charger_ok w \<Longrightarrow> charger_ok (w\<lparr>ch_param := if ch_param w + 1 = 4 then 0 else ch_param w + 1\<rparr>)"
proof -
  assume "charger_ok w"
  then have "uint (ch_param w) < 4" by (simp add: word_less_def)
  then have "ch_param w + 1 = 4 \<or> uint (ch_param w + 1) < 4"
    by (cases "uint (ch_param w) = 3") (auto simp: uint_word_ariths word_uint_eq_iff)
  then show ?thesis by (auto simp: word_less_def)
qed

lemma charge_keys_ok:
  assumes "settings_ok p" "charger_ok w"
  shows "screen_ok charger_ok p (charge_keys env en w p)"
proof -
  define q where "q = beep_key p"
  define q' where "q' = (if press kOnOff q then
    (if \<not> en then do_call env (reg_enableSet True (board q)) q else do_call env (reg_enableSet False (board q)) q) else q)"
  have q: "kept p q" using kept_beep(1) [OF assms(1)] by (simp add: q_def)
  have "kept q q'" by (simp add: q'_def kept_call [OF kept_settings [OF q]] kept_refl [OF kept_settings [OF q]])
  with q have k: "kept p q'" by (rule kept_trans)
  note ok = kept_settings [OF k]
  obtain i where i: "charge_prm w = Some i" "steppable i" by (rule charge_prm_ok [OF assms(2)])
  have "screen_ok charger_ok q' (charge_keys env en w p)"
    unfolding charge_keys_def q_def [symmetric] Let_def q'_def [symmetric]
    using assms(2)
    by (simp only: i(1) Option.bind.simps)
      (intro screen_ok_if screen_okI screen_ok_edit kept_refl [OF ok] edits_kept [OF ok i(2)] next_charge_param; assumption)
  with k show ?thesis by (rule screen_ok_from)
qed

lemma charge_keys_frozen: "charge_keys env True w p = Some (win, w', p') \<Longrightarrow> settings p' = settings p \<and> win = None \<and> w' = w"
  by (auto simp: charge_keys_def Let_def beep_key_def)

lemma charge_target_ok: "settings (charge_target p) = settings p" "keys (charge_target p) = keys p"
  "setpoint Prm_chargeru Prm_chargeri (if prm_val Prm_chargermode p = 0 then 1 else 2)
     (if prm_val Prm_chargermode p = 0 then word_of_int (prm_val Prm_chargert p) else 0) p (reg_target (board (charge_target p)))"
  by (simp_all add: charge_target_def Let_def setpoint_def prm_val_def)

lemma charge_finish_ok: "ch_param (fst (charge_finish m en w p)) = ch_param w" "settings (snd (charge_finish m en w p)) = settings p"
  "keys (snd (charge_finish m en w p)) = keys p" "board (snd (charge_finish m en w p)) = board p"
  by (simp_all add: charge_finish_def Let_def)

lemma charge_finish_scans: "scans (snd (charge_finish m en w p)) = scans p" "scans (charge_target p) = scans p"
  by (simp_all add: charge_finish_def charge_target_def Let_def)

lemma charge_dial_ok:
  assumes "settings_ok p" "charger_ok w"
  shows "\<exists>p'. charge_dial en w p = Some p' \<and> kept p p' \<and> (en \<longrightarrow> settings p' = settings p)"
proof -
  obtain n q where d: "read_dial p = (n, q)" by fastforce
  have q: "settings q = settings p" "kept p q" using read_dial_keeps [of p] assms(1) by (simp_all add: d kept_same)
  have n: "\<bar>n\<bar> \<le> 57344" using read_dial_bound [of p] by (simp add: d)
  obtain i where i: "charge_prm w = Some i" "steppable i" by (rule charge_prm_ok [OF assms(2)])
  show ?thesis
  proof (cases en)
    case True
    then show ?thesis using q by (simp add: charge_dial_def d)
  next
    case False
    then show ?thesis using edits_kept(4) [OF kept_settings [OF q(2)] i(2) n] i(1) q(2) kept_trans
      by (auto simp: charge_dial_def d)
  qed
qed

lemma charge_pass_returns:
  assumes "settings_ok p" "wf_key (keys p)" "ch_param w < 4" "scans p \<noteq> []"
  obtains win w' p' where "charge_pass env w p = Some (win, w', p')" "kept (p\<lparr>keys := keys p', scans := tl (scans p)\<rparr>) p'"
    "wf_key (keys p')" "ch_param w' < 4"
    "enabled (board p) \<noteq> 0 \<Longrightarrow> win = None \<and> settings p' = settings p"
    "win = None \<Longrightarrow> setpoint Prm_chargeru Prm_chargeri (if prm_val Prm_chargermode p' = 0 then 1 else 2)
      (if prm_val Prm_chargermode p' = 0 then word_of_int (prm_val Prm_chargert p') else 0) p' (reg_target (board p'))"
proof -
  obtain s ss where s: "scans p = s # ss" using assms(4) by (cases "scans p") auto
  obtain key where k: "scan_keys p = Some (keyState key, p\<lparr>keys := key, scans := ss\<rparr>)" "wf_key key"
    using scan_keys_eq [OF assms(2) s] by blast
  define en where "en = fst (reg_enableGet (board p))"
  have en: "en = (enabled (board p) \<noteq> 0)" by (simp add: en_def reg_enableGet_def)
  define p3 where "p3 = p\<lparr>keys := key, scans := ss\<rparr>"
  have p3: "settings_ok p3" "keys p3 = key" "settings p3 = settings p" using assms(1) by (simp_all add: p3_def settings_ok_def)
  have out: "kept (p\<lparr>keys := keys q, scans := tl (scans p)\<rparr>) q" "wf_key (keys q)" if "kept p3 q" for q
    using that s k(2) by (simp_all add: kept_def others_kept_def p3_def)
  have "screen_ok charger_ok p3 (if keyState key \<noteq> 0 then charge_keys env en w p3 else Some (None, w, p3))"
    using charge_keys_ok [OF p3(1) assms(3)] kept_refl [OF p3(1)] assms(3) by (simp add: screen_okI)
  then obtain win w4 p4 where w4: "(if keyState key \<noteq> 0 then charge_keys env en w p3 else Some (None, w, p3)) = Some (win, w4, p4)"
    "ch_param w4 < 4" "kept p3 p4" by (auto simp: screen_ok_def)
  have f4: "en \<Longrightarrow> settings p4 = settings p \<and> win = None" using w4(1) charge_keys_frozen p3(3) by (auto split: if_splits)
  note step = charge_pass_def en_def [symmetric] k(1) p3_def [symmetric] w4(1)
  show thesis
  proof (cases win)
    case (Some x)
    then have "charge_pass env w p = Some (win, w4, p4)" by (simp add: step)
    with that out [OF w4(3)] w4(2) f4 en Some show thesis by blast
  next
    case None
    obtain p5 where p5: "charge_dial en w4 p4 = Some p5" "kept p4 p5" "en \<longrightarrow> settings p5 = settings p4"
      using charge_dial_ok [OF kept_settings [OF w4(3)] w4(2), of en] by blast
    define w5 where "w5 = (if prm_val Prm_chargermode (charge_target p5) = 1 \<and> ch_param w4 = 2 then w4\<lparr>ch_param := ch_param w4 + 1\<rparr> else w4)"
    have w5: "ch_param w5 < 4" using w4(2) by (simp add: w5_def)
    define r where "r = charge_finish (fst (reg_getState (board p))) en w5 (charge_target p5)"
    have "charge_pass env w p = charge_dial en w4 p4 \<bind> (\<lambda>q. let q = charge_target q;
        w' = (if prm_val Prm_chargermode q = 1 \<and> ch_param w4 = 2 then w4\<lparr>ch_param := ch_param w4 + 1\<rparr> else w4);
        (w', q) = charge_finish (fst (reg_getState (board p))) en w' q in Some (None, w', q))"
      using None by (simp add: step)
    also have "\<dots> = Some (None, fst r, snd r)" by (simp add: p5(1) r_def w5_def case_prod_unfold Let_def)
    finally have pass: "charge_pass env w p = Some (None, fst r, snd r)" .
    note fin = charge_finish_ok [of "fst (reg_getState (board p))" en w5 "charge_target p5", folded r_def]
    have v: "prm_val j (snd r) = prm_val j p5" for j using fin(2) charge_target_ok(1) by (simp add: prm_val_def)
    have "kept p5 (snd r)" using fin charge_target_ok charge_finish_scans p5(2)
      by (intro kept_same [OF kept_settings [OF p5(2)]]) (simp_all add: r_def)
    then have kept: "kept p3 (snd r)" using w4(3) p5(2) kept_trans by blast
    show thesis
    proof (rule that [OF pass out [OF kept]])
      show "ch_param (fst r) < 4" using fin(1) w5 by simp
      show "None = None \<and> settings (snd r) = settings p" if "enabled (board p) \<noteq> 0"
        using that en f4 p5(3) fin(2) charge_target_ok(1) by simp
    qed (use fin(4) charge_target_ok(3) [of p5] in \<open>simp add: v setpoint_def\<close>)
  qed
qed

text \<open>C19: A pass of the charger screen, whatever keys are pressed and however far the encoder was turned,
  returns, keeps the parameters of the screens within their limits, all others as they are, and the
  selection within the table.  While the output
  is on no parameter changes and the screen is not left.  Unless it is left, the connection task is handed
  the voltage, the current, and either the time limit or, in the other mode, the shutdown at low current.\<close>

theorem charger_holds_its_settings:
  assumes "settings_ok p" "wf_key (keys p)" "ch_param w < 4" "scans p \<noteq> []"
  shows "\<exists>win w' p'. charge_pass env w p = Some (win, w', p') \<and> settings_ok p' \<and> others_kept p p' \<and> wf_key (keys p') \<and> ch_param w' < 4 \<and>
    (enabled (board p) \<noteq> 0 \<longrightarrow> win = None \<and> settings p' = settings p) \<and>
    (win = None \<longrightarrow> (let T = reg_target (board p'); timed = (prm_val Prm_chargermode p' = 0) in
        voltage_set T = word_of_int (prm_val Prm_chargeru p' * 1000) \<and>
        current_set T = word_of_int (prm_val Prm_chargeri p' * 1000) \<and>
        target_mode T = regMode_code (if timed then reg_limitation else reg_lowCurrentShutdown) \<and>
        time_set T = (if timed then word_of_int (prm_val Prm_chargert p') else 0)))"
proof -
  obtain win w' p' where r: "charge_pass env w p = Some (win, w', p')" "kept (p\<lparr>keys := keys p', scans := tl (scans p)\<rparr>) p'"
    "wf_key (keys p')" "ch_param w' < 4" "enabled (board p) \<noteq> 0 \<Longrightarrow> win = None \<and> settings p' = settings p"
    "win = None \<Longrightarrow> setpoint Prm_chargeru Prm_chargeri (if prm_val Prm_chargermode p' = 0 then 1 else 2)
      (if prm_val Prm_chargermode p' = 0 then word_of_int (prm_val Prm_chargert p') else 0) p' (reg_target (board p'))"
    by (rule charge_pass_returns [OF assms, of env]) blast
  have "settings_ok p'" "others_kept p p'" using r(2) by (simp_all add: kept_def others_kept_def)
  with r(1,3-6) show ?thesis by (intro exI [of _ win] exI [of _ w'] exI [of _ p']) (simp add: setpoint_def Let_def)
qed

theorem charger_holds_its_settings_witness:
  "\<exists>win w' p'. charge_pass silent_surroundings \<lparr>ch_param = 0, finishBeep = False\<rparr> (sample_panel\<lparr>board := initial_reg\<lparr>enabled := 1\<rparr>\<rparr>)
    = Some (win, w', p') \<and> win = None \<and> settings p' = valuearray"
proof -
  have "settings_ok (sample_panel\<lparr>board := initial_reg\<lparr>enabled := 1\<rparr>\<rparr>)" "wf_key (keys (sample_panel\<lparr>board := initial_reg\<lparr>enabled := 1\<rparr>\<rparr>))"
    "scans (sample_panel\<lparr>board := initial_reg\<lparr>enabled := 1\<rparr>\<rparr>) \<noteq> []"
    using sample_panel_ok by (simp_all add: settings_ok_def)
  from charger_holds_its_settings [OF this(1,2) _ this(3), of "\<lparr>ch_param = 0, finishBeep = False\<rparr>" silent_surroundings]
  show ?thesis by (auto simp: sample_panel_def)
qed

end
