(* ===== verification/Menu.thy ===== *)
theory Menu
  imports Windows Calendar
begin

unbundle bit_operations_syntax

text \<open>
  The settings menu, \<open>window/src/menuSystem.cpp\<close> with \<open>window/src/settingTSK.cpp\<close>: the table of items,
  their callbacks, the editors and the loop \<open>run\<close>.  An item is known by the number in its name in the
  source, so that a pointer to \<open>m160\<close> is 160; a null pointer is \<^term>\<open>None\<close>.  Drawing is left out, but
  for the line with the path, which the code builds in a buffer of 27 bytes.

  A wait for a key, in a message or in an editor, is a loop over the script of scans.  A run that needs
  more scans than the script has is \<open>Starved\<close>; undefined behaviour is \<open>Undefined\<close>.
\<close>

section \<open>Runs\<close>

datatype stop = Starved | Undefined

fun andthen :: "stop + 'a \<Rightarrow> ('a \<Rightarrow> stop + 'b) \<Rightarrow> stop + 'b" where
  "andthen (Inl s) f = Inl s"
| "andthen (Inr x) f = f x"

lemma andthen_cong [fundef_cong]:
  "m = m' \<Longrightarrow> (\<And>x. m' = Inr x \<Longrightarrow> f x = g x) \<Longrightarrow> andthen m f = andthen m' g"
  by (cases m') simp_all

definition defined :: "'a option \<Rightarrow> stop + 'a" where
  "defined r = (case r of None \<Rightarrow> Inl Undefined | Some x \<Rightarrow> Inr x)"

definition next_scan :: "panel \<Rightarrow> stop + (u32 \<times> panel)" where
  "next_scan p = (if scans p = [] then Inl Starved else defined (scan_keys p))"

lemma next_scan_shorter: "next_scan p = Inr (s, p') \<Longrightarrow> length (scans p') < length (scans p)"
  by (cases "scans p") (auto simp: next_scan_def defined_def scan_keys_def split: option.splits bind_splits)

text \<open>\<open>while(keyProc() == 0)\<close>\<close>

function wait_key :: "panel \<Rightarrow> stop + panel" where
  "wait_key p = andthen (next_scan p) (\<lambda>(pressed, p). if pressed = 0 then wait_key p else Inr p)"
  by pat_completeness auto
termination
  by (relation "measure (\<lambda>p. length (scans p))") (auto dest: next_scan_shorter)

declare wait_key.simps [simp del]

definition printMessageWindow :: "string \<Rightarrow> panel \<Rightarrow> stop + panel" where
  "printMessageWindow text p = andthen (wait_key (emit (Message text) p)) (\<lambda>p. Inr (beep_key p))"

text \<open>The assignment of a number to the value of a parameter, with its conversion.\<close>

definition assign :: "nat \<Rightarrow> int \<Rightarrow> panel \<Rightarrow> panel" where
  "assign i x p = set_prm i (conv (vtype (vhandler (settings p ! i))) x) p"

text \<open>A call that stores through its argument, and one that only returns its success.\<close>

definition ask :: "surroundings \<Rightarrow> 'a call \<Rightarrow> (bool \<Rightarrow> 'a \<Rightarrow> panel \<Rightarrow> 'b) \<Rightarrow> panel \<Rightarrow> 'b" where
  "ask env c f p = (let (ok, x, p) = run_call env c p in f ok x p)"

text \<open>Two registers that the regulator filled.\<close>

definition word_at :: "u16 list \<Rightarrow> u32" where
  "word_at dst = join32 (dst ! 0) (dst ! 1)"

section \<open>systemTSK.cpp: the time zone and the network\<close>

fun dec :: "nat \<Rightarrow> string" where
  "dec n = (if n < 10 then [char_of (48 + n)] else dec (n div 10) @ [char_of (48 + n mod 10)])"

declare dec.simps [simp del]

text \<open>The formats \<open>%i\<close>, \<open>%u\<close> and \<open>%02u\<close>.\<close>

definition fmt_i :: "int \<Rightarrow> string" where
  "fmt_i x = (if x < 0 then ''-'' @ dec (nat (- x)) else dec (nat x))"

definition fmt_u :: "int \<Rightarrow> string" where
  "fmt_u x = dec (nat x)"

definition fmt_02u :: "int \<Rightarrow> string" where
  "fmt_02u x = (if x < 10 then ''0'' @ dec (nat x) else dec (nat x))"

definition change_rule :: "nat \<Rightarrow> nat \<Rightarrow> nat \<Rightarrow> nat \<Rightarrow> nat \<Rightarrow> nat \<Rightarrow> panel \<Rightarrow> string" where
  "change_rule mon week day hour minute sec p =
     '',M'' @ fmt_u (prm_val mon p) @ ''.'' @ fmt_u (prm_val week p) @ ''.'' @ fmt_u (prm_val day p) @
     ''/'' @ fmt_02u (prm_val hour p) @ '':'' @ fmt_02u (prm_val minute p) @ '':'' @ fmt_02u (prm_val sec p)"

text \<open>\<open>snprintf\<close> into \<open>str[100]\<close>, and \<open>putenv\<close>.\<close>

definition timezoneUpdate :: "int \<Rightarrow> panel \<Rightarrow> panel" where
  "timezoneUpdate tz p =
     (let str = (if prm_val Prm_dstOnOff p \<noteq> 0
                 then ''TZ=CEST'' @ fmt_i tz @ ''CET'' @ fmt_i (tz - 1) @
                   change_rule Prm_DSTSMon Prm_DSTSWeek Prm_DSTSDay Prm_DSTSHour Prm_DSTSMin Prm_DSTSSec p @
                   change_rule Prm_DSTEMon Prm_DSTEWeek Prm_DSTEDay Prm_DSTEHour Prm_DSTEMin Prm_DSTESec p
                 else ''TZ=GMT'' @ fmt_i tz)
      in emit (Putenv (take 99 str)) p)"

text \<open>The addresses are those given to \<open>htonl\<close>.\<close>

definition netSettingUpdate :: "panel \<Rightarrow> panel" where
  "netSettingUpdate p =
     (if prm_val Prm_dhcpOnOff p = 0
      then emit (StaticNet (word_of_int (prm_val Prm_ipadr p)) (word_of_int (prm_val Prm_netmask p))
             (word_of_int (prm_val Prm_gateway p)) (word_of_int (prm_val Prm_dnsServip p))) p
      else emit DhcpRenew p)"

section \<open>settingTSK.cpp: the callbacks\<close>

text \<open>\<open>ItemState\<close>; of the item a callback only reads \<open>arg\<close>.\<close>

type_synonym ItemState = "bool \<times> string"
type_synonym callback = "surroundings \<Rightarrow> u16 \<Rightarrow> panel \<Rightarrow> stop + (ItemState \<times> panel)"

definition done_ok :: "panel \<Rightarrow> stop + (ItemState \<times> panel)" where
  "done_ok p = Inr ((True, ''''), p)"

definition connected_or_error :: "bool \<Rightarrow> panel \<Rightarrow> stop + (ItemState \<times> panel)" where
  "connected_or_error ok p = (if ok then Inr ((True, ''''), p) else Inr ((False, ''error connect''), p))"

definition setBright :: callback where
  "setBright env arg p = done_ok (emit (Brightness (prm_val Prm_brightness p * 10)) p)"

definition updateDST :: callback where
  "updateDST env arg p = done_ok (timezoneUpdate (prm_val Prm_timezone p) p)"

definition calibrDateSelect :: callback where
  "calibrDateSelect env arg p =
     ask env (reg_calibrationTimeGet [0, 0, 0, 0]) (\<lambda>ok time p. done_ok (assign Prm_utcTime (uint (word_at time)) p)) p"

definition calibrDateUnselect :: callback where
  "calibrDateUnselect env arg p = done_ok p"

definition setAcquisition :: callback where
  "setAcquisition env arg p =
     ask env (reg_vFilterSizeSet (word_of_int (prm_val Prm_vfilter p))) (\<lambda>a _ p.
     ask env (reg_iFilterSizeSet (word_of_int (prm_val Prm_ifilter p))) (\<lambda>b _ p.
     ask env (reg_vIntegrationSizeSet (word_of_int (prm_val Prm_vintegration p))) (\<lambda>c _ p.
     ask env (reg_iIntegrationSizeSet (word_of_int (prm_val Prm_iintegration p))) (\<lambda>d _ p.
       Inr ((a \<and> b \<and> c \<and> d, ''Error setVintegration''), p)) p) p) p) p"

definition rtcSelect :: callback where
  "rtcSelect env arg p = done_ok (assign Prm_utcTime (uint (now env (length (scans p)))) p)"

definition rtcUnselect :: callback where
  "rtcUnselect env arg p = done_ok (emit (SetClock (word_of_int (prm_val Prm_utcTime p))) p)"

definition pointU :: "int list" where "pointU = [10000, 6000000, 24000000, 36000000]"
definition pointMicroI :: "int list" where "pointMicroI = [10, 950, 50000, 0]"
definition pointI :: "int list" where "pointI = [1000, 500000, 2200000, 3000000]"

definition PrepareU :: callback where
  "PrepareU env arg p =
     (let p = assign Prm_point (uint arg) p in
      andthen (defined (rd pointU (prm_val Prm_point p))) (\<lambda>point.
      let p = assign Prm_Udac 0 (assign Prm_Ureal point p) in
      ask env (reg_dacMaxValueGet (le32 0)) (\<lambda>result dst p.
        if result then
          let p = assign Prm_Idac (sint (word_at dst) sdiv 4) p;
              p = do_board (reg_modeSet reg_raw) p;
              p = do_call env (reg_enableSet True (board p)) p;
              p = do_board (reg_dacCurrentSet (word_of_int (prm_val Prm_Idac p))) p;
              (result, p) = on_board (reg_dacVoltageSet (word_of_int (prm_val Prm_Udac p))) p
          in connected_or_error result p
        else connected_or_error False p) p))"

definition PrepareMicroI :: callback where
  "PrepareMicroI env arg p =
     (let p = assign Prm_point (uint arg) p in
      andthen (defined (rd pointMicroI (prm_val Prm_point p))) (\<lambda>point.
      let p = assign Prm_Ireal point p in
      ask env (reg_dacMaxValueGet (le32 0)) (\<lambda>result dst p.
        if result then
          let p = assign Prm_Udac 0 (assign Prm_Idac (sint (word_at dst) sdiv 32) p);
              p = do_board (reg_modeSet reg_raw) p;
              p = do_call env (reg_enableSet True (board p)) p;
              p = do_board (reg_dacCurrentSet (word_of_int (prm_val Prm_Idac p))) p;
              (result, p) = on_board (reg_dacVoltageSet (word_of_int (prm_val Prm_Udac p))) p
          in connected_or_error result p
        else connected_or_error False p) p))"

definition PrepareI :: callback where
  "PrepareI env arg p =
     (let p = assign Prm_point (uint arg) p in
      andthen (defined (rd pointI (prm_val Prm_point p))) (\<lambda>point.
      let p = assign Prm_Ireal point p in
      ask env (reg_dacMaxValueGet (le32 0)) (\<lambda>result dst p.
        if result then
          let p = assign Prm_Idac 0 (assign Prm_Udac (sint (word_at dst) sdiv 4) p);
              p = do_board (reg_modeSet reg_raw) p;
              p = do_call env (reg_enableSet True (board p)) p;
              p = do_board (reg_dacCurrentSet (word_of_int (prm_val Prm_Idac p))) p;
              (result, p) = on_board (reg_dacVoltageSet (word_of_int (prm_val Prm_Udac p))) p
          in connected_or_error result p
        else connected_or_error False p) p))"

definition PrepareWireResistance :: callback where
  "PrepareWireResistance env arg p =
     (let p = do_board (reg_modeSet reg_limitation) p;
          p = do_call env (reg_enableSet True (board p)) p;
          p = do_board (reg_currentSet 3000000) p;
          (regstate, p) = on_board (reg_voltageSet 5000000) p
      in connected_or_error regstate p)"

definition prepareInfo :: callback where
  "prepareInfo env arg p =
     ask env (reg_serialGet (le32 (word_of_int (prm_val Prm_reg_serial p))))
       (\<lambda>regstate sn p. connected_or_error regstate (assign Prm_reg_serial (uint (word_at sn)) p)) p"

definition updateReg :: callback where
  "updateReg env arg p =
     (let (regmeas, regstate) = reg_getState (board p) in
      if regstate then
        let p = assign Prm_Iadc (sint (rs_iadc regmeas)) p;
            p = assign Prm_Uadc (sint (rs_vadc regmeas)) p;
            p = assign Prm_Umeas (sint (rs_voltage regmeas)) p;
            p = assign Prm_Imeas (sint (rs_current regmeas)) p;
            p = assign Prm_resistance (sint (rs_resistance regmeas)) p;
            p = assign Prm_input_v1 (sint (rs_input_v1 regmeas)) p;
            p = assign Prm_input_v2 (sint (rs_input_v2 regmeas)) p;
            p = assign Prm_input_v3 (sint (rs_input_v3 regmeas)) p;
            p = assign Prm_input_v4 (sint (rs_input_v4 regmeas)) p;
            p = assign Prm_input_vg (sint (rs_input_vg regmeas)) p;
            p = assign Prm_temp_heatsink (sint (rs_temp_heatsink regmeas)) p;
            p = assign Prm_temp_shunt (sint (rs_temp_shunt regmeas)) p;
            p = assign Prm_temp_ref (sint (rs_temp_ref regmeas)) p
        in connected_or_error True p
      else connected_or_error False p)"

definition saveSettings :: callback where
  "saveSettings env arg p =
     ask env (reg_saveSettingsSet reg_save_do) (\<lambda>ok _ p. connected_or_error ok p) (assign Prm_save_settings 1 p)"

definition updateSaveSettings :: callback where
  "updateSaveSettings env arg p =
     ask env (reg_saveSettingsGet (junk env) (junk env)) (\<lambda>ok save p.
       if ok then connected_or_error True (assign Prm_save_settings (uint save) p) else connected_or_error False p) p"

definition savePointU :: callback where
  "savePointU env arg p =
     (let p = do_board (reg_dacVoltageSet (word_of_int (prm_val Prm_Udac p))) p in
      done_ok (do_call env (reg_setVoltagePoint (word_of_int (prm_val Prm_Ureal p)) (word_of_int (prm_val Prm_point p))
        (now env (length (scans p)))) p))"

definition savePointMicroI :: callback where
  "savePointMicroI env arg p =
     (let p = do_board (reg_dacVoltageSet (word_of_int (prm_val Prm_Udac p))) p in
      done_ok (do_call env (reg_setMicroCurrentPoint (word_of_int (prm_val Prm_Ireal p)) (word_of_int (prm_val Prm_point p))
        (now env (length (scans p)))) p))"

definition setCrange :: callback where
  "setCrange env arg p =
     done_ok (do_call env (reg_crangeSet (if prm_val Prm_crange_set p \<noteq> 0 then reg_crange_auto else reg_crange_hi)) p)"

definition savePointI :: callback where
  "savePointI env arg p =
     (let p = do_board (reg_dacCurrentSet (word_of_int (prm_val Prm_Idac p))) p in
      done_ok (do_call env (reg_setCurrentPoint (word_of_int (prm_val Prm_Ireal p)) (word_of_int (prm_val Prm_point p))
        (now env (length (scans p)))) p))"

definition setWireresistanse :: callback where
  "setWireresistanse env arg p =
     done_ok (do_call env (reg_wireResistanceSet
       (if prm_val Prm_wirecompensateOnOff p \<noteq> 0 then word_of_int (prm_val Prm_wireResistance p) else 0)) p)"

definition netUpdate :: callback where
  "netUpdate env arg p = done_ok (netSettingUpdate p)"

definition calibrExit :: callback where
  "calibrExit env arg p = ask env (reg_enableSet False (board p)) (\<lambda>regstate _ p. connected_or_error regstate p) p"

section \<open>menuSystem.cpp: the items\<close>

datatype editor = clockEditor | ipAddressEditor | ipMacEditor

datatype MenuItem = MenuItem (label: string) (item_prm: "nat option") (change: bool) (arg: u16)
  (pChange: "callback option") (pSelect: "callback option") (pUnselect: "callback option") (pPeriod: "callback option")
  (next_item: "nat option") (previous: "nat option") (child: "nat option") (editor: "editor option")

definition menu_items :: "(nat \<times> MenuItem) list" where
  "menu_items =
    [(1, MenuItem ''Regulator'' None True 0 None None None None (Some 2) None (Some 11) None),
     (11, MenuItem ''cRange'' (Some Prm_crange_set) True 0 (Some setCrange) None None (Some updateReg) (Some 12) None None None),
     (12, MenuItem ''Wire'' None False 0 None (Some PrepareWireResistance) (Some calibrExit) None (Some 13) (Some 11) (Some 120) None),
     (120, MenuItem ''Compensation'' (Some Prm_wirecompensateOnOff) True 0 (Some setWireresistanse) None None (Some updateReg) (Some 121) None None None),
     (121, MenuItem ''Wire'' (Some Prm_wireResistance) True 0 (Some setWireresistanse) None None (Some updateReg) (Some 122) (Some 120) None None),
     (122, MenuItem ''Res'' (Some Prm_resistance) False 0 None None None (Some updateReg) None (Some 121) None None),
     (13, MenuItem ''Vmeter'' None True 0 None None None None (Some 14) (Some 12) (Some 130) None),
     (130, MenuItem ''Point0'' None True 0 None (Some PrepareU) (Some calibrExit) None (Some 131) None (Some 1330) None),
     (131, MenuItem ''Point1'' None True 1 None (Some PrepareU) (Some calibrExit) None (Some 132) (Some 130) (Some 1330) None),
     (132, MenuItem ''Point2'' None True 2 None (Some PrepareU) (Some calibrExit) None (Some 133) (Some 131) (Some 1330) None),
     (133, MenuItem ''Point3'' None True 3 None (Some PrepareU) (Some calibrExit) None None (Some 132) (Some 1330) None),
     (1330, MenuItem ''Ureal'' (Some Prm_Ureal) True 0 (Some savePointU) None None (Some updateReg) (Some 1331) None None None),
     (1331, MenuItem ''DacU'' (Some Prm_Udac) True 0 (Some savePointU) None None (Some updateReg) (Some 1332) (Some 1330) None None),
     (1332, MenuItem ''AdcU'' (Some Prm_Uadc) False 0 (Some savePointU) None None (Some updateReg) (Some 1333) (Some 1331) None None),
     (1333, MenuItem ''AdcI'' (Some Prm_Iadc) False 0 (Some savePointU) None None (Some updateReg) (Some 1334) (Some 1332) None None),
     (1334, MenuItem ''Umeas'' (Some Prm_Umeas) False 0 (Some savePointU) None None (Some updateReg) None (Some 1333) None None),
     (14, MenuItem ''MicroAmeter'' None True 0 None None None None (Some 15) (Some 13) (Some 140) None),
     (140, MenuItem ''Point1'' None True 0 None (Some PrepareMicroI) (Some calibrExit) None (Some 141) None (Some 1430) None),
     (141, MenuItem ''Point2'' None True 1 None (Some PrepareMicroI) (Some calibrExit) None (Some 142) (Some 140) (Some 1430) None),
     (142, MenuItem ''Point3'' None True 2 None (Some PrepareMicroI) (Some calibrExit) None None (Some 141) (Some 1430) None),
     (1430, MenuItem ''Ireal'' (Some Prm_Ireal) True 0 (Some savePointMicroI) None None (Some updateReg) (Some 1431) None None None),
     (1431, MenuItem ''DacU'' (Some Prm_Udac) True 0 (Some savePointMicroI) None None (Some updateReg) (Some 1432) (Some 1430) None None),
     (1432, MenuItem ''AdcU'' (Some Prm_Uadc) False 0 None None None (Some updateReg) (Some 1433) (Some 1431) None None),
     (1433, MenuItem ''AdcI'' (Some Prm_Iadc) False 0 None None None (Some updateReg) (Some 1434) (Some 1432) None None),
     (1434, MenuItem ''Imeas'' (Some Prm_Imeas) False 0 None None None (Some updateReg) (Some 1435) (Some 1433) None None),
     (1435, MenuItem ''cRange'' (Some Prm_crange_set) True 0 (Some setCrange) None None (Some updateReg) None (Some 1434) None None),
     (15, MenuItem ''Ameter'' None True 0 None None None None (Some 16) (Some 14) (Some 150) None),
     (150, MenuItem ''Point0'' None True 0 None (Some PrepareI) (Some calibrExit) None (Some 151) None (Some 1530) None),
     (151, MenuItem ''Point1'' None True 1 None (Some PrepareI) (Some calibrExit) None (Some 152) (Some 150) (Some 1530) None),
     (152, MenuItem ''Point2'' None True 2 None (Some PrepareI) (Some calibrExit) None (Some 153) (Some 151) (Some 1530) None),
     (153, MenuItem ''Point3'' None True 3 None (Some PrepareI) (Some calibrExit) None None (Some 152) (Some 1530) None),
     (1530, MenuItem ''Ireal'' (Some Prm_Ireal) True 0 (Some savePointI) None None (Some updateReg) (Some 1531) None None None),
     (1531, MenuItem ''DacI'' (Some Prm_Idac) True 0 (Some savePointI) None None (Some updateReg) (Some 1532) (Some 1530) None None),
     (1532, MenuItem ''AdcU'' (Some Prm_Uadc) False 0 (Some savePointI) None None (Some updateReg) (Some 1533) (Some 1531) None None),
     (1533, MenuItem ''AdcI'' (Some Prm_Iadc) False 0 (Some savePointI) None None (Some updateReg) (Some 1534) (Some 1532) None None),
     (1534, MenuItem ''Imeas'' (Some Prm_Imeas) False 0 (Some savePointI) None None (Some updateReg) None (Some 1533) None None),
     (16, MenuItem ''Info'' None False 0 None (Some prepareInfo) None None (Some 17) (Some 15) (Some 160) None),
     (160, MenuItem ''Serial'' (Some Prm_reg_serial) False 0 None None None (Some updateReg) (Some 161) None None None),
     (161, MenuItem ''V1'' (Some Prm_input_v1) False 0 None None None (Some updateReg) (Some 162) (Some 160) None None),
     (162, MenuItem ''V2'' (Some Prm_input_v2) False 0 None None None (Some updateReg) (Some 163) (Some 161) None None),
     (163, MenuItem ''V3'' (Some Prm_input_v3) False 0 None None None (Some updateReg) (Some 164) (Some 162) None None),
     (164, MenuItem ''V4'' (Some Prm_input_v4) False 0 None None None (Some updateReg) (Some 165) (Some 163) None None),
     (165, MenuItem ''VG'' (Some Prm_input_vg) False 0 None None None (Some updateReg) (Some 166) (Some 164) None None),
     (166, MenuItem ''Ths'' (Some Prm_temp_heatsink) False 0 None None None (Some updateReg) (Some 167) (Some 165) None None),
     (167, MenuItem ''Tsh'' (Some Prm_temp_shunt) False 0 None None None (Some updateReg) (Some 168) (Some 166) None None),
     (168, MenuItem ''Tref'' (Some Prm_temp_ref) False 0 None None None (Some updateReg) None (Some 167) None None),
     (17, MenuItem ''CalibrationTime'' (Some Prm_utcTime) False 0 None (Some calibrDateSelect) (Some calibrDateUnselect) None (Some 18) (Some 16) None (Some clockEditor)),
     (18, MenuItem ''Acquisition'' None True 0 None None None None (Some 19) (Some 17) (Some 170) None),
     (170, MenuItem ''vIntegration'' (Some Prm_vintegration) True 0 (Some setAcquisition) None None None (Some 171) None None None),
     (171, MenuItem ''vFilter'' (Some Prm_vfilter) True 0 (Some setAcquisition) None None None (Some 172) (Some 170) None None),
     (172, MenuItem ''iIntegration'' (Some Prm_iintegration) True 0 (Some setAcquisition) None None None (Some 173) (Some 171) None None),
     (173, MenuItem ''iFilter'' (Some Prm_ifilter) True 0 (Some setAcquisition) None None None None (Some 172) None None),
     (19, MenuItem ''Save'' (Some Prm_save_settings) True 0 (Some saveSettings) None None (Some updateSaveSettings) None (Some 17) None None),
     (2, MenuItem ''Date&Time'' None True 0 None None None None (Some 3) (Some 1) (Some 20) None),
     (20, MenuItem ''Clock'' (Some Prm_utcTime) True 0 None (Some rtcSelect) (Some rtcUnselect) None (Some 21) None None (Some clockEditor)),
     (21, MenuItem ''Time Zone'' (Some Prm_timezone) True 0 None None None None (Some 22) (Some 20) None None),
     (22, MenuItem ''DST'' (Some Prm_dstOnOff) True 0 None None None None (Some 23) (Some 21) None None),
     (23, MenuItem ''Start'' None True 0 None None (Some updateDST) None (Some 24) (Some 22) (Some 230) None),
     (230, MenuItem ''Mon'' (Some Prm_DSTSMon) True 0 None None None None (Some 231) None None None),
     (231, MenuItem ''Week'' (Some Prm_DSTSWeek) True 0 None None None None (Some 232) (Some 230) None None),
     (232, MenuItem ''Day'' (Some Prm_DSTSDay) True 0 None None None None (Some 233) (Some 231) None None),
     (233, MenuItem ''Hour'' (Some Prm_DSTSHour) True 0 None None None None (Some 234) (Some 232) None None),
     (234, MenuItem ''Min'' (Some Prm_DSTSMin) True 0 None None None None (Some 235) (Some 233) None None),
     (235, MenuItem ''Sec'' (Some Prm_DSTSSec) True 0 None None None None None (Some 234) None None),
     (24, MenuItem ''End'' None True 0 None None (Some updateDST) None None (Some 23) (Some 240) None),
     (240, MenuItem ''Mon'' (Some Prm_DSTEMon) True 0 None None None None (Some 241) None None None),
     (241, MenuItem ''Week'' (Some Prm_DSTEWeek) True 0 None None None None (Some 242) (Some 240) None None),
     (242, MenuItem ''Day'' (Some Prm_DSTEDay) True 0 None None None None (Some 243) (Some 241) None None),
     (243, MenuItem ''Hour'' (Some Prm_DSTEHour) True 0 None None None None (Some 244) (Some 242) None None),
     (244, MenuItem ''Min'' (Some Prm_DSTEMin) True 0 None None None None (Some 245) (Some 243) None None),
     (245, MenuItem ''Sec'' (Some Prm_DSTESec) True 0 None None None None None (Some 244) None None),
     (3, MenuItem ''LAN'' None True 0 None None (Some netUpdate) None (Some 4) (Some 2) (Some 30) None),
     (30, MenuItem ''DHCP'' (Some Prm_dhcpOnOff) True 0 None None None None (Some 31) None None None),
     (31, MenuItem ''IP address'' (Some Prm_ipadr) True 0 None None None None (Some 32) (Some 30) None (Some ipAddressEditor)),
     (32, MenuItem ''subnet mask'' (Some Prm_netmask) True 0 None None None None (Some 33) (Some 31) None (Some ipAddressEditor)),
     (33, MenuItem ''gateway'' (Some Prm_gateway) True 0 None None None None (Some 34) (Some 32) None (Some ipAddressEditor)),
     (34, MenuItem ''DNS IP'' (Some Prm_dnsServip) True 0 None None None None (Some 35) (Some 33) None (Some ipAddressEditor)),
     (35, MenuItem ''Info'' None True 0 None None None None None (Some 34) (Some 350) None),
     (350, MenuItem ''IP address'' (Some Prm_currIpadr) False 0 None None None None (Some 351) None None (Some ipAddressEditor)),
     (351, MenuItem ''subnet mask'' (Some Prm_currNetmask) False 0 None None None None (Some 352) (Some 350) None (Some ipAddressEditor)),
     (352, MenuItem ''gateway'' (Some Prm_currGateway) False 0 None None None None (Some 353) (Some 351) None (Some ipAddressEditor)),
     (353, MenuItem ''DNS IP'' (Some Prm_dnsServip) False 0 None None None None (Some 354) (Some 352) None (Some ipAddressEditor)),
     (354, MenuItem ''MAC address'' (Some Prm_mac0) False 0 None None None None None (Some 353) None (Some ipMacEditor)),
     (4, MenuItem ''Bright'' (Some Prm_brightness) True 0 (Some setBright) None None None (Some 5) (Some 3) None None),
     (5, MenuItem ''BeepVol'' None True 0 None None None None None (Some 4) (Some 50) None),
     (50, MenuItem ''Welcome/Shutdown'' (Some Prm_bpWelcomeOnOff) True 0 None None None None (Some 51) None None None),
     (51, MenuItem ''Key'' (Some Prm_bpKeyOnOff) True 0 None None None None (Some 52) (Some 50) None None),
     (52, MenuItem ''CcCv'' (Some Prm_bpCcCvOnOff) True 0 None None None None (Some 53) (Some 51) None None),
     (53, MenuItem ''ChargerFinish'' (Some Prm_bpChFinOnOff) True 0 None None None None (Some 54) (Some 52) None None),
     (54, MenuItem ''Error'' (Some Prm_bpErrOnOff) True 0 None None None None None (Some 53) None None)]"

definition deref :: "nat \<Rightarrow> stop + MenuItem" where
  "deref n = defined (map_of menu_items n)"

section \<open>menuSystem.cpp: calling the callbacks\<close>

definition report :: "ItemState \<times> panel \<Rightarrow> stop + panel" where
  "report r = (let ((state, text), p) = r in if \<not> state then printMessageWindow text p else Inr p)"

definition callUnselect :: "surroundings \<Rightarrow> MenuItem \<Rightarrow> panel \<Rightarrow> stop + panel" where
  "callUnselect env m p =
     (case pUnselect m of
        Some f \<Rightarrow> if item_prm m \<noteq> None \<and> editor m = None then andthen (f env (arg m) p) report else Inr p
      | None \<Rightarrow> Inr p)"

definition callSelect :: "surroundings \<Rightarrow> MenuItem \<Rightarrow> panel \<Rightarrow> stop + panel" where
  "callSelect env m p =
     (case pSelect m of
        Some f \<Rightarrow> if item_prm m \<noteq> None \<and> editor m = None then andthen (f env (arg m) p) report else Inr p
      | None \<Rightarrow> Inr p)"

definition callExit :: "surroundings \<Rightarrow> MenuItem \<Rightarrow> panel \<Rightarrow> stop + panel" where
  "callExit env m p = (case pUnselect m of Some f \<Rightarrow> andthen (f env (arg m) p) report | None \<Rightarrow> Inr p)"

definition callEnter :: "surroundings \<Rightarrow> MenuItem \<Rightarrow> panel \<Rightarrow> stop + (bool \<times> panel)" where
  "callEnter env m p =
     (case pSelect m of
        Some f \<Rightarrow> andthen (f env (arg m) p) (\<lambda>((state, text), p).
          if \<not> state then andthen (printMessageWindow text p) (\<lambda>p. Inr (False, p)) else Inr (True, p))
      | None \<Rightarrow> Inr (True, p))"

definition callChanges :: "surroundings \<Rightarrow> MenuItem \<Rightarrow> panel \<Rightarrow> stop + panel" where
  "callChanges env m p = (case pChange m of Some f \<Rightarrow> andthen (f env (arg m) p) report | None \<Rightarrow> Inr p)"

definition callPeriodic :: "surroundings \<Rightarrow> MenuItem \<Rightarrow> panel \<Rightarrow> stop + panel" where
  "callPeriodic env m p = (case pPeriod m of Some f \<Rightarrow> andthen (f env (arg m) p) report | None \<Rightarrow> Inr p)"

section \<open>menuSystem.cpp: the path\<close>

text \<open>\<open>s\<close> is the string in the buffer of 27 bytes.  \<open>snprintf\<close> returns the length it would have needed; with
  an offset behind the buffer, the size passed to it wraps around.\<close>

abbreviation (input) "PATH_SIZE \<equiv> (27 :: nat)"

fun print_labels :: "string list \<Rightarrow> nat \<Rightarrow> string \<Rightarrow> string option" where
  "print_labels [] offset s = Some s"
| "print_labels (l # ls) offset s =
     (if offset > PATH_SIZE then None
      else let text = ''/'' @ l;
               s = (if offset < PATH_SIZE then take offset s @ take (PATH_SIZE - offset - 1) text else s)
           in print_labels ls ((offset + length text) mod 256) s)"

definition printHistory :: "nat list \<Rightarrow> string option" where
  "printHistory history = do {
     ms \<leftarrow> those (map (map_of menu_items) history);
     print_labels (map label ms) 0 ''/''
   }"

section \<open>menuSystem.cpp: the editors\<close>

text \<open>\<open>clockEditor\<close>: \<open>v\<close> is the array of the union \<open>Val\<close>, \<open>var\<close> the index of the number under the cursor.\<close>

definition clock_limits :: "(int \<times> int) list" where
  "clock_limits = [(1, 31), (1, 12), (2025, 3000), (0, 23), (0, 59), (0, 59)]"

definition isLeapYear :: "int \<Rightarrow> bool" where
  "isLeapYear y \<longleftrightarrow> y smod 4 = 0 \<and> (y smod 100 \<noteq> 0 \<or> y smod 400 = 0)"

definition daysInMonth :: "int \<Rightarrow> int \<Rightarrow> int option" where
  "daysInMonth month year =
     (if month = 2 \<and> isLeapYear year then Some 29
      else rd [31, 28, 31, 30, 31, 30, 31, 31, 30, 31, 30, 31] (month - 1))"

definition clock_var :: "nat \<Rightarrow> panel \<Rightarrow> nat" where
  "clock_var var p =
     (if press kUp p then (if var < 5 then var + 1 else var)
      else if press kDown p then (if var > 0 then var - 1 else var) else var)"

definition clock_dial :: "bool \<Rightarrow> nat \<Rightarrow> int list \<Rightarrow> panel \<Rightarrow> (int list \<times> panel) option" where
  "clock_dial chg var v p =
     (if chg then do {
        let (n, p) = read_dial p;
        x \<leftarrow> arith T_int32 (v ! var + n);
        let x = (if x < fst (clock_limits ! var) then fst (clock_limits ! var) else x);
        let x = (if x > snd (clock_limits ! var) then snd (clock_limits ! var) else x);
        Some (v[var := x], p)
      } else Some (v, p))"

definition clock_month :: "int list \<Rightarrow> int list option" where
  "clock_month v = do {
     monlimit \<leftarrow> daysInMonth (v ! 1) (v ! 2 + 2000);
     Some (if v ! 0 > monlimit then v[0 := monlimit] else v)
   }"

text \<open>One turn of the loop; the flag says that the loop is left.\<close>

definition clock_turn ::
    "nat list \<Rightarrow> bool \<Rightarrow> nat \<Rightarrow> int list \<Rightarrow> panel \<Rightarrow> stop + (bool \<times> nat \<times> int list \<times> panel)" where
  "clock_turn history chg var v p =
     andthen (next_scan p) (\<lambda>(pressed, p).
       let p = (if pressed \<noteq> 0 then beep_key p else p);
           var = (if pressed \<noteq> 0 then clock_var var p else var)
       in if pressed \<noteq> 0 \<and> press kMode p then Inr (True, var, v, p)
          else andthen (defined (clock_dial chg var v p)) (\<lambda>(v, p).
            andthen (defined (clock_month v)) (\<lambda>v.
            andthen (defined (printHistory history)) (\<lambda>line. Inr (False, var, v, p)))))"

lemma clock_turn_shorter: "clock_turn history chg var v p = Inr (leave, var', v', p') \<Longrightarrow> length (scans p') < length (scans p)"
  unfolding clock_turn_def
  by (cases "next_scan p")
    (auto simp: Let_def defined_def clock_dial_def beep_key_def read_dial_def dest!: next_scan_shorter
      split: if_splits option.splits prod.splits bind_splits)

function clock_loop :: "nat list \<Rightarrow> bool \<Rightarrow> nat \<Rightarrow> int list \<Rightarrow> panel \<Rightarrow> stop + (int list \<times> panel)" where
  "clock_loop history chg var v p =
     andthen (clock_turn history chg var v p) (\<lambda>(leave, var, v, p).
       if leave then Inr (v, p) else clock_loop history chg var v p)"
  by pat_completeness auto
termination
  by (relation "measure (\<lambda>(history, chg, var, v, p). length (scans p))") (auto dest: clock_turn_shorter)

declare clock_loop.simps [simp del]

text \<open>\<open>localtime_r\<close> and \<open>mktime\<close> depend on the time zone: they belong to the surroundings.\<close>

definition run_clockEditor :: "surroundings \<Rightarrow> nat list \<Rightarrow> panel \<Rightarrow> stop + panel" where
  "run_clockEditor env history p =
     andthen (deref (last history)) (\<lambda>m.
     andthen (defined (item_prm m)) (\<lambda>i.
       let t = localtime env (word_of_int (prm_val i p));
           val = [tm_mday t, tm_mon t + 1, tm_year t + 1900, tm_hour t, tm_min t, tm_sec t]
       in andthen (clock_loop history (change m) 0 val p) (\<lambda>(v, p).
            Inr (if change m
                 then assign i (mktime env (t\<lparr>tm_mday := v ! 0, tm_mon := v ! 1 - 1, tm_year := v ! 2 - 1900,
                        tm_hour := v ! 3, tm_min := v ! 4, tm_sec := v ! 5\<rparr>)) p
                 else p))))"

text \<open>\<open>ipAddressEditor\<close>: \<open>v\<close> are the four bytes of the union \<open>ip\<close>, least significant first.\<close>

definition ip_var :: "nat \<Rightarrow> panel \<Rightarrow> nat" where
  "ip_var var p =
     (if press kUp p then (if var < 3 then var + 1 else var)
      else if press kDown p then (if var > 0 then var - 1 else var) else var)"

definition ip_dial :: "bool \<Rightarrow> nat \<Rightarrow> u8 list \<Rightarrow> panel \<Rightarrow> u8 list \<times> panel" where
  "ip_dial editable var v p =
     (if editable then (let (n, p) = read_dial p in (v[3 - var := v ! (3 - var) + word_of_int n], p)) else (v, p))"

definition ip_turn ::
    "surroundings \<Rightarrow> nat list \<Rightarrow> MenuItem \<Rightarrow> nat \<Rightarrow> u8 list \<Rightarrow> panel \<Rightarrow> stop + (bool \<times> nat \<times> u8 list \<times> panel)" where
  "ip_turn env history m var v p =
     andthen (next_scan p) (\<lambda>(pressed, p).
       let p = (if pressed \<noteq> 0 then beep_key p else p);
           var = (if pressed \<noteq> 0 then ip_var var p else var)
       in if pressed \<noteq> 0 \<and> press kMode p then Inr (True, var, v, p)
          else let (v, p) = ip_dial (change m) var v p in
            andthen (defined (printHistory history)) (\<lambda>line. Inr (False, var, v, p)))"

lemma ip_turn_shorter: "ip_turn env history m var v p = Inr (leave, var', v', p') \<Longrightarrow> length (scans p') < length (scans p)"
  unfolding ip_turn_def
  by (cases "next_scan p")
    (auto simp: Let_def defined_def ip_dial_def beep_key_def read_dial_def dest!: next_scan_shorter
      split: if_splits option.splits prod.splits)

function ip_loop :: "surroundings \<Rightarrow> nat list \<Rightarrow> MenuItem \<Rightarrow> nat \<Rightarrow> u8 list \<Rightarrow> panel \<Rightarrow> stop + (u8 list \<times> panel)" where
  "ip_loop env history m var v p =
     andthen (ip_turn env history m var v p) (\<lambda>(leave, var, v, p).
       if leave then andthen (callExit env m p) (\<lambda>p. Inr (v, p)) else ip_loop env history m var v p)"
  by pat_completeness auto
termination
  by (relation "measure (\<lambda>(env, history, m, var, v, p). length (scans p))") (auto dest: ip_turn_shorter)

declare ip_loop.simps [simp del]

definition run_ipAddressEditor :: "surroundings \<Rightarrow> nat list \<Rightarrow> panel \<Rightarrow> stop + panel" where
  "run_ipAddressEditor env history p =
     andthen (deref (last history)) (\<lambda>m.
     andthen (defined (item_prm m)) (\<lambda>i.
       let ip = (word_of_int (prm_val i p) :: u32);
           v = map (\<lambda>k. ucast (drop_bit (8 * k) ip)) [0, 1, 2, 3]
       in andthen (ip_loop env history m 0 v p) (\<lambda>(v, p).
            Inr (assign i (uint (v ! 0) + 2 ^ 8 * uint (v ! 1) + 2 ^ 16 * uint (v ! 2) + 2 ^ 24 * uint (v ! 3)) p))))"

text \<open>\<open>ipMacEditor\<close>, which only shows the address.\<close>

definition mac_turn :: "nat list \<Rightarrow> panel \<Rightarrow> stop + (bool \<times> panel)" where
  "mac_turn history p =
     andthen (next_scan p) (\<lambda>(pressed, p).
       let p = (if pressed \<noteq> 0 then beep_key p else p)
       in if pressed \<noteq> 0 \<and> press kMode p then Inr (True, p)
          else andthen (defined (printHistory history)) (\<lambda>line. Inr (False, p)))"

lemma mac_turn_shorter: "mac_turn history p = Inr (leave, p') \<Longrightarrow> length (scans p') < length (scans p)"
  unfolding mac_turn_def
  by (cases "next_scan p")
    (auto simp: Let_def defined_def beep_key_def dest!: next_scan_shorter split: if_splits option.splits)

function mac_loop :: "nat list \<Rightarrow> panel \<Rightarrow> stop + panel" where
  "mac_loop history p =
     andthen (mac_turn history p) (\<lambda>(leave, p). if leave then Inr p else mac_loop history p)"
  by pat_completeness auto
termination
  by (relation "measure (\<lambda>(history, p). length (scans p))") (auto dest: mac_turn_shorter)

declare mac_loop.simps [simp del]

definition run_ipMacEditor :: "surroundings \<Rightarrow> nat list \<Rightarrow> panel \<Rightarrow> stop + panel" where
  "run_ipMacEditor env history p =
     andthen (deref (last history)) (\<lambda>m.
     andthen (defined (item_prm m)) (\<lambda>i.
     andthen (mac_loop history p) (\<lambda>p. callExit env m p)))"

fun run_editor :: "editor \<Rightarrow> surroundings \<Rightarrow> nat list \<Rightarrow> panel \<Rightarrow> stop + panel" where
  "run_editor clockEditor = run_clockEditor"
| "run_editor ipAddressEditor = run_ipAddressEditor"
| "run_editor ipMacEditor = run_ipMacEditor"

section \<open>menuSystem.cpp: run\<close>

text \<open>\<open>history\<close> is the part of the array below \<open>historyIndex\<close>; the array has six places.\<close>

record menu =
  current :: nat
  top :: nat
  history :: "nat list"

definition push :: "nat \<Rightarrow> nat list \<Rightarrow> nat list option" where
  "push n h = (if length h < 6 then Some (h @ [n]) else None)"

text \<open>\<open>for(top = m; top->previous; top = top->previous)\<close>\<close>

partial_function (option) first_item :: "nat \<Rightarrow> nat option" where
  "first_item n = do {
     m \<leftarrow> map_of menu_items n;
     case previous m of None \<Rightarrow> Some n | Some k \<Rightarrow> first_item k
   }"

definition on_item :: "(Val \<Rightarrow> Val option) \<Rightarrow> MenuItem \<Rightarrow> panel \<Rightarrow> stop + panel" where
  "on_item f m p = (case item_prm m of None \<Rightarrow> Inr p | Some i \<Rightarrow> defined (on_prm i f p))"

definition menu_edit :: "MenuItem \<Rightarrow> panel \<Rightarrow> stop + (bool \<times> panel)" where
  "menu_edit m p =
     (if press kUp p then andthen (on_item (bigstep_Val 1) m p) (\<lambda>p. Inr (True, p))
      else if press kDown p then andthen (on_item (bigstep_Val (- 1)) m p) (\<lambda>p. Inr (True, p))
      else if press kZero p then andthen (on_item (\<lambda>v. Some (setdef v)) m p) (\<lambda>p. Inr (True, p))
      else Inr (False, p))"

text \<open>The keys \<open>kFunc\<close> and \<open>kNext\<close>, for the link they follow.\<close>

definition menu_move :: "surroundings \<Rightarrow> kKey \<Rightarrow> (MenuItem \<Rightarrow> nat option) \<Rightarrow> menu \<Rightarrow> panel \<Rightarrow> stop + (menu \<times> panel)" where
  "menu_move env key link w p =
     (if press key p then
        andthen (deref (current w)) (\<lambda>m.
          case link m of
            None \<Rightarrow> Inr (w, p)
          | Some n \<Rightarrow>
              andthen (callUnselect env m p) (\<lambda>p.
              andthen (deref n) (\<lambda>m.
              andthen (callSelect env m p) (\<lambda>p. Inr (w\<lparr>current := n\<rparr>, p)))))
      else Inr (w, p))"

text \<open>The key \<open>kMode\<close>; \<^term>\<open>None\<close> is \<open>return true\<close>.\<close>

definition menu_parent :: "surroundings \<Rightarrow> menu \<Rightarrow> panel \<Rightarrow> stop + (menu option \<times> panel)" where
  "menu_parent env w p =
     (if press kMode p then
        (if history w \<noteq> [] then
           andthen (deref (last (history w))) (\<lambda>m.
           andthen (defined (first_item (last (history w)))) (\<lambda>t.
           andthen (callExit env m p) (\<lambda>p.
             Inr (Some \<lparr>current = last (history w), top = t, history = butlast (history w)\<rparr>, p))))
         else Inr (None, p))
      else Inr (Some w, p))"

definition menu_child :: "surroundings \<Rightarrow> menu \<Rightarrow> panel \<Rightarrow> stop + (menu \<times> panel)" where
  "menu_child env w p =
     (if press kOnOff p then
        andthen (deref (current w)) (\<lambda>m.
          case editor m of
            Some e \<Rightarrow>
              andthen (callEnter env m p) (\<lambda>(_, p).
              andthen (defined (push (current w) (history w))) (\<lambda>h.
              andthen (run_editor e env h p) (\<lambda>p.
              andthen (callExit env m p) (\<lambda>p. Inr (w, p)))))
          | None \<Rightarrow>
              (case child m of
                 None \<Rightarrow> Inr (w, p)
               | Some c \<Rightarrow>
                   andthen (callEnter env m p) (\<lambda>(entered, p).
                     if entered then
                       andthen (defined (push (current w) (history w))) (\<lambda>h.
                       andthen (deref c) (\<lambda>m.
                       andthen (callSelect env m p) (\<lambda>p. Inr (\<lparr>current = c, top = c, history = h\<rparr>, p))))
                     else Inr (w, p))))
      else Inr (w, p))"

definition menu_keys :: "surroundings \<Rightarrow> menu \<Rightarrow> panel \<Rightarrow> stop + (bool \<times> menu option \<times> panel)" where
  "menu_keys env w p =
     (let p = beep_key p in
      andthen (deref (current w)) (\<lambda>m.
      andthen (menu_edit m p) (\<lambda>(chg, p).
      andthen (menu_move env kFunc previous w p) (\<lambda>(w, p).
      andthen (menu_move env kNext next_item w p) (\<lambda>(w, p).
      andthen (menu_parent env w p) (\<lambda>(w, p).
        case w of
          None \<Rightarrow> Inr (chg, None, p)
        | Some w \<Rightarrow> andthen (menu_child env w p) (\<lambda>(w, p). Inr (chg, Some w, p))))))))"

definition menu_dial :: "MenuItem \<Rightarrow> bool \<Rightarrow> panel \<Rightarrow> stop + (bool \<times> panel)" where
  "menu_dial m chg p =
     (if change m then
        let (n, p) = read_dial p in
        if n \<noteq> 0 \<and> item_prm m \<noteq> None then andthen (on_item (step_Val n) m p) (\<lambda>p. Inr (True, p)) else Inr (chg, p)
      else Inr (chg, p))"

definition menu_pass :: "surroundings \<Rightarrow> menu \<Rightarrow> panel \<Rightarrow> stop + (menu option \<times> panel)" where
  "menu_pass env w p =
     andthen (next_scan p) (\<lambda>(pressed, p).
     andthen (if pressed \<noteq> 0 then menu_keys env w p else Inr (False, Some w, p)) (\<lambda>(chg, w, p).
       case w of
         None \<Rightarrow> Inr (None, p)
       | Some w \<Rightarrow>
           andthen (deref (current w)) (\<lambda>m.
           andthen (menu_dial m chg p) (\<lambda>(chg, p).
           andthen (if chg then callChanges env m p else Inr p) (\<lambda>p.
           andthen (callPeriodic env m p) (\<lambda>p.
           andthen (defined (printHistory (history w))) (\<lambda>line. Inr (Some w, p))))))))"

text \<open>The loop, for at most so many passes.\<close>

primrec menu_loop :: "nat \<Rightarrow> surroundings \<Rightarrow> menu \<Rightarrow> panel \<Rightarrow> stop + panel" where
  "menu_loop 0 env w p = Inl Starved"
| "menu_loop (Suc n) env w p =
     andthen (menu_pass env w p) (\<lambda>(w, p). case w of None \<Rightarrow> Inr p | Some w \<Rightarrow> menu_loop n env w p)"

text \<open>\<open>run\<close>: every pass takes a scan, so that there are no more passes than scans.\<close>

definition run_menu :: "surroundings \<Rightarrow> nat \<Rightarrow> panel \<Rightarrow> stop + panel" where
  "run_menu env n p =
     (let p = p\<lparr>keys := ksSet 15 5 (ucast (kKey_mask kUp OR kKey_mask kDown)) (keys p), dial := enco_settic 3 (dial p)\<rparr>
      in menu_loop (length (scans p) + 1) env \<lparr>current = n, top = n, history = []\<rparr> p)"

definition settingTSK :: "surroundings \<Rightarrow> panel \<Rightarrow> stop + (selWindow \<times> panel)" where
  "settingTSK env p = andthen (run_menu env 1 p) (\<lambda>p. Inr (baseWindow, emit SaveSystem p))"

end
