(* ===== verification/MenuSpec.thy ===== *)
theory MenuSpec
  imports Menu
begin

unbundle bit_operations_syntax

text \<open>
  The settings menu never runs into undefined behaviour, whatever keys are pressed and however the encoder
  is turned.  A pass is followed part by part with the predicate \<open>fine\<close>: no part is undefined, and each
  keeps the parameters of their types and the menu at a place of its tree.
\<close>

section \<open>The menu never goes wrong: parameters\<close>

text \<open>A run that is not undefined, and whose result satisfies \<open>P\<close> if it has one.\<close>

definition fine :: "('a \<Rightarrow> bool) \<Rightarrow> stop + 'a \<Rightarrow> bool" where
  "fine P r \<longleftrightarrow> (case r of Inl s \<Rightarrow> s = Starved | Inr x \<Rightarrow> P x)"

lemma fine_simps [simp]: "fine P (Inr x) = P x" "fine P (Inl s) = (s = Starved)"
  by (simp_all add: fine_def)

lemma fine_andthen: "fine Q m \<Longrightarrow> (\<And>x. Q x \<Longrightarrow> fine P (f x)) \<Longrightarrow> fine P (andthen m f)"
  by (cases m) auto

lemma fine_mono: "fine P r \<Longrightarrow> (\<And>x. P x \<Longrightarrow> Q x) \<Longrightarrow> fine Q r"
  by (cases r) auto

lemma fine_if: "(b \<Longrightarrow> fine P r) \<Longrightarrow> (\<not> b \<Longrightarrow> fine P r') \<Longrightarrow> fine P (if b then r else r')"
  by simp

lemma fine_defined: "r = Some x \<Longrightarrow> P x \<Longrightarrow> fine P (defined r)"
  by (simp add: defined_def)

text \<open>A parameter may hold what the regulator reported, outside its limits, but never a number whose
  distance to the upper limit overflows.\<close>

definition storable :: "Val \<Rightarrow> bool" where
  "storable v \<longleftrightarrow> cmin (vtype (vhandler v)) \<le> val v \<and> val v \<le> cmax (vtype (vhandler v)) \<and>
     (vtype (vhandler v) = T_int32 \<longrightarrow> vmax (vhandler v) - val v \<le> cmax T_int32)"

definition handler_fits :: "ValHandler \<Rightarrow> bool" where
  "handler_fits h \<longleftrightarrow> handler_ok h \<and> 0 \<le> vstep h \<and> 0 \<le> vbigstep h \<and>
     (csigned (promoted (vtype h)) \<longrightarrow> vstep h * 57344 \<le> cmax T_int32 \<and> vbigstep h \<le> cmax T_int32) \<and>
     (vtype h = T_int32 \<longrightarrow> vmin h = 0)"

lemma parametres_fit: "list_all handler_fits parametres"
  by (simp add: parametres_def prm_def handler_fits_def handler_ok_def cmin_def cmax_def)

lemma handler_fitsD: "i < 79 \<Longrightarrow> handler_fits (parametres ! i)"
  using parametres_fit length_parametres by (simp add: list_all_length)

lemma arith_unsigned_type: "\<not> csigned (promoted T) \<Longrightarrow> arith T x = Some (conv (promoted T) x)"
  by (simp add: arith_def)

lemma arith_int: "csigned (promoted T) \<Longrightarrow> cmin T_int32 \<le> x \<Longrightarrow> x \<le> cmax T_int32 \<Longrightarrow> arith T x = Some x"
  by (cases T) (simp_all add: arith_def)

lemma stepsize_storable:
  assumes "storable v" "handler_fits (vhandler v)" "0 \<le> sz" "n \<noteq> cmin T_int32"
    and "csigned (promoted (vtype (vhandler v))) \<Longrightarrow> sz * \<bar>n\<bar> \<le> cmax T_int32"
  shows "\<exists>x. stepsize n sz v = Some (v\<lparr>val := x\<rparr>) \<and> storable (v\<lparr>val := x\<rparr>)"
proof -
  let ?T = "vtype (vhandler v)" and ?lo = "vmin (vhandler v)" and ?hi = "vmax (vhandler v)"
  have lim: "cmin ?T \<le> ?lo" "?lo \<le> ?hi" "?hi \<le> cmax ?T" "cmin ?T \<le> val v" "val v \<le> cmax ?T"
    using assms(1,2) by (auto simp: storable_def handler_fits_def handler_ok_def)
  have pos: "0 \<le> sz * \<bar>n\<bar>" using assms(3) by simp
  have store: "storable (v\<lparr>val := conv ?T y\<rparr>)" if "?T \<noteq> T_int32" for y
    using that conv_range [of ?T y] by (simp add: storable_def)
  show ?thesis
  proof (cases "?T = T_int32")
    case True
    have z: "?lo = 0" "?hi - val v \<le> cmax T_int32" using assms(1,2) True by (auto simp: storable_def handler_fits_def)
    have m: "arith ?T (sz * \<bar>n\<bar>) = Some (sz * \<bar>n\<bar>)" "conv ?T (sz * \<bar>n\<bar>) = sz * \<bar>n\<bar>"
      using assms(5) True pos by (auto intro!: arith_int conv_id simp: cmin_def)
    have room: "arith ?T (val v - ?lo) = Some (val v - ?lo)" using lim z True by (auto intro!: arith_int)
    have room': "arith ?T (?hi - val v) = Some (?hi - val v)"
      using lim z True by (auto intro!: arith_int simp: cmin_def cmax_def)
    have dn: "arith ?T (val v - sz * \<bar>n\<bar>) = Some (val v - sz * \<bar>n\<bar>)" if "sz * \<bar>n\<bar> \<le> val v"
      using that pos lim True by (auto intro!: arith_int simp: cmin_def)
    have up: "arith ?T (val v + sz * \<bar>n\<bar>) = Some (val v + sz * \<bar>n\<bar>)" if "sz * \<bar>n\<bar> \<le> ?hi - val v"
      using that pos lim True by (auto intro!: arith_int)
    have st: "storable (v\<lparr>val := conv ?T y\<rparr>)" if "cmin ?T \<le> y" "y \<le> cmax ?T" "?hi - y \<le> cmax T_int32" for y
      using that by (simp add: storable_def conv_id)
    have "storable (v\<lparr>val := conv ?T ?lo\<rparr>)" "storable (v\<lparr>val := conv ?T ?hi\<rparr>)"
      by (rule st; insert lim z True; simp add: cmin_def cmax_def)+
    moreover have "storable (v\<lparr>val := conv ?T (val v - sz * \<bar>n\<bar>)\<rparr>)" if "sz * \<bar>n\<bar> \<le> val v"
      by (rule st; insert that pos lim z True; simp add: cmin_def cmax_def)
    moreover have "storable (v\<lparr>val := conv ?T (val v + sz * \<bar>n\<bar>)\<rparr>)" if "sz * \<bar>n\<bar> \<le> ?hi - val v"
      by (rule st; insert that pos lim z True; simp)
    ultimately show ?thesis
      using assms(4) m room room' dn up z by (auto simp: stepsize_def Let_def not_less)
  next
    case False
    show ?thesis
    proof (cases "csigned (promoted ?T)")
      case True
      then have small: "\<bar>cmin ?T\<bar> \<le> 65535" "\<bar>cmax ?T\<bar> \<le> 65535" using False by (cases ?T; simp add: cmin_def cmax_def)+
      have m: "arith ?T (sz * \<bar>n\<bar>) = Some (sz * \<bar>n\<bar>)"
        using assms(5) True pos by (auto intro!: arith_int simp: cmin_def)
      have a: "arith ?T (x + y) = Some (x + y)" "arith ?T (x - y) = Some (x - y)"
        if "cmin ?T \<le> x" "x \<le> cmax ?T" "cmin ?T \<le> y" "y \<le> cmax ?T" for x y
        using that small True by (auto intro!: arith_int simp: cmin_def cmax_def)
      note r = conv_range [of ?T "sz * \<bar>n\<bar>"]
      show ?thesis using assms(4) m a lim r store [OF False] by (auto simp: stepsize_def Let_def)
    next
      case u: False
      show ?thesis using assms(4) store [OF False] by (auto simp: stepsize_def Let_def arith_unsigned_type [OF u])
    qed
  qed
qed

lemma storable_of_ok: "val_ok v \<Longrightarrow> handler_fits (vhandler v) \<Longrightarrow> storable v"
  by (auto simp: storable_def val_ok_def handler_fits_def handler_ok_def cmax_def cmin_def)

text \<open>The measurements of the regulator that the menu copies into parameters.\<close>

definition measured :: "regState \<Rightarrow> bool" where
  "measured s \<longleftrightarrow> 0 \<le> sint (rs_resistance s) \<and> - 2000000000 \<le> sint (rs_voltage s) \<and> - 2000000000 \<le> sint (rs_current s)"

definition sane :: "panel \<Rightarrow> bool" where
  "sane p \<longleftrightarrow> map vhandler (settings p) = parametres \<and> (\<forall>i. screen_prm i \<longrightarrow> val_ok (settings p ! i)) \<and>
     list_all storable (settings p) \<and> wf_key (keys p) \<and> measured (regMeas (board p))"

lemma sane_settings_ok: "sane p \<Longrightarrow> settings_ok p"
  by (simp add: sane_def settings_ok_def)

lemma sane_length: "sane p \<Longrightarrow> length (settings p) = 79"
  by (metis length_map length_parametres sane_def)

lemma saneD:
  assumes "sane p" "i < 79"
  shows "vhandler (settings p ! i) = parametres ! i" "storable (settings p ! i)"
proof -
  have m: "map vhandler (settings p) = parametres" using assms(1) by (simp add: sane_def)
  note l = sane_length [OF assms(1)]
  show "vhandler (settings p ! i) = parametres ! i" using l assms(2) by (simp flip: m)
  show "storable (settings p ! i)" using assms l by (simp add: sane_def list_all_length)
qed

lemma sane_update:
  assumes "sane p" "i < 79" "storable v" "vhandler v = parametres ! i" "screen_prm i \<Longrightarrow> val_ok v"
  shows "sane (p\<lparr>settings := (settings p)[i := v]\<rparr>)"
proof -
  have "map vhandler ((settings p)[i := v]) = parametres"
    using assms sane_length by (simp add: map_update sane_def list_update_same_conv length_parametres)
  moreover have "list_all storable ((settings p)[i := v])"
    using assms(1,3) set_update_subset_insert [of "settings p" i v] by (auto simp: sane_def list_all_iff)
  moreover have "val_ok ((settings p)[i := v] ! j)" if "screen_prm j" for j
    using assms(1,2,5) that sane_length [OF assms(1)] by (cases "j = i") (simp_all add: sane_def)
  ultimately show ?thesis using assms(1) by (simp add: sane_def)
qed

text \<open>The parameters of the screens have steps that keep them within their limits.\<close>

lemma screen_prms_step: "list_all (\<lambda>i. screen_prm i \<longrightarrow> \<not> csigned (vtype (parametres ! i)) \<and>
    0 \<le> vstep (parametres ! i) \<and> vstep (parametres ! i) \<le> 1000 \<and> 0 \<le> vbigstep (parametres ! i) \<and> vbigstep (parametres ! i) \<le> 300000) [0..<79]"
  by (simp add: upt_conv_Cons screen_prm_def parametres_def prm_def)

lemma screen_step:
  assumes "settings_ok p" "screen_prm i"
  shows "\<bar>n\<bar> \<le> 57344 \<Longrightarrow> step_Val n (settings p ! i) = Some v \<Longrightarrow> val_ok v"
    "\<bar>n\<bar> \<le> 1 \<Longrightarrow> bigstep_Val n (settings p ! i) = Some v \<Longrightarrow> val_ok v"
    "val_ok (setdef (settings p ! i))"
proof -
  let ?v = "settings p ! i"
  note less = screen_prm_less [OF assms(2)]
  have v: "vhandler ?v = parametres ! i" "val_ok ?v" using settings_okD(2,3) [OF assms(1) less] assms(2) by simp_all
  have h: "\<not> csigned (vtype (parametres ! i))" "0 \<le> vstep (parametres ! i)" "vstep (parametres ! i) \<le> 1000"
      "0 \<le> vbigstep (parametres ! i)" "vbigstep (parametres ! i) \<le> 300000"
    using screen_prms_step less assms(2) by (auto simp: list_all_iff)
  have ok: "val_ok u" if u: "stepsize n sz ?v = Some u" "0 \<le> sz" "sz * \<bar>n\<bar> \<le> cmax T_int32" "\<bar>n\<bar> \<le> 57344" for n sz u
  proof -
    have "n \<noteq> cmin T_int32" using u(4) by (auto simp: cmin_def)
    then obtain x where "u = ?v\<lparr>val := x\<rparr>" "vmin (vhandler ?v) \<le> x" "x \<le> vmax (vhandler ?v)"
      using stepsize_unsigned [OF v(2) _ u(2,3)] u(1) h(1) v(1) by auto
    with v(2) show ?thesis by (simp add: val_ok_def)
  qed
  show "val_ok v" if n: "\<bar>n\<bar> \<le> 57344" and v: "step_Val n ?v = Some v"
  proof -
    have "vstep (parametres ! i) * \<bar>n\<bar> \<le> 1000 * 57344" using h(2,3) n by (intro mult_mono) auto
    with ok [of n "vstep (parametres ! i)"] h n v \<open>vhandler ?v = parametres ! i\<close> show ?thesis
      by (simp add: step_Val_def cmax_def cmin_def)
  qed
  show "val_ok v" if n: "\<bar>n\<bar> \<le> 1" and v: "bigstep_Val n ?v = Some v"
  proof -
    have "vbigstep (parametres ! i) * \<bar>n\<bar> \<le> 300000 * 1" using h(4,5) n by (intro mult_mono) auto
    with ok [of n "vbigstep (parametres ! i)"] h n v \<open>vhandler ?v = parametres ! i\<close> show ?thesis
      by (simp add: bigstep_Val_def cmax_def cmin_def)
  qed
  show "val_ok (setdef ?v)" using v by (auto simp: val_ok_def handler_ok_def setdef_def)
qed

lemma on_prm_sane:
  assumes "sane p" "i < 79"
  shows "\<bar>n\<bar> \<le> 57344 \<Longrightarrow> \<exists>p'. on_prm i (step_Val n) p = Some p' \<and> sane p' \<and> scans p' = scans p"
    "\<bar>k\<bar> \<le> 1 \<Longrightarrow> \<exists>p'. on_prm i (bigstep_Val k) p = Some p' \<and> sane p' \<and> scans p' = scans p"
    "\<exists>p'. on_prm i (\<lambda>v. Some (setdef v)) p = Some p' \<and> sane p' \<and> scans p' = scans p"
proof -
  let ?v = "settings p ! i"
  note s = saneD [OF assms]
  note ok = sane_settings_ok [OF assms(1)]
  have h: "handler_fits (vhandler ?v)" using handler_fitsD [OF assms(2)] s(1) by simp
  have small: "57344 \<le> cmax T_int32" by (simp add: cmin_def cmax_def)
  show "\<exists>p'. on_prm i (step_Val n) p = Some p' \<and> sane p' \<and> scans p' = scans p" if n: "\<bar>n\<bar> \<le> 57344"
  proof -
    have "vstep (vhandler ?v) * \<bar>n\<bar> \<le> vstep (vhandler ?v) * 57344" using h n by (intro mult_left_mono) (auto simp: handler_fits_def)
    then have "csigned (promoted (vtype (vhandler ?v))) \<Longrightarrow> vstep (vhandler ?v) * \<bar>n\<bar> \<le> cmax T_int32"
      using h by (auto simp: handler_fits_def)
    moreover have "0 \<le> vstep (vhandler ?v)" "n \<noteq> cmin T_int32" using h n by (auto simp: handler_fits_def cmin_def)
    ultimately obtain x where "step_Val n ?v = Some (?v\<lparr>val := x\<rparr>)" "storable (?v\<lparr>val := x\<rparr>)"
      using stepsize_storable [OF s(2) h, of "vstep (vhandler ?v)" n] by (auto simp: step_Val_def)
    then show ?thesis using sane_update [OF assms, of "?v\<lparr>val := x\<rparr>"] s(1) screen_step(1) [OF ok _ n] by (simp add: on_prm_def)
  qed
  show "\<exists>p'. on_prm i (bigstep_Val k) p = Some p' \<and> sane p' \<and> scans p' = scans p" if k: "\<bar>k\<bar> \<le> 1"
  proof -
    have "vbigstep (vhandler ?v) * \<bar>k\<bar> \<le> vbigstep (vhandler ?v) * 1" using h k by (intro mult_left_mono) (auto simp: handler_fits_def)
    then have "csigned (promoted (vtype (vhandler ?v))) \<Longrightarrow> vbigstep (vhandler ?v) * \<bar>k\<bar> \<le> cmax T_int32"
      using h by (auto simp: handler_fits_def)
    moreover have "0 \<le> vbigstep (vhandler ?v)" "k \<noteq> cmin T_int32" using h k by (auto simp: handler_fits_def cmin_def)
    ultimately obtain x where "bigstep_Val k ?v = Some (?v\<lparr>val := x\<rparr>)" "storable (?v\<lparr>val := x\<rparr>)"
      using stepsize_storable [OF s(2) h, of "vbigstep (vhandler ?v)" k] by (auto simp: bigstep_Val_def)
    then show ?thesis using sane_update [OF assms, of "?v\<lparr>val := x\<rparr>"] s(1) screen_step(2) [OF ok _ k] by (simp add: on_prm_def)
  qed
  have "storable (setdef ?v)" using h by (auto simp: storable_def setdef_def handler_fits_def handler_ok_def cmin_def cmax_def)
  then show "\<exists>p'. on_prm i (\<lambda>v. Some (setdef v)) p = Some p' \<and> sane p' \<and> scans p' = scans p"
    using sane_update [OF assms, of "setdef ?v"] s(1) screen_step(3) [OF ok, of i] by (simp add: on_prm_def) (simp add: setdef_def)
qed

lemma assign_keeps [simp]: "scans (assign i x p) = scans p" "board (assign i x p) = board p" "keys (assign i x p) = keys p"
  "effects (assign i x p) = effects p"
  by (simp_all add: assign_def set_prm_def)

lemma assign_sane:
  assumes "sane p" "i < 65" "i \<noteq> Prm_crange_set" "vtype (parametres ! i) = T_int32 \<Longrightarrow> vmax (parametres ! i) - cmax T_int32 \<le> x \<and> x \<le> cmax T_int32 \<and> cmin T_int32 \<le> x"
  shows "sane (assign i x p)"
proof -
  let ?v = "settings p ! i"
  have i: "i < 79" "\<not> screen_prm i" using assms(2,3) by (simp_all add: screen_prm_def)
  note s = saneD [OF assms(1) i(1)]
  have "storable (?v\<lparr>val := conv (vtype (vhandler ?v)) x\<rparr>)"
    using assms(4) conv_range [of "vtype (vhandler ?v)" x] s(1) by (auto simp: storable_def conv_id)
  then show ?thesis unfolding assign_def set_prm_def using s(1) by (intro sane_update [OF assms(1) i(1)]) (simp_all add: i(2))
qed

lemma int32_prms:
  "list_all (\<lambda>i. vtype (parametres ! i) = T_int32 \<longrightarrow>
     i \<in> set [Prm_wireResistance, Prm_Ureal, Prm_Ireal, Prm_Umeas, Prm_Imeas, Prm_Udac, Prm_Idac, Prm_resistance]) [0..<79]"
  by (simp add: upt_conv_Cons parametres_def prm_def)

section \<open>The menu never goes wrong: callbacks\<close>

text \<open>What is asked of the surroundings: the regulator reports no negative resistance and no voltage or
  current near the end of 32 bits, and \<open>localtime_r\<close> gives a month of the year and moderate numbers.\<close>

definition clock_fields :: "tm \<Rightarrow> bool" where
  "clock_fields t \<longleftrightarrow> 0 \<le> tm_mon t \<and> tm_mon t < 12 \<and> 1 \<le> tm_mday t \<and> tm_mday t \<le> 31 \<and> \<bar>tm_year t\<bar> \<le> 1000000 \<and>
     0 \<le> tm_hour t \<and> tm_hour t < 24 \<and> 0 \<le> tm_min t \<and> tm_min t < 60 \<and> 0 \<le> tm_sec t \<and> tm_sec t < 60"

definition env_ok :: "surroundings \<Rightarrow> bool" where
  "env_ok env \<longleftrightarrow> (\<forall>q r. measured (regMeas r) \<longrightarrow> measured (regMeas (snd (snd (waits env q r))))) \<and>
     (\<forall>t. clock_fields (localtime env t))"

lemma sane_cong: "settings p' = settings p \<Longrightarrow> keys p' = keys p \<Longrightarrow> regMeas (board p') = regMeas (board p) \<Longrightarrow> sane p' = sane p"
  by (simp add: sane_def)

lemma sane_emit [simp]: "sane (emit e p) = sane p" "scans (emit e p) = scans p"
  by (simp_all add: sane_def emit_def)

lemma sane_beep [simp]: "sane (beep_key p) = sane p" "scans (beep_key p) = scans p"
  by (simp_all add: beep_key_def BeepTime_def)

lemma sane_call: "env_ok env \<Longrightarrow> sane p \<Longrightarrow> sane (snd (snd (run_call env c p)))"
proof (induction c arbitrary: p)
  case (Waits q k)
  obtain ok dst r where w: "waits env q (board p) = (ok, dst, r)" by (metis prod_cases3)
  have "measured (regMeas r)" using Waits.prems w unfolding env_ok_def sane_def by (metis snd_conv)
  then have "sane ((emit (Command q) p)\<lparr>board := r\<rparr>)" using Waits.prems(2) by (simp add: sane_def emit_def)
  from Waits.IH [OF rangeI rangeI Waits.prems(1) this] w show ?case by simp
qed simp

lemma sane_do_call: "env_ok env \<Longrightarrow> sane p \<Longrightarrow> sane (do_call env c p)"
  by (simp add: do_call_def sane_call)

lemma sane_do_board:
  assumes "sane p" "regMeas (snd (f (board p))) = regMeas (board p)"
  shows "sane (do_board f p)"
  using assms by (simp cong: sane_cong add: sane_def)

lemma target_calls_keep [simp]:
  "regMeas (snd (reg_modeSet m r)) = regMeas r" "regMeas (snd (reg_dacCurrentSet i r)) = regMeas r"
  "regMeas (snd (reg_dacVoltageSet i r)) = regMeas r" "regMeas (snd (reg_currentSet i r)) = regMeas r"
  "regMeas (snd (reg_voltageSet i r)) = regMeas r"
  by (simp_all add: reg_modeSet_def reg_dacCurrentSet_def reg_dacVoltageSet_def reg_currentSet_def reg_voltageSet_def)

lemma fine_ask:
  assumes "env_ok env" "sane p" "\<And>ok x q. sane q \<Longrightarrow> scans q = scans p \<Longrightarrow> fine P (f ok x q)"
  shows "fine P (ask env c f p)"
  using assms(3) [OF sane_call [OF assms(1,2)] run_call_keeps(3)] by (simp add: ask_def Let_def case_prod_unfold)

lemma fine_on_board:
  assumes "sane p" "regMeas (snd (f (board p))) = regMeas (board p)" "\<And>ok q. sane q \<Longrightarrow> scans q = scans p \<Longrightarrow> fine P (g ok q)"
  shows "fine P (let (ok, q) = on_board f p in g ok q)"
proof -
  have "snd (on_board f p) = do_board f p" by (simp add: do_board_def)
  with assms(3) [OF sane_do_board [of p f, OF assms(1,2)]] show ?thesis by (simp add: case_prod_unfold)
qed

definition tame :: "callback \<Rightarrow> u16 \<Rightarrow> bool" where
  "tame f a \<longleftrightarrow> (\<forall>env p. env_ok env \<longrightarrow> sane p \<longrightarrow> fine (\<lambda>(r, p'). sane p' \<and> scans p' = scans p) (f env a p))"

lemma tameI: "(\<And>env p. env_ok env \<Longrightarrow> sane p \<Longrightarrow> fine (\<lambda>(r, p'). sane p' \<and> scans p' = scans p) (f env a p)) \<Longrightarrow> tame f a"
  by (simp add: tame_def)

lemma results_fine [simp]:
  "fine (\<lambda>(r, p'). sane p' \<and> scans p' = s) (done_ok p) = (sane p \<and> scans p = s)"
  "fine (\<lambda>(r, p'). sane p' \<and> scans p' = s) (connected_or_error ok p) = (sane p \<and> scans p = s)"
  by (simp_all add: done_ok_def connected_or_error_def)

lemma assign_sane_other:
  "sane p \<Longrightarrow> i < 65 \<Longrightarrow> i \<noteq> Prm_crange_set \<Longrightarrow> vtype (parametres ! i) \<noteq> T_int32 \<Longrightarrow> sane (assign i x p)"
  by (rule assign_sane) auto

lemma prm_types:
  "vtype (parametres ! Prm_utcTime) \<noteq> T_int32" "vtype (parametres ! Prm_point) \<noteq> T_int32"
  "vtype (parametres ! Prm_Uadc) \<noteq> T_int32" "vtype (parametres ! Prm_Iadc) \<noteq> T_int32"
  "vtype (parametres ! Prm_input_v1) \<noteq> T_int32" "vtype (parametres ! Prm_input_v2) \<noteq> T_int32"
  "vtype (parametres ! Prm_input_v3) \<noteq> T_int32" "vtype (parametres ! Prm_input_v4) \<noteq> T_int32"
  "vtype (parametres ! Prm_input_vg) \<noteq> T_int32" "vtype (parametres ! Prm_temp_heatsink) \<noteq> T_int32"
  "vtype (parametres ! Prm_temp_shunt) \<noteq> T_int32" "vtype (parametres ! Prm_temp_ref) \<noteq> T_int32"
  "vtype (parametres ! Prm_reg_serial) \<noteq> T_int32" "vtype (parametres ! Prm_save_settings) \<noteq> T_int32"
  by (simp_all add: parametres_def prm_def)

lemmas assign_other = prm_types [THEN assign_sane_other [rotated 3]]

lemma prm_int32_limits:
  "vmax (parametres ! Prm_Ureal) = 40000000" "vmax (parametres ! Prm_Ireal) = 4000000"
  "vmax (parametres ! Prm_Umeas) = 40000000" "vmax (parametres ! Prm_Imeas) = 4000000"
  "vmax (parametres ! Prm_Udac) = 65535" "vmax (parametres ! Prm_Idac) = 65535"
  "vmax (parametres ! Prm_resistance) = 2147483647"
  by (simp_all add: parametres_def prm_def)

lemma sint32: "- 2147483648 \<le> sint (x :: u32)" "sint (x :: u32) \<le> 2147483647"
  using sint_greater_eq [of x] sint_less [of x] by simp_all

lemma dac_bounds:
  "\<bar>sint (x :: u32) sdiv 4\<bar> \<le> 536870912" "\<bar>sint (x :: u32) sdiv 32\<bar> \<le> 67108864"
  using sint32 [of x] by (auto simp: signed_divide_int_def sgn_if abs_if split: if_splits)

lemma assign_dac:
  assumes "sane p" "\<bar>x\<bar> \<le> 1000000000"
  shows "sane (assign Prm_Udac x p)" "sane (assign Prm_Idac x p)" "sane (assign Prm_Ureal x p)" "sane (assign Prm_Ireal x p)"
  using assms by (auto intro!: assign_sane simp: prm_int32_limits cmin_def cmax_def)

lemma tame_simple:
  "tame setBright a" "tame updateDST a" "tame calibrDateSelect a" "tame calibrDateUnselect a" "tame rtcSelect a"
  "tame rtcUnselect a" "tame prepareInfo a" "tame saveSettings a" "tame updateSaveSettings a" "tame setCrange a"
  "tame setWireresistanse a" "tame netUpdate a" "tame calibrExit a"
  by (rule tameI; simp add: setBright_def updateDST_def timezoneUpdate_def Let_def calibrDateUnselect_def rtcSelect_def
      rtcUnselect_def setCrange_def setWireresistanse_def netUpdate_def netSettingUpdate_def sane_do_call assign_other
      calibrDateSelect_def prepareInfo_def saveSettings_def updateSaveSettings_def calibrExit_def;
    (rule fine_ask; (assumption | simp add: assign_other))?)+

lemma tame_acquisition: "tame setAcquisition a"
  by (rule tameI) (auto simp: setAcquisition_def intro!: fine_ask)

lemma tame_save_points: "tame savePointU a" "tame savePointMicroI a" "tame savePointI a"
  by (rule tameI; simp add: savePointU_def savePointMicroI_def savePointI_def Let_def sane_do_call sane_do_board)+

lemma tame_wire: "tame PrepareWireResistance a"
  unfolding PrepareWireResistance_def
  by (rule tameI) (auto simp: Let_def intro!: fine_on_board [unfolded Let_def] sane_do_call sane_do_board)

text \<open>The end of the three functions that prepare a calibration.\<close>

lemma prepared_fine:
  assumes "env_ok env" "sane p"
  shows "fine (\<lambda>(r, p'). sane p' \<and> scans p' = scans p)
    (let p = do_board (reg_modeSet reg_raw) p;
         p = do_call env (reg_enableSet True (board p)) p;
         p = do_board (reg_dacCurrentSet (word_of_int (prm_val Prm_Idac p))) p;
         (result, p) = on_board (reg_dacVoltageSet (word_of_int (prm_val Prm_Udac p))) p
     in connected_or_error result p)"
proof -
  define p1 where "p1 = do_board (reg_modeSet reg_raw) p"
  define p2 where "p2 = do_call env (reg_enableSet True (board p1)) p1"
  define p3 where "p3 = do_board (reg_dacCurrentSet (word_of_int (prm_val Prm_Idac p2))) p2"
  have "sane p3" "scans p3 = scans p"
    using assms by (simp_all add: p1_def p2_def p3_def sane_do_board sane_do_call)
  then have "fine (\<lambda>(r, p'). sane p' \<and> scans p' = scans p)
      (let (result, p) = on_board (reg_dacVoltageSet (word_of_int (prm_val Prm_Udac p3))) p3 in connected_or_error result p)"
    by (intro fine_on_board) simp_all
  then show ?thesis by (simp only: Let_def p1_def p2_def p3_def)
qed

lemma arg_point:
  fixes a :: u16
  assumes "sane p" "a < 4" "P 0" "P 1" "P 2" "P 3"
  shows "P (prm_val Prm_point (assign Prm_point (uint a) p))"
proof -
  have u: "uint a < 4" using assms(2) by (simp add: word_less_def)
  have "prm_val Prm_point (assign Prm_point (uint a) p) = conv (vtype (parametres ! Prm_point)) (uint a)"
    using saneD(1) [OF assms(1), of Prm_point] sane_length [OF assms(1)] by (simp add: prm_val_def assign_def set_prm_def)
  moreover have "conv (vtype (parametres ! Prm_point)) (uint a) = uint a"
    using u by (intro conv_id) (auto simp: parametres_def prm_def cmin_def cmax_def)
  moreover have "uint a = 0 \<or> uint a = 1 \<or> uint a = 2 \<or> uint a = 3" using u uint_ge_0 [of a] by linarith
  ultimately show ?thesis using assms(3-6) by auto
qed

lemma prepare_fine:
  assumes "env_ok env" "sane p" "\<And>dst q. sane q \<Longrightarrow> sane (g dst q)" "\<And>dst q. scans (g dst q) = scans q"
  shows "fine (\<lambda>(r, p'). sane p' \<and> scans p' = scans p)
    (ask env (reg_dacMaxValueGet (le32 0)) (\<lambda>result dst p.
        if result then
          let p = g dst p;
              p = do_board (reg_modeSet reg_raw) p;
              p = do_call env (reg_enableSet True (board p)) p;
              p = do_board (reg_dacCurrentSet (word_of_int (prm_val Prm_Idac p))) p;
              (result, p) = on_board (reg_dacVoltageSet (word_of_int (prm_val Prm_Udac p))) p
          in connected_or_error result p
        else connected_or_error False p) p)"
proof (rule fine_ask [OF assms(1,2)])
  fix ok dst q assume q: "sane q" "scans q = scans p"
  note f = prepared_fine [OF assms(1) assms(3) [OF q(1)], of dst, unfolded assms(4) q(2)]
  show "fine (\<lambda>(r, p'). sane p' \<and> scans p' = scans p)
    (if ok then
       let p = g dst q;
           p = do_board (reg_modeSet reg_raw) p;
           p = do_call env (reg_enableSet True (board p)) p;
           p = do_board (reg_dacCurrentSet (word_of_int (prm_val Prm_Idac p))) p;
           (result, p) = on_board (reg_dacVoltageSet (word_of_int (prm_val Prm_Udac p))) p
       in connected_or_error result p
     else connected_or_error False q)"
    using f q by (simp add: Let_def)
qed

lemma point_of_arg:
  fixes a :: u16 and w x y z :: int
  assumes "sane p" "a < 4" "list_all (\<lambda>x. \<bar>x\<bar> \<le> 1000000000) [w, x, y, z]"
  obtains u where "rd [w, x, y, z] (prm_val Prm_point (assign Prm_point (uint a) p)) = Some u" "\<bar>u\<bar> \<le> 1000000000"
proof -
  have "\<exists>u. rd [w, x, y, z] (prm_val Prm_point (assign Prm_point (uint a) p)) = Some u \<and> \<bar>u\<bar> \<le> 1000000000"
    by (rule arg_point [OF assms(1,2)]) (use assms(3) in \<open>simp_all add: rd_def\<close>)
  with that show thesis by blast
qed

lemma sane_point: "sane p \<Longrightarrow> sane (assign Prm_point x p)"
  by (simp add: assign_other)

lemma tame_PrepareU:
  assumes "a < 4"
  shows "tame PrepareU a"
proof (rule tameI)
  fix env p assume e: "env_ok env" and p: "sane p"
  obtain x where x: "rd pointU (prm_val Prm_point (assign Prm_point (uint a) p)) = Some x" "\<bar>x\<bar> \<le> 1000000000"
    using point_of_arg [OF p assms, of 10000 6000000 24000000 36000000] by (auto simp: pointU_def)
  have q: "sane (assign Prm_Udac 0 (assign Prm_Ureal x (assign Prm_point (uint a) p)))"
    using x(2) sane_point [OF p] by (intro assign_dac) simp_all
  show "fine (\<lambda>(r, p'). sane p' \<and> scans p' = scans p) (PrepareU env a p)"
    using prepare_fine [OF e q, of "\<lambda>dst p. assign Prm_Idac (sint (word_at dst) sdiv 4) p"] dac_bounds(1)
    by (simp add: PrepareU_def Let_def x(1) defined_def assign_dac order_trans [OF dac_bounds(1)])
qed

lemma tame_PrepareMicroI:
  assumes "a < 4"
  shows "tame PrepareMicroI a"
proof (rule tameI)
  fix env p assume e: "env_ok env" and p: "sane p"
  obtain x where x: "rd pointMicroI (prm_val Prm_point (assign Prm_point (uint a) p)) = Some x" "\<bar>x\<bar> \<le> 1000000000"
    using point_of_arg [OF p assms, of 10 950 50000 0] by (auto simp: pointMicroI_def)
  have q: "sane (assign Prm_Ireal x (assign Prm_point (uint a) p))"
    using x(2) sane_point [OF p] by (intro assign_dac) simp_all
  show "fine (\<lambda>(r, p'). sane p' \<and> scans p' = scans p) (PrepareMicroI env a p)"
    using prepare_fine [OF e q, of "\<lambda>dst p. assign Prm_Udac 0 (assign Prm_Idac (sint (word_at dst) sdiv 32) p)"]
    by (simp add: PrepareMicroI_def Let_def x(1) defined_def assign_dac order_trans [OF dac_bounds(2)])
qed

lemma tame_PrepareI:
  assumes "a < 4"
  shows "tame PrepareI a"
proof (rule tameI)
  fix env p assume e: "env_ok env" and p: "sane p"
  obtain x where x: "rd pointI (prm_val Prm_point (assign Prm_point (uint a) p)) = Some x" "\<bar>x\<bar> \<le> 1000000000"
    using point_of_arg [OF p assms, of 1000 500000 2200000 3000000] by (auto simp: pointI_def)
  have q: "sane (assign Prm_Ireal x (assign Prm_point (uint a) p))"
    using x(2) sane_point [OF p] by (intro assign_dac) simp_all
  show "fine (\<lambda>(r, p'). sane p' \<and> scans p' = scans p) (PrepareI env a p)"
    using prepare_fine [OF e q, of "\<lambda>dst p. assign Prm_Idac 0 (assign Prm_Udac (sint (word_at dst) sdiv 4) p)"]
    by (simp add: PrepareI_def Let_def x(1) defined_def assign_dac order_trans [OF dac_bounds(1)])
qed

text \<open>What the menu copies from the regulator stays storable.\<close>

lemma tame_updateReg: "tame updateReg a"
proof (rule tameI)
  fix env p assume p: "sane p"
  define s where "s = regMeas (board p)"
  have m: "measured s" using p by (simp add: sane_def s_def)
  have "sane (assign Prm_Umeas (sint (rs_voltage s)) q)" "sane (assign Prm_Imeas (sint (rs_current s)) q)"
    "sane (assign Prm_resistance (sint (rs_resistance s)) q)" if "sane q" for q
    using that m sint32 [of "rs_voltage s"] sint32 [of "rs_current s"] sint32 [of "rs_resistance s"]
    by (auto intro!: assign_sane simp: measured_def prm_int32_limits cmin_def cmax_def)
  then show "fine (\<lambda>(r, p'). sane p' \<and> scans p' = scans p) (updateReg env a p)"
    using p by (simp add: updateReg_def reg_getState_def s_def [symmetric] Let_def assign_other)
qed

lemmas tame_callbacks = tame_simple tame_acquisition tame_save_points tame_wire tame_PrepareU tame_PrepareMicroI
  tame_PrepareI tame_updateReg

lemma menu_items_tame:
  "list_all (\<lambda>(n, m). pred_option (\<lambda>f. tame f (arg m)) (pChange m) \<and> pred_option (\<lambda>f. tame f (arg m)) (pSelect m) \<and>
     pred_option (\<lambda>f. tame f (arg m)) (pUnselect m) \<and> pred_option (\<lambda>f. tame f (arg m)) (pPeriod m)) menu_items"
  by (simp add: menu_items_def tame_callbacks)

lemma menu_items_params:
  "list_all (\<lambda>(n, m). pred_option (\<lambda>i. i < 79) (item_prm m) \<and>
     (editor m \<noteq> None \<longrightarrow> pred_option (\<lambda>i. vtype (parametres ! i) \<noteq> T_int32 \<and> i < 65 \<and> i \<noteq> Prm_crange_set) (item_prm m) \<and>
       item_prm m \<noteq> None)) menu_items"
  by (simp add: menu_items_def parametres_def prm_def)

section \<open>The menu never goes wrong: navigation\<close>

text \<open>The histories of the menu, each with the items of the page it leads to.\<close>

definition trails :: "(nat list \<times> nat list) list" where
  "trails =
    [([], [1, 2, 3, 4, 5]),
     ([1], [11, 12, 13, 14, 15, 16, 17, 18, 19]), ([2], [20, 21, 22, 23, 24]), ([3], [30, 31, 32, 33, 34, 35]),
     ([5], [50, 51, 52, 53, 54]),
     ([1, 12], [120, 121, 122]), ([1, 13], [130, 131, 132, 133]), ([1, 14], [140, 141, 142]), ([1, 15], [150, 151, 152, 153]),
     ([1, 16], [160, 161, 162, 163, 164, 165, 166, 167, 168]), ([1, 18], [170, 171, 172, 173]),
     ([2, 23], [230, 231, 232, 233, 234, 235]), ([2, 24], [240, 241, 242, 243, 244, 245]),
     ([3, 35], [350, 351, 352, 353, 354]),
     ([1, 13, 130], [1330, 1331, 1332, 1333, 1334]), ([1, 13, 131], [1330, 1331, 1332, 1333, 1334]),
     ([1, 13, 132], [1330, 1331, 1332, 1333, 1334]), ([1, 13, 133], [1330, 1331, 1332, 1333, 1334]),
     ([1, 14, 140], [1430, 1431, 1432, 1433, 1434, 1435]), ([1, 14, 141], [1430, 1431, 1432, 1433, 1434, 1435]),
     ([1, 14, 142], [1430, 1431, 1432, 1433, 1434, 1435]),
     ([1, 15, 150], [1530, 1531, 1532, 1533, 1534]), ([1, 15, 151], [1530, 1531, 1532, 1533, 1534]),
     ([1, 15, 152], [1530, 1531, 1532, 1533, 1534]), ([1, 15, 153], [1530, 1531, 1532, 1533, 1534])]"

definition place :: "menu \<Rightarrow> bool" where
  "place w \<longleftrightarrow> (\<exists>P. (history w, P) \<in> set trails \<and> current w \<in> set P)"

lemma trails_items:
  "list_all (\<lambda>(n, m). list_all (\<lambda>(h, P). n \<in> set P \<longrightarrow>
     pred_option (\<lambda>k. k \<in> set P) (next_item m) \<and> pred_option (\<lambda>k. k \<in> set P) (previous m) \<and>
     pred_option (\<lambda>c. list_ex (\<lambda>(h', P'). h' = h @ [n] \<and> c \<in> set P') trails) (child m)) trails) menu_items"
  by (simp add: menu_items_def trails_def)

lemma trails_known: "list_all (\<lambda>(h, P). list_all (\<lambda>n. n \<in> set (map fst menu_items)) P) trails"
  by (simp add: menu_items_def trails_def)

lemma trails_up:
  "list_all (\<lambda>(h, P). length h \<le> 3 \<and> (h \<noteq> [] \<longrightarrow> list_ex (\<lambda>(h', P'). h' = butlast h \<and> last h \<in> set P') trails)) trails"
  by (simp add: trails_def)

text \<open>The path fits when all its labels but the last end within the buffer.\<close>

definition width :: "nat \<Rightarrow> nat" where
  "width n = (case map_of menu_items n of None \<Rightarrow> 0 | Some m \<Rightarrow> length (label m) + 1)"

fun path_fits :: "nat \<Rightarrow> nat list \<Rightarrow> bool" where
  "path_fits offset [] = True"
| "path_fits offset (n # ns) \<longleftrightarrow> offset \<le> PATH_SIZE \<and> 0 < width n \<and> width n \<le> 100 \<and> path_fits (offset + width n) ns"

lemma print_labels_fits:
  "path_fits offset ns \<Longrightarrow> \<exists>ms. those (map (map_of menu_items) ns) = Some ms \<and> print_labels (map label ms) offset s \<noteq> None"
proof (induction ns arbitrary: offset s)
  case (Cons n ns)
  then obtain m where m: "map_of menu_items n = Some m" by (auto simp: width_def split: option.splits)
  with Cons.prems have f: "offset \<le> PATH_SIZE" "length (label m) < 100" "path_fits (offset + Suc (length (label m))) ns"
    by (auto simp: width_def)
  obtain ms where "those (map (map_of menu_items) ns) = Some ms" using Cons.IH [OF f(3)] by blast
  then show ?case using Cons.IH [OF f(3)] m f(1,2) by (simp add: Let_def)
qed simp

lemma printHistory_fits: "path_fits 0 h \<Longrightarrow> printHistory h \<noteq> None"
  using print_labels_fits [of 0 h "''/''"] by (auto simp: printHistory_def)

lemma item_widths:
  "map (\<lambda>(n, m). (n, length (label m) + 1)) menu_items =
    [(1, 10), (11, 7), (12, 5), (120, 13), (121, 5), (122, 4), (13, 7), (130, 7), (131, 7), (132, 7), (133, 7),
     (1330, 6), (1331, 5), (1332, 5), (1333, 5), (1334, 6), (14, 12), (140, 7), (141, 7), (142, 7), (1430, 6),
     (1431, 5), (1432, 5), (1433, 5), (1434, 6), (1435, 7), (15, 7), (150, 7), (151, 7), (152, 7), (153, 7),
     (1530, 6), (1531, 5), (1532, 5), (1533, 5), (1534, 6), (16, 5), (160, 7), (161, 3), (162, 3), (163, 3),
     (164, 3), (165, 3), (166, 4), (167, 4), (168, 5), (17, 16), (18, 12), (170, 13), (171, 8), (172, 13), (173, 8),
     (19, 5), (2, 10), (20, 6), (21, 10), (22, 4), (23, 6), (230, 4), (231, 5), (232, 4), (233, 5), (234, 4),
     (235, 4), (24, 4), (240, 4), (241, 5), (242, 4), (243, 5), (244, 4), (245, 4), (3, 4), (30, 5), (31, 11),
     (32, 12), (33, 8), (34, 7), (35, 5), (350, 11), (351, 12), (352, 8), (353, 7), (354, 12), (4, 7), (5, 8),
     (50, 17), (51, 4), (52, 5), (53, 14), (54, 6)]"
  by (simp add: menu_items_def)

lemma width_eq: "width n = (case map_of (map (\<lambda>(n, m). (n, length (label m) + 1)) menu_items) n of None \<Rightarrow> 0 | Some k \<Rightarrow> k)"
  by (simp add: width_def map_of_map split: option.split)

lemma widths:
  "width 1 = 10" "width 2 = 10" "width 3 = 4" "width 5 = 8" "width 12 = 5" "width 13 = 7" "width 14 = 12"
  "width 15 = 7" "width 16 = 5" "width 18 = 12" "width 23 = 6" "width 24 = 4" "width 35 = 5" "width 130 = 7"
  "width 131 = 7" "width 132 = 7" "width 133 = 7" "width 140 = 7" "width 141 = 7" "width 142 = 7"
  "width 150 = 7" "width 151 = 7" "width 152 = 7" "width 153 = 7" "width 17 = 16" "width 20 = 6" "width 31 = 11"
  "width 32 = 12" "width 33 = 8" "width 34 = 7" "width 350 = 11" "width 351 = 12" "width 352 = 8"
  "width 353 = 7" "width 354 = 12"
  by (simp_all add: width_eq item_widths del: One_nat_def)

lemma trails_print: "list_all (\<lambda>(h, P). path_fits 0 h) trails"
  by (simp add: trails_def widths del: One_nat_def)

lemma editors_print:
  "list_all (\<lambda>(n, m). editor m \<noteq> None \<longrightarrow> list_all (\<lambda>(h, P). n \<in> set P \<longrightarrow> path_fits 0 (h @ [n])) trails) menu_items"
  by (simp add: menu_items_def trails_def widths del: One_nat_def)

text \<open>The item of a place, and where its links lead.\<close>

lemma place_item:
  assumes "(h, P) \<in> set trails" "n \<in> set P"
  obtains m where "map_of menu_items n = Some m" "(n, m) \<in> set menu_items"
    "\<And>k. next_item m = Some k \<Longrightarrow> k \<in> set P" "\<And>k. previous m = Some k \<Longrightarrow> k \<in> set P"
    "\<And>c. child m = Some c \<Longrightarrow> \<exists>P'. (h @ [n], P') \<in> set trails \<and> c \<in> set P'"
    "editor m \<noteq> None \<Longrightarrow> path_fits 0 (h @ [n])"
proof -
  have "n \<in> set (map fst menu_items)" using trails_known assms by (fastforce simp: list_all_iff)
  then obtain m where m: "map_of menu_items n = Some m" by (metis domIff dom_map_of_conv_image_fst list.set_map option.exhaust)
  then have i: "(n, m) \<in> set menu_items" by (rule map_of_SomeD)
  have "pred_option (\<lambda>k. k \<in> set P) (next_item m) \<and> pred_option (\<lambda>k. k \<in> set P) (previous m) \<and>
      pred_option (\<lambda>c. list_ex (\<lambda>(h', P'). h' = h @ [n] \<and> c \<in> set P') trails) (child m)"
    using trails_items i assms by (fastforce simp: list_all_iff)
  moreover have "editor m \<noteq> None \<Longrightarrow> path_fits 0 (h @ [n])" using editors_print i assms by (fastforce simp: list_all_iff)
  ultimately show thesis using m i by (intro that [of m]) (auto simp: list_ex_iff)
qed

lemma place_up:
  assumes "(h, P) \<in> set trails"
  shows "length h \<le> 3" "h \<noteq> [] \<Longrightarrow> \<exists>P'. (butlast h, P') \<in> set trails \<and> last h \<in> set P'" "path_fits 0 h"
  using trails_up trails_print assms by (fastforce simp: list_all_iff list_ex_iff)+

lemma item_tame:
  assumes "(n, m) \<in> set menu_items"
  shows "\<And>f. pChange m = Some f \<Longrightarrow> tame f (arg m)" "\<And>f. pSelect m = Some f \<Longrightarrow> tame f (arg m)"
    "\<And>f. pUnselect m = Some f \<Longrightarrow> tame f (arg m)" "\<And>f. pPeriod m = Some f \<Longrightarrow> tame f (arg m)"
    "\<And>i. item_prm m = Some i \<Longrightarrow> i < 79"
    "editor m \<noteq> None \<Longrightarrow> \<exists>i. item_prm m = Some i \<and> vtype (parametres ! i) \<noteq> T_int32 \<and> i < 65 \<and> i \<noteq> Prm_crange_set"
  using menu_items_tame menu_items_params assms by (fastforce simp: list_all_iff)+

section \<open>The menu never goes wrong: the loop\<close>

text \<open>What every part of a pass keeps.\<close>

definition onward :: "panel \<Rightarrow> panel \<Rightarrow> bool" where
  "onward p p' \<longleftrightarrow> sane p' \<and> length (scans p') \<le> length (scans p)"

lemma onward_refl: "sane p \<Longrightarrow> onward p p"
  by (simp add: onward_def)

lemma onward_trans: "onward p q \<Longrightarrow> onward q r \<Longrightarrow> onward p r"
  by (simp add: onward_def)

lemma onward_sane: "onward p q \<Longrightarrow> sane q"
  by (simp add: onward_def)

lemma fine_onward: "fine (onward q) r \<Longrightarrow> onward p q \<Longrightarrow> fine (onward p) r"
  by (cases r) (auto intro: onward_trans)

lemma next_scan_fine:
  assumes "sane p"
  shows "fine (\<lambda>(s, p'). onward p p' \<and> length (scans p') < length (scans p)) (next_scan p)"
proof (cases "scans p")
  case (Cons s ss)
  obtain k where k: "scan_keys p = Some (keyState k, p\<lparr>keys := k, scans := ss\<rparr>)" "wf_key k"
    using scan_keys_eq [OF _ Cons] assms by (auto simp: sane_def)
  then show ?thesis using assms Cons by (simp add: next_scan_def defined_def onward_def sane_def)
qed (simp add: next_scan_def)

lemma wait_key_fine: "sane p \<Longrightarrow> fine (onward p) (wait_key p)"
proof (induction p rule: wait_key.induct)
  case (1 p)
  note scan = next_scan_fine [OF "1.prems"]
  show ?case
  proof (cases "next_scan p")
    case (Inr r)
    obtain s q where r: "r = (s, q)" by fastforce
    have q: "onward p q" using scan Inr r by simp
    show ?thesis
    proof (cases "s = 0")
      case True
      have "fine (onward q) (wait_key q)" using "1.IH" [OF Inr r [symmetric] True] q by (simp add: onward_sane)
      with q True show ?thesis by (subst wait_key.simps) (simp add: Inr r fine_onward)
    next
      case False
      with q show ?thesis by (subst wait_key.simps) (simp add: Inr r)
    qed
  qed (use scan in \<open>subst wait_key.simps; simp\<close>)
qed

lemma message_fine: "sane p \<Longrightarrow> fine (onward p) (printMessageWindow text p)"
  unfolding printMessageWindow_def
  by (rule fine_andthen [OF wait_key_fine]) (simp_all add: onward_def)

lemma tameD: "tame f a \<Longrightarrow> env_ok env \<Longrightarrow> sane p \<Longrightarrow> fine (\<lambda>(r, p'). sane p' \<and> scans p' = scans p) (f env a p)"
  by (simp add: tame_def)

lemma report_fine: "sane p \<Longrightarrow> fine (onward p) (report (r, p))"
  by (cases r) (simp add: report_def message_fine onward_refl)

lemma reported_fine:
  assumes "tame f a" "env_ok env" "sane p"
  shows "fine (onward p) (andthen (f env a p) report)"
proof (rule fine_andthen [OF tameD [OF assms]])
  fix x :: "ItemState \<times> panel" assume x: "case x of (r, p') \<Rightarrow> sane p' \<and> scans p' = scans p"
  then obtain r q where q: "x = (r, q)" "sane q" "onward p q" by (cases x) (auto simp: onward_def)
  show "fine (onward p) (report x)" using fine_onward [OF report_fine [OF q(2)] q(3)] by (simp add: q(1))
qed

lemma calls_fine:
  assumes "(n, m) \<in> set menu_items" "env_ok env" "sane p"
  shows "fine (onward p) (callUnselect env m p)" "fine (onward p) (callSelect env m p)" "fine (onward p) (callExit env m p)"
    "fine (onward p) (callChanges env m p)" "fine (onward p) (callPeriodic env m p)"
    "fine (\<lambda>(b, p'). onward p p') (callEnter env m p)"
proof -
  note t = item_tame(1-4) [OF assms(1)] reported_fine [OF _ assms(2,3)]
  show "fine (onward p) (callUnselect env m p)" "fine (onward p) (callSelect env m p)" "fine (onward p) (callExit env m p)"
    "fine (onward p) (callChanges env m p)" "fine (onward p) (callPeriodic env m p)"
    using assms(3) t
    by (simp_all add: callUnselect_def callSelect_def callExit_def callChanges_def callPeriodic_def onward_refl split: option.split)
  show "fine (\<lambda>(b, p'). onward p p') (callEnter env m p)"
  proof (cases "pSelect m")
    case (Some f)
    have step: "fine (\<lambda>(b, p'). onward p p') (case x of ((state, text), q) \<Rightarrow>
        if \<not> state then andthen (printMessageWindow text q) (\<lambda>p. Inr (False, p)) else Inr (True, q))"
      if "case x of (r, p') \<Rightarrow> sane p' \<and> scans p' = scans p" for x
    proof -
      obtain s msg q where x: "x = ((s, msg), q)" by (metis surj_pair)
      with that have q: "sane q" "onward p q" by (auto simp: onward_def)
      have "fine (\<lambda>(b, p'). onward p p') (andthen (printMessageWindow msg q) (\<lambda>p. Inr (False, p)))"
        by (rule fine_andthen [OF fine_onward [OF message_fine [OF q(1)] q(2)]]) simp
      with q(2) show ?thesis by (simp add: x)
    qed
    show ?thesis unfolding callEnter_def Some option.simps
      by (rule fine_andthen [OF tameD [OF item_tame(2) [OF assms(1) Some] assms(2,3)]]) (drule step, auto split: prod.splits)
  qed (simp add: callEnter_def onward_refl assms(3))
qed

lemma fine_pair: "fine (onward p) r \<Longrightarrow> fine (\<lambda>(b, p'). onward p p') (andthen r (\<lambda>p. Inr (b, p)))"
  by (cases r) auto

text \<open>Editing a parameter.\<close>

lemma on_item_fine:
  assumes "\<And>i. item_prm m = Some i \<Longrightarrow> \<exists>p'. on_prm i f p = Some p' \<and> sane p' \<and> scans p' = scans p" "sane p"
  shows "fine (onward p) (on_item f m p)"
proof (cases "item_prm m")
  case (Some i)
  with assms(1) obtain p' where "on_prm i f p = Some p'" "sane p'" "scans p' = scans p" by blast
  with Some show ?thesis by (simp add: on_item_def defined_def onward_def)
qed (simp add: on_item_def onward_refl assms(2))

lemma menu_edit_fine:
  assumes "(n, m) \<in> set menu_items" "sane p"
  shows "fine (\<lambda>(b, p'). onward p p') (menu_edit m p)"
  unfolding menu_edit_def
  by (intro fine_if fine_pair on_item_fine on_prm_sane [OF assms(2)] item_tame(5) [OF assms(1)])
    (simp_all add: assms(2) onward_refl)

lemma dial_sane [simp]: "sane (snd (read_dial p)) = sane p"
  by (simp add: sane_def)

lemma menu_dial_fine:
  assumes "(n, m) \<in> set menu_items" "sane p"
  shows "fine (\<lambda>(b, p'). onward p p') (menu_dial m chg p)"
proof -
  obtain k q where d: "read_dial p = (k, q)" by fastforce
  have q: "sane q" "onward p q" using assms(2) dial_sane [of p] read_dial_keeps(4) [of p] by (simp_all add: d onward_def)
  have k: "\<bar>k\<bar> \<le> 57344" using read_dial_bound [of p] by (simp add: d)
  have "fine (onward q) (on_item (step_Val k) m q)"
    by (rule on_item_fine [OF on_prm_sane(1) [OF q(1) item_tame(5) [OF assms(1)] k] q(1)])
  then have "fine (\<lambda>(b, p'). onward p p') (andthen (on_item (step_Val k) m q) (\<lambda>p. Inr (True, p)))"
    using q(2) by (intro fine_pair) (rule fine_onward)
  then show ?thesis using q(2) assms(2) by (simp add: menu_dial_def d onward_refl)
qed

text \<open>The editors.\<close>

lemma scan_then_fine:
  assumes "sane p" "\<And>s q. onward p q \<Longrightarrow> length (scans q) < length (scans p) \<Longrightarrow> fine P (f (s, q))"
  shows "fine P (andthen (next_scan p) f)"
  by (rule fine_andthen [OF next_scan_fine [OF assms(1)]]) (use assms(2) in auto)

definition clock_numbers :: "int list \<Rightarrow> bool" where
  "clock_numbers v \<longleftrightarrow> length v = 6 \<and> 1 \<le> v ! 1 \<and> v ! 1 \<le> 12 \<and> list_all (\<lambda>x. \<bar>x\<bar> \<le> 2000000) v"

lemma less_6: "k < (6 :: nat) \<Longrightarrow> k = 0 \<or> k = 1 \<or> k = 2 \<or> k = 3 \<or> k = 4 \<or> k = 5"
  by arith

lemma list_all_update: "list_all P xs \<Longrightarrow> P x \<Longrightarrow> list_all P (xs[i := x])"
  using set_update_subset_insert [of xs i x] by (auto simp: list_all_iff)

lemma clock_dial_ok:
  assumes "clock_numbers v" "var < 6" "sane p"
  shows "\<exists>v' p'. clock_dial chg var v p = Some (v', p') \<and> clock_numbers v' \<and> onward p p'"
proof (cases chg)
  case True
  obtain n q where d: "read_dial p = (n, q)" by fastforce
  have q: "sane q" "onward p q" using assms(3) dial_sane [of p] read_dial_keeps(4) [of p] by (simp_all add: d onward_def)
  have n: "\<bar>n\<bar> \<le> 57344" using read_dial_bound [of p] by (simp add: d)
  have "\<bar>v ! var\<bar> \<le> 2000000" using assms(1,2) by (simp add: clock_numbers_def list_all_length)
  then have a: "arith T_int32 (v ! var + n) = Some (v ! var + n)" using n by (simp add: arith_def cmin_def cmax_def) arith
  define lo hi where "lo = fst (clock_limits ! var)" and "hi = snd (clock_limits ! var)"
  define x where "x = (if v ! var + n < lo then lo else v ! var + n)"
  define y where "y = (if x > hi then hi else x)"
  have l: "lo \<le> hi \<and> \<bar>lo\<bar> \<le> 2000000 \<and> \<bar>hi\<bar> \<le> 2000000 \<and> (var = 1 \<longrightarrow> lo = 1 \<and> hi = 12)"
    using less_6 [OF assms(2)] by (auto simp: lo_def hi_def clock_limits_def)
  then have y: "\<bar>y\<bar> \<le> 2000000" "var = 1 \<longrightarrow> 1 \<le> y \<and> y \<le> 12" by (auto simp: y_def x_def)
  have "clock_numbers (v[var := y])"
    using assms(1,2) y by (auto simp: clock_numbers_def nth_list_update intro: list_all_update)
  moreover have "clock_dial chg var v p = Some (v[var := y], q)"
    using True a by (auto simp: clock_dial_def d Let_def lo_def hi_def x_def y_def)
  ultimately show ?thesis using q(2) by blast
qed (use assms in \<open>simp add: clock_dial_def onward_refl\<close>)

lemma upto_12: "1 \<le> (m :: int) \<Longrightarrow> m \<le> 12 \<Longrightarrow> m = 1 \<or> m = 2 \<or> m = 3 \<or> m = 4 \<or> m = 5 \<or> m = 6 \<or> m = 7 \<or> m = 8 \<or> m = 9 \<or>
    m = 10 \<or> m = 11 \<or> m = 12"
  by arith

lemma clock_month_ok:
  assumes "clock_numbers v"
  shows "\<exists>v'. clock_month v = Some v' \<and> clock_numbers v'"
proof -
  have m: "v ! 1 = 1 \<or> v ! 1 = 2 \<or> v ! 1 = 3 \<or> v ! 1 = 4 \<or> v ! 1 = 5 \<or> v ! 1 = 6 \<or> v ! 1 = 7 \<or> v ! 1 = 8 \<or> v ! 1 = 9 \<or>
      v ! 1 = 10 \<or> v ! 1 = 11 \<or> v ! 1 = 12"
    using assms by (intro upto_12) (simp_all add: clock_numbers_def)
  have "\<exists>d. daysInMonth (v ! 1) (v ! 2 + 2000) = Some d \<and> 28 \<le> d \<and> d \<le> 31"
    using m by (elim disjE) (simp_all add: daysInMonth_def rd_def)
  then obtain d where d: "daysInMonth (v ! 1) (v ! 2 + 2000) = Some d" "28 \<le> d" "d \<le> 31" by blast
  have "clock_numbers (v[0 := d])"
    using assms d(2,3) by (auto simp: clock_numbers_def intro: list_all_update)
  with assms d(1) show ?thesis by (simp add: clock_month_def)
qed

lemma clock_var_less: "var < 6 \<Longrightarrow> clock_var var p < 6"
  by (auto simp: clock_var_def)

lemma clock_turn_fine:
  assumes "sane p" "clock_numbers v" "var < 6" "path_fits 0 h"
  shows "fine (\<lambda>(leave, var', v', p'). onward p p' \<and> length (scans p') < length (scans p) \<and> clock_numbers v' \<and> var' < 6)
    (clock_turn h chg var v p)"
  unfolding clock_turn_def
proof (rule scan_then_fine [OF assms(1)])
  fix s :: u32 and q assume q: "onward p q" "length (scans q) < length (scans p)"
  obtain line where line: "printHistory h = Some line" using printHistory_fits [OF assms(4)] by blast
  have main: "fine (\<lambda>(leave, var', v', p'). onward p p' \<and> length (scans p') < length (scans p) \<and> clock_numbers v' \<and> var' < 6)
      (andthen (defined (clock_dial chg k v r)) (\<lambda>(v, p). andthen (defined (clock_month v))
         (\<lambda>v. andthen (defined (printHistory h)) (\<lambda>line. Inr (False, k, v, p)))))"
    if r: "sane r" "scans r = scans q" "k < 6" for k r
  proof -
    obtain v1 p1 where v1: "clock_dial chg k v r = Some (v1, p1)" "clock_numbers v1" "onward r p1"
      using clock_dial_ok [OF assms(2) r(3,1)] by blast
    obtain v2 where v2: "clock_month v1 = Some v2" "clock_numbers v2" using clock_month_ok [OF v1(2)] by blast
    show ?thesis using v1 v2 line r q by (simp add: defined_def onward_def)
  qed
  show "fine (\<lambda>(leave, var', v', p'). onward p p' \<and> length (scans p') < length (scans p) \<and> clock_numbers v' \<and> var' < 6)
      (case (s, q) of (pressed, p) \<Rightarrow>
        let p = if pressed \<noteq> 0 then beep_key p else p; var = if pressed \<noteq> 0 then clock_var var p else var
        in if pressed \<noteq> 0 \<and> press kMode p then Inr (True, var, v, p)
           else andthen (defined (clock_dial chg var v p)) (\<lambda>(v, p). andthen (defined (clock_month v))
             (\<lambda>v. andthen (defined (printHistory h)) (\<lambda>line. Inr (False, var, v, p)))))"
    using q assms(2,3) main [of q var] main [of "beep_key q" "clock_var var (beep_key q)"] clock_var_less
    by (cases "s = 0") (simp_all add: Let_def onward_def)
qed

text \<open>A loop goes on with what a turn leaves, until a turn says that it is left.\<close>

lemma clock_loop_fine:
  assumes "sane p" "clock_numbers v" "var < 6" "path_fits 0 h"
  shows "fine (\<lambda>(v, p'). onward p p' \<and> clock_numbers v) (clock_loop h chg var v p)"
  using assms
proof (induction "length (scans p)" arbitrary: p v var rule: less_induct)
  case less
  show ?case
    unfolding clock_loop.simps [of h chg var v p]
  proof (rule fine_andthen [OF clock_turn_fine [OF less.prems]])
    fix x :: "bool \<times> nat \<times> int list \<times> panel"
    assume x: "case x of (leave, var', v', p') \<Rightarrow>
      onward p p' \<and> length (scans p') < length (scans p) \<and> clock_numbers v' \<and> var' < 6"
    obtain leave var' v' p' where e: "x = (leave, var', v', p')" by (metis surj_pair)
    show "fine (\<lambda>(v, p'). onward p p' \<and> clock_numbers v)
        (case x of (leave, var, v, p) \<Rightarrow> if leave then Inr (v, p) else clock_loop h chg var v p)"
    proof (cases leave)
      case False
      have x': "onward p p'" "length (scans p') < length (scans p)" "clock_numbers v'" "var' < 6" using x by (simp_all add: e)
      have "fine (\<lambda>(v, p''). onward p' p'' \<and> clock_numbers v) (clock_loop h chg var' v' p')"
        by (rule less.hyps [OF x'(2) onward_sane [OF x'(1)] x'(3,4) less.prems(4)])
      then have "fine (\<lambda>(v, p'). onward p p' \<and> clock_numbers v) (clock_loop h chg var' v' p')"
        by (rule fine_mono) (auto intro: onward_trans [OF x'(1)])
      then show ?thesis using False by (simp add: e)
    qed (use x e in simp)
  qed
qed

lemma ip_dial_ok: "sane p \<Longrightarrow> onward p (snd (ip_dial chg var v p))"
  using dial_sane [of p] read_dial_keeps(4) [of p]
  by (auto simp: ip_dial_def onward_def Let_def case_prod_unfold)

lemma ip_turn_fine:
  assumes "sane p" "path_fits 0 h"
  shows "fine (\<lambda>(leave, var', v', p'). onward p p' \<and> length (scans p') < length (scans p)) (ip_turn env h m var v p)"
  unfolding ip_turn_def
proof (rule scan_then_fine [OF assms(1)])
  fix s :: u32 and q assume q: "onward p q" "length (scans q) < length (scans p)"
  obtain line where line: "printHistory h = Some line" using printHistory_fits [OF assms(2)] by blast
  have main: "fine (\<lambda>(leave, var', v', p'). onward p p' \<and> length (scans p') < length (scans p))
      (let (v, p) = ip_dial (change m) k v r in andthen (defined (printHistory h)) (\<lambda>line. Inr (False, k, v, p)))"
    if r: "sane r" "scans r = scans q" for k r
    using ip_dial_ok [OF r(1), of "change m" k v] q r line by (auto simp: Let_def case_prod_unfold defined_def onward_def)
  show "fine (\<lambda>(leave, var', v', p'). onward p p' \<and> length (scans p') < length (scans p))
      (case (s, q) of (pressed, p) \<Rightarrow>
        let p = if pressed \<noteq> 0 then beep_key p else p; var = if pressed \<noteq> 0 then ip_var var p else var
        in if pressed \<noteq> 0 \<and> press kMode p then Inr (True, var, v, p)
           else let (v, p) = ip_dial (change m) var v p in andthen (defined (printHistory h)) (\<lambda>line. Inr (False, var, v, p)))"
    using q main [of q var] main [of "beep_key q" "ip_var var (beep_key q)"]
    by (cases "s = 0") (simp_all add: Let_def onward_def)
qed

lemma ip_loop_fine:
  assumes "sane p" "path_fits 0 h" "(n, m) \<in> set menu_items" "env_ok env"
  shows "fine (\<lambda>(v, p'). onward p p') (ip_loop env h m var v p)"
  using assms(1)
proof (induction "length (scans p)" arbitrary: p v var rule: less_induct)
  case less
  show ?case
    unfolding ip_loop.simps [of env h m var v p]
  proof (rule fine_andthen [OF ip_turn_fine [OF less.prems assms(2)]])
    fix x :: "bool \<times> nat \<times> u8 list \<times> panel"
    assume x: "case x of (leave, var', v', p') \<Rightarrow> onward p p' \<and> length (scans p') < length (scans p)"
    obtain leave var' v' p' where e: "x = (leave, var', v', p')" by (metis surj_pair)
    have x': "onward p p'" "length (scans p') < length (scans p)" using x by (simp_all add: e)
    show "fine (\<lambda>(v, p'). onward p p') (case x of (leave, var, v, p) \<Rightarrow>
        if leave then andthen (callExit env m p) (\<lambda>p. Inr (v, p)) else ip_loop env h m var v p)"
    proof (cases leave)
      case True
      have "fine (\<lambda>(v, p''). onward p p'') (andthen (callExit env m p') (\<lambda>p. Inr (v', p)))"
        by (rule fine_pair [OF fine_onward [OF calls_fine(3) [OF assms(3,4) onward_sane [OF x'(1)]] x'(1)]])
      with True show ?thesis by (simp add: e)
    next
      case False
      have "fine (\<lambda>(v, p''). onward p' p'') (ip_loop env h m var' v' p')"
        by (rule less.hyps [OF x'(2) onward_sane [OF x'(1)]])
      then have "fine (\<lambda>(v, p''). onward p p'') (ip_loop env h m var' v' p')"
        by (rule fine_mono) (auto intro: onward_trans [OF x'(1)])
      with False show ?thesis by (simp add: e)
    qed
  qed
qed

lemma mac_turn_fine:
  assumes "sane p" "path_fits 0 h"
  shows "fine (\<lambda>(leave, p'). onward p p' \<and> length (scans p') < length (scans p)) (mac_turn h p)"
  unfolding mac_turn_def
proof (rule scan_then_fine [OF assms(1)])
  fix s :: u32 and q assume q: "onward p q" "length (scans q) < length (scans p)"
  obtain line where line: "printHistory h = Some line" using printHistory_fits [OF assms(2)] by blast
  show "fine (\<lambda>(leave, p'). onward p p' \<and> length (scans p') < length (scans p))
      (case (s, q) of (pressed, p) \<Rightarrow>
        let p = if pressed \<noteq> 0 then beep_key p else p
        in if pressed \<noteq> 0 \<and> press kMode p then Inr (True, p)
           else andthen (defined (printHistory h)) (\<lambda>line. Inr (False, p)))"
    using q line by (cases "s = 0") (simp_all add: Let_def defined_def onward_def)
qed

lemma mac_loop_fine:
  assumes "sane p" "path_fits 0 h"
  shows "fine (onward p) (mac_loop h p)"
  using assms(1)
proof (induction "length (scans p)" arbitrary: p rule: less_induct)
  case less
  show ?case
    unfolding mac_loop.simps [of h p]
  proof (rule fine_andthen [OF mac_turn_fine [OF less.prems assms(2)]])
    fix x :: "bool \<times> panel"
    assume x: "case x of (leave, p') \<Rightarrow> onward p p' \<and> length (scans p') < length (scans p)"
    obtain leave p' where e: "x = (leave, p')" by fastforce
    have x': "onward p p'" "length (scans p') < length (scans p)" using x by (simp_all add: e)
    have "fine (onward p) (mac_loop h p')"
      by (rule fine_onward [OF less.hyps [OF x'(2) onward_sane [OF x'(1)]] x'(1)])
    with x'(1) show "fine (onward p) (case x of (leave, p) \<Rightarrow> if leave then Inr p else mac_loop h p)" by (simp add: e)
  qed
qed

lemma deref_item: "map_of menu_items n = Some m \<Longrightarrow> deref n = Inr m"
  by (simp add: deref_def defined_def)

lemma run_editor_fine:
  assumes "(n, m) \<in> set menu_items" "map_of menu_items n = Some m" "editor m = Some e" "path_fits 0 (h @ [n])" "env_ok env" "sane p"
  shows "fine (onward p) (run_editor e env (h @ [n]) p)"
proof -
  obtain i where i: "item_prm m = Some i" "vtype (parametres ! i) \<noteq> T_int32" "i < 65" "i \<noteq> Prm_crange_set"
    using item_tame(6) [OF assms(1)] assms(3) by blast
  note d = deref_item [OF assms(2)]
  have set: "onward q r \<Longrightarrow> onward q (assign i x r)" for q r x using i by (simp add: onward_def assign_sane_other)
  show ?thesis
  proof (cases e)
    case clockEditor
    define t where "t = localtime env (word_of_int (prm_val i p))"
    have "clock_fields t" using assms(5) by (simp add: env_ok_def t_def)
    then have v: "clock_numbers [tm_mday t, tm_mon t + 1, tm_year t + 1900, tm_hour t, tm_min t, tm_sec t]"
      by (auto simp: clock_fields_def clock_numbers_def)
    have "fine (\<lambda>(v, p'). onward p p' \<and> clock_numbers v) (clock_loop (h @ [n]) (change m) 0
        [tm_mday t, tm_mon t + 1, tm_year t + 1900, tm_hour t, tm_min t, tm_sec t] p)"
      by (rule clock_loop_fine [OF assms(6) v _ assms(4)]) simp
    then show ?thesis
      by (simp add: clockEditor run_clockEditor_def d i(1) defined_def t_def [symmetric] Let_def)
        (erule fine_andthen, auto intro: set)
  next
    case ipAddressEditor
    show ?thesis
      by (simp add: ipAddressEditor run_ipAddressEditor_def d i(1) defined_def Let_def)
        (rule fine_andthen [OF ip_loop_fine [OF assms(6,4,1,5)]], auto intro: set)
  next
    case ipMacEditor
    show ?thesis
      by (simp add: ipMacEditor run_ipMacEditor_def d i(1) defined_def)
        (rule fine_andthen [OF mac_loop_fine [OF assms(6,4)]],
          auto intro: fine_onward calls_fine(3) [OF assms(1,5)] onward_sane)
  qed
qed

text \<open>Every page has a first item.\<close>

lemma previous_less: "list_all (\<lambda>(n, m). pred_option (\<lambda>k. k < n) (previous m)) menu_items"
  by (simp add: menu_items_def)

lemma first_item_defined:
  assumes "(h, P) \<in> set trails" "n \<in> set P"
  shows "\<exists>t \<in> set P. first_item n = Some t"
  using assms(2)
proof (induction n rule: less_induct)
  case (less n)
  obtain m where m: "map_of menu_items n = Some m" "(n, m) \<in> set menu_items" "\<And>k. previous m = Some k \<Longrightarrow> k \<in> set P"
    by (rule place_item [OF assms(1) less.prems]) blast
  show ?case
  proof (cases "previous m")
    case None
    with m less.prems show ?thesis by (subst first_item.simps) simp
  next
    case (Some k)
    have "k < n" using previous_less m(2) Some by (fastforce simp: list_all_iff)
    with less.IH m(1,3) Some show ?thesis by (subst first_item.simps) simp
  qed
qed

text \<open>The parts of a pass go from place to place.\<close>

lemma menu_move_fine:
  assumes "place w" "sane p" "env_ok env" "link = previous \<or> link = next_item"
  shows "fine (\<lambda>(w', p'). place w' \<and> onward p p') (menu_move env key link w p)"
proof -
  obtain P where P: "(history w, P) \<in> set trails" "current w \<in> set P" using assms(1) by (auto simp: place_def)
  obtain m where m: "map_of menu_items (current w) = Some m" "(current w, m) \<in> set menu_items"
    "\<And>k. next_item m = Some k \<Longrightarrow> k \<in> set P" "\<And>k. previous m = Some k \<Longrightarrow> k \<in> set P"
    by (rule place_item [OF P]) blast
  show ?thesis
  proof (cases "link m")
    case None
    then show ?thesis by (simp add: menu_move_def deref_item [OF m(1)] assms onward_refl)
  next
    case (Some k)
    then have k: "k \<in> set P" using assms(4) m(3,4) by auto
    obtain m' where m': "map_of menu_items k = Some m'" "(k, m') \<in> set menu_items" by (rule place_item [OF P(1) k])
    have w: "place (w\<lparr>current := k\<rparr>)" using P(1) k by (auto simp: place_def)
    have "fine (\<lambda>(w', p'). place w' \<and> onward p p') (andthen (callUnselect env m p)
        (\<lambda>p. andthen (Inr m') (\<lambda>m. andthen (callSelect env m p) (\<lambda>p. Inr (w\<lparr>current := k\<rparr>, p)))))"
    proof (rule fine_andthen [OF calls_fine(1) [OF m(2) assms(3,2)]])
      fix q assume q: "onward p q"
      show "fine (\<lambda>(w', p'). place w' \<and> onward p p')
          (andthen (Inr m') (\<lambda>m. andthen (callSelect env m q) (\<lambda>p. Inr (w\<lparr>current := k\<rparr>, p))))"
        by simp (rule fine_andthen [OF fine_onward [OF calls_fine(2) [OF m'(2) assms(3) onward_sane [OF q]] q]], simp add: w)
    qed
    then show ?thesis by (simp add: menu_move_def deref_item [OF m(1)] deref_item [OF m'(1)] Some assms onward_refl)
  qed
qed

lemma menu_parent_fine:
  assumes "place w" "sane p" "env_ok env"
  shows "fine (\<lambda>(w', p'). pred_option place w' \<and> onward p p') (menu_parent env w p)"
proof (cases "history w = []")
  case True
  then show ?thesis by (simp add: menu_parent_def assms onward_refl)
next
  case False
  obtain P where "(history w, P) \<in> set trails" using assms(1) by (auto simp: place_def)
  then obtain P' where P': "(butlast (history w), P') \<in> set trails" "last (history w) \<in> set P'" using place_up(2) False by blast
  obtain m where m: "map_of menu_items (last (history w)) = Some m" "(last (history w), m) \<in> set menu_items"
    by (rule place_item [OF P'])
  obtain t where t: "first_item (last (history w)) = Some t" using first_item_defined [OF P'] by blast
  have w: "place \<lparr>current = last (history w), top = t, history = butlast (history w)\<rparr>" using P' by (auto simp: place_def)
  have "fine (\<lambda>(w', p'). pred_option place w' \<and> onward p p') (andthen (callExit env m p)
      (\<lambda>p. Inr (Some \<lparr>current = last (history w), top = t, history = butlast (history w)\<rparr>, p)))"
    by (rule fine_andthen [OF calls_fine(3) [OF m(2) assms(3,2)]]) (simp add: w)
  then show ?thesis using False assms by (simp add: menu_parent_def deref_item [OF m(1)] t defined_def onward_refl)
qed

lemma push_place:
  assumes "(h, P) \<in> set trails"
  shows "push n h = Some (h @ [n])"
  using place_up(1) [OF assms] by (simp add: push_def)

lemma menu_child_fine:
  assumes "place w" "sane p" "env_ok env"
  shows "fine (\<lambda>(w', p'). place w' \<and> onward p p') (menu_child env w p)"
proof -
  obtain P where P: "(history w, P) \<in> set trails" "current w \<in> set P" using assms(1) by (auto simp: place_def)
  obtain m where m: "map_of menu_items (current w) = Some m" "(current w, m) \<in> set menu_items"
    "\<And>c. child m = Some c \<Longrightarrow> \<exists>P'. (history w @ [current w], P') \<in> set trails \<and> c \<in> set P'"
    "editor m \<noteq> None \<Longrightarrow> path_fits 0 (history w @ [current w])"
    by (rule place_item [OF P]) blast
  note enter = calls_fine(6) [OF m(2) assms(3,2)]
  note simps = deref_item [OF m(1)] push_place [OF P(1)] defined_def assms onward_refl
  show ?thesis
  proof (cases "editor m")
    case (Some e)
    have "fine (\<lambda>(w', p'). place w' \<and> onward p p') (andthen (run_editor e env (history w @ [current w]) q)
        (\<lambda>p. andthen (callExit env m p) (\<lambda>p. Inr (w, p))))" if q: "onward p q" for q
    proof (rule fine_andthen [OF fine_onward [OF run_editor_fine [OF m(2,1) Some _ assms(3) onward_sane [OF q]] q]])
      show "path_fits 0 (history w @ [current w])" using m(4) Some by simp
      fix r assume r: "onward p r"
      show "fine (\<lambda>(w', p'). place w' \<and> onward p p') (andthen (callExit env m r) (\<lambda>p. Inr (w, p)))"
        by (rule fine_andthen [OF fine_onward [OF calls_fine(3) [OF m(2) assms(3) onward_sane [OF r]] r]]) (simp add: assms(1))
    qed
    then have "fine (\<lambda>(w', p'). place w' \<and> onward p p') (andthen (callEnter env m p) (\<lambda>(_, p).
        andthen (run_editor e env (history w @ [current w]) p) (\<lambda>p. andthen (callExit env m p) (\<lambda>p. Inr (w, p)))))"
      by (intro fine_andthen [OF enter]) auto
    then show ?thesis by (simp add: menu_child_def Some simps)
  next
    case None
    show ?thesis
    proof (cases "child m")
      case (Some c)
      then obtain P' where P': "(history w @ [current w], P') \<in> set trails" "c \<in> set P'" using m(3) by blast
      obtain m' where m': "map_of menu_items c = Some m'" "(c, m') \<in> set menu_items" by (rule place_item [OF P'])
      have w: "place \<lparr>current = c, top = c, history = history w @ [current w]\<rparr>" using P' by (auto simp: place_def)
      have "fine (\<lambda>(w', p'). place w' \<and> onward p p') (if entered then andthen (callSelect env m' q)
          (\<lambda>p. Inr (\<lparr>current = c, top = c, history = history w @ [current w]\<rparr>, p)) else Inr (w, q))"
        if q: "onward p q" for entered q
      proof -
        have "fine (\<lambda>(w', p'). place w' \<and> onward p p') (andthen (callSelect env m' q)
            (\<lambda>p. Inr (\<lparr>current = c, top = c, history = history w @ [current w]\<rparr>, p)))"
          by (rule fine_andthen [OF fine_onward [OF calls_fine(2) [OF m'(2) assms(3) onward_sane [OF q]] q]]) (simp add: w)
        with q assms(1) show ?thesis by simp
      qed
      then have "fine (\<lambda>(w', p'). place w' \<and> onward p p') (andthen (callEnter env m p) (\<lambda>(entered, p).
          if entered then andthen (callSelect env m' p)
            (\<lambda>p. Inr (\<lparr>current = c, top = c, history = history w @ [current w]\<rparr>, p)) else Inr (w, p)))"
        by (intro fine_andthen [OF enter]) auto
      then show ?thesis by (simp add: menu_child_def None Some simps deref_item [OF m'(1)] cong: if_cong)
    qed (simp add: menu_child_def None simps)
  qed
qed

lemma place_current:
  assumes "place w"
  obtains m where "deref (current w) = Inr m" "(current w, m) \<in> set menu_items"
proof -
  obtain P where P: "(history w, P) \<in> set trails" "current w \<in> set P" using assms by (auto simp: place_def)
  obtain m where "map_of menu_items (current w) = Some m" "(current w, m) \<in> set menu_items" by (rule place_item [OF P])
  with that show thesis by (simp add: deref_item)
qed

lemma moves_on:
  assumes "fine (\<lambda>(w', p'). W w' \<and> onward p p') r" "onward q p"
  shows "fine (\<lambda>(w', p'). W w' \<and> onward q p') r"
  using assms by (cases r) (auto intro: onward_trans)

lemma menu_keys_fine:
  assumes "place w" "sane p" "env_ok env"
  shows "fine (\<lambda>(chg, w', p'). pred_option place w' \<and> onward p p') (menu_keys env w p)"
proof -
  define q where "q = beep_key p"
  have q: "onward p q" using assms(2) by (simp add: q_def onward_def)
  obtain m where m: "deref (current w) = Inr m" "(current w, m) \<in> set menu_items" by (rule place_current [OF assms(1)])
  have last: "fine (\<lambda>(chg, w', p'). pred_option place w' \<and> onward p p') (case w2 of None \<Rightarrow> Inr (chg, None, r)
      | Some w3 \<Rightarrow> andthen (menu_child env w3 r) (\<lambda>(w3, p). Inr (chg, Some w3, p)))"
    if "pred_option place w2" "onward p r" for w2 r and chg :: bool
  proof (cases w2)
    case (Some w3)
    have "fine (\<lambda>(chg, w', p'). pred_option place w' \<and> onward p p') (andthen (menu_child env w3 r) (\<lambda>(w3, p). Inr (chg, Some w3, p)))"
      by (rule fine_andthen [OF moves_on [OF menu_child_fine [OF _ onward_sane [OF that(2)] assms(3)] that(2)]])
        (use that(1) Some in auto)
    with Some show ?thesis by simp
  qed (use that in simp)
  have parent: "fine (\<lambda>(chg, w', p'). pred_option place w' \<and> onward p p') (andthen (menu_parent env w2 r) (\<lambda>(w, p). case w of
      None \<Rightarrow> Inr (chg, None, p) | Some w \<Rightarrow> andthen (menu_child env w p) (\<lambda>(w, p). Inr (chg, Some w, p))))"
    if "place w2" "onward p r" for w2 r and chg :: bool
    by (rule fine_andthen [OF moves_on [OF menu_parent_fine [OF that(1) onward_sane [OF that(2)] assms(3)] that(2)]])
      (use last in auto)
  have "next": "fine (\<lambda>(chg, w', p'). pred_option place w' \<and> onward p p') (andthen (menu_move env kNext next_item w2 r) (\<lambda>(w, p).
      andthen (menu_parent env w p) (\<lambda>(w, p). case w of
        None \<Rightarrow> Inr (chg, None, p) | Some w \<Rightarrow> andthen (menu_child env w p) (\<lambda>(w, p). Inr (chg, Some w, p)))))"
    if "place w2" "onward p r" for w2 r and chg :: bool
    by (rule fine_andthen [OF moves_on [OF menu_move_fine [OF that(1) onward_sane [OF that(2)] assms(3)] that(2)]])
      (use parent in auto)
  have func: "fine (\<lambda>(chg, w', p'). pred_option place w' \<and> onward p p') (andthen (menu_move env kFunc previous w r) (\<lambda>(w, p).
      andthen (menu_move env kNext next_item w p) (\<lambda>(w, p).
      andthen (menu_parent env w p) (\<lambda>(w, p). case w of
        None \<Rightarrow> Inr (chg, None, p) | Some w \<Rightarrow> andthen (menu_child env w p) (\<lambda>(w, p). Inr (chg, Some w, p))))))"
    if "onward p r" for r and chg :: bool
    by (rule fine_andthen [OF moves_on [OF menu_move_fine [OF assms(1) onward_sane [OF that] assms(3)] that]])
      (use "next" in auto)
  have "fine (\<lambda>(b, p'). onward p p') (menu_edit m q)"
    using menu_edit_fine [OF m(2) onward_sane [OF q]] by (rule fine_mono) (auto intro: onward_trans [OF q])
  then have "fine (\<lambda>(chg, w', p'). pred_option place w' \<and> onward p p') (andthen (menu_edit m q) (\<lambda>(chg, p).
      andthen (menu_move env kFunc previous w p) (\<lambda>(w, p).
      andthen (menu_move env kNext next_item w p) (\<lambda>(w, p).
      andthen (menu_parent env w p) (\<lambda>(w, p). case w of
        None \<Rightarrow> Inr (chg, None, p) | Some w \<Rightarrow> andthen (menu_child env w p) (\<lambda>(w, p). Inr (chg, Some w, p)))))))"
    by (rule fine_andthen) (use func in auto)
  then show ?thesis by (simp add: menu_keys_def q_def [symmetric] m(1) Let_def)
qed

lemma menu_pass_fine:
  assumes "place w" "sane p" "env_ok env"
  shows "fine (\<lambda>(w', p'). pred_option place w' \<and> onward p p' \<and> length (scans p') < length (scans p)) (menu_pass env w p)"
  unfolding menu_pass_def
proof (rule scan_then_fine [OF assms(2)])
  fix s :: u32 and q assume q: "onward p q" "length (scans q) < length (scans p)"
  define P where "P = (\<lambda>(w', p'). pred_option place w' \<and> onward p p' \<and> length (scans p') < length (scans p))"
  have on: "onward p r \<and> length (scans r) < length (scans p)" if "onward q r" for r
    using that q by (auto simp: onward_def)
  have rest: "fine P (case w2 of None \<Rightarrow> Inr (None, r)
      | Some w \<Rightarrow> andthen (deref (current w)) (\<lambda>m. andthen (menu_dial m chg r) (\<lambda>(chg, p).
          andthen (if chg then callChanges env m p else Inr p) (\<lambda>p. andthen (callPeriodic env m p) (\<lambda>p.
          andthen (defined (printHistory (history w))) (\<lambda>line. Inr (Some w, p)))))))"
    if r: "pred_option place w2" "onward q r" for w2 r chg
  proof (cases w2)
    case None
    with on [OF r(2)] show ?thesis by (simp add: P_def)
  next
    case (Some v)
    with r(1) have v: "place v" by simp
    obtain m where m: "deref (current v) = Inr m" "(current v, m) \<in> set menu_items" by (rule place_current [OF v])
    obtain line where line: "printHistory (history v) = Some line"
      using v place_up(3) printHistory_fits by (fastforce simp: place_def)
    have "fine P (andthen (menu_dial m chg r) (\<lambda>(chg, p).
          andthen (if chg then callChanges env m p else Inr p) (\<lambda>p. andthen (callPeriodic env m p) (\<lambda>p. Inr (Some v, p)))))"
    proof (rule fine_andthen [OF menu_dial_fine [OF m(2) onward_sane [OF r(2)]]])
      fix x :: "bool \<times> panel" assume x: "case x of (b, p') \<Rightarrow> onward r p'"
      obtain b r1 where e: "x = (b, r1)" by fastforce
      have r1: "onward q r1" using x e onward_trans [OF r(2)] by simp
      have "fine (onward q) (if b then callChanges env m r1 else Inr r1)"
        using fine_onward [OF calls_fine(4) [OF m(2) assms(3) onward_sane [OF r1]] r1] r1 by simp
      then have "fine P (andthen (if b then callChanges env m r1 else Inr r1) (\<lambda>p. andthen (callPeriodic env m p) (\<lambda>p. Inr (Some v, p))))"
      proof (rule fine_andthen)
        fix r2 assume r2: "onward q r2"
        show "fine P (andthen (callPeriodic env m r2) (\<lambda>p. Inr (Some v, p)))"
          by (rule fine_andthen [OF fine_onward [OF calls_fine(5) [OF m(2) assms(3) onward_sane [OF r2]] r2]])
            (simp add: P_def v on)
      qed
      then show "fine P (case x of (chg, p) \<Rightarrow> andthen (if chg then callChanges env m p else Inr p)
          (\<lambda>p. andthen (callPeriodic env m p) (\<lambda>p. Inr (Some v, p))))" by (simp add: e)
    qed
    then show ?thesis by (simp add: Some m(1) line defined_def)
  qed
  have keys: "fine (\<lambda>(chg, w', p'). pred_option place w' \<and> onward q p') (if s \<noteq> 0 then menu_keys env w q else Inr (False, Some w, q))"
    using menu_keys_fine [OF assms(1) onward_sane [OF q(1)] assms(3)] assms(1) onward_refl [OF onward_sane [OF q(1)]] by simp
  have "fine P (andthen (if s \<noteq> 0 then menu_keys env w q else Inr (False, Some w, q)) (\<lambda>(chg, w, p). case w of
         None \<Rightarrow> Inr (None, p)
       | Some w \<Rightarrow> andthen (deref (current w)) (\<lambda>m. andthen (menu_dial m chg p) (\<lambda>(chg, p).
          andthen (if chg then callChanges env m p else Inr p) (\<lambda>p. andthen (callPeriodic env m p) (\<lambda>p.
          andthen (defined (printHistory (history w))) (\<lambda>line. Inr (Some w, p))))))))"
    by (rule fine_andthen [OF keys]) (use rest in auto)
  then show "fine (\<lambda>(w', p'). pred_option place w' \<and> onward p p' \<and> length (scans p') < length (scans p))
      (case (s, q) of (pressed, p) \<Rightarrow>
        andthen (if pressed \<noteq> 0 then menu_keys env w p else Inr (False, Some w, p)) (\<lambda>(chg, w, p). case w of
         None \<Rightarrow> Inr (None, p)
       | Some w \<Rightarrow> andthen (deref (current w)) (\<lambda>m. andthen (menu_dial m chg p) (\<lambda>(chg, p).
          andthen (if chg then callChanges env m p else Inr p) (\<lambda>p. andthen (callPeriodic env m p) (\<lambda>p.
          andthen (defined (printHistory (history w))) (\<lambda>line. Inr (Some w, p))))))))"
    by (simp add: P_def)
qed

lemma menu_loop_fine:
  assumes "place w" "sane p" "env_ok env"
  shows "fine (onward p) (menu_loop n env w p)"
  using assms(1,2)
proof (induction n arbitrary: w p)
  case (Suc n)
  show ?case
    unfolding menu_loop.simps
  proof (rule fine_andthen [OF menu_pass_fine [OF Suc.prems assms(3)]])
    fix x :: "menu option \<times> panel"
    assume x: "case x of (w', p') \<Rightarrow> pred_option place w' \<and> onward p p' \<and> length (scans p') < length (scans p)"
    obtain w' p' where e: "x = (w', p')" by fastforce
    have o: "onward p p'" using x e by simp
    show "fine (onward p) (case x of (w, p) \<Rightarrow> (case w of None \<Rightarrow> Inr p | Some w \<Rightarrow> menu_loop n env w p))"
      using x fine_onward [OF Suc.IH [OF _ onward_sane [OF o]] o] by (cases w') (simp_all add: e)
  qed
qed simp

text \<open>Every pass takes a scan, so that \<open>run_menu\<close> has passes enough: more of them give the same result.\<close>

lemma menu_loop_enough:
  assumes "place w" "sane p" "env_ok env" "length (scans p) < n" "n \<le> k"
  shows "menu_loop k env w p = menu_loop n env w p"
  using assms(1,2,4,5)
proof (induction n arbitrary: w p k)
  case (Suc n)
  then obtain k' where k: "k = Suc k'" "n \<le> k'" by (metis Suc_le_D Suc_le_mono)
  note f = menu_pass_fine [OF Suc.prems(1,2) assms(3)]
  show ?case
  proof (cases "menu_pass env w p")
    case (Inr x)
    obtain w' p' where e: "x = (w', p')" by fastforce
    have "pred_option place w'" "sane p'" "length (scans p') < length (scans p)" using f Inr e by (simp_all add: onward_def)
    then show ?thesis using Suc.IH [of _ p' k'] Suc.prems(3) k Inr e by (cases w') simp_all
  qed (simp add: k)
qed simp

lemma initial_place: "place \<lparr>current = 1, top = 1, history = []\<rparr>"
  by (simp add: place_def trails_def)

lemma wf_key_ksSet [simp]: "wf_key (ksSet a b c k) = wf_key k"
  by (simp add: wf_key_def ksSet_def)

lemma sane_prepared: "sane p \<Longrightarrow> sane (p\<lparr>keys := ksSet a b c (keys p), dial := d\<rparr>)"
  by (simp add: sane_def)

text \<open>C20: The settings menu never goes wrong.  Whatever keys are pressed and however the encoder is turned, with a
  regulator that is connected or not and whatever it answers, as long as it reports no negative resistance
  and no voltage or current near the end of 32 bits: no parameter arithmetic overflows, no pointer of the
  table of items is followed astray, the history stays in its array, the path in its buffer, and the tables
  of the calibration points and of the days of a month are read inside.  Either the script of key scans ends
  first, or the menu is left with parameters of their types.\<close>

theorem menu_never_goes_wrong:
  assumes "env_ok env" "sane p"
  shows "settingTSK env p \<noteq> Inl Undefined \<and> (\<forall>win p'. settingTSK env p = Inr (win, p') \<longrightarrow> win = baseWindow \<and> sane p')"
proof -
  define q where "q = p\<lparr>keys := ksSet 15 5 (ucast (kKey_mask kUp OR kKey_mask kDown)) (keys p), dial := enco_settic 3 (dial p)\<rparr>"
  have "fine (onward q) (run_menu env 1 p)"
    unfolding run_menu_def q_def [symmetric] Let_def
    by (rule menu_loop_fine [OF initial_place _ assms(1)]) (simp add: q_def sane_prepared [OF assms(2)])
  then show ?thesis unfolding settingTSK_def by (cases "run_menu env 1 p") (auto simp: onward_sane)
qed

end
