(* ===== verification/MenuUse.thy ===== *)
theory MenuUse
  imports MenuSpec
begin

unbundle bit_operations_syntax

text \<open>
  Three behaviours of the settings menu: leaving a calibration asks for the output to be switched off,
  a menu without the regulator swallows the keys, and the clock editor only sets dates of the calendar;
  and the witnesses of the theorems on the menu.
\<close>

section \<open>Leaving a calibration\<close>

lemma press_only_mode:
  assumes "keyState (keys p) = kKey_mask kMode"
  shows "press k p \<longleftrightarrow> k = kMode"
  using assms by (cases k) (simp_all add: press_def keyState_get_def)

lemma calibration_items:
  "list_all (\<lambda>(n, m). n \<in> set [12, 130, 131, 132, 133, 140, 141, 142, 150, 151, 152, 153] \<longrightarrow>
     item_prm m = None \<and> pPeriod m = None \<and> pUnselect m = Some calibrExit \<and> arg m < 4) menu_items"
  by (simp add: menu_items_def)

lemma place_print: "place w \<Longrightarrow> \<exists>line. printHistory (history w) = Some line"
  using place_up(3) printHistory_fits by (fastforce simp: place_def)

text \<open>C21: Leaving a calibration.  When the key \<open>kMode\<close> is pressed on one of the pages of a calibration point, or of
  the wire resistance, the menu goes back to the item of the point, changes no parameter, and asks the
  regulator to switch its output off, if the last enable flag that the task has read was on; if that flag
  was still off, it asks for nothing.\<close>

theorem calibration_exit_switches_off:
  assumes "place w" "history w \<noteq> []" "last (history w) \<in> {12, 130, 131, 132, 133, 140, 141, 142, 150, 151, 152, 153}"
    and "scans p = pins # rest" "scan_keys p = Some (kKey_mask kMode, q)" "keyState (keys q) = kKey_mask kMode"
    and "\<And>r. fst (waits env (write_request 0x010B [0]) r)"
  shows "\<exists>t p'. menu_pass env w p = Inr (Some \<lparr>current = last (history w), top = t, history = butlast (history w)\<rparr>, p') \<and>
    settings p' = settings p \<and>
    effects p' = effects p @ [Beep (if prm_val Prm_bpKeyOnOff p \<noteq> 0 then 30 else 0) 4100] @
      (if enabled (board p) = 0 then [] else [Command (write_request 0x010B [0])])"
proof -
  define k where "k = last (history w)"
  obtain P where "(history w, P) \<in> set trails" using assms(1) by (auto simp: place_def)
  then obtain P' where P': "(butlast (history w), P') \<in> set trails" "k \<in> set P'" using place_up(2) assms(2) by (auto simp: k_def)
  obtain m where m: "map_of menu_items k = Some m" "(k, m) \<in> set menu_items" by (rule place_item [OF P'])
  obtain t where t: "first_item k = Some t" using first_item_defined [OF P'] by blast
  have i: "item_prm m = None" "pPeriod m = None" "pUnselect m = Some calibrExit"
    using calibration_items m(2) assms(3) by (fastforce simp: list_all_iff k_def)+
  obtain line where line: "printHistory (butlast (history w)) = Some line" using place_up(3) [OF P'(1)] printHistory_fits by blast
  obtain m0 where m0: "deref (current w) = Inr m0" by (rule place_current [OF assms(1)])
  have q: "settings q = settings p" "board q = board p" "effects q = effects p"
    using assms(4,5) by (auto simp: scan_keys_def split: bind_splits)
  define b where "b = beep_key q"
  have b: "settings b = settings p" "board b = board p" "keyState (keys b) = kKey_mask kMode"
      "effects b = effects p @ [Beep (if prm_val Prm_bpKeyOnOff p \<noteq> 0 then 30 else 0) 4100]"
    using q assms(6) by (simp_all add: b_def beep_key_def BeepTime_def emit_def prm_val_def)
  note press = press_only_mode [OF b(3)]
  define r where "r = do_call env (reg_enableSet False (board b)) b"
  have r: "settings r = settings p" "keys r = keys b"
      "effects r = effects b @ (if enabled (board p) = 0 then [] else [Command (write_request 0x010B [0])])"
    using b by (simp_all add: r_def do_call_def reg_enableSet_def emit_def case_prod_unfold)
  have exit: "callExit env m b = Inr r"
    using assms(7) b(2) by (cases "enabled (board p) = 0")
      (simp_all add: callExit_def i(3) calibrExit_def ask_def reg_enableSet_def r_def do_call_def connected_or_error_def
        report_def case_prod_unfold Let_def)
  have press': "press x r \<longleftrightarrow> x = kMode" for x using press_only_mode [of r] b(3) r(2) by simp
  have keys: "menu_keys env w q = Inr (False, Some \<lparr>current = k, top = t, history = butlast (history w)\<rparr>, r)"
    using assms(2) by (simp add: menu_keys_def b_def [symmetric] m0 menu_edit_def press menu_move_def menu_parent_def
      k_def [symmetric] deref_item [OF m(1)] t defined_def exit menu_child_def press' Let_def)
  obtain n d where d: "read_dial r = (n, d)" by fastforce
  have dial: "\<exists>p'. menu_dial m False r = Inr (False, p') \<and> settings p' = settings r \<and> effects p' = effects r"
    using read_dial_keeps [of r] by (simp add: menu_dial_def d i(1))
  then obtain p' where p': "menu_dial m False r = Inr (False, p')" "settings p' = settings r" "effects p' = effects r" by blast
  have "menu_pass env w p = Inr (Some \<lparr>current = k, top = t, history = butlast (history w)\<rparr>, p')"
    by (simp add: menu_pass_def next_scan_def assms(4,5) defined_def keys deref_item [OF m(1)] p'(1) callPeriodic_def i(2) line)
  with p' r b show ?thesis by (simp add: k_def)
qed

section \<open>Without the regulator\<close>


text \<open>When the connection is lost while a calibration is prepared, the callback fails, the menu does not enter
  the page, and nothing takes back the command that switched the output on.\<close>

lemma prepare_failure_leaves_output_on:
  assumes "\<And>q r. waits env q r = (True, rq_dst q, r\<lparr>connected := False\<rparr>)" "enabled (board p) = 0"
  shows "\<exists>p'. PrepareWireResistance env a p = Inr ((False, ''error connect''), p') \<and>
    effects p' = effects p @ [Command (write_request 0x010B [1])]"
  using assms(2)
  by (simp add: PrepareWireResistance_def Let_def do_call_def reg_enableSet_def assms(1) on_board_def do_board_def
    reg_modeSet_def reg_voltageSet_def reg_currentSet_def connected_or_error_def emit_def)

text \<open>A negative resistance makes the arithmetic of the key \<open>kUp\<close> on the item \<open>Res\<close> overflow.\<close>

lemma negative_resistance_overflows:
  assumes "vhandler (settings p ! Prm_resistance) = parametres ! Prm_resistance" "prm_val Prm_resistance p < 0" "press kUp p"
    "map_of menu_items 122 = Some m"
  shows "menu_edit m p = Inl Undefined"
proof -
  have m: "item_prm m = Some Prm_resistance" using assms(4) by (auto simp: menu_items_def)
  have h: "vtype (parametres ! Prm_resistance) = T_int32" "vmax (parametres ! Prm_resistance) = 2147483647"
    by (simp_all add: parametres_def prm_def)
  have "bigstep_Val 1 (settings p ! Prm_resistance) = None"
    using assms(1,2) by (auto simp: bigstep_Val_def stepsize_def h prm_val_def arith_def Let_def cmin_def cmax_def split: bind_splits)
  then show ?thesis by (simp add: menu_edit_def assms(3) on_item_def m on_prm_def defined_def)
qed

section \<open>The clock editor\<close>

text \<open>A date of the calendar, as \<open>struct tm\<close> and as the numbers of the editor.\<close>

definition real_date :: "tm \<Rightarrow> bool" where
  "real_date t \<longleftrightarrow> 0 \<le> tm_year t \<and> 0 \<le> tm_mon t \<and> tm_mon t < 12 \<and> 1 \<le> tm_mday t \<and>
     tm_mday t \<le> month_days (tm_year t + 1900) (tm_mon t) \<and> 0 \<le> tm_hour t \<and> tm_hour t < 24 \<and>
     0 \<le> tm_min t \<and> tm_min t < 60 \<and> 0 \<le> tm_sec t \<and> tm_sec t < 60"

definition clock_day_ok :: "int \<Rightarrow> int list \<Rightarrow> bool" where
  "clock_day_ok d v \<longleftrightarrow> length v = 6 \<and> 1 \<le> v ! 0 \<and> v ! 0 \<le> d \<and> 1 \<le> v ! 1 \<and> v ! 1 \<le> 12 \<and> 1900 \<le> v ! 2 \<and>
     0 \<le> v ! 3 \<and> v ! 3 < 24 \<and> 0 \<le> v ! 4 \<and> v ! 4 < 60 \<and> 0 \<le> v ! 5 \<and> v ! 5 < 60"

abbreviation clock_date :: "int list \<Rightarrow> bool" where
  "clock_date v \<equiv> clock_day_ok (month_days (v ! 2) (v ! 1 - 1)) v"

lemma month_days_le: "month_days y m \<le> 31"
  using is_leap_cases [of y] by (auto simp: month_days_def)

lemma leap_year_2000: "0 \<le> (y :: int) \<Longrightarrow> isLeapYear (y + 2000) \<longleftrightarrow> is_leap y = 1"
proof -
  assume y: "0 \<le> y"
  have "(y + 2000) mod 4 = y mod 4" "(y + 2000) mod 100 = y mod 100" "(y + 2000) mod 400 = y mod 400"
    using mod_mult_self1 [of y 500 4] mod_mult_self1 [of y 20 100] mod_mult_self1 [of y 5 400] by simp_all
  moreover have "y mod 400 = 0 \<Longrightarrow> y mod 4 = 0" using mod_mod_cancel [of 4 400 y] by simp
  ultimately show ?thesis using y by (auto simp: isLeapYear_def is_leap_def smod_nonneg)
qed

lemma daysInMonth_eq: "1 \<le> m \<Longrightarrow> m \<le> 12 \<Longrightarrow> 0 \<le> y \<Longrightarrow> daysInMonth m (y + 2000) = Some (month_days y (m - 1))"
  using upto_12 [of m] is_leap_cases [of y]
  by (elim disjE) (auto simp: daysInMonth_def month_days_def rd_def leap_year_2000)

lemma clock_dial_date:
  assumes "clock_dial chg var v p = Some (v', p')" "clock_day_ok 31 v" "var < 6"
  shows "clock_day_ok 31 v'"
proof (cases chg)
  case True
  obtain n q where d: "read_dial p = (n, q)" by fastforce
  define lo hi where "lo = fst (clock_limits ! var)" and "hi = snd (clock_limits ! var)"
  define x where "x = (let y = (if v ! var + n < lo then lo else v ! var + n) in if y > hi then hi else y)"
  have "arith T_int32 (v ! var + n) = Some y \<Longrightarrow> y = v ! var + n" for y by (simp add: arith_def split: if_splits)
  then have x: "v' = v[var := x]" "lo \<le> x \<or> hi < lo" "x \<le> hi"
    using assms(1) True by (auto simp: clock_dial_def d Let_def lo_def hi_def x_def split: bind_splits)
  show ?thesis using less_6 [OF assms(3)] assms(2) x
    by (elim disjE) (simp_all add: clock_day_ok_def lo_def hi_def clock_limits_def)
qed (use assms in \<open>simp add: clock_dial_def\<close>)

lemma clock_month_date: "clock_month v = Some v' \<Longrightarrow> clock_day_ok 31 v \<Longrightarrow> clock_date v'"
proof -
  assume v: "clock_month v = Some v'" "clock_day_ok 31 v"
  then have m: "daysInMonth (v ! 1) (v ! 2 + 2000) = Some (month_days (v ! 2) (v ! 1 - 1))"
    by (intro daysInMonth_eq) (simp_all add: clock_day_ok_def)
  have "1 \<le> month_days (v ! 2) (v ! 1 - 1)" using is_leap_cases [of "v ! 2"] by (auto simp: month_days_def)
  with v m show ?thesis by (auto simp: clock_month_def clock_day_ok_def split: if_splits)
qed

lemma clock_turn_date:
  assumes "clock_turn h chg var v p = Inr (leave, var', v', p')" "clock_date v" "var < 6"
  shows "clock_date v' \<and> var' < 6 \<and> settings p' = settings p"
proof -
  obtain s q where q: "next_scan p = Inr (s, q)" using assms(1) by (cases "next_scan p") (auto simp: clock_turn_def)
  define r where "r = (if s \<noteq> 0 then beep_key q else q)"
  define k where "k = (if s \<noteq> 0 then clock_var var r else var)"
  have r: "settings r = settings p"
    using q by (cases "scans p") (auto simp: r_def beep_key_def next_scan_def defined_def scan_keys_def split: option.splits bind_splits)
  have k: "k < 6" using assms(3) clock_var_less by (simp add: k_def)
  have d31: "clock_day_ok 31 v" using assms(2) month_days_le [of "v ! 2" "v ! 1 - 1"] by (auto simp: clock_day_ok_def)
  have turn: "clock_turn h chg var v p = (if s \<noteq> 0 \<and> press kMode r then Inr (True, k, v, r)
      else andthen (defined (clock_dial chg k v r)) (\<lambda>(v, p). andthen (defined (clock_month v))
        (\<lambda>v. andthen (defined (printHistory h)) (\<lambda>line. Inr (False, k, v, p)))))"
    by (simp only: clock_turn_def q andthen.simps prod.case Let_def r_def k_def)
  show ?thesis
  proof (cases "s \<noteq> 0 \<and> press kMode r")
    case True
    with turn assms(1,2) k r show ?thesis by simp
  next
    case False
    with turn assms(1) obtain v1 p1 v2 where e: "clock_dial chg k v r = Some (v1, p1)" "clock_month v1 = Some v2" "v' = v2" "var' = k" "p' = p1"
      by (auto simp: defined_def split: option.splits if_splits)
    have "read_dial r = (n, d) \<Longrightarrow> settings d = settings r" for n d using read_dial_keeps(1) [of r] by simp
    then have "settings p1 = settings r" using e(1) by (auto simp: clock_dial_def Let_def split: if_splits bind_splits prod.splits)
    with clock_month_date [OF e(2) clock_dial_date [OF e(1) d31 k]] e(3-5) k r show ?thesis by simp
  qed
qed

lemma clock_loop_date:
  "clock_loop h chg var v p = Inr (v', p') \<Longrightarrow> clock_date v \<Longrightarrow> var < 6 \<Longrightarrow>
    clock_date v' \<and> settings p' = settings p"
proof (induction h chg var v p rule: clock_loop.induct)
  case (1 h chg var v p)
  from "1.prems"(1) obtain leave k v1 p1 where t: "clock_turn h chg var v p = Inr (leave, k, v1, p1)"
    by (subst (asm) clock_loop.simps) (cases "clock_turn h chg var v p"; auto)
  from clock_turn_date [OF t "1.prems"(2,3)] have n: "clock_date v1" "k < 6" "settings p1 = settings p" by simp_all
  show ?case
  proof (cases leave)
    case True
    with "1.prems"(1) t n show ?thesis by (subst (asm) clock_loop.simps) simp
  next
    case False
    with "1.prems"(1) t have "clock_loop h chg k v1 p1 = Inr (v', p')" by (subst (asm) clock_loop.simps) simp
    from "1.IH" [OF t refl refl refl False this n(1,2)] n(3) show ?thesis by simp
  qed
qed

text \<open>C23: The clock editor.  Whatever keys are pressed and however the encoder is turned, the date that the editor
  hands to \<open>mktime\<close> is a date of the calendar, and the parameter receives the low 32 bits of its time.\<close>

theorem clock_editor_sets_real_date:
  assumes "\<And>t. real_date (localtime env t)" "sane p" "run_clockEditor env [2, 20] p = Inr p'"
  shows "\<exists>t. real_date t \<and> prm_val Prm_utcTime p' = mktime env t mod 2 ^ 32"
proof -
  obtain m where m: "map_of menu_items 20 = Some m" "item_prm m = Some Prm_utcTime" "change m"
    by (auto simp: menu_items_def)
  define t where "t = localtime env (word_of_int (prm_val Prm_utcTime p))"
  define v0 where "v0 = [tm_mday t, tm_mon t + 1, tm_year t + 1900, tm_hour t, tm_min t, tm_sec t]"
  have "real_date t" by (simp add: t_def assms(1))
  then have v0: "clock_date v0" by (simp add: real_date_def clock_day_ok_def v0_def)
  obtain v q where l: "clock_loop [2, 20] True 0 v0 p = Inr (v, q)"
    and p': "p' = assign Prm_utcTime (mktime env (t\<lparr>tm_mday := v ! 0, tm_mon := v ! 1 - 1, tm_year := v ! 2 - 1900,
        tm_hour := v ! 3, tm_min := v ! 4, tm_sec := v ! 5\<rparr>)) q"
    using assms(3) m
    by (cases "clock_loop [2, 20] True 0 v0 p")
      (auto simp: run_clockEditor_def deref_item defined_def t_def [symmetric] v0_def [symmetric] Let_def)
  let ?t = "t\<lparr>tm_mday := v ! 0, tm_mon := v ! 1 - 1, tm_year := v ! 2 - 1900, tm_hour := v ! 3, tm_min := v ! 4, tm_sec := v ! 5\<rparr>"
  have v: "clock_date v" "settings q = settings p" using clock_loop_date [OF l v0] by simp_all
  then have "real_date ?t" by (simp add: real_date_def clock_day_ok_def)
  moreover have "prm_val Prm_utcTime p' = mktime env ?t mod 2 ^ 32"
    using saneD(1) [OF assms(2), of Prm_utcTime] sane_length [OF assms(2)]
    by (simp add: p' v(2) prm_val_def assign_def set_prm_def conv_def cmin_def parametres_def prm_def)
  ultimately show ?thesis by blast
qed

section \<open>Witnesses\<close>

text \<open>The parameters as the program starts, no key pressed, the clock of the standard library in UTC.\<close>

lemma gmtime_real:
  assumes "0 \<le> t" "t < 2 ^ 32"
  shows "real_date (gmtime_r t)" "clock_fields (gmtime_r t)"
proof -
  obtain y m d where date: "date_of (t div 86400) = (y, m, d)" by (cases "date_of (t div 86400)")
  have days: "0 \<le> t div 86400" "t div 86400 < 49711" using assms by simp_all
  then have v: "valid_date (y, m, d)" "day_count (y, m, d) = t div 86400"
    using day_count_date_of [of "t div 86400"] unfolding date by simp_all
  have "\<not> 2200 \<le> y"
    using days_from_0_mono [of 2200 y] year_bounds(1) [OF v(1)] days(2) v(2)
    by (auto simp: days_from_1970_def Let_def days_from_0_pos)
  moreover have "1970 \<le> y" "1 \<le> d" "d \<le> month_days y m" using v(1) by simp_all
  ultimately show "real_date (gmtime_r t)" "clock_fields (gmtime_r t)"
    using gmtime_r_fields [OF assms(1)] unfolding real_date_def clock_fields_def gmtime_r_simps [OF date] by simp_all
qed

lemma silent_ok: "env_ok silent_surroundings" "\<And>t. real_date (localtime silent_surroundings t)"
  using gmtime_real uint_lt2p [where 'a = 32] by (auto simp: env_ok_def silent_surroundings_def)

lemma sane_start:
  assumes "map vhandler (settings p) = parametres" "list_all val_ok (settings p)" "wf_key (keys p)" "measured (regMeas (board p))"
  shows "sane p"
proof -
  have l: "length (settings p) = 79" using assms(1) by (metis length_map length_parametres)
  have "list_all handler_fits (map vhandler (settings p))" unfolding assms(1) by (rule parametres_fit)
  then have "list_all storable (settings p)" using assms(2) storable_of_ok by (auto simp: list_all_iff)
  with assms l show ?thesis by (auto simp: sane_def list_all_length dest: screen_prm_less)
qed

text \<open>A panel on which the key \<open>kMode\<close> has been down in so many scans.\<close>

definition sample_key :: "u8 \<Rightarrow> key_type" where
  "sample_key c = initial_key\<lparr>dInFilterCnt := [c, 0, 0, 0, 0, 0, 0]\<rparr>"

definition menu_panel :: "u8 \<Rightarrow> (pin \<Rightarrow> bool) list \<Rightarrow> panel" where
  "menu_panel c ss = sample_panel\<lparr>keys := sample_key c, scans := ss\<rparr>"

abbreviation (input) mode_down :: "pin \<Rightarrow> bool" where "mode_down \<equiv> (\<lambda>p. p \<noteq> GP_bMode)"

lemma sample_scans:
  "keyProc (\<lambda>_. True) (sample_key 1) = Some (0, sample_key 0)"
  "keyProc mode_down (sample_key 0) = Some (0, sample_key 1)"
  "keyProc mode_down (sample_key 1) = Some (0, sample_key 2)"
  "keyProc mode_down (sample_key 2) = Some (1, (sample_key 2)\<lparr>dInState := 1, dInPrevState := 1, keyState := 1\<rparr>)"
  by (simp_all add: keyProc_def sample_key_def initial_key_def dInUpdate_def rd_def wr_def key_loop_def key_front_def
    key_reiterate_def eval_nat_numeral Let_def)

lemma menu_panel_sane: "sane (menu_panel c ss)"
  using valuearray_ok sample_panel_ok(1)
  by (intro sane_start) (simp_all add: menu_panel_def sample_panel_def settings_ok_def wf_key_def sample_key_def initial_key_def
    initial_reg_def zero_state_def regs_state_def measured_def join32_def)

theorem menu_never_goes_wrong_witness: "settingTSK silent_surroundings (menu_panel 2 [mode_down, \<lambda>_. True]) \<noteq> Inl Undefined"
  using menu_never_goes_wrong [OF silent_ok(1) menu_panel_sane, of 2 "[mode_down, \<lambda>_. True]"] by simp

lemma calibrating_place: "place \<lparr>current = 1330, top = 1330, history = [1, 13, 130]\<rparr>" "place \<lparr>current = 11, top = 11, history = [1]\<rparr>"
  by (simp_all add: place_def trails_def)

definition answering_surroundings :: surroundings where
  "answering_surroundings = silent_surroundings\<lparr>waits := \<lambda>q r. (True, rq_dst q, r)\<rparr>"

theorem calibration_exit_switches_off_witness:
  "\<exists>t p'. menu_pass answering_surroundings \<lparr>current = 1330, top = 1330, history = [1, 13, 130]\<rparr>
      ((menu_panel 2 [mode_down])\<lparr>board := initial_reg\<lparr>enabled := 1\<rparr>\<rparr>)
    = Inr (Some \<lparr>current = 130, top = t, history = [1, 13]\<rparr>, p') \<and> Command (write_request 0x010B [0]) \<in> set (effects p')"
  using calibration_exit_switches_off [OF calibrating_place(1), of "(menu_panel 2 [mode_down])\<lparr>board := initial_reg\<lparr>enabled := 1\<rparr>\<rparr>"
      mode_down "[]" _ answering_surroundings]
  by (fastforce simp: menu_panel_def scan_keys_def sample_scans answering_surroundings_def)

definition lost_panel :: panel where
  "lost_panel = (menu_panel 1 [\<lambda>_. True, mode_down, mode_down, mode_down])\<lparr>board := initial_reg\<lparr>connected := False\<rparr>\<rparr>"

lemma lost_panel_pass:
  "\<exists>p'. menu_pass silent_surroundings \<lparr>current = 11, top = 11, history = [1]\<rparr> lost_panel = Inr (Some \<lparr>current = 11, top = 11, history = [1]\<rparr>, p')"
proof -
  let ?w = "\<lparr>current = 11, top = 11, history = [1]\<rparr>"
  obtain line where line: "printHistory [1] = Some line" using place_print [OF calibrating_place(2)] by auto
  have m: "\<exists>m. deref 11 = Inr m \<and> pPeriod m = Some updateReg" by (simp add: deref_def defined_def menu_items_def)
  then obtain m where m: "deref 11 = Inr m" "pPeriod m = Some updateReg" by blast
  show ?thesis
    by (simp add: menu_pass_def next_scan_def lost_panel_def menu_panel_def scan_keys_def sample_scans defined_def m callPeriodic_def
      menu_dial_def read_dial_def sample_panel_def enco_update_def updateReg_def reg_getState_def connected_or_error_def report_def
      printMessageWindow_def wait_key.simps emit_def line [unfolded One_nat_def] beep_key_def BeepTime_def)
qed


theorem clock_editor_sets_real_date_witness:
  "\<exists>p' t. run_clockEditor silent_surroundings [2, 20] (menu_panel 2 [mode_down]) = Inr p' \<and> real_date t \<and>
    prm_val Prm_utcTime p' = mktime silent_surroundings t mod 2 ^ 32"
proof -
  have "\<exists>m i. deref 20 = Inr m \<and> item_prm m = Some i" by (simp add: deref_def defined_def menu_items_def)
  then obtain p' where "run_clockEditor silent_surroundings [2, 20] (menu_panel 2 [mode_down]) = Inr p'"
    by (auto simp: run_clockEditor_def clock_loop.simps clock_turn_def next_scan_def menu_panel_def scan_keys_def sample_scans
      defined_def press_def keyState_get_def beep_key_def BeepTime_def emit_def Let_def)
  with clock_editor_sets_real_date [OF silent_ok(2) menu_panel_sane this] show ?thesis by blast
qed

text \<open>The editor offers years up to 3000; from 2106 on their times need more than the 32 bits of the parameter.\<close>

lemma clock_years_wrap:
  "snd (clock_limits ! 2) = 3000 \<and> timegm \<lparr>tm_sec = 0, tm_min = 0, tm_hour = 0, tm_mday = 1, tm_mon = 0, tm_year = 2150 - 1900, tm_wday = 0\<rparr>
    = Some 5680281600 \<and> (2 :: int) ^ 32 < 5680281600"
  by (simp add: clock_limits_def timegm_def days_from_1jan_def rd_def days_table_def is_leap_def smod_nonneg days_from_1970_def
    days_from_0_pos Let_def)

end
