(* ===== verification/Spec2Isabelle.thy ===== *)
theory Spec2Isabelle
  imports Prelude Crc ModbusBase ModbusClient ModbusClientSpec ModbusData ModbusServer ModbusServerSpec ModbusWire Regulator RegulatorSpec RegulatorBridge RegulatorSystem Calendar Keys SerialLog Http Sntp I2c Parameters Eeprom Display Platform Boot PanelServer Windows Menu MenuSpec MenuUse
begin

text \<open>
  A verification library for the firmware of the PS3604L panel.
\<close>

end
